(* ===== verification/Prelude.thy ===== *)
theory Prelude
  imports Main "HOL-Library.Sublist"
begin

text \<open>
  The vocabulary every component shares: Go errors as values, actions over a world that holds
  the database and a schedule of statement failures, SQL statements and transactions as actions,
  tables as row lists with SQLite's row ids, and the invariant-preservation calculus
  (collection \<open>pres_rules\<close>) that carries the component proofs.
\<close>

section \<open>Errors\<close>

text \<open>
  A Go \<open>error\<close>. \<open>ErrNoRows\<close> is \<open>sql.ErrNoRows\<close>, \<open>ErrCanceled\<close> and
  \<open>ErrDeadline\<close> are the two context errors, \<open>ErrUnique c\<close> is SQLite's UNIQUE constraint
  failure on column \<open>c\<close>, \<open>ErrDriver\<close> any other error of the driver, and
  \<open>ErrWrap p e\<close> is \<open>fmt.Errorf("p: %w", e)\<close>.
\<close>

datatype err =
    ErrNoRows
  | ErrCanceled
  | ErrDeadline
  | ErrUnique string
  | ErrDriver string
  | ErrText string
  | ErrWrap string err

fun err_text :: "err \<Rightarrow> string" where
  "err_text ErrNoRows = ''sql: no rows in result set''"
| "err_text ErrCanceled = ''context canceled''"
| "err_text ErrDeadline = ''context deadline exceeded''"
| "err_text (ErrUnique c) = ''constraint failed: UNIQUE constraint failed: '' @ c"
| "err_text (ErrDriver s) = s"
| "err_text (ErrText s) = s"
| "err_text (ErrWrap p e) = p @ '': '' @ err_text e"

text \<open>\<open>errors.Is\<close>: the target itself, or anywhere down the chain of wrapped errors.\<close>

fun error_is :: "err \<Rightarrow> err \<Rightarrow> bool" where
  "error_is (ErrWrap p e) t = (ErrWrap p e = t \<or> error_is e t)"
| "error_is e t = (e = t)"

section \<open>Actions over a world\<close>

text \<open>
  A world is the database and the fate of the SQL statements still to be issued: the next
  statement fails with \<open>e\<close> when the head of \<open>wfaults\<close> is \<open>Some e\<close> and reaches the
  database otherwise (an empty list means that no further statement fails). An action is a Go
  function of result type \<open>(T, error)\<close> that talks to the database.
\<close>

record 'd world =
  wdb :: 'd
  wfaults :: "err option list"

type_synonym ('d, 'a) act = "'d world \<Rightarrow> (err + 'a) \<times> 'd world"

definition ret :: "'a \<Rightarrow> ('d, 'a) act" where
  "ret x w = (Inr x, w)"

definition raise :: "err \<Rightarrow> ('d, 'a) act" where
  "raise e w = (Inl e, w)"

text \<open>\<open>x, err := m(); if err != nil { return err }; \<dots> f(x)\<close>\<close>

definition bindE :: "('d, 'a) act \<Rightarrow> ('a \<Rightarrow> ('d, 'b) act) \<Rightarrow> ('d, 'b) act" where
  "bindE m f w = (case m w of (Inl e, w') \<Rightarrow> (Inl e, w') | (Inr x, w') \<Rightarrow> f x w')"

text \<open>\<open>x, err := m()\<close> where the code goes on to inspect \<open>err\<close> itself.\<close>

definition attempt :: "('d, 'a) act \<Rightarrow> ('d, err + 'a) act" where
  "attempt m w = (case m w of (r, w') \<Rightarrow> (Inr r, w'))"

definition wrapping :: "string \<Rightarrow> ('d, 'a) act \<Rightarrow> ('d, 'a) act" where
  "wrapping p m w = (case m w of (Inl e, w') \<Rightarrow> (Inl (ErrWrap p e), w') | (Inr x, w') \<Rightarrow> (Inr x, w'))"

text \<open>\<open>for _, x := range xs { if err := f(x); err != nil { return err } }\<close>\<close>

fun each :: "('a \<Rightarrow> ('d, unit) act) \<Rightarrow> 'a list \<Rightarrow> ('d, unit) act" where
  "each f [] = ret ()"
| "each f (x # xs) = bindE (f x) (\<lambda>_. each f xs)"

text \<open>
  One SQL statement: \<open>st\<close> gives the error of the statement, or the new database and the
  statement's result.
\<close>

definition exec :: "('d \<Rightarrow> err + 'd \<times> 'a) \<Rightarrow> ('d, 'a) act" where
  "exec st w =
     (let w' = w\<lparr>wfaults := tl (wfaults w)\<rparr> in
      case wfaults w of
        Some e # _ \<Rightarrow> (Inl e, w')
      | _ \<Rightarrow> (case st (wdb w) of
               Inl e \<Rightarrow> (Inl e, w')
             | Inr (d, x) \<Rightarrow> (Inr x, w'\<lparr>wdb := d\<rparr>)))"

definition query :: "('d \<Rightarrow> 'a) \<Rightarrow> ('d, 'a) act" where
  "query f = exec (\<lambda>d. Inr (d, f d))"

definition query_row :: "('d \<Rightarrow> 'a option) \<Rightarrow> ('d, 'a) act" where
  "query_row f = exec (\<lambda>d. case f d of None \<Rightarrow> Inl ErrNoRows | Some x \<Rightarrow> Inr (d, x))"

definition modify :: "('d \<Rightarrow> 'd) \<Rightarrow> ('d, unit) act" where
  "modify f = exec (\<lambda>d. Inr (f d, ()))"

text \<open>
  \<open>tx, err := db.BeginTx(\<dots>); defer tx.Rollback(); \<dots>; tx.Commit()\<close>. The body returns
  \<open>(True, x)\<close> where the code commits and then returns \<open>x\<close>, and \<open>(False, x)\<close> where it
  returns \<open>x\<close> without committing; on an error, and on a failed commit, the deferred rollback
  restores the database. \<open>wb\<close> and \<open>wc\<close> wrap the errors of begin and commit.
\<close>

definition in_tx :: "(err \<Rightarrow> err) \<Rightarrow> (err \<Rightarrow> err) \<Rightarrow> ('d, bool \<times> 'a) act \<Rightarrow> ('d, 'a) act" where
  "in_tx wb wc body w =
     (case exec (\<lambda>d. Inr (d, ())) w of
        (Inl e, w1) \<Rightarrow> (Inl (wb e), w1)
      | (Inr _, w1) \<Rightarrow>
          (case body w1 of
             (Inl e, w2) \<Rightarrow> (Inl e, w2\<lparr>wdb := wdb w1\<rparr>)
           | (Inr (commit, x), w2) \<Rightarrow>
               if \<not> commit then (Inr x, w2\<lparr>wdb := wdb w1\<rparr>)
               else (case exec (\<lambda>d. Inr (d, ())) w2 of
                       (Inl e, w3) \<Rightarrow> (Inl (wc e), w3\<lparr>wdb := wdb w1\<rparr>)
                     | (Inr _, w3) \<Rightarrow> (Inr x, w3))))"

definition tx :: "('d, 'a) act \<Rightarrow> ('d, 'a) act" where
  "tx m = in_tx id id (bindE m (\<lambda>x. ret (True, x)))"

subsection \<open>Running without faults\<close>

named_theorems run_simps \<open>evaluation of actions, one equation per combinator\<close>

lemma ret_run [run_simps]: "ret x w = (Inr x, w)"
  by (simp add: ret_def)

lemma raise_run [run_simps]: "raise e w = (Inl e, w)"
  by (simp add: raise_def)

lemma bindE_run [run_simps]:
  "bindE m f w = (case m w of (Inl e, w') \<Rightarrow> (Inl e, w') | (Inr x, w') \<Rightarrow> f x w')"
  by (simp add: bindE_def)

lemma attempt_run [run_simps]: "attempt m w = (Inr (fst (m w)), snd (m w))"
  by (simp add: attempt_def split: prod.splits)

lemma wrapping_run [run_simps]:
  "wrapping p m w = (case m w of (Inl e, w') \<Rightarrow> (Inl (ErrWrap p e), w') | (Inr x, w') \<Rightarrow> (Inr x, w'))"
  by (simp add: wrapping_def)

lemma exec_run [run_simps]:
  "wfaults w = [] \<Longrightarrow> exec st w =
     (case st (wdb w) of Inl e \<Rightarrow> (Inl e, w) | Inr (d, x) \<Rightarrow> (Inr x, w\<lparr>wdb := d\<rparr>))"
  by (cases w) (auto simp: exec_def split: sum.splits)

lemma exec_failing [run_simps]:
  "wfaults w = Some e # fs \<Longrightarrow> exec st w = (Inl e, w\<lparr>wfaults := fs\<rparr>)"
  by (simp add: exec_def)

lemma exec_passing [run_simps]:
  "wfaults w = None # fs \<Longrightarrow> exec st w =
     (case st (wdb w) of Inl e \<Rightarrow> (Inl e, w\<lparr>wfaults := fs\<rparr>)
                       | Inr (d, x) \<Rightarrow> (Inr x, w\<lparr>wfaults := fs, wdb := d\<rparr>))"
  by (auto simp: exec_def split: sum.splits)

lemma query_run [run_simps]: "wfaults w = [] \<Longrightarrow> query f w = (Inr (f (wdb w)), w)"
  by (simp add: query_def run_simps)

lemma query_row_run [run_simps]:
  "wfaults w = [] \<Longrightarrow> query_row f w =
     (case f (wdb w) of None \<Rightarrow> (Inl ErrNoRows, w) | Some x \<Rightarrow> (Inr x, w))"
  by (simp add: query_row_def run_simps split: option.splits)

lemma modify_run [run_simps]: "wfaults w = [] \<Longrightarrow> modify f w = (Inr (), w\<lparr>wdb := f (wdb w)\<rparr>)"
  by (simp add: modify_def run_simps)

lemma in_tx_run [run_simps]:
  "wfaults w = [] \<Longrightarrow> in_tx wb wc body w =
     (case body w of
        (Inl e, w2) \<Rightarrow> (Inl e, w2\<lparr>wdb := wdb w\<rparr>)
      | (Inr (commit, x), w2) \<Rightarrow>
          if \<not> commit then (Inr x, w2\<lparr>wdb := wdb w\<rparr>)
          else (case exec (\<lambda>d. Inr (d, ())) w2 of
                  (Inl e, w3) \<Rightarrow> (Inl (wc e), w3\<lparr>wdb := wdb w\<rparr>)
                | (Inr _, w3) \<Rightarrow> (Inr x, w3)))"
  by (simp add: in_tx_def exec_run)

section \<open>What a statement and a transaction can change\<close>

lemma exec_error_keeps: "exec st w = (Inl e, w') \<Longrightarrow> wdb w' = wdb w"
  by (auto simp: exec_def Let_def split: list.splits option.splits sum.splits prod.splits)

lemma exec_ok: "exec st w = (Inr x, w') \<Longrightarrow> st (wdb w) = Inr (wdb w', x)"
  by (auto simp: exec_def Let_def split: list.splits option.splits sum.splits prod.splits)

lemma query_keeps: "wdb (snd (query f w)) = wdb w"
  by (auto simp: query_def exec_def Let_def split: list.splits option.splits)

lemma query_ok: "query f w = (Inr x, w') \<Longrightarrow> x = f (wdb w) \<and> wdb w' = wdb w"
  using exec_ok [of "\<lambda>d. Inr (d, f d)" w x w'] by (auto simp: query_def)

lemma query_row_keeps: "wdb (snd (query_row f w)) = wdb w"
  by (auto simp: query_row_def exec_def Let_def split: list.splits option.splits)

lemma query_row_ok: "query_row f w = (Inr x, w') \<Longrightarrow> f (wdb w) = Some x \<and> wdb w' = wdb w"
  using exec_ok [of "\<lambda>d. case f d of None \<Rightarrow> Inl ErrNoRows | Some x \<Rightarrow> Inr (d, x)" w x w']
  by (auto simp: query_row_def split: option.splits)

lemma modify_ok: "modify f w = (Inr x, w') \<Longrightarrow> wdb w' = f (wdb w)"
  using exec_ok [of "\<lambda>d. Inr (f d, ())" w x w'] by (auto simp: modify_def)

lemma modify_error_keeps: "modify f w = (Inl e, w') \<Longrightarrow> wdb w' = wdb w"
  unfolding modify_def by (rule exec_error_keeps)

lemma modify_outcomes: "wdb (snd (modify f w)) = wdb w \<or> wdb (snd (modify f w)) = f (wdb w)"
  by (auto simp: modify_def exec_def Let_def split: list.splits option.splits)

lemma modify_either: "modify f w = (r, w') \<Longrightarrow> I (wdb w) \<Longrightarrow> I (f (wdb w)) \<Longrightarrow> I (wdb w')"
  using modify_outcomes [of f w] by auto

lemma bindE_ok:
  assumes "bindE m f w = (Inr y, w')"
  obtains x w1 where "m w = (Inr x, w1)" "f x w1 = (Inr y, w')"
  using assms that by (cases "m w") (auto simp: bindE_def split: sum.splits)

lemma attempt_ok: "attempt m w = (r, w') \<longleftrightarrow> (\<exists>x. r = Inr x \<and> m w = (x, w'))"
  by (auto simp: attempt_def split: prod.splits)

lemma bind_attemptE:
  assumes "bindE (attempt m) f w = (r, w')"
  obtains x w1 where "m w = (x, w1)" "f x w1 = (r, w')"
  using assms that by (cases "m w") (auto simp: bindE_def attempt_def)

lemma wrapping_ok: "wrapping p m w = (Inr x, w') \<longleftrightarrow> m w = (Inr x, w')"
  by (cases "m w") (auto simp: wrapping_def split: sum.splits)

text \<open>A transaction that reports an error has left the database as it was.\<close>

lemma in_tx_error_keeps: "in_tx wb wc body w = (Inl e, w') \<Longrightarrow> wdb w' = wdb w"
  by (auto simp: in_tx_def split: prod.splits sum.splits if_splits dest: exec_error_keeps exec_ok)

lemma in_tx_ok:
  assumes "in_tx wb wc body w = (Inr x, w')"
  obtains w1 commit w2 where "wdb w1 = wdb w" and "body w1 = (Inr (commit, x), w2)"
    and "wdb w' = (if commit then wdb w2 else wdb w)"
proof -
  have "\<exists>w1 commit w2. wdb w1 = wdb w \<and> body w1 = (Inr (commit, x), w2) \<and>
          wdb w' = (if commit then wdb w2 else wdb w)"
    using assms
    by (simp add: in_tx_def split: prod.splits sum.splits if_splits)
      (force dest!: exec_ok)+
  with that show thesis by blast
qed

lemma tx_error_keeps: "tx m w = (Inl e, w') \<Longrightarrow> wdb w' = wdb w"
  unfolding tx_def by (rule in_tx_error_keeps)

section \<open>Preservation of a database property\<close>

text \<open>
  \<open>pres I m\<close>: whatever the world and whichever statements fail, the action \<open>m\<close> leaves a
  database that satisfies \<open>I\<close> in a state that satisfies \<open>I\<close>, on its error paths too.
\<close>

definition pres :: "('d \<Rightarrow> bool) \<Rightarrow> ('d, 'a) act \<Rightarrow> bool" where
  "pres I m \<longleftrightarrow> (\<forall>w. I (wdb w) \<longrightarrow> I (wdb (snd (m w))))"

named_theorems pres_rules \<open>structural rules of the preservation calculus\<close>

lemma presI: "(\<And>w. I (wdb w) \<Longrightarrow> I (wdb (snd (m w)))) \<Longrightarrow> pres I m"
  by (simp add: pres_def)

lemma presD: "pres I m \<Longrightarrow> I (wdb w) \<Longrightarrow> m w = (r, w') \<Longrightarrow> I (wdb w')"
  unfolding pres_def by (metis snd_conv)

lemma pres_ret [pres_rules]: "pres I (ret x)"
  by (simp add: pres_def ret_def)

lemma pres_raise [pres_rules]: "pres I (raise e)"
  by (simp add: pres_def raise_def)

lemma pres_bindE [pres_rules]: "pres I m \<Longrightarrow> (\<And>x. pres I (f x)) \<Longrightarrow> pres I (bindE m f)"
  unfolding pres_def bindE_def by (fastforce split: prod.splits sum.splits)

lemma pres_attempt [pres_rules]: "pres I m \<Longrightarrow> pres I (attempt m)"
  by (simp add: pres_def attempt_run)

lemma pres_wrapping [pres_rules]: "pres I m \<Longrightarrow> pres I (wrapping p m)"
  unfolding pres_def wrapping_def by (fastforce split: prod.splits sum.splits)

lemma pres_query [pres_rules]: "pres I (query f)"
  by (simp add: pres_def query_keeps)

lemma pres_query_row [pres_rules]: "pres I (query_row f)"
  by (simp add: pres_def query_row_keeps)

lemma pres_exec: "(\<And>d d' x. I d \<Longrightarrow> st d = Inr (d', x) \<Longrightarrow> I d') \<Longrightarrow> pres I (exec st)"
  by (auto simp: pres_def exec_def Let_def split: list.splits option.splits sum.splits)

lemma pres_modify: "(\<And>d. I d \<Longrightarrow> I (f d)) \<Longrightarrow> pres I (modify f)"
  unfolding modify_def by (rule pres_exec) auto

lemma pres_each [pres_rules]: "(\<And>x. x \<in> set xs \<Longrightarrow> pres I (f x)) \<Longrightarrow> pres I (each f xs)"
  by (induction xs) (auto intro: pres_rules)

lemma pres_in_tx [pres_rules]:
  assumes "pres I body"
  shows "pres I (in_tx wb wc body)"
proof (rule presI)
  fix w :: "'a world"
  assume I: "I (wdb w)"
  obtain r w' where run: "in_tx wb wc body w = (r, w')" by fastforce
  have "I (wdb w')"
  proof (cases r)
    case (Inl e)
    with run I show ?thesis by (metis in_tx_error_keeps)
  next
    case (Inr x)
    with run have "in_tx wb wc body w = (Inr x, w')" by simp
    then obtain w1 commit w2 where "wdb w1 = wdb w" "body w1 = (Inr (commit, x), w2)"
      "wdb w' = (if commit then wdb w2 else wdb w)" by (rule in_tx_ok)
    with I assms show ?thesis by (metis presD)
  qed
  with run show "I (wdb (snd (in_tx wb wc body w)))" by simp
qed

lemma pres_tx [pres_rules]: "pres I m \<Longrightarrow> pres I (tx m)"
  unfolding tx_def by (intro pres_rules)

lemma pres_if [pres_rules]: "(b \<Longrightarrow> pres I m) \<Longrightarrow> (\<not> b \<Longrightarrow> pres I n) \<Longrightarrow> pres I (if b then m else n)"
  by simp

lemma pres_case_sum [pres_rules]:
  "(\<And>e. r = Inl e \<Longrightarrow> pres I (f e)) \<Longrightarrow> (\<And>x. r = Inr x \<Longrightarrow> pres I (g x)) \<Longrightarrow>
   pres I (case r of Inl e \<Rightarrow> f e | Inr x \<Rightarrow> g x)"
  by (cases r) auto

lemma pres_case_option [pres_rules]:
  "(r = None \<Longrightarrow> pres I m) \<Longrightarrow> (\<And>x. r = Some x \<Longrightarrow> pres I (g x)) \<Longrightarrow>
   pres I (case r of None \<Rightarrow> m | Some x \<Rightarrow> g x)"
  by (cases r) auto

lemma pres_let [pres_rules]: "(\<And>x. x = a \<Longrightarrow> pres I (f x)) \<Longrightarrow> pres I (let x = a in f x)"
  by simp

lemma pres_case_prod [pres_rules]: "(\<And>x y. p = (x, y) \<Longrightarrow> pres I (f x y)) \<Longrightarrow> pres I (case p of (x, y) \<Rightarrow> f x y)"
  by (cases p) auto

section \<open>What a successful action has established\<close>

text \<open>
  \<open>ensures P m Q\<close>: whichever statements of the world fail, when \<open>m\<close> starts in a database
  satisfying \<open>P\<close> and returns \<open>x\<close> without an error, the database then satisfies \<open>Q x\<close>.
\<close>

definition ensures :: "('d \<Rightarrow> bool) \<Rightarrow> ('d, 'a) act \<Rightarrow> ('a \<Rightarrow> 'd \<Rightarrow> bool) \<Rightarrow> bool" where
  "ensures P m Q \<longleftrightarrow> (\<forall>w x w'. P (wdb w) \<longrightarrow> m w = (Inr x, w') \<longrightarrow> Q x (wdb w'))"

named_theorems ensures_rules \<open>structural rules of the success calculus\<close>

lemma ensuresD: "ensures P m Q \<Longrightarrow> P (wdb w) \<Longrightarrow> m w = (Inr x, w') \<Longrightarrow> Q x (wdb w')"
  by (simp add: ensures_def)

lemma ensures_weaken: "ensures P m Q \<Longrightarrow> (\<And>d. P' d \<Longrightarrow> P d) \<Longrightarrow> (\<And>x d. Q x d \<Longrightarrow> Q' x d) \<Longrightarrow> ensures P' m Q'"
  unfolding ensures_def by blast

lemma ensures_ret: "(\<And>d. P d \<Longrightarrow> Q x d) \<Longrightarrow> ensures P (ret x) Q"
  by (auto simp: ensures_def ret_def)

lemma ensures_raise: "ensures P (raise e) Q"
  by (auto simp: ensures_def raise_def)

lemma ensures_bindE:
  "ensures P m R \<Longrightarrow> (\<And>x. ensures (R x) (f x) Q) \<Longrightarrow> ensures P (bindE m f) Q"
  unfolding ensures_def by (metis bindE_ok)

lemma ensures_exec: "(\<And>d d' x. P d \<Longrightarrow> st d = Inr (d', x) \<Longrightarrow> Q x d') \<Longrightarrow> ensures P (exec st) Q"
  unfolding ensures_def by (blast dest: exec_ok)

lemma ensures_modify: "(\<And>d. P d \<Longrightarrow> Q () (f d)) \<Longrightarrow> ensures P (modify f) Q"
  unfolding modify_def by (rule ensures_exec) auto

lemma ensures_query: "(\<And>d. P d \<Longrightarrow> Q (f d) d) \<Longrightarrow> ensures P (query f) Q"
  unfolding query_def by (rule ensures_exec) auto

lemma ensures_query_row: "(\<And>d x. P d \<Longrightarrow> f d = Some x \<Longrightarrow> Q x d) \<Longrightarrow> ensures P (query_row f) Q"
  unfolding query_row_def by (rule ensures_exec) (auto split: option.splits)

lemma ensures_wrapping: "ensures P m Q \<Longrightarrow> ensures P (wrapping p m) Q"
  unfolding ensures_def wrapping_ok by simp

lemma ensures_pres: "pres P m \<Longrightarrow> ensures P m (\<lambda>_. P)"
  unfolding ensures_def by (blast dest: presD)

lemma ensures_each:
  assumes "\<And>x. x \<in> set xs \<Longrightarrow> ensures P (f x) (\<lambda>_. P)"
  shows "ensures P (each f xs) (\<lambda>_. P)"
  using assms
proof (induction xs)
  case Nil
  then show ?case by (simp add: ensures_ret)
next
  case (Cons x xs)
  then show ?case by (auto intro!: ensures_bindE [where R = "\<lambda>_. P"])
qed

lemma ensures_True: "ensures P m (\<lambda>_ _. True)"
  by (simp add: ensures_def)

lemma ensures_if: "(b \<Longrightarrow> ensures P m Q) \<Longrightarrow> (\<not> b \<Longrightarrow> ensures P n Q) \<Longrightarrow> ensures P (if b then m else n) Q"
  by simp

lemma ensures_attempt: "ensures P m Q \<Longrightarrow> ensures P (attempt m) (\<lambda>r d. \<forall>x. r = Inr x \<longrightarrow> Q x d)"
  unfolding ensures_def attempt_def by (fastforce split: prod.splits)

text \<open>A transaction that returns has either committed what its body established, or written nothing.\<close>

lemma ensures_in_tx:
  assumes "ensures P body (\<lambda>(commit, x) d. if commit then Q x d else (\<forall>d. P d \<longrightarrow> Q x d))"
  shows "ensures P (in_tx wb wc body) Q"
  unfolding ensures_def
proof (intro allI impI)
  fix w x w'
  assume P: "P (wdb w)" and "in_tx wb wc body w = (Inr x, w')"
  from this(2) obtain w1 commit w2 where b: "wdb w1 = wdb w" "body w1 = (Inr (commit, x), w2)"
    "wdb w' = (if commit then wdb w2 else wdb w)" by (rule in_tx_ok)
  from ensuresD [OF assms _ b(2)] P b show "Q x (wdb w')" by (auto split: if_splits)
qed

section \<open>Actions that handle every error\<close>

text \<open>\<open>calm\<close>: an action that never returns an error.\<close>

definition calm :: "('d, 'a) act \<Rightarrow> bool" where
  "calm m \<longleftrightarrow> (\<forall>w. \<exists>x w'. m w = (Inr x, w'))"

named_theorems calm_rules \<open>actions that handle every error\<close>

lemma calm_ret [calm_rules]: "calm (ret x)"
  by (simp add: calm_def ret_def)

lemma calm_attempt [calm_rules]: "calm (attempt m)"
  by (simp add: calm_def attempt_run)

lemma calm_bindE [calm_rules]: "calm m \<Longrightarrow> (\<And>x. calm (f x)) \<Longrightarrow> calm (bindE m f)"
proof -
  assume m: "calm m" and f: "\<And>x. calm (f x)"
  have "\<exists>y w'. bindE m f w = (Inr y, w')" for w
  proof -
    obtain x w1 where "m w = (Inr x, w1)" using m unfolding calm_def by blast
    moreover obtain y w2 where "f x w1 = (Inr y, w2)" using f [of x] unfolding calm_def by blast
    ultimately show ?thesis by (simp add: bindE_run)
  qed
  then show ?thesis by (simp add: calm_def)
qed

lemma calm_case_prod [calm_rules]: "(\<And>x y. calm (f x y)) \<Longrightarrow> calm (case p of (x, y) \<Rightarrow> f x y)"
  by (cases p) simp

lemma calm_case_sum [calm_rules]: "(\<And>e. calm (f e)) \<Longrightarrow> (\<And>x. calm (g x)) \<Longrightarrow> calm (case r of Inl e \<Rightarrow> f e | Inr x \<Rightarrow> g x)"
  by (cases r) auto

lemma calm_case_option [calm_rules]: "calm m \<Longrightarrow> (\<And>x. calm (g x)) \<Longrightarrow> calm (case r of None \<Rightarrow> m | Some x \<Rightarrow> g x)"
  by (cases r) auto

lemma calm_if [calm_rules]: "calm m \<Longrightarrow> calm n \<Longrightarrow> calm (if b then m else n)"
  by simp

lemma calm_let [calm_rules]: "(\<And>x. calm (f x)) \<Longrightarrow> calm (let x = a in f x)"
  by simp

lemma bindE_calm_error: "(\<And>x. calm (k x)) \<Longrightarrow> bindE m k w = (Inl e, w') \<Longrightarrow> m w = (Inl e, w')"
proof -
  assume k: "\<And>x. calm (k x)" and run: "bindE m k w = (Inl e, w')"
  obtain r w1 where m: "m w = (r, w1)" by fastforce
  show ?thesis
  proof (cases r)
    case (Inl e') then show ?thesis using m run by (simp add: bindE_def)
  next
    case (Inr x)
    obtain y w2 where "k x w1 = (Inr y, w2)" using k [of x] unfolding calm_def by blast
    then show ?thesis using m run Inr by (simp add: bindE_def)
  qed
qed

lemma calmD: "calm m \<Longrightarrow> (\<And>x w'. m w = (Inr x, w') \<Longrightarrow> P) \<Longrightarrow> P"
  unfolding calm_def by blast

lemma calm_ensures: "calm m \<Longrightarrow> ensures P m Q \<Longrightarrow> P (wdb w) \<Longrightarrow> \<exists>x w'. m w = (Inr x, w') \<and> Q x (wdb w')"
  unfolding calm_def ensures_def by blast

lemma ensures_attempt_exec:
  assumes "\<And>d d' x. P d \<Longrightarrow> st d = Inr (d', x) \<Longrightarrow> Q (Inr x) d'" "\<And>d e. P d \<Longrightarrow> Q (Inl e) d"
  shows "ensures P (attempt (exec st)) Q"
  unfolding ensures_def
proof (intro allI impI)
  fix w :: "'a world" and r w' assume P: "P (wdb w)" and run: "attempt (exec st) w = (Inr r, w')"
  then obtain x where x: "r = x" "exec st w = (x, w')" by (auto simp: attempt_ok)
  show "Q r (wdb w')"
  proof (cases x)
    case (Inl e) then show ?thesis using x P assms(2) exec_error_keeps [of st w e w'] by simp
  next
    case (Inr y) then show ?thesis using x P assms(1) exec_ok [of st w y w'] by blast
  qed
qed

lemma ensures_attempt_reads:
  assumes "pres P m" "ensures P m Q"
  shows "ensures P (attempt m) (\<lambda>r d. P d \<and> (\<forall>x. r = Inr x \<longrightarrow> Q x d))"
  unfolding ensures_def
proof (intro allI impI)
  fix w :: "'a world" and r w' assume P: "P (wdb w)" and run: "attempt m w = (Inr r, w')"
  then have m: "m w = (r, w')" by (auto simp: attempt_ok)
  then show "P (wdb w') \<and> (\<forall>x. r = Inr x \<longrightarrow> Q x (wdb w'))"
    using P presD [OF assms(1)] ensuresD [OF assms(2)] by blast
qed

lemma ensures_case_sum:
  "(\<And>e. ensures (P (Inl e)) (f e) Q) \<Longrightarrow> (\<And>x. ensures (P (Inr x)) (g x) Q) \<Longrightarrow>
   ensures (P r) (case r of Inl e \<Rightarrow> f e | Inr x \<Rightarrow> g x) Q"
  by (cases r) auto

lemma ensures_pres_attempt: "pres P m \<Longrightarrow> ensures P (attempt m) (\<lambda>_. P)"
  by (intro ensures_pres pres_attempt)

lemma ensures_unattempt: "ensures P (attempt m) Q \<Longrightarrow> ensures P m (\<lambda>x. Q (Inr x))"
  unfolding ensures_def attempt_ok by blast

lemma ensures_conj: "ensures P m Q \<Longrightarrow> ensures P m R \<Longrightarrow> ensures P m (\<lambda>x d. Q x d \<and> R x d)"
  unfolding ensures_def by blast

lemma in_map_filter: "y \<in> set (List.map_filter f xs) \<longleftrightarrow> (\<exists>x\<in>set xs. f x = Some y)"
  by (induction xs) (auto simp: List.map_filter_simps split: option.splits)

lemma ensures_modify_at: "ensures (\<lambda>d. d = a) (modify f) (\<lambda>_ d. d = f a)"
  by (rule ensures_modify) simp

lemma ensures_query_at: "ensures (\<lambda>d. d = a) (query f) (\<lambda>x d. d = a \<and> x = f a)"
  by (rule ensures_query) simp

end
