(* ===== verification/Tables.thy ===== *)
theory Tables
  imports Prelude
begin

text \<open>
  SQL tables as lists of rows in row-id order, and the statements the queries are built from:
  insert with SQLite's choice of row id, update, delete and select by a row predicate. The locale
  \<open>row_table\<close> is the interface of a table (how a row carries its id) with the laws every
  component uses: a new id is fresh, ids stay distinct and in order, and a lookup after an insert,
  update or delete returns what SQL promises.
\<close>

section \<open>Statements on row lists\<close>

text \<open>
  The id SQLite gives a row inserted without one (\<open>INTEGER PRIMARY KEY\<close> without
  AUTOINCREMENT): one more than the largest id in the table, 1 for an empty table. (The random
  probing once the largest id is \<open>2^63 - 1\<close> is not modelled.)
\<close>

definition next_rowid :: "int list \<Rightarrow> int" where
  "next_rowid ids = (if ids = [] then 1 else Max (set ids) + 1)"

definition update_where :: "('r \<Rightarrow> bool) \<Rightarrow> ('r \<Rightarrow> 'r) \<Rightarrow> 'r list \<Rightarrow> 'r list" where
  "update_where p f rs = map (\<lambda>r. if p r then f r else r) rs"

definition delete_where :: "('r \<Rightarrow> bool) \<Rightarrow> 'r list \<Rightarrow> 'r list" where
  "delete_where p rs = filter (\<lambda>r. \<not> p r) rs"

definition count_where :: "('r \<Rightarrow> bool) \<Rightarrow> 'r list \<Rightarrow> nat" where
  "count_where p rs = length (filter p rs)"

text \<open>\<open>ORDER BY key LIMIT 1\<close>: the first of the rows with the least key.\<close>

fun first_min :: "('r \<Rightarrow> int) \<Rightarrow> 'r list \<Rightarrow> 'r option" where
  "first_min key [] = None"
| "first_min key (r # rs) =
     (case first_min key rs of
        None \<Rightarrow> Some r
      | Some m \<Rightarrow> if key r \<le> key m then Some r else Some m)"

lemma first_min_None_iff [simp]: "first_min key rs = None \<longleftrightarrow> rs = []"
  by (cases rs) (auto split: option.splits if_splits)

lemma first_min_Some:
  "first_min key rs = Some m \<Longrightarrow> m \<in> set rs \<and> (\<forall>r \<in> set rs. key m \<le> key r)"
proof (induction rs arbitrary: m)
  case (Cons a rs)
  then show ?case
    by (cases "first_min key rs") (fastforce split: if_splits)+
qed simp

lemma next_rowid_fresh: "next_rowid ids \<notin> set ids"
proof
  assume a: "next_rowid ids \<in> set ids"
  then have "ids \<noteq> []" by (auto simp: next_rowid_def)
  with a have "Max (set ids) + 1 \<in> set ids" by (simp add: next_rowid_def)
  then have "Max (set ids) + 1 \<le> Max (set ids)" by (intro Max_ge) auto
  then show False by simp
qed

lemma next_rowid_greatest: "i \<in> set ids \<Longrightarrow> i < next_rowid ids"
proof -
  assume i: "i \<in> set ids"
  then have "ids \<noteq> []" by auto
  with i show ?thesis by (auto simp: next_rowid_def intro: order.strict_trans1 [OF Max_ge])
qed

lemma set_update_where: "set (update_where p f rs) = {r \<in> set rs. \<not> p r} \<union> f ` {r \<in> set rs. p r}"
  by (auto simp: update_where_def)

lemma update_where_Nil [simp]: "update_where p f [] = []"
  by (simp add: update_where_def)

lemma length_update_where [simp]: "length (update_where p f rs) = length rs"
  by (simp add: update_where_def)

lemma set_delete_where [simp]: "set (delete_where p rs) = {r \<in> set rs. \<not> p r}"
  by (simp add: delete_where_def)

lemma count_where_zero: "count_where p rs = 0 \<longleftrightarrow> (\<forall>r \<in> set rs. \<not> p r)"
  by (simp add: count_where_def filter_empty_conv)

lemma update_where_none: "(\<And>r. r \<in> set rs \<Longrightarrow> \<not> p r) \<Longrightarrow> update_where p f rs = rs"
  unfolding update_where_def by (rule map_idI) auto

section \<open>Rows with a primary key\<close>

text \<open>
  \<open>rid\<close> reads a row's primary key, \<open>with_id\<close> gives the row the key SQLite assigned.
\<close>

definition ids_ok :: "('r \<Rightarrow> int) \<Rightarrow> 'r list \<Rightarrow> bool" where
  "ids_ok rid rs \<longleftrightarrow> sorted_wrt (<) (map rid rs)"

definition insert_row ::
  "('r \<Rightarrow> int) \<Rightarrow> (int \<Rightarrow> 'r \<Rightarrow> 'r) \<Rightarrow> 'r \<Rightarrow> 'r list \<Rightarrow> 'r list \<times> 'r" where
  "insert_row rid with_id r rs = (let r' = with_id (next_rowid (map rid rs)) r in (rs @ [r'], r'))"

definition by_id :: "('r \<Rightarrow> int) \<Rightarrow> int \<Rightarrow> 'r list \<Rightarrow> 'r option" where
  "by_id rid i rs = find (\<lambda>r. rid r = i) rs"

lemma find_SomeD: "find p rs = Some r \<Longrightarrow> r \<in> set rs \<and> p r"
  by (auto simp: find_Some_iff)

lemma find_snoc: "find p (rs @ [x]) = (case find p rs of None \<Rightarrow> (if p x then Some x else None) | Some y \<Rightarrow> Some y)"
  by (induction rs) auto

section \<open>The interface of a table\<close>

locale row_table =
  fixes rid :: "'r \<Rightarrow> int"
    and with_id :: "int \<Rightarrow> 'r \<Rightarrow> 'r"
  assumes rid_with_id: "rid (with_id i r) = i"
begin

lemma ids_ok_distinct: "ids_ok rid rs \<Longrightarrow> distinct (map rid rs)"
  unfolding ids_ok_def by (simp add: strict_sorted_iff)

lemma ids_ok_Nil: "ids_ok rid []"
  by (simp add: ids_ok_def)

lemma ids_ok_unique: "ids_ok rid rs \<Longrightarrow> r \<in> set rs \<Longrightarrow> s \<in> set rs \<Longrightarrow> rid r = rid s \<Longrightarrow> r = s"
  using ids_ok_distinct by (auto simp: distinct_map inj_on_def)

lemma ids_ok_insert: "ids_ok rid rs \<Longrightarrow> ids_ok rid (fst (insert_row rid with_id r rs))"
  using next_rowid_greatest [of _ "map rid rs"]
  by (auto simp: ids_ok_def insert_row_def Let_def rid_with_id sorted_wrt_append)

lemma insert_row_fresh: "rid (snd (insert_row rid with_id r rs)) \<notin> rid ` set rs"
  using next_rowid_fresh [of "map rid rs"] by (simp add: insert_row_def Let_def rid_with_id)

lemma set_insert_row: "set (fst (insert_row rid with_id r rs)) = insert (snd (insert_row rid with_id r rs)) (set rs)"
  by (auto simp: insert_row_def Let_def)

lemma ids_ok_update: "(\<And>r. rid (f r) = rid r) \<Longrightarrow> ids_ok rid rs \<Longrightarrow> ids_ok rid (update_where p f rs)"
proof -
  assume f: "\<And>r. rid (f r) = rid r" and ok: "ids_ok rid rs"
  have "map rid (update_where p f rs) = map rid rs"
    using f by (induction rs) (auto simp: update_where_def)
  with ok show ?thesis by (simp add: ids_ok_def)
qed

lemma ids_ok_delete: "ids_ok rid rs \<Longrightarrow> ids_ok rid (delete_where p rs)"
  unfolding ids_ok_def delete_where_def by (simp add: sorted_wrt_map sorted_wrt_filter)

lemma by_id_Some: "by_id rid i rs = Some r \<Longrightarrow> r \<in> set rs \<and> rid r = i"
  by (auto simp: by_id_def find_Some_iff)

lemma by_id_None: "by_id rid i rs = None \<longleftrightarrow> i \<notin> rid ` set rs"
  by (auto simp: by_id_def find_None_iff)

lemma by_id_eq: "ids_ok rid rs \<Longrightarrow> r \<in> set rs \<Longrightarrow> by_id rid (rid r) rs = Some r"
  by (cases "by_id rid (rid r) rs") (auto simp: by_id_None dest: by_id_Some ids_ok_unique)

lemma by_id_iff: "ids_ok rid rs \<Longrightarrow> by_id rid i rs = Some r \<longleftrightarrow> r \<in> set rs \<and> rid r = i"
  using by_id_eq by_id_Some by blast

lemma by_id_insert:
  "by_id rid i (fst (insert_row rid with_id r rs)) =
     (if i = rid (snd (insert_row rid with_id r rs)) then Some (snd (insert_row rid with_id r rs)) else by_id rid i rs)"
proof (cases "by_id rid i rs")
  case None
  then show ?thesis
    by (auto simp: by_id_def insert_row_def Let_def rid_with_id find_snoc split: option.splits)
next
  case (Some s)
  then have "i \<noteq> rid (snd (insert_row rid with_id r rs))"
    using insert_row_fresh [of r rs] by_id_Some [OF Some] by (metis imageI)
  with Some show ?thesis
    by (auto simp: by_id_def insert_row_def Let_def find_snoc split: option.splits)
qed

lemma by_id_update:
  assumes "\<And>r. rid (f r) = rid r"
  shows "by_id rid i (update_where p f rs) = map_option (\<lambda>r. if p r then f r else r) (by_id rid i rs)"
  using assms by (induction rs) (auto simp: by_id_def update_where_def)

lemma by_id_delete:
  assumes "ids_ok rid rs"
  shows "by_id rid i (delete_where p rs) =
    (case by_id rid i rs of None \<Rightarrow> None | Some r \<Rightarrow> if p r then None else Some r)"
proof (cases "by_id rid i rs")
  case None
  then have "i \<notin> rid ` set rs" by (simp add: by_id_None)
  then have "by_id rid i (delete_where p rs) = None" by (auto simp: by_id_None)
  with None show ?thesis by simp
next
  case (Some r)
  then have r: "r \<in> set rs" "rid r = i" by (auto dest: by_id_Some)
  show ?thesis
  proof (cases "p r")
    case True
    with r assms have "i \<notin> rid ` set (delete_where p rs)" by (auto dest: ids_ok_unique)
    with Some True show ?thesis by (simp add: by_id_None)
  next
    case False
    with r have "r \<in> set (delete_where p rs)" by simp
    with r assms have "by_id rid i (delete_where p rs) = Some r"
      using by_id_eq [OF ids_ok_delete [OF assms]] by blast
    with Some False show ?thesis by simp
  qed
qed

lemma count_by_id:
  "ids_ok rid rs \<Longrightarrow> count_where (\<lambda>r. rid r = i \<and> p r) rs =
     (case by_id rid i rs of None \<Rightarrow> 0 | Some r \<Rightarrow> if p r then 1 else 0)"
proof (induction rs)
  case Nil
  then show ?case by (simp add: by_id_def count_where_def)
next
  case (Cons x xs)
  then have "ids_ok rid xs" by (simp add: ids_ok_def)
  moreover have "i = rid x \<Longrightarrow> by_id rid i xs = None"
    using Cons.prems by (force simp: by_id_None ids_ok_def)
  ultimately show ?case
    using Cons.IH by (auto simp: by_id_def count_where_def split: option.splits)
qed

end

end
