(* ===== verification/GoText.thy ===== *)
theory GoText
  imports Prelude
begin

text \<open>
  The parts of Go's \<open>strings\<close>, \<open>strconv\<close>, \<open>fmt\<close> and \<open>encoding/json\<close> the code uses.
  A Go string is its byte list and is taken to be valid UTF-8; multi-byte characters the code
  treats specially (Unicode white space, C1 control characters) are matched by their encodings.
  The case mapping of letters outside ASCII is data of Go's unicode tables: it is an argument
  \<open>uni\<close> of the definitions that fold case, applied only to strings with a byte above 127.
\<close>

section \<open>Bytes and characters\<close>

abbreviation code_of :: "char \<Rightarrow> nat" where
  "code_of c \<equiv> of_char c"

definition ascii_lower :: "char \<Rightarrow> char" where
  "ascii_lower c = (if 65 \<le> code_of c \<and> code_of c \<le> 90 then char_of (code_of c + 32) else c)"

definition is_ascii :: "string \<Rightarrow> bool" where
  "is_ascii s = list_all (\<lambda>c. code_of c < 128) s"

text \<open>\<open>strings.ToLower\<close>, and SQLite's \<open>LOWER\<close>, which folds ASCII letters only.\<close>

definition sql_lower :: "string \<Rightarrow> string" where
  "sql_lower s = map ascii_lower s"

definition to_lower :: "(string \<Rightarrow> string) \<Rightarrow> string \<Rightarrow> string" where
  "to_lower uni s = (if is_ascii s then sql_lower s else uni s)"

definition is_ascii_letter :: "char \<Rightarrow> bool" where
  "is_ascii_letter c = ((65 \<le> code_of c \<and> code_of c \<le> 90) \<or> (97 \<le> code_of c \<and> code_of c \<le> 122))"

definition is_digit :: "char \<Rightarrow> bool" where
  "is_digit c = (48 \<le> code_of c \<and> code_of c \<le> 57)"

text \<open>A byte 10xxxxxx continues a UTF-8 character.\<close>

definition is_continuation :: "char \<Rightarrow> bool" where
  "is_continuation c = (128 \<le> code_of c \<and> code_of c < 192)"

section \<open>White space\<close>

text \<open>The UTF-8 encodings of the characters of \<open>unicode.IsSpace\<close>.\<close>

definition space_seqs :: "string list" where
  "space_seqs =
     [[CHR 0x09], [CHR 0x0A], [CHR 0x0B], [CHR 0x0C], [CHR 0x0D], [CHR 0x20],
      [CHR 0xC2, CHR 0x85], [CHR 0xC2, CHR 0xA0], [CHR 0xE1, CHR 0x9A, CHR 0x80],
      [CHR 0xE2, CHR 0x80, CHR 0x80], [CHR 0xE2, CHR 0x80, CHR 0x81], [CHR 0xE2, CHR 0x80, CHR 0x82],
      [CHR 0xE2, CHR 0x80, CHR 0x83], [CHR 0xE2, CHR 0x80, CHR 0x84], [CHR 0xE2, CHR 0x80, CHR 0x85],
      [CHR 0xE2, CHR 0x80, CHR 0x86], [CHR 0xE2, CHR 0x80, CHR 0x87], [CHR 0xE2, CHR 0x80, CHR 0x88],
      [CHR 0xE2, CHR 0x80, CHR 0x89], [CHR 0xE2, CHR 0x80, CHR 0x8A], [CHR 0xE2, CHR 0x80, CHR 0xA8],
      [CHR 0xE2, CHR 0x80, CHR 0xA9], [CHR 0xE2, CHR 0x80, CHR 0xAF], [CHR 0xE2, CHR 0x81, CHR 0x9F],
      [CHR 0xE3, CHR 0x80, CHR 0x80]]"

text \<open>The rest of the string after a leading white-space character, if it starts with one.\<close>

definition after_space :: "string \<Rightarrow> string option" where
  "after_space s =
     (case find (\<lambda>q. take (length q) s = q) space_seqs of
        None \<Rightarrow> None | Some q \<Rightarrow> Some (drop (length q) s))"

lemma space_seqs_nonempty: "q \<in> set space_seqs \<Longrightarrow> q \<noteq> []"
  by (auto simp: space_seqs_def)

lemma after_space_shorter: "after_space s = Some t \<Longrightarrow> length t < length s"
proof -
  assume a: "after_space s = Some t"
  then obtain q where q: "find (\<lambda>q. take (length q) s = q) space_seqs = Some q"
    and t: "t = drop (length q) s"
    by (auto simp: after_space_def split: option.splits)
  then have "q \<in> set space_seqs" "take (length q) s = q" by (auto simp: find_Some_iff)
  then have "q \<noteq> []" "length q \<le> length s"
    using space_seqs_nonempty by (auto simp: min_def dest: arg_cong [where f = length] split: if_splits)
  with t show ?thesis by (cases q) auto
qed

function trim_left :: "string \<Rightarrow> string" where
  "trim_left s = (case after_space s of None \<Rightarrow> s | Some t \<Rightarrow> trim_left t)"
  by pat_completeness auto
termination
  by (relation "measure length") (auto dest: after_space_shorter)

declare trim_left.simps [simp del]

text \<open>The mirror image for trailing white space: the encodings reversed.\<close>

definition after_space_rev :: "string \<Rightarrow> string option" where
  "after_space_rev s =
     (case find (\<lambda>q. take (length q) s = rev q) space_seqs of
        None \<Rightarrow> None | Some q \<Rightarrow> Some (drop (length q) s))"

lemma after_space_rev_shorter: "after_space_rev s = Some t \<Longrightarrow> length t < length s"
proof -
  assume a: "after_space_rev s = Some t"
  then obtain q where q: "find (\<lambda>q. take (length q) s = rev q) space_seqs = Some q"
    and t: "t = drop (length q) s"
    by (auto simp: after_space_rev_def split: option.splits)
  then have "q \<in> set space_seqs" "take (length q) s = rev q" by (auto simp: find_Some_iff)
  then have "q \<noteq> []" "length q \<le> length s"
    using space_seqs_nonempty by (auto simp: min_def dest: arg_cong [where f = length] split: if_splits)
  with t show ?thesis by (cases q) auto
qed

function trim_left_rev :: "string \<Rightarrow> string" where
  "trim_left_rev s = (case after_space_rev s of None \<Rightarrow> s | Some t \<Rightarrow> trim_left_rev t)"
  by pat_completeness auto
termination
  by (relation "measure length") (auto dest: after_space_rev_shorter)

declare trim_left_rev.simps [simp del]

definition trim_space :: "string \<Rightarrow> string" where
  "trim_space s = rev (trim_left_rev (rev (trim_left s)))"

text \<open>\<open>strings.Fields\<close>: the maximal runs of characters that are not white space.\<close>

function fields_acc :: "string \<Rightarrow> string \<Rightarrow> string list" where
  "fields_acc cur s =
     (if s = [] then (if cur = [] then [] else [rev cur])
      else case after_space s of
             Some t \<Rightarrow> (if cur = [] then fields_acc [] t else rev cur # fields_acc [] t)
           | None \<Rightarrow> fields_acc (hd s # cur) (tl s))"
  by pat_completeness auto
termination
  by (relation "measure (\<lambda>(cur, s). length s)") (auto dest: after_space_shorter)

declare fields_acc.simps [simp del]

definition fields :: "string \<Rightarrow> string list" where
  "fields s = fields_acc [] s"

fun join_with :: "string \<Rightarrow> string list \<Rightarrow> string" where
  "join_with sep [] = []"
| "join_with sep [x] = x"
| "join_with sep (x # y # xs) = x @ sep @ join_with sep (y # xs)"

text \<open>\<open>domain.Squish\<close> and \<open>domain.IsBlank\<close>.\<close>

definition squish :: "string \<Rightarrow> string" where
  "squish s = join_with '' '' (fields s)"

definition is_blank :: "string \<Rightarrow> bool" where
  "is_blank s = (trim_space s = '''')"

section \<open>Searching and splitting\<close>

definition has_prefix :: "string \<Rightarrow> string \<Rightarrow> bool" where
  "has_prefix s p = (take (length p) s = p)"

definition has_suffix :: "string \<Rightarrow> string \<Rightarrow> bool" where
  "has_suffix s p = has_prefix (rev s) (rev p)"

definition trim_suffix :: "string \<Rightarrow> string \<Rightarrow> string" where
  "trim_suffix s p = (if has_suffix s p then take (length s - length p) s else s)"

fun str_contains :: "string \<Rightarrow> string \<Rightarrow> bool" where
  "str_contains [] p = (p = [])"
| "str_contains (c # s) p = (has_prefix (c # s) p \<or> str_contains s p)"

text \<open>\<open>strings.Split(s, sep)\<close> for a one-byte separator: never the empty list.\<close>

fun split_on :: "char \<Rightarrow> string \<Rightarrow> string list" where
  "split_on sep [] = [[]]"
| "split_on sep (c # s) =
     (if c = sep then [] # split_on sep s
      else (case split_on sep s of [] \<Rightarrow> [[c]] | x # xs \<Rightarrow> (c # x) # xs))"

lemma has_prefix_iff: "has_prefix s p \<longleftrightarrow> (\<exists>t. s = p @ t)"
  unfolding has_prefix_def by (metis append_eq_conv_conj append_take_drop_id)

lemma has_suffix_iff: "has_suffix s p \<longleftrightarrow> (\<exists>t. s = t @ p)"
  unfolding has_suffix_def has_prefix_iff by (metis rev_append rev_rev_ident)

lemma str_contains_iff: "str_contains s p \<longleftrightarrow> (\<exists>a b. s = a @ p @ b)"
proof (induction s)
  case Nil
  then show ?case by auto
next
  case (Cons c s)
  have "(\<exists>a b. c # s = a @ p @ b) \<longleftrightarrow> (\<exists>b. c # s = p @ b) \<or> (\<exists>a b. s = a @ p @ b)"
  proof
    assume "\<exists>a b. c # s = a @ p @ b"
    then obtain a b where "c # s = a @ p @ b" by blast
    then show "(\<exists>b. c # s = p @ b) \<or> (\<exists>a b. s = a @ p @ b)" by (cases a) auto
  next
    assume "(\<exists>b. c # s = p @ b) \<or> (\<exists>a b. s = a @ p @ b)"
    then show "\<exists>a b. c # s = a @ p @ b"
    proof
      assume "\<exists>b. c # s = p @ b"
      then have "\<exists>b. c # s = [] @ p @ b" by simp
      then show ?thesis by blast
    next
      assume "\<exists>a b. s = a @ p @ b"
      then obtain a b where "c # s = (c # a) @ p @ b" by auto
      then show ?thesis by blast
    qed
  qed
  with Cons.IH show ?case by (simp add: has_prefix_iff)
qed

lemma split_on_nonempty [simp]: "split_on sep s \<noteq> []"
  by (induction s) (auto split: list.splits)

section \<open>Plain text\<close>

text \<open>Text without white space and without bytes above 127 is not trimmed.\<close>

definition plain_char :: "char \<Rightarrow> bool" where
  "plain_char c = (32 < code_of c \<and> code_of c < 128)"

lemma plain_char_not:
  assumes "plain_char c"
  shows "c \<noteq> CHR 0x09" "c \<noteq> CHR 0x0A" "c \<noteq> CHR 0x0B" "c \<noteq> CHR 0x0C" "c \<noteq> CHR 0x0D" "c \<noteq> CHR 0x20"
    "c \<noteq> CHR 0xC2" "c \<noteq> CHR 0xE1" "c \<noteq> CHR 0xE2" "c \<noteq> CHR 0xE3" "c \<noteq> CHR 0x85" "c \<noteq> CHR 0xA0"
    "c \<noteq> CHR 0x80" "c \<noteq> CHR 0x81" "c \<noteq> CHR 0x82" "c \<noteq> CHR 0x83" "c \<noteq> CHR 0x84" "c \<noteq> CHR 0x86"
    "c \<noteq> CHR 0x87" "c \<noteq> CHR 0x88" "c \<noteq> CHR 0x89" "c \<noteq> CHR 0x8A" "c \<noteq> CHR 0xA8" "c \<noteq> CHR 0xA9"
    "c \<noteq> CHR 0xAF" "c \<noteq> CHR 0x9F"
  using assms by (auto simp: plain_char_def)

lemma trim_left_plain: "plain_char c \<Longrightarrow> trim_left (c # s) = c # s"
  by (subst trim_left.simps) (simp add: after_space_def space_seqs_def plain_char_not)

lemma trim_left_rev_plain: "plain_char c \<Longrightarrow> trim_left_rev (c # s) = c # s"
  by (subst trim_left_rev.simps) (simp add: after_space_rev_def space_seqs_def plain_char_not)

lemma trim_space_plain:
  assumes "list_all plain_char s"
  shows "trim_space s = s"
proof (cases s rule: rev_cases)
  case Nil
  then show ?thesis by (simp add: trim_space_def trim_left.simps [of "[]"] trim_left_rev.simps [of "[]"]
      after_space_def after_space_rev_def space_seqs_def)
next
  case (snoc t c)
  have "s \<noteq> []" using snoc by simp
  then obtain a r where "s = a # r" by (auto simp: neq_Nil_conv)
  then have "trim_left s = s" using assms by (simp add: trim_left_plain)
  moreover have "trim_left_rev (rev s) = rev s" using assms snoc by (simp add: trim_left_rev_plain)
  ultimately show ?thesis by (simp add: trim_space_def)
qed

lemma code_of_lower:
  "code_of (ascii_lower c) = (if 65 \<le> code_of c \<and> code_of c \<le> 90 then code_of c + 32 else code_of c)"
  by (simp add: ascii_lower_def)

text \<open>Trimming twice is trimming once.\<close>

lemma after_space_trim_left: "after_space (trim_left s) = None"
proof (induction s rule: trim_left.induct)
  case (1 s)
  then show ?case by (cases "after_space s") (simp_all add: trim_left.simps [of s])
qed

lemma after_space_rev_trim: "after_space_rev (trim_left_rev s) = None"
proof (induction s rule: trim_left_rev.induct)
  case (1 s)
  then show ?case by (cases "after_space_rev s") (simp_all add: trim_left_rev.simps [of s])
qed

lemma trim_left_rev_suffix: "\<exists>p. s = p @ trim_left_rev s"
proof (induction s rule: trim_left_rev.induct)
  case (1 s)
  show ?case
  proof (cases "after_space_rev s")
    case None
    then show ?thesis by (simp add: trim_left_rev.simps [of s])
  next
    case (Some t)
    then have e: "trim_left_rev s = trim_left_rev t" by (simp add: trim_left_rev.simps [of s])
    from Some obtain n where "t = drop n s" by (auto simp: after_space_rev_def split: option.splits)
    then have "s = take n s @ t" by simp
    with "1" [OF Some] e show ?thesis by (metis append_assoc)
  qed
qed

lemma after_space_None: "after_space s = None \<longleftrightarrow> (\<forall>q \<in> set space_seqs. take (length q) s \<noteq> q)"
  unfolding after_space_def option.case_eq_if by (simp add: find_None_iff) blast

lemma after_space_rev_None: "after_space_rev s = None \<longleftrightarrow> (\<forall>q \<in> set space_seqs. take (length q) s \<noteq> rev q)"
  unfolding after_space_rev_def option.case_eq_if by (simp add: find_None_iff) blast

lemma after_space_prefix: "after_space (s @ t) = None \<Longrightarrow> after_space s = None"
  unfolding after_space_None
proof (intro ballI notI)
  fix q assume all: "\<forall>q \<in> set space_seqs. take (length q) (s @ t) \<noteq> q" and q: "q \<in> set space_seqs" "take (length q) s = q"
  then have "length q \<le> length s" by (metis length_take min.cobounded1)
  then have "take (length q) (s @ t) = take (length q) s" by simp
  with all q show False by metis
qed

lemma trim_space_ends:
  "after_space (trim_space s) = None" "after_space_rev (rev (trim_space s)) = None"
proof -
  obtain p where "rev (trim_left s) = p @ trim_left_rev (rev (trim_left s))"
    using trim_left_rev_suffix by blast
  then have "trim_left s = trim_space s @ rev p" by (metis rev_append rev_rev_ident trim_space_def)
  then show "after_space (trim_space s) = None"
    using after_space_trim_left [of s] by (metis after_space_prefix)
  show "after_space_rev (rev (trim_space s)) = None" by (simp add: trim_space_def after_space_rev_trim)
qed

lemma trim_space_fixed: "after_space s = None \<Longrightarrow> after_space_rev (rev s) = None \<Longrightarrow> trim_space s = s"
  by (simp add: trim_space_def trim_left.simps [of s] trim_left_rev.simps [of "rev s"])

lemma trim_space_idem [simp]: "trim_space (trim_space s) = trim_space s"
  by (intro trim_space_fixed trim_space_ends)

lemma sql_lower_idem [simp]: "sql_lower (sql_lower s) = sql_lower s"
  by (auto simp: sql_lower_def ascii_lower_def)

section \<open>Decimal numbers\<close>

text \<open>\<open>%d\<close> of a natural number, and \<open>strconv.FormatInt\<close>.\<close>

fun dec_nat :: "nat \<Rightarrow> string" where
  "dec_nat n = (if n < 10 then [char_of (48 + n)] else dec_nat (n div 10) @ [char_of (48 + n mod 10)])"

declare dec_nat.simps [simp del]

definition dec_int :: "int \<Rightarrow> string" where
  "dec_int i = (if i < 0 then ''-'' @ dec_nat (nat (- i)) else dec_nat (nat i))"

fun read_nat :: "nat \<Rightarrow> string \<Rightarrow> nat option" where
  "read_nat acc [] = Some acc"
| "read_nat acc (c # s) = (if is_digit c then read_nat (acc * 10 + (code_of c - 48)) s else None)"

text \<open>\<open>strconv.ParseInt(s, 10, 64)\<close>: an optional sign, at least one digit, the range of int64.\<close>

definition parse_int64 :: "string \<Rightarrow> int option" where
  "parse_int64 s =
     (let (neg, ds) = (case s of c # r \<Rightarrow> if c = CHR ''-'' then (True, r)
                                 else if c = CHR ''+'' then (False, r) else (False, s)
                               | [] \<Rightarrow> (False, []))
      in if ds = [] then None
         else (case read_nat 0 ds of
                 None \<Rightarrow> None
               | Some n \<Rightarrow> let i = (if neg then - int n else int n)
                           in if - (2 ^ 63) \<le> i \<and> i < 2 ^ 63 then Some i else None))"

text \<open>The value \<open>strconv.ParseInt(s, 10, 64)\<close> returns beside its error: 0 for a syntax error, the bound for an overflow.\<close>

definition parsed_int64 :: "string \<Rightarrow> int" where
  "parsed_int64 s =
     (let neg = (s \<noteq> [] \<and> hd s = CHR ''-''); ds = (if s \<noteq> [] \<and> hd s \<in> set ''+-'' then tl s else s)
      in if ds = [] then 0
         else (case read_nat 0 ds of
                 None \<Rightarrow> 0
               | Some n \<Rightarrow> if neg then max (- int n) (- (2 ^ 63)) else min (int n) (2 ^ 63 - 1)))"

lemma read_nat_append: "read_nat a (s @ t) = (case read_nat a s of None \<Rightarrow> None | Some b \<Rightarrow> read_nat b t)"
  by (induction s arbitrary: a) auto

lemma code_of_digit: "n < 10 \<Longrightarrow> code_of (char_of (48 + n) :: char) = 48 + n"
  by simp

lemma read_dec_nat: "read_nat 0 (dec_nat n) = Some n"
proof (induction n rule: dec_nat.induct)
  case (1 n)
  show ?case
  proof (cases "n < 10")
    case True
    then show ?thesis by (simp add: dec_nat.simps [of n] is_digit_def)
  next
    case False
    have "n mod 10 < 10" by simp
    then have "code_of (char_of (48 + n mod 10) :: char) = 48 + n mod 10" by (rule code_of_digit)
    with "1" False show ?thesis
      by (simp add: dec_nat.simps [of n] read_nat_append is_digit_def)
  qed
qed

lemma dec_nat_inj: "dec_nat m = dec_nat n \<Longrightarrow> m = n"
  by (metis option.inject read_dec_nat)

lemma dec_nat_nonempty: "dec_nat n \<noteq> []"
  by (simp add: dec_nat.simps [of n])

lemma dec_nat_digits: "c \<in> set (dec_nat n) \<Longrightarrow> is_digit c"
proof (induction n rule: dec_nat.induct)
  case (1 n)
  have "n mod 10 < 10" by simp
  then have "is_digit (char_of (48 + n mod 10))" by (simp only: is_digit_def code_of_digit) simp
  moreover have "n < 10 \<Longrightarrow> is_digit (char_of (48 + n))" by (simp only: is_digit_def code_of_digit) simp
  ultimately show ?case using "1" by (subst (asm) (2) dec_nat.simps) (auto split: if_splits)
qed

lemma parse_dec_int:
  assumes "- (2 ^ 63) \<le> i" "i < 2 ^ 63"
  shows "parse_int64 (dec_int i) = Some i"
proof (cases "i < 0")
  case True
  with assms show ?thesis by (simp add: dec_int_def parse_int64_def read_dec_nat dec_nat_nonempty)
next
  case False
  obtain c r where cr: "dec_nat (nat i) = c # r"
    using dec_nat_nonempty [of "nat i"] by (cases "dec_nat (nat i)") auto
  then have "is_digit c" using dec_nat_digits [of c "nat i"] by simp
  then have "c \<noteq> CHR ''-''" "c \<noteq> CHR ''+''" by (auto simp: is_digit_def)
  with False cr assms read_dec_nat [of "nat i"] show ?thesis
    by (simp add: dec_int_def parse_int64_def)
qed

end
