(* ===== verification/Json.thy ===== *)
theory Json
  imports GoText
begin

text \<open>
  \<open>encoding/json\<close> as the code uses it. A TEXT column that holds JSON is modelled by its text
  together with the value that text parses to (\<open>None\<close> where it is not JSON), so decoding works
  on syntax trees; \<open>json.Marshal\<close> is \<open>to_text\<close>, which prints the tree. The message of a
  syntax or type error is not modelled, only that there is one.
\<close>

datatype json =
    JNull
  | JBool bool
  | JNum int
  | JFrac string
  | JStr string
  | JArr "json list"
  | JObj "(string \<times> json) list"

datatype jtext = JText (raw: string) (parsed: "json option")

section \<open>Printing\<close>

definition hex_digit :: "nat \<Rightarrow> char" where
  "hex_digit n = (if n < 10 then char_of (48 + n) else char_of (87 + n))"

text \<open>The escapes of Go's encoder: the short ones, HTML's three characters, control characters,
  and the two JavaScript line separators.\<close>

fun json_escape :: "string \<Rightarrow> string" where
  "json_escape [] = []"
| "json_escape (c # s) =
     (let n = code_of c in
      if n = 34 \<or> n = 92 then CHR 0x5C # c # json_escape s
      else if n = 8 then CHR 0x5C # CHR ''b'' # json_escape s
      else if n = 12 then CHR 0x5C # CHR ''f'' # json_escape s
      else if n = 10 then CHR 0x5C # CHR ''n'' # json_escape s
      else if n = 13 then CHR 0x5C # CHR ''r'' # json_escape s
      else if n = 9 then CHR 0x5C # CHR ''t'' # json_escape s
      else if n < 32 \<or> n = 60 \<or> n = 62 \<or> n = 38
        then CHR 0x5C # ''u00'' @ [hex_digit (n div 16), hex_digit (n mod 16)] @ json_escape s
      else if n = 226 \<and> take 2 s = map char_of [128, 168 :: nat]
        then CHR 0x5C # ''u2028'' @ json_escape (drop 2 s)
      else if n = 226 \<and> take 2 s = map char_of [128, 169 :: nat]
        then CHR 0x5C # ''u2029'' @ json_escape (drop 2 s)
      else c # json_escape s)"

definition json_quote :: "string \<Rightarrow> string" where
  "json_quote s = [CHR 0x22] @ json_escape s @ [CHR 0x22]"

fun json_print :: "json \<Rightarrow> string" where
  "json_print JNull = ''null''"
| "json_print (JBool b) = (if b then ''true'' else ''false'')"
| "json_print (JNum n) = dec_int n"
| "json_print (JFrac s) = s"
| "json_print (JStr s) = json_quote s"
| "json_print (JArr xs) = ''['' @ join_with '','' (map json_print xs) @ '']''"
| "json_print (JObj kvs) =
     [CHR 0x7B] @ join_with '','' (map (\<lambda>(k, v). json_quote k @ '':'' @ json_print v) kvs) @ [CHR 0x7D]"

definition to_text :: "json \<Rightarrow> jtext" where
  "to_text j = JText (json_print j) (Some j)"

lemma parsed_to_text [simp]: "parsed (to_text j) = Some j"
  by (simp add: to_text_def)

section \<open>Decoding\<close>

text \<open>
  Object keys match a struct field exactly or under the decoder's case folding: ASCII letters, and
  the two characters outside ASCII that fold to one (the long s and the Kelvin sign).
\<close>

fun fold_name :: "string \<Rightarrow> string" where
  "fold_name [] = []"
| "fold_name (c # s) =
     (if code_of c = 197 \<and> take 1 s = map char_of [191 :: nat] then CHR ''s'' # fold_name (drop 1 s)
      else if code_of c = 226 \<and> take 2 s = map char_of [132, 170 :: nat] then CHR ''k'' # fold_name (drop 2 s)
      else ascii_lower c # fold_name s)"

definition field_match :: "string \<Rightarrow> string \<Rightarrow> bool" where
  "field_match name k = (k = name \<or> fold_name k = fold_name name)"

definition in_int64 :: "int \<Rightarrow> bool" where
  "in_int64 i = (- (2 ^ 63) \<le> i \<and> i < 2 ^ 63)"

text \<open>
  \<open>json.Unmarshal\<close> into a value: \<open>None\<close> is an error. A \<open>null\<close> leaves the destination as it
  was, so a missing or null field keeps the zero value; the last of several matching keys wins.
\<close>

fun put_int :: "json \<Rightarrow> int \<Rightarrow> int option" where
  "put_int JNull old = Some old"
| "put_int (JNum n) old = (if in_int64 n then Some n else None)"
| "put_int _ old = None"

fun put_string :: "json \<Rightarrow> string \<Rightarrow> string option" where
  "put_string JNull old = Some old"
| "put_string (JStr s) old = Some s"
| "put_string _ old = None"

fun put_strings :: "json \<Rightarrow> string list \<Rightarrow> string list option" where
  "put_strings JNull old = Some []"
| "put_strings (JArr xs) old =
     (if list_all (\<lambda>j. put_string j '''' \<noteq> None) xs then Some (map (\<lambda>j. the (put_string j '''')) xs) else None)"
| "put_strings _ old = None"

fun put_field :: "(json \<Rightarrow> 'a \<Rightarrow> 'a option) \<Rightarrow> string \<Rightarrow> (string \<times> json) list \<Rightarrow> 'a \<Rightarrow> 'a option" where
  "put_field put name [] old = Some old"
| "put_field put name ((k, v) # kvs) old =
     (if field_match name k
      then (case put v old of None \<Rightarrow> None | Some new \<Rightarrow> put_field put name kvs new)
      else put_field put name kvs old)"

definition struct1 :: "(json \<Rightarrow> 'a \<Rightarrow> 'a option) \<Rightarrow> string \<Rightarrow> 'a \<Rightarrow> json \<Rightarrow> 'a option" where
  "struct1 put name zero j =
     (case j of JNull \<Rightarrow> Some zero | JObj kvs \<Rightarrow> put_field put name kvs zero | _ \<Rightarrow> None)"

definition unmarshal :: "(json \<Rightarrow> 'a option) \<Rightarrow> jtext option \<Rightarrow> err + 'a" where
  "unmarshal dec r =
     (case r of
        None \<Rightarrow> Inl (ErrText ''unexpected end of JSON input'')
      | Some t \<Rightarrow> (case parsed t of
                     None \<Rightarrow> Inl (ErrText ''invalid JSON'')
                   | Some j \<Rightarrow> (case dec j of None \<Rightarrow> Inl (ErrText ''json: cannot unmarshal'') | Some x \<Rightarrow> Inr x)))"

lemma field_match_same [simp]: "field_match n n"
  by (simp add: field_match_def)

lemma unmarshal_int_field:
  "in_int64 i \<Longrightarrow> unmarshal (struct1 put_int n 0) (Some (to_text (JObj [(n, JNum i)]))) = Inr i"
  by (simp add: unmarshal_def struct1_def)

lemma unmarshal_string_field:
  "unmarshal (struct1 put_string n '''') (Some (to_text (JObj [(n, JStr s)]))) = Inr s"
  by (simp add: unmarshal_def struct1_def)

lemma put_strings_map: "put_strings (JArr (map JStr xs)) old = Some xs"
  by (induction xs) (auto simp: list_all_iff)

end
