(* ===== verification/Schema.thy ===== *)
theory Schema
  imports Tables Json
begin

text \<open>
  The database: one record per table of \<open>migrations/\<close> with the fields of the structs in
  \<open>internal/db/query/models.go\<close> (NULL is \<open>None\<close>), and the record of all tables. Row lists are
  in row-id order; the singleton tables (\<open>CHECK (id = 1)\<close>) are optional rows. Ids and unix
  timestamps are integers (int64 in the code, far from its bounds).
\<close>

section \<open>Rows\<close>

record activity_log =
  al_id :: int
  al_level :: int
  al_action :: "string option"
  al_target :: "string option"
  al_description :: "string option"
  al_created_at :: int
  al_updated_at :: int
  al_job_run_id :: "int option"

record article =
  a_id :: int
  a_title :: "string option"
  a_slug :: "string option"
  a_content_html :: "string option"
  a_content_type :: string
  a_description :: "string option"
  a_excerpt :: "string option"
  a_meta_description :: "string option"
  a_meta_title :: "string option"
  a_meta_image :: "string option"
  a_source_author :: "string option"
  a_source_url :: "string option"
  a_source_content :: "string option"
  a_status :: int
  a_comment :: int
  a_scheduled_at :: "int option"
  a_scheduled_platforms :: jtext
  a_scheduled_newsletter :: int
  a_created_at :: int
  a_updated_at :: int
  a_content_markdown :: "string option"

record article_tag =
  at_id :: int
  at_article_id :: int
  at_tag_id :: int
  at_created_at :: int
  at_updated_at :: int

record attachment =
  att_id :: int
  att_file_id :: int
  att_record_type :: string
  att_record_id :: int
  att_name :: string
  att_created_at :: int

record comment =
  c_id :: int
  c_commentable_type :: "string option"
  c_commentable_id :: "int option"
  c_article_id :: "int option"
  c_parent_id :: "int option"
  c_author_name :: string
  c_author_email :: "string option"
  c_author_url :: "string option"
  c_author_username :: "string option"
  c_author_avatar_url :: "string option"
  c_content :: string
  c_status :: int
  c_platform :: "string option"
  c_external_id :: "string option"
  c_url :: "string option"
  c_published_at :: "int option"
  c_created_at :: int
  c_updated_at :: int

record crosspost =
  cp_id :: int
  cp_platform :: string
  cp_enabled :: int
  cp_api_key :: "string option"
  cp_api_key_secret :: "string option"
  cp_access_token :: "string option"
  cp_access_token_secret :: "string option"
  cp_client_id :: "string option"
  cp_client_key :: "string option"
  cp_client_secret :: "string option"
  cp_app_password :: "string option"
  cp_refresh_token :: "string option"
  cp_token_expires_at :: "int option"
  cp_server_url :: "string option"
  cp_username :: "string option"
  cp_max_characters :: "int option"
  cp_auto_fetch_comments :: int
  cp_comment_fetch_schedule :: "string option"
  cp_settings :: "string option"
  cp_created_at :: int
  cp_updated_at :: int

record file_row =
  f_id :: int
  f_key :: string
  f_filename :: string
  f_content_type :: "string option"
  f_byte_size :: int
  f_checksum :: "string option"
  f_variant_of :: "int option"
  f_created_at :: int

datatype job_status = Queued | Running | Done | Failed

record job_run =
  jr_id :: int
  jr_kind :: string
  jr_payload :: "jtext option"
  jr_run_at :: int
  jr_status :: job_status
  jr_attempts :: int
  jr_last_error :: "string option"
  jr_created_at :: int
  jr_updated_at :: int

record kv_row =
  kv_key :: string
  kv_value :: "string option"
  kv_updated_at :: int

record listmonk =
  lm_id :: int
  lm_url :: "string option"
  lm_username :: "string option"
  lm_api_key :: "string option"
  lm_list_id :: "int option"
  lm_template_id :: "int option"
  lm_enabled :: int
  lm_created_at :: int
  lm_updated_at :: int

record newsletter_setting =
  ns_id :: int
  ns_enabled :: int
  ns_provider :: string
  ns_from_email :: "string option"
  ns_smtp_address :: "string option"
  ns_smtp_port :: "int option"
  ns_smtp_user_name :: "string option"
  ns_smtp_password :: "string option"
  ns_smtp_domain :: "string option"
  ns_smtp_authentication :: "string option"
  ns_smtp_enable_starttls :: "int option"
  ns_created_at :: int
  ns_updated_at :: int

record page =
  p_id :: int
  p_title :: "string option"
  p_slug :: "string option"
  p_content_html :: "string option"
  p_content_type :: string
  p_redirect_url :: "string option"
  p_page_order :: int
  p_status :: int
  p_comment :: int
  p_scheduled_at :: "int option"
  p_created_at :: int
  p_updated_at :: int
  p_content_markdown :: "string option"

record redirect_row =
  r_id :: int
  r_regex :: string
  r_replacement :: string
  r_enabled :: int
  r_permanent :: int
  r_created_at :: int
  r_updated_at :: int
  r_match_on :: string
  r_match_from :: string
  r_match_prefix :: int
  r_position :: int

record session =
  ss_id :: int
  ss_token :: string
  ss_user_id :: int
  ss_ip_address :: "string option"
  ss_user_agent :: "string option"
  ss_created_at :: int
  ss_updated_at :: int

record setting =
  se_id :: int
  se_title :: "string option"
  se_description :: "string option"
  se_author :: "string option"
  se_url :: "string option"
  se_time_zone :: string
  se_head_code :: "string option"
  se_custom_css :: "string option"
  se_tool_code :: "string option"
  se_giscus :: "string option"
  se_social_links :: "string option"
  se_setup_completed :: int
  se_created_at :: int
  se_updated_at :: int
  se_article_route_prefix :: "string option"
  se_feed_all_articles :: int

record social_media_post =
  sp_id :: int
  sp_article_id :: int
  sp_platform :: string
  sp_url :: string
  sp_created_at :: int
  sp_updated_at :: int

record static_file =
  sf_id :: int
  sf_filename :: string
  sf_description :: "string option"
  sf_file_id :: int
  sf_created_at :: int
  sf_updated_at :: int

record subscriber =
  s_id :: int
  s_email :: string
  s_confirmation_token :: "string option"
  s_unsubscribe_token :: "string option"
  s_confirmed_at :: "int option"
  s_unsubscribed_at :: "int option"
  s_created_at :: int
  s_updated_at :: int

record subscriber_tag =
  st_id :: int
  st_subscriber_id :: int
  st_tag_id :: int
  st_created_at :: int
  st_updated_at :: int

record tag =
  t_id :: int
  t_name :: string
  t_slug :: string
  t_created_at :: int
  t_updated_at :: int

record twitter_sync =
  ts_id :: int
  ts_enabled :: int
  ts_username :: "string option"
  ts_user_id :: "string option"
  ts_since_id :: "string option"
  ts_start_date :: "string option"
  ts_sync_schedule :: string
  ts_last_synced_at :: "int option"
  ts_last_error :: "string option"
  ts_created_at :: int
  ts_updated_at :: int

record user =
  u_id :: int
  u_user_name :: string
  u_password_digest :: string
  u_created_at :: int
  u_updated_at :: int

section \<open>The database\<close>

record database =
  articles :: "article list"
  pages :: "page list"
  tags :: "tag list"
  article_tags :: "article_tag list"
  comments :: "comment list"
  subscribers :: "subscriber list"
  subscriber_tags :: "subscriber_tag list"
  social_posts :: "social_media_post list"
  redirects :: "redirect_row list"
  settings :: "setting option"
  newsletter_settings :: "newsletter_setting option"
  crossposts :: "crosspost list"
  listmonks :: "listmonk option"
  twitter_syncs :: "twitter_sync option"
  activity_logs :: "activity_log list"
  files :: "file_row list"
  attachments :: "attachment list"
  static_files :: "static_file list"
  job_runs :: "job_run list"
  kv_rows :: "kv_row list"
  users :: "user list"
  sessions :: "session list"

definition empty_db :: database where
  "empty_db = \<lparr>articles = [], pages = [], tags = [], article_tags = [], comments = [],
     subscribers = [], subscriber_tags = [], social_posts = [], redirects = [], settings = None,
     newsletter_settings = None, crossposts = [], listmonks = None, twitter_syncs = None,
     activity_logs = [], files = [], attachments = [], static_files = [], job_runs = [],
     kv_rows = [], users = [], sessions = []\<rparr>"

type_synonym dbworld = "database world"
type_synonym 'a db_act = "(database, 'a) act"

text \<open>\<open>sql.NullString.String\<close>: the empty string for NULL.\<close>

definition str_of :: "string option \<Rightarrow> string" where
  "str_of s = (case s of None \<Rightarrow> '''' | Some x \<Rightarrow> x)"

text \<open>\<open>sql.NullInt64.Int64\<close>: 0 for NULL.\<close>

definition int_of :: "int option \<Rightarrow> int" where
  "int_of i = (case i of None \<Rightarrow> 0 | Some x \<Rightarrow> x)"

lemma int_of_Some [simp]: "int_of (Some x) = x"
  by (simp add: int_of_def)

lemma str_of_Some [simp]: "str_of (Some x) = x"
  by (simp add: str_of_def)

text \<open>A foreign key without its row (\<open>PRAGMA foreign_keys\<close> is on).\<close>

definition fk_error :: err where
  "fk_error = ErrDriver ''constraint failed: FOREIGN KEY constraint failed''"

section \<open>The tables with a row id\<close>

interpretation jobs_tab: row_table jr_id "\<lambda>i r. r\<lparr>jr_id := i\<rparr>"
  by unfold_locales simp

interpretation tags_tab: row_table t_id "\<lambda>i r. r\<lparr>t_id := i\<rparr>"
  by unfold_locales simp

interpretation article_tags_tab: row_table at_id "\<lambda>i r. r\<lparr>at_id := i\<rparr>"
  by unfold_locales simp

interpretation articles_tab: row_table a_id "\<lambda>i r. r\<lparr>a_id := i\<rparr>"
  by unfold_locales simp

interpretation comments_tab: row_table c_id "\<lambda>i r. r\<lparr>c_id := i\<rparr>"
  by unfold_locales simp

interpretation subscribers_tab: row_table s_id "\<lambda>i r. r\<lparr>s_id := i\<rparr>"
  by unfold_locales simp

interpretation subscriber_tags_tab: row_table st_id "\<lambda>i r. r\<lparr>st_id := i\<rparr>"
  by unfold_locales simp

interpretation social_posts_tab: row_table sp_id "\<lambda>i r. r\<lparr>sp_id := i\<rparr>"
  by unfold_locales simp

interpretation redirects_tab: row_table r_id "\<lambda>i r. r\<lparr>r_id := i\<rparr>"
  by unfold_locales simp

interpretation pages_tab: row_table p_id "\<lambda>i r. r\<lparr>p_id := i\<rparr>"
  by unfold_locales simp

end
