(* ===== verification/JobQueue.thy ===== *)
theory JobQueue
  imports Schema
begin

text \<open>
  The \<open>job_runs\<close> queue: the statements of \<open>internal/db/query/jobs.sql.go\<close> and
  \<open>jobs_admin.sql.go\<close>, the \<open>Enqueuer\<close> of \<open>internal/jobs/jobs.go\<close>, the startup recovery
  of \<open>internal/jobs/recover.go\<close>, and the invariant of the table. Each statement is a function on
  the row list (\<open>claim_rows\<close>, \<open>requeue_stale_rows\<close>, \<dots>) and the action that runs it.
\<close>

section \<open>Job kinds\<close>

definition kind_publish_article :: string where "kind_publish_article = ''publish_article''"
definition kind_publish_page :: string where "kind_publish_page = ''publish_page''"
definition kind_send_newsletter :: string where "kind_send_newsletter = ''send_newsletter''"
definition kind_crosspost :: string where "kind_crosspost = ''crosspost''"
definition kind_fetch_social_comments :: string where
  "kind_fetch_social_comments = ''fetch_social_comments''"
definition kind_import_db :: string where "kind_import_db = ''import_db''"
definition kind_import_markdown :: string where "kind_import_markdown = ''import_markdown''"
definition kind_comment_reply_notification :: string where
  "kind_comment_reply_notification = ''comment_reply_notification''"
definition kind_newsletter_confirmation :: string where
  "kind_newsletter_confirmation = ''newsletter_confirmation''"
definition kind_twitter_sync :: string where "kind_twitter_sync = ''twitter_sync''"

lemmas kind_defs = kind_publish_article_def kind_publish_page_def kind_send_newsletter_def
  kind_crosspost_def kind_fetch_social_comments_def kind_import_db_def kind_import_markdown_def
  kind_comment_reply_notification_def kind_newsletter_confirmation_def kind_twitter_sync_def

section \<open>Statements\<close>

abbreviation on_jobs :: "(job_run list \<Rightarrow> job_run list) \<Rightarrow> database \<Rightarrow> database" where
  "on_jobs f d \<equiv> d\<lparr>job_runs := f (job_runs d)\<rparr>"

definition active :: "job_run \<Rightarrow> bool" where
  "active r = (jr_status r = Queued \<or> jr_status r = Running)"

text \<open>\<open>ClaimJobRun\<close>: guarded by the queued status, so of two claims only the first counts a row.\<close>

definition claimable :: "int \<Rightarrow> job_run \<Rightarrow> bool" where
  "claimable i r = (jr_id r = i \<and> jr_status r = Queued)"

definition claim_rows :: "int \<Rightarrow> int \<Rightarrow> job_run list \<Rightarrow> job_run list" where
  "claim_rows now i = update_where (claimable i) (\<lambda>r. r\<lparr>jr_status := Running, jr_updated_at := now\<rparr>)"

definition claim_job_run :: "int \<Rightarrow> int \<Rightarrow> nat db_act" where
  "claim_job_run now i =
     exec (\<lambda>d. Inr (on_jobs (claim_rows now i) d, count_where (claimable i) (job_runs d)))"

definition complete_rows :: "int \<Rightarrow> int \<Rightarrow> job_run list \<Rightarrow> job_run list" where
  "complete_rows now i = update_where (\<lambda>r. jr_id r = i)
     (\<lambda>r. r\<lparr>jr_status := Done, jr_last_error := None, jr_updated_at := now\<rparr>)"

definition complete_job_run :: "int \<Rightarrow> int \<Rightarrow> unit db_act" where
  "complete_job_run now i = modify (on_jobs (complete_rows now i))"

definition fail_rows :: "int \<Rightarrow> string \<Rightarrow> int \<Rightarrow> int \<Rightarrow> job_run list \<Rightarrow> job_run list" where
  "fail_rows attempts msg now i = update_where (\<lambda>r. jr_id r = i)
     (\<lambda>r. r\<lparr>jr_status := Failed, jr_attempts := attempts, jr_last_error := Some msg, jr_updated_at := now\<rparr>)"

definition fail_job_run :: "int \<Rightarrow> string \<Rightarrow> int \<Rightarrow> int \<Rightarrow> unit db_act" where
  "fail_job_run attempts msg now i = modify (on_jobs (fail_rows attempts msg now i))"

definition reschedule_rows :: "int \<Rightarrow> int \<Rightarrow> string \<Rightarrow> int \<Rightarrow> int \<Rightarrow> job_run list \<Rightarrow> job_run list" where
  "reschedule_rows attempts run_at msg now i = update_where (\<lambda>r. jr_id r = i)
     (\<lambda>r. r\<lparr>jr_status := Queued, jr_attempts := attempts, jr_run_at := run_at,
            jr_last_error := Some msg, jr_updated_at := now\<rparr>)"

definition reschedule_job_run :: "int \<Rightarrow> int \<Rightarrow> string \<Rightarrow> int \<Rightarrow> int \<Rightarrow> unit db_act" where
  "reschedule_job_run attempts run_at msg now i = modify (on_jobs (reschedule_rows attempts run_at msg now i))"

text \<open>
  \<open>GetDueJobRun\<close>: the oldest due row. Rows with equal \<open>run_at\<close> come in row-id order, the order
  of the index \<open>idx_job_runs_due (status, run_at)\<close> the query runs on.
\<close>

definition due :: "int \<Rightarrow> job_run \<Rightarrow> bool" where
  "due now r = (jr_status r = Queued \<and> jr_run_at r \<le> now)"

definition due_row :: "int \<Rightarrow> job_run list \<Rightarrow> job_run option" where
  "due_row now rs = first_min jr_run_at (filter (due now) rs)"

definition get_due_job_run :: "int \<Rightarrow> job_run db_act" where
  "get_due_job_run now = query_row (\<lambda>d. due_row now (job_runs d))"

definition new_job :: "string \<Rightarrow> jtext option \<Rightarrow> int \<Rightarrow> int \<Rightarrow> job_run" where
  "new_job kind payload run_at now =
     \<lparr>jr_id = 0, jr_kind = kind, jr_payload = payload, jr_run_at = run_at, jr_status = Queued,
      jr_attempts = 0, jr_last_error = None, jr_created_at = now, jr_updated_at = now\<rparr>"

definition add_job :: "job_run \<Rightarrow> job_run list \<Rightarrow> job_run list \<times> job_run" where
  "add_job = insert_row jr_id (\<lambda>i r. r\<lparr>jr_id := i\<rparr>)"

definition enqueue_job_run :: "string \<Rightarrow> jtext option \<Rightarrow> int \<Rightarrow> int \<Rightarrow> int db_act" where
  "enqueue_job_run kind payload run_at now =
     exec (\<lambda>d. let (rs, r) = add_job (new_job kind payload run_at now) (job_runs d)
               in Inr (d\<lparr>job_runs := rs\<rparr>, jr_id r))"

definition enqueue_job_run_unless_active :: "string \<Rightarrow> jtext option \<Rightarrow> int \<Rightarrow> int \<Rightarrow> nat db_act" where
  "enqueue_job_run_unless_active kind payload run_at now =
     exec (\<lambda>d. if list_ex (\<lambda>r. jr_kind r = kind \<and> active r) (job_runs d) then Inr (d, 0)
               else Inr (d\<lparr>job_runs := fst (add_job (new_job kind payload run_at now) (job_runs d))\<rparr>, 1))"

text \<open>Deleting job rows clears the log rows that point at them (ON DELETE SET NULL, migration 0009).\<close>

definition delete_jobs :: "(job_run \<Rightarrow> bool) \<Rightarrow> database \<Rightarrow> database" where
  "delete_jobs p d =
     d\<lparr>job_runs := delete_where p (job_runs d),
       activity_logs := update_where
         (\<lambda>l. list_ex (\<lambda>r. p r \<and> al_job_run_id l = Some (jr_id r)) (job_runs d))
         (\<lambda>l. l\<lparr>al_job_run_id := None\<rparr>) (activity_logs d)\<rparr>"

definition finished_before :: "int \<Rightarrow> job_run \<Rightarrow> bool" where
  "finished_before cutoff r = ((jr_status r = Done \<or> jr_status r = Failed) \<and> jr_updated_at r < cutoff)"

definition delete_finished_job_runs :: "int \<Rightarrow> nat db_act" where
  "delete_finished_job_runs cutoff =
     exec (\<lambda>d. Inr (delete_jobs (finished_before cutoff) d, count_where (finished_before cutoff) (job_runs d)))"

definition delete_old_activity_logs :: "int \<Rightarrow> nat db_act" where
  "delete_old_activity_logs cutoff =
     exec (\<lambda>d. Inr (d\<lparr>activity_logs := delete_where (\<lambda>l. al_created_at l < cutoff) (activity_logs d)\<rparr>,
                    count_where (\<lambda>l. al_created_at l < cutoff) (activity_logs d)))"

definition list_active_import_job_payloads :: "(string \<times> jtext option) list db_act" where
  "list_active_import_job_payloads =
     query (\<lambda>d. map (\<lambda>r. (jr_kind r, jr_payload r))
              (filter (\<lambda>r. active r \<and> (jr_kind r = kind_import_db \<or> jr_kind r = kind_import_markdown)) (job_runs d)))"

definition get_twitter_sync :: "twitter_sync db_act" where
  "get_twitter_sync = query_row twitter_syncs"

definition list_comment_fetchers :: "(string \<times> string) list db_act" where
  "list_comment_fetchers =
     query (\<lambda>d. map (\<lambda>c. (cp_platform c, str_of (cp_comment_fetch_schedule c)))
              (filter (\<lambda>c. cp_enabled c = 1 \<and> cp_auto_fetch_comments c = 1 \<and>
                           cp_comment_fetch_schedule c \<noteq> None \<and> cp_comment_fetch_schedule c \<noteq> Some '''')
                 (crossposts d)))"

text \<open>\<open>RequeueStaleRunningJobRuns\<close>: every CASE reads the row as it was before the update.\<close>

definition stale :: "int \<Rightarrow> job_run \<Rightarrow> bool" where
  "stale cutoff r = (jr_status r = Running \<and> jr_updated_at r < cutoff)"

definition requeue_row :: "int \<Rightarrow> string \<Rightarrow> int \<Rightarrow> job_run \<Rightarrow> job_run" where
  "requeue_row max_attempts msg now r =
     r\<lparr>jr_status := (if max_attempts \<le> jr_attempts r + 1 then Failed else Queued),
       jr_attempts := jr_attempts r + 1,
       jr_last_error := (if max_attempts \<le> jr_attempts r + 1 then Some msg else jr_last_error r),
       jr_updated_at := now\<rparr>"

definition requeue_stale_rows :: "int \<Rightarrow> string \<Rightarrow> int \<Rightarrow> int \<Rightarrow> job_run list \<Rightarrow> job_run list" where
  "requeue_stale_rows max_attempts msg now cutoff = update_where (stale cutoff) (requeue_row max_attempts msg now)"

definition requeue_stale_running_job_runs :: "int \<Rightarrow> string \<Rightarrow> int \<Rightarrow> int \<Rightarrow> nat db_act" where
  "requeue_stale_running_job_runs max_attempts msg now cutoff =
     exec (\<lambda>d. Inr (on_jobs (requeue_stale_rows max_attempts msg now cutoff) d,
                    count_where (stale cutoff) (job_runs d)))"

text \<open>\<open>ListQueuedJobRunsByKind\<close> and \<open>DeleteJobRun\<close> of \<open>articles_admin.sql.go\<close>.\<close>

definition list_queued_job_runs_by_kind :: "string \<Rightarrow> job_run list db_act" where
  "list_queued_job_runs_by_kind kind =
     query (\<lambda>d. filter (\<lambda>r. jr_kind r = kind \<and> jr_status r = Queued) (job_runs d))"

definition delete_job_run :: "int \<Rightarrow> unit db_act" where
  "delete_job_run i = modify (delete_jobs (\<lambda>r. jr_id r = i))"

text \<open>The admin list: newest first, one window.\<close>

definition list_admin_job_runs :: "nat \<Rightarrow> nat \<Rightarrow> job_run list db_act" where
  "list_admin_job_runs limit off = query (\<lambda>d. take limit (drop off (rev (job_runs d))))"

definition list_admin_job_runs_by_status :: "job_status \<Rightarrow> nat \<Rightarrow> nat \<Rightarrow> job_run list db_act" where
  "list_admin_job_runs_by_status st limit off =
     query (\<lambda>d. take limit (drop off (rev (filter (\<lambda>r. jr_status r = st) (job_runs d)))))"

definition count_admin_job_runs :: "nat db_act" where
  "count_admin_job_runs = query (\<lambda>d. length (job_runs d))"

definition count_admin_job_runs_by_status :: "job_status \<Rightarrow> nat db_act" where
  "count_admin_job_runs_by_status st = query (\<lambda>d. count_where (\<lambda>r. jr_status r = st) (job_runs d))"

section \<open>The Enqueuer\<close>

text \<open>
  \<open>wake\<close> says whether \<open>SetWake\<close> installed the worker's nudge; the second component of the
  result is whether the call fired it. \<open>now\<close> is the clock reading of the call.
\<close>

definition enqueue :: "bool \<Rightarrow> int \<Rightarrow> string \<Rightarrow> json option \<Rightarrow> int \<Rightarrow> (int \<times> bool) db_act" where
  "enqueue wake now kind payload run_at =
     bindE (enqueue_job_run kind (map_option to_text payload) run_at now)
       (\<lambda>i. ret (i, wake))"

definition enqueue_unless_active :: "bool \<Rightarrow> int \<Rightarrow> string \<Rightarrow> int \<Rightarrow> (bool \<times> bool) db_act" where
  "enqueue_unless_active wake now kind run_at =
     bindE (enqueue_job_run_unless_active kind None run_at now)
       (\<lambda>n. ret (0 < n, 0 < n \<and> wake))"

section \<open>Startup recovery\<close>

definition max_attempts :: int where "max_attempts = 5"

definition crash_error :: string where
  "crash_error = ''process restarted while the job was running; attempt budget exhausted''"

definition recover_stale_jobs :: "int \<Rightarrow> int \<Rightarrow> nat db_act" where
  "recover_stale_jobs now cutoff = requeue_stale_running_job_runs max_attempts crash_error now cutoff"

section \<open>The invariant of the table\<close>

text \<open>
  Row ids are distinct and in order; a job that is queued, running or done has used fewer attempts
  than the budget, a failed one at most the budget, and a failed row says why.
\<close>

definition row_ok :: "job_run \<Rightarrow> bool" where
  "row_ok r = (0 \<le> jr_attempts r \<and> jr_attempts r \<le> max_attempts \<and>
               (jr_status r \<noteq> Failed \<longrightarrow> jr_attempts r < max_attempts) \<and>
               (jr_status r = Failed \<longrightarrow> jr_last_error r \<noteq> None))"

definition jobs_ok :: "database \<Rightarrow> bool" where
  "jobs_ok d = (ids_ok jr_id (job_runs d) \<and> list_all row_ok (job_runs d))"

named_theorems job_defs \<open>definitions of the queue's statements\<close>

declare claim_job_run_def [job_defs] complete_job_run_def [job_defs] fail_job_run_def [job_defs]
  reschedule_job_run_def [job_defs] get_due_job_run_def [job_defs] enqueue_job_run_def [job_defs]
  enqueue_job_run_unless_active_def [job_defs] delete_finished_job_runs_def [job_defs]
  delete_old_activity_logs_def [job_defs] list_active_import_job_payloads_def [job_defs]
  get_twitter_sync_def [job_defs] list_comment_fetchers_def [job_defs]
  requeue_stale_running_job_runs_def [job_defs] list_queued_job_runs_by_kind_def [job_defs]
  delete_job_run_def [job_defs] enqueue_def [job_defs] enqueue_unless_active_def [job_defs]
  recover_stale_jobs_def [job_defs]

lemmas rows_defs = claim_rows_def complete_rows_def fail_rows_def reschedule_rows_def
  requeue_stale_rows_def

lemma add_job_simps:
  "fst (add_job r rs) = rs @ [r\<lparr>jr_id := next_rowid (map jr_id rs)\<rparr>]"
  "snd (add_job r rs) = r\<lparr>jr_id := next_rowid (map jr_id rs)\<rparr>"
  by (simp_all add: add_job_def insert_row_def Let_def)

lemma list_all_update_where:
  "list_all P rs \<Longrightarrow> (\<And>r. r \<in> set rs \<Longrightarrow> P r \<Longrightarrow> p r \<Longrightarrow> P (f r)) \<Longrightarrow> list_all P (update_where p f rs)"
  by (auto simp: update_where_def list_all_iff)

lemma jobs_ok_update:
  assumes "jobs_ok d" and "\<And>r. jr_id (f r) = jr_id r"
    and "\<And>r. r \<in> set (job_runs d) \<Longrightarrow> row_ok r \<Longrightarrow> p r \<Longrightarrow> row_ok (f r)"
  shows "jobs_ok (on_jobs (update_where p f) d)"
  using assms by (auto simp: jobs_ok_def intro: jobs_tab.ids_ok_update list_all_update_where)

text \<open>A write to one row by its id: only that row's new value has to be checked.\<close>

lemma jobs_ok_write:
  assumes "jobs_ok d" "by_id jr_id i (job_runs d) = Some r" "\<And>s. jr_id (f s) = jr_id s" "row_ok (f r)"
  shows "jobs_ok (on_jobs (update_where (\<lambda>s. jr_id s = i) f) d)"
proof (rule jobs_ok_update [OF assms(1,3)])
  fix s assume "s \<in> set (job_runs d)" "jr_id s = i"
  with assms(1,2) have "s = r"
    unfolding jobs_ok_def by (metis jobs_tab.by_id_Some jobs_tab.ids_ok_unique)
  with assms(4) show "row_ok (f s)" by simp
qed

lemma jobs_ok_add: "jobs_ok d \<Longrightarrow> row_ok r \<Longrightarrow> jobs_ok (d\<lparr>job_runs := fst (add_job r (job_runs d))\<rparr>)"
  using jobs_tab.ids_ok_insert [of "job_runs d" r]
  by (auto simp: jobs_ok_def add_job_def insert_row_def Let_def row_ok_def active_def)

lemma jobs_ok_delete: "jobs_ok d \<Longrightarrow> jobs_ok (delete_jobs p d)"
  using jobs_tab.ids_ok_delete [of "job_runs d" p]
  by (auto simp: jobs_ok_def delete_jobs_def list_all_iff)

lemma row_ok_new [simp]: "row_ok (new_job kind payload run_at now)"
  by (simp add: row_ok_def new_job_def active_def max_attempts_def)

lemma pres_claim [pres_rules]: "pres jobs_ok (claim_job_run now i)"
  unfolding claim_job_run_def claim_rows_def
  by (rule pres_exec) (auto intro!: jobs_ok_update simp: row_ok_def active_def claimable_def)

lemma pres_enqueue_job_run [pres_rules]: "pres jobs_ok (enqueue_job_run kind payload run_at now)"
  unfolding enqueue_job_run_def
  by (rule pres_exec) (auto simp: Let_def case_prod_beta intro: jobs_ok_add)

lemma pres_enqueue_unless [pres_rules]:
  "pres jobs_ok (enqueue_job_run_unless_active kind payload run_at now)"
  unfolding enqueue_job_run_unless_active_def
  by (rule pres_exec) (auto split: if_splits intro: jobs_ok_add)

lemma pres_enqueue [pres_rules]: "pres jobs_ok (enqueue wake now kind payload run_at)"
  unfolding enqueue_def by (intro pres_rules)

lemma pres_enqueue_unless_active [pres_rules]:
  "pres jobs_ok (enqueue_unless_active wake now kind run_at)"
  unfolding enqueue_unless_active_def by (intro pres_rules)

lemma pres_delete_job_run [pres_rules]: "pres jobs_ok (delete_job_run i)"
  unfolding delete_job_run_def by (rule pres_modify) (rule jobs_ok_delete)

lemma pres_delete_finished [pres_rules]: "pres jobs_ok (delete_finished_job_runs cutoff)"
  unfolding delete_finished_job_runs_def by (rule pres_exec) (auto intro: jobs_ok_delete)

lemma row_ok_requeue: "row_ok r \<Longrightarrow> stale c r \<Longrightarrow> row_ok (requeue_row max_attempts msg now r)"
  by (auto simp: row_ok_def requeue_row_def stale_def active_def)

lemma pres_recover [pres_rules]: "pres jobs_ok (recover_stale_jobs now cutoff)"
  unfolding recover_stale_jobs_def requeue_stale_running_job_runs_def requeue_stale_rows_def
  by (rule pres_exec) (auto intro!: jobs_ok_update row_ok_requeue simp: requeue_row_def)

end
