(* ===== verification/Worker.thy ===== *)
theory Worker
  imports JobQueue
begin

text \<open>
  \<open>internal/jobs/worker.go\<close>: the handler registry, \<open>RunOnce\<close> with its bookkeeping, and the
  drain loop of \<open>Start\<close>. A handler is an action on the world that can also panic; handlers of
  other packages are arguments of the model. What the worker needs of a handler (it keeps the
  queue's invariant and leaves the row of the job it runs alone) is the interface
  \<open>job_handlers\<close>.
\<close>

section \<open>Handlers\<close>

datatype outcome = HReturn "err option" | HPanic string

text \<open>The run id and the payload reach the handler; the registry is Go's \<open>map[string]Handler\<close>.\<close>

type_synonym handler = "int \<Rightarrow> jtext option \<Rightarrow> dbworld \<Rightarrow> outcome \<times> dbworld"

type_synonym registry = "string \<rightharpoonup> handler"

definition register :: "string \<Rightarrow> handler \<Rightarrow> registry \<Rightarrow> registry" where
  "register kind h reg = reg(kind \<mapsto> h)"

text \<open>A handler that never panics, from an action.\<close>

definition handler_of :: "(jtext option \<Rightarrow> unit db_act) \<Rightarrow> handler" where
  "handler_of h i payload w =
     (case h payload w of (Inl e, w') \<Rightarrow> (HReturn (Some e), w') | (Inr _, w') \<Rightarrow> (HReturn None, w'))"

text \<open>\<open>run\<close>: a panic becomes an error.\<close>

definition run_handler :: "handler \<Rightarrow> int \<Rightarrow> jtext option \<Rightarrow> unit db_act" where
  "run_handler h i payload w =
     (case h i payload w of
        (HReturn None, w') \<Rightarrow> (Inr (), w')
      | (HReturn (Some e), w') \<Rightarrow> (Inl e, w')
      | (HPanic s, w') \<Rightarrow> (Inl (ErrText (''panic: '' @ s)), w'))"

section \<open>RunOnce\<close>

definition backoff :: "int list" where
  "backoff = [30, 60, 300, 900, 3600]"

definition backoff_delay :: "int \<Rightarrow> int" where
  "backoff_delay attempts = backoff ! min (nat attempts) (length backoff - 1)"

definition go_quote :: "string \<Rightarrow> string" where
  "go_quote s = [CHR 0x22] @ concat (map (\<lambda>c. if c = CHR 0x22 \<or> c = CHR 0x5C then [CHR 0x5C, c] else [c]) s) @ [CHR 0x22]"

text \<open>
  What one call of \<open>RunOnce\<close> takes from its environment: the clock at its start and inside
  \<open>fail\<close>, and whether the worker's own context is cancelled when the handler has returned.
\<close>

record run_env =
  env_now :: int
  env_fail_now :: int
  env_cancelled :: bool

definition err_opt :: "err + 'a \<Rightarrow> err option" where
  "err_opt r = (case r of Inl e \<Rightarrow> Some e | Inr _ \<Rightarrow> None)"

definition fail_job :: "int \<Rightarrow> int \<Rightarrow> int \<Rightarrow> err \<Rightarrow> unit db_act" where
  "fail_job fail_now i attempts cause = fail_job_run attempts (err_text cause) fail_now i"

text \<open>The bookkeeping after the handler of job \<open>job\<close> has returned \<open>r\<close>.\<close>

definition bookkeep :: "run_env \<Rightarrow> job_run \<Rightarrow> err + unit \<Rightarrow> unit db_act" where
  "bookkeep env job r =
     (case r of
        Inr _ \<Rightarrow> complete_job_run (env_now env) (jr_id job)
      | Inl e \<Rightarrow>
          if env_cancelled env \<and> error_is e ErrCanceled
          then reschedule_job_run (jr_attempts job) (env_now env) (err_text e) (env_now env) (jr_id job)
          else let attempts = jr_attempts job + 1 in
               if max_attempts \<le> attempts then fail_job (env_fail_now env) (jr_id job) attempts e
               else reschedule_job_run attempts (env_now env + backoff_delay (jr_attempts job))
                      (err_text e) (env_now env) (jr_id job))"

text \<open>The part of \<open>RunOnce\<close> that follows a successful claim.\<close>

definition execute_claimed :: "registry \<Rightarrow> run_env \<Rightarrow> job_run \<Rightarrow> unit db_act" where
  "execute_claimed reg env job =
     (case reg (jr_kind job) of
        None \<Rightarrow> fail_job (env_fail_now env) (jr_id job) (jr_attempts job)
                  (ErrText (''unknown job kind '' @ go_quote (jr_kind job)))
      | Some h \<Rightarrow> bindE (attempt (run_handler h (jr_id job) (jr_payload job))) (bookkeep env job))"

text \<open>\<open>(claimed, err)\<close>: both results of the Go function.\<close>

definition run_once :: "registry \<Rightarrow> run_env \<Rightarrow> dbworld \<Rightarrow> (bool \<times> err option) \<times> dbworld" where
  "run_once reg env w =
     (case get_due_job_run (env_now env) w of
        (Inl e, w1) \<Rightarrow>
          ((False, if error_is e ErrNoRows then None else Some (ErrWrap ''get due job'' e)), w1)
      | (Inr job, w1) \<Rightarrow>
          (case claim_job_run (env_now env) (jr_id job) w1 of
             (Inl e, w2) \<Rightarrow> ((False, Some (ErrWrap (''claim job '' @ dec_int (jr_id job)) e)), w2)
           | (Inr n, w2) \<Rightarrow>
               if n = 0 then ((False, None), w2)
               else (case execute_claimed reg env job w2 of (r, w3) \<Rightarrow> ((True, err_opt r), w3))))"

section \<open>The drain loop\<close>

text \<open>
  One wakeup of \<open>Start\<close>: \<open>RunOnce\<close> until nothing was claimed or the context is cancelled. The
  environment is a list with one entry per round (its \<open>run_env\<close> and the value of
  \<open>ctx.Err() != nil\<close> the loop reads after the round); \<open>None\<close> means that the loop is still
  running when the list ends.
\<close>

fun drain :: "registry \<Rightarrow> (run_env \<times> bool) list \<Rightarrow> dbworld \<Rightarrow> (nat \<times> dbworld) option" where
  "drain reg [] w = None"
| "drain reg ((env, stop) # envs) w =
     (case run_once reg env w of
        ((claimed, _), w') \<Rightarrow>
          if \<not> claimed \<or> stop then Some (if claimed then 1 else 0, w')
          else (case drain reg envs w' of None \<Rightarrow> None | Some (n, w'') \<Rightarrow> Some (Suc n, w'')))"

text \<open>The wake channel of capacity one: nudges coalesce while one is pending.\<close>

definition wake_up :: "bool \<Rightarrow> bool" where
  "wake_up pending = True"

section \<open>The interface to the handlers\<close>

definition running_row :: "int \<Rightarrow> database \<Rightarrow> job_run option" where
  "running_row i d = (case by_id jr_id i (job_runs d) of
     None \<Rightarrow> None | Some r \<Rightarrow> if jr_status r = Running then Some r else None)"

locale job_handlers =
  fixes reg :: registry
  assumes keeps_queue:
    "reg kind = Some h \<Longrightarrow> jobs_ok (wdb w) \<Longrightarrow> jobs_ok (wdb (snd (h i payload w)))"
    and keeps_running_row:
    "reg kind = Some h \<Longrightarrow> jobs_ok (wdb w) \<Longrightarrow> running_row i (wdb w) = Some r \<Longrightarrow>
       running_row i (wdb (snd (h i payload w))) = Some r"
begin

lemma run_handler_keeps:
  assumes "reg kind = Some h" "jobs_ok (wdb w)" "running_row i (wdb w) = Some r"
    and "run_handler h i payload w = (res, w')"
  shows "jobs_ok (wdb w') \<and> running_row i (wdb w') = Some r"
proof -
  have "w' = snd (h i payload w)"
    using assms(4) by (auto simp: run_handler_def split: prod.splits outcome.splits option.splits)
  with assms keeps_queue keeps_running_row show ?thesis by blast
qed

end

section \<open>What the bookkeeping does to the row\<close>

lemma claimed_row:
  assumes "jobs_ok (wdb w)" "claim_job_run now i w = (Inr n, w')" "n \<noteq> 0"
  obtains r where "by_id jr_id i (job_runs (wdb w)) = Some r" "jr_status r = Queued" "n = 1"
    "running_row i (wdb w') = Some (r\<lparr>jr_status := Running, jr_updated_at := now\<rparr>)"
proof -
  from assms(2) have n: "n = count_where (claimable i) (job_runs (wdb w))"
    and d: "wdb w' = on_jobs (claim_rows now i) (wdb w)"
    unfolding claim_job_run_def by (auto dest: exec_ok)
  from assms(1) have ok: "ids_ok jr_id (job_runs (wdb w))" by (simp add: jobs_ok_def)
  have c: "n = (case by_id jr_id i (job_runs (wdb w)) of None \<Rightarrow> 0 | Some r \<Rightarrow> if jr_status r = Queued then 1 else 0)"
    using jobs_tab.count_by_id [OF ok, of i "\<lambda>r. jr_status r = Queued"] n
    by (simp add: claimable_def [abs_def])
  with assms(3) obtain r where r: "by_id jr_id i (job_runs (wdb w)) = Some r" "jr_status r = Queued" "n = 1"
    by (auto split: option.splits if_splits)
  then have "jr_id r = i" by (auto dest: jobs_tab.by_id_Some)
  with r d have "running_row i (wdb w') = Some (r\<lparr>jr_status := Running, jr_updated_at := now\<rparr>)"
    by (simp add: running_row_def claim_rows_def jobs_tab.by_id_update claimable_def)
  with r that show thesis by blast
qed

text \<open>The bookkeeping is one statement on the row of the job.\<close>

definition bookkept_row :: "run_env \<Rightarrow> job_run \<Rightarrow> err + unit \<Rightarrow> job_run \<Rightarrow> job_run" where
  "bookkept_row env job res r =
     (case res of
        Inr _ \<Rightarrow> r\<lparr>jr_status := Done, jr_last_error := None, jr_updated_at := env_now env\<rparr>
      | Inl e \<Rightarrow>
          if env_cancelled env \<and> error_is e ErrCanceled
          then r\<lparr>jr_status := Queued, jr_attempts := jr_attempts job, jr_run_at := env_now env,
                 jr_last_error := Some (err_text e), jr_updated_at := env_now env\<rparr>
          else if max_attempts \<le> jr_attempts job + 1
          then r\<lparr>jr_status := Failed, jr_attempts := jr_attempts job + 1,
                 jr_last_error := Some (err_text e), jr_updated_at := env_fail_now env\<rparr>
          else r\<lparr>jr_status := Queued, jr_attempts := jr_attempts job + 1,
                 jr_run_at := env_now env + backoff_delay (jr_attempts job),
                 jr_last_error := Some (err_text e), jr_updated_at := env_now env\<rparr>)"

lemma bookkeep_is_write:
  "bookkeep env job res =
     modify (on_jobs (update_where (\<lambda>r. jr_id r = jr_id job) (bookkept_row env job res)))"
  by (cases res)
    (auto simp: bookkeep_def complete_job_run_def complete_rows_def reschedule_job_run_def
      reschedule_rows_def fail_job_def fail_job_run_def fail_rows_def bookkept_row_def [abs_def] Let_def)

lemma bookkept_row_id [simp]: "jr_id (bookkept_row env job res r) = jr_id r"
  by (simp add: bookkept_row_def split: sum.splits)

lemma bookkept_row_ok:
  "row_ok r \<Longrightarrow> jr_status r \<noteq> Failed \<Longrightarrow> jr_attempts r = jr_attempts job \<Longrightarrow>
   row_ok (bookkept_row env job res r)"
  by (auto simp: bookkept_row_def row_ok_def split: sum.splits)

lemma running_row_Some:
  "running_row i d = Some r \<longleftrightarrow> by_id jr_id i (job_runs d) = Some r \<and> jr_status r = Running"
  by (auto simp: running_row_def split: option.splits if_splits)

lemma jobs_ok_row: "jobs_ok d \<Longrightarrow> by_id jr_id i (job_runs d) = Some r \<Longrightarrow> row_ok r \<and> jr_id r = i"
  using jobs_tab.by_id_Some [of i "job_runs d" r] by (auto simp: jobs_ok_def list_all_iff)

text \<open>Statements on other rows leave a running row alone.\<close>

lemma running_row_update:
  "(\<And>r. jr_id (f r) = jr_id r) \<Longrightarrow> running_row i d = Some q \<Longrightarrow> \<not> p q \<Longrightarrow>
   running_row i (on_jobs (update_where p f) d) = Some q"
  by (simp add: running_row_Some jobs_tab.by_id_update)

lemma running_row_delete:
  "jobs_ok d \<Longrightarrow> running_row i d = Some q \<Longrightarrow> \<not> p q \<Longrightarrow> running_row i (delete_jobs p d) = Some q"
  by (simp add: running_row_Some delete_jobs_def jobs_ok_def jobs_tab.by_id_delete)

lemma running_row_add:
  assumes "running_row i d = Some q"
  shows "running_row i (d\<lparr>job_runs := fst (add_job r (job_runs d))\<rparr>) = Some q"
proof -
  have "i \<in> jr_id ` set (job_runs d)"
    using assms by (auto simp: running_row_Some dest: jobs_tab.by_id_Some)
  then have "i \<noteq> jr_id (snd (add_job r (job_runs d)))"
    unfolding add_job_def using jobs_tab.insert_row_fresh [of r "job_runs d"] by metis
  with assms show ?thesis
    by (simp add: running_row_Some add_job_def jobs_tab.by_id_insert)
qed

lemma bookkeep_pres:
  assumes ok: "jobs_ok (wdb w)" and row: "running_row (jr_id job) (wdb w) = Some r"
    and "jr_attempts r = jr_attempts job"
  shows "jobs_ok (wdb (snd (bookkeep env job res w)))"
proof -
  have r: "by_id jr_id (jr_id job) (job_runs (wdb w)) = Some r" "jr_status r = Running"
    using row by (simp_all add: running_row_Some)
  with ok have "row_ok r" by (blast dest: jobs_ok_row)
  with r(2) assms(3) have "row_ok (bookkept_row env job res r)" by (intro bookkept_row_ok) auto
  then have "jobs_ok (on_jobs (update_where (\<lambda>r. jr_id r = jr_id job) (bookkept_row env job res)) (wdb w))"
    by (rule jobs_ok_write [OF ok r(1) bookkept_row_id])
  with ok show ?thesis
    using modify_outcomes [of "on_jobs (update_where (\<lambda>r. jr_id r = jr_id job) (bookkept_row env job res))" w]
    unfolding bookkeep_is_write by auto
qed

text \<open>The row of the job after its bookkeeping statement went through.\<close>

lemma bookkept:
  assumes "bookkeep env job res w = (Inr u, w')"
    and "by_id jr_id (jr_id job) (job_runs (wdb w)) = Some r"
  shows "by_id jr_id (jr_id job) (job_runs (wdb w')) = Some (bookkept_row env job res r)"
proof -
  have "jr_id r = jr_id job" using assms(2) by (auto dest: jobs_tab.by_id_Some)
  moreover have "wdb w' = on_jobs (update_where (\<lambda>r. jr_id r = jr_id job) (bookkept_row env job res)) (wdb w)"
    using assms(1) unfolding bookkeep_is_write by (rule modify_ok)
  ultimately show ?thesis using assms(2) by (simp add: jobs_tab.by_id_update)
qed

section \<open>RunOnce over well-behaved handlers\<close>

lemma due_job:
  assumes "get_due_job_run now w = (Inr job, w1)"
  shows "wdb w1 = wdb w \<and> job \<in> set (job_runs (wdb w)) \<and> due now job \<and>
    (\<forall>r \<in> set (job_runs (wdb w)). due now r \<longrightarrow> jr_run_at job \<le> jr_run_at r)"
  using query_row_ok [OF assms [unfolded get_due_job_run_def]]
  by (auto simp: due_row_def dest!: first_min_Some)

lemma claim_none: "claim_job_run now i w = (Inr 0, w') \<Longrightarrow> wdb w' = wdb w"
proof -
  assume "claim_job_run now i w = (Inr 0, w')"
  then have w': "wdb w' = on_jobs (claim_rows now i) (wdb w)"
    and "count_where (claimable i) (job_runs (wdb w)) = 0"
    unfolding claim_job_run_def by (auto dest: exec_ok)
  then have "claim_rows now i (job_runs (wdb w)) = job_runs (wdb w)"
    unfolding claim_rows_def by (intro update_where_none) (simp add: count_where_zero)
  with w' show ?thesis by simp
qed

lemma claim_error: "claim_job_run now i w = (Inl e, w') \<Longrightarrow> wdb w' = wdb w"
  unfolding claim_job_run_def by (rule exec_error_keeps)

lemma run_once_cases:
  assumes "run_once reg env w = (res, w')"
  obtains (idle) "fst res = False" "wdb w' = wdb w"
  | (ran) job w1 n w2 r where "get_due_job_run (env_now env) w = (Inr job, w1)"
      "claim_job_run (env_now env) (jr_id job) w1 = (Inr n, w2)" "n \<noteq> 0"
      "execute_claimed reg env job w2 = (r, w')" "res = (True, err_opt r)"
proof (cases "get_due_job_run (env_now env) w")
  case (Pair q w1)
  note due = this
  show thesis
  proof (cases q)
    case (Inl e)
    with due assms have "fst res = False" "w' = w1" by (auto simp: run_once_def)
    moreover have "wdb w1 = wdb w"
      using query_row_keeps [of "\<lambda>d. due_row (env_now env) (job_runs d)" w] due
      by (simp add: get_due_job_run_def)
    ultimately show thesis using idle by simp
  next
    case (Inr job)
    with due have due': "get_due_job_run (env_now env) w = (Inr job, w1)" by simp
    then have w1: "wdb w1 = wdb w" by (auto dest: due_job)
    obtain c w2 where claim: "claim_job_run (env_now env) (jr_id job) w1 = (c, w2)" by fastforce
    show thesis
    proof (cases c)
      case (Inl e)
      with due' claim assms have "fst res = False" "w' = w2" by (auto simp: run_once_def)
      with claim Inl w1 show thesis by (intro idle) (auto dest: claim_error)
    next
      case (Inr n)
      show thesis
      proof (cases "n = 0")
        case True
        with due' claim Inr assms have "fst res = False" "w' = w2" by (auto simp: run_once_def)
        with claim Inr True w1 show thesis by (intro idle) (auto dest: claim_none)
      next
        case False
        obtain r w3 where "execute_claimed reg env job w2 = (r, w3)" by fastforce
        with due' claim Inr False assms show thesis by (intro ran) (auto simp: run_once_def)
      qed
    qed
  qed
qed

text \<open>The state a claimed job is in when its handler starts: its own row, now running.\<close>

lemma claimed_job:
  assumes "jobs_ok (wdb w)" "get_due_job_run now w = (Inr job, w1)"
    and "claim_job_run now (jr_id job) w1 = (Inr n, w2)" "n \<noteq> 0"
  shows "jobs_ok (wdb w2) \<and>
    running_row (jr_id job) (wdb w2) = Some (job\<lparr>jr_status := Running, jr_updated_at := now\<rparr>)"
proof -
  from assms(2) have job: "wdb w1 = wdb w" "job \<in> set (job_runs (wdb w))" by (auto dest: due_job)
  with assms(1) have "by_id jr_id (jr_id job) (job_runs (wdb w1)) = Some job"
    by (simp add: jobs_ok_def jobs_tab.by_id_eq)
  moreover have ok1: "jobs_ok (wdb w1)" using assms(1) job by simp
  ultimately have "running_row (jr_id job) (wdb w2) = Some (job\<lparr>jr_status := Running, jr_updated_at := now\<rparr>)"
    using claimed_row [OF ok1 assms(3,4)] by (metis option.inject)
  moreover have "jobs_ok (wdb w2)"
    using pres_claim ok1 assms(3) by (rule presD)
  ultimately show ?thesis by simp
qed

lemma fail_job_write:
  "fail_job now i a e = modify (on_jobs (update_where (\<lambda>r. jr_id r = i)
     (\<lambda>r. r\<lparr>jr_status := Failed, jr_attempts := a, jr_last_error := Some (err_text e), jr_updated_at := now\<rparr>)))"
  by (simp add: fail_job_def fail_job_run_def fail_rows_def)

text \<open>
  What one round may make of a claimed job: done; back in the queue uncounted because the process is
  shutting down; back in the queue with one more attempt, an error and its backoff; or failed, with the
  attempt budget used up or for want of a handler.
\<close>

definition settled :: "registry \<Rightarrow> run_env \<Rightarrow> job_run \<Rightarrow> job_run \<Rightarrow> bool" where
  "settled reg env job r =
    (jr_status r = Done \<and> jr_attempts r = jr_attempts job \<and> jr_last_error r = None
     \<or> jr_status r = Queued \<and> env_cancelled env \<and> jr_attempts r = jr_attempts job \<and> jr_run_at r = env_now env
     \<or> jr_status r = Queued \<and> jr_attempts r = jr_attempts job + 1 \<and> jr_attempts r < max_attempts
         \<and> jr_run_at r = env_now env + backoff_delay (jr_attempts job) \<and> jr_last_error r \<noteq> None
     \<or> jr_status r = Failed \<and> jr_last_error r \<noteq> None
         \<and> (jr_attempts r = max_attempts \<or> reg (jr_kind job) = None \<and> jr_attempts r = jr_attempts job))"

context job_handlers
begin

lemma execute_pres:
  assumes ok: "jobs_ok (wdb w)" and row: "running_row (jr_id job) (wdb w) = Some r"
    and att: "jr_attempts r = jr_attempts job"
    and run: "execute_claimed reg env job w = (res, w')"
  shows "jobs_ok (wdb w')"
proof (cases "reg (jr_kind job)")
  case None
  have found: "by_id jr_id (jr_id job) (job_runs (wdb w)) = Some r"
    using row by (simp add: running_row_Some)
  with ok have "row_ok r" by (blast dest: jobs_ok_row)
  with ok found att have "jobs_ok (on_jobs (update_where (\<lambda>r. jr_id r = jr_id job)
      (\<lambda>r. r\<lparr>jr_status := Failed, jr_attempts := jr_attempts job, jr_last_error := Some msg,
             jr_updated_at := env_fail_now env\<rparr>)) (wdb w))" for msg
    by (rule_tac jobs_ok_write) (auto simp: row_ok_def)
  then show ?thesis
    using run None unfolding execute_claimed_def fail_job_write
    by (simp add: modify_either [where I = jobs_ok, OF _ ok])
next
  case (Some h)
  obtain hr w1 where h: "run_handler h (jr_id job) (jr_payload job) w = (hr, w1)" by fastforce
  with Some ok row have w1: "jobs_ok (wdb w1)" "running_row (jr_id job) (wdb w1) = Some r"
    using run_handler_keeps by blast+
  with run Some h have "bookkeep env job hr w1 = (res, w')"
    by (simp add: execute_claimed_def bindE_run attempt_run)
  with bookkeep_pres [OF w1 att, of env hr] show ?thesis by simp
qed

lemma run_once_pres:
  assumes "jobs_ok (wdb w)" "run_once reg env w = (res, w')"
  shows "jobs_ok (wdb w')"
  using assms(2)
proof (cases rule: run_once_cases)
  case idle
  with assms(1) show ?thesis by simp
next
  case (ran job w1 n w2 r)
  note c = claimed_job [OF assms(1) ran(1,2,3)]
  show ?thesis
    by (rule execute_pres [OF conjunct1 [OF c] conjunct2 [OF c] _ ran(4)]) simp
qed

text \<open>
  A round that claimed a job and reports no infrastructure error has moved exactly that job: the
  oldest due one, to the state its handler's result calls for.
\<close>

lemma run_once_row:
  assumes ok: "jobs_ok (wdb w)" and run: "run_once reg env w = ((True, None), w')"
  obtains job r where "job \<in> set (job_runs (wdb w))" "due (env_now env) job"
    "\<forall>s \<in> set (job_runs (wdb w)). due (env_now env) s \<longrightarrow> jr_run_at job \<le> jr_run_at s"
    "by_id jr_id (jr_id job) (job_runs (wdb w')) = Some r"
    "jr_kind r = jr_kind job" "jr_payload r = jr_payload job" "settled reg env job r"
  using run
proof (cases rule: run_once_cases)
  case idle
  then show thesis by simp
next
  case (ran job w1 n w2 res)
  define cl where "cl = job\<lparr>jr_status := Running, jr_updated_at := env_now env\<rparr>"
  note job = due_job [OF ran(1)]
  have c: "jobs_ok (wdb w2)" "running_row (jr_id job) (wdb w2) = Some cl"
    using claimed_job [OF ok ran(1,2,3)] by (simp_all add: cl_def)
  have att: "jr_attempts job + 1 \<le> max_attempts"
    using c by (auto simp: running_row_Some cl_def row_ok_def dest!: jobs_ok_row)
  have exec: "execute_claimed reg env job w2 = (Inr (), w')"
    using ran(4,5) by (cases res) (auto simp: err_opt_def)
  show thesis
  proof (cases "reg (jr_kind job)")
    case None
    let ?f = "\<lambda>r. r\<lparr>jr_status := Failed, jr_attempts := jr_attempts job,
      jr_last_error := Some (err_text (ErrText (''unknown job kind '' @ go_quote (jr_kind job)))),
      jr_updated_at := env_fail_now env\<rparr>"
    have "wdb w' = on_jobs (update_where (\<lambda>r. jr_id r = jr_id job) ?f) (wdb w2)"
      using exec None unfolding execute_claimed_def fail_job_write by (simp add: modify_ok)
    then have "by_id jr_id (jr_id job) (job_runs (wdb w')) = Some (?f cl)"
      using c(2) by (simp add: running_row_Some jobs_tab.by_id_update cl_def)
    with job None show thesis by (intro that [of job "?f cl"]) (auto simp: cl_def settled_def)
  next
    case (Some h)
    obtain hr w3 where h: "run_handler h (jr_id job) (jr_payload job) w2 = (hr, w3)" by fastforce
    have w3: "running_row (jr_id job) (wdb w3) = Some cl"
      using run_handler_keeps [OF Some c h] by simp
    have "bookkeep env job hr w3 = (Inr (), w')"
      using exec Some h by (simp add: execute_claimed_def bindE_run attempt_run)
    from bookkept [OF this] w3
    have "by_id jr_id (jr_id job) (job_runs (wdb w')) = Some (bookkept_row env job hr cl)"
      by (simp add: running_row_Some)
    with job att show thesis
      by (intro that [of job "bookkept_row env job hr cl"])
        (auto simp: cl_def bookkept_row_def settled_def split: sum.splits)
  qed
qed

end

end
