(* ===== verification/WorkerFleet.thy ===== *)
theory WorkerFleet
  imports Worker
begin

text \<open>
  The queue under concurrency: any number of workers (the old and the new process of a rolling
  deploy), the request handlers that enqueue and cancel jobs, the scheduler's prune and the startup
  recovery, interleaved between their SQL statements. \<open>RunOnce\<close> is three steps (select, claim,
  bookkeeping) with the snapshot of the selected row carried from one to the next, as in
  \<open>worker.go\<close>. The steps use the row functions of \<open>JobQueue\<close> and \<open>Worker\<close>.
\<close>

section \<open>States and steps\<close>

datatype wpc = Idle | Chosen job_run | Executing job_run

record fleet =
  fl_db :: database
  fl_pc :: "nat \<Rightarrow> wpc"

definition fleet_init :: "database \<Rightarrow> fleet" where
  "fleet_init d = \<lparr>fl_db = d, fl_pc = (\<lambda>_. Idle)\<rparr>"

definition write_job :: "int \<Rightarrow> (job_run \<Rightarrow> job_run) \<Rightarrow> database \<Rightarrow> database" where
  "write_job i f d = on_jobs (update_where (\<lambda>r. jr_id r = i) f) d"

definition unknown_kind_row :: "int \<Rightarrow> job_run \<Rightarrow> job_run \<Rightarrow> job_run" where
  "unknown_kind_row now job r =
     r\<lparr>jr_status := Failed, jr_attempts := jr_attempts job,
       jr_last_error := Some (err_text (ErrText (''unknown job kind '' @ go_quote (jr_kind job)))),
       jr_updated_at := now\<rparr>"

text \<open>
  The recovery's cutoff protects the jobs in execution: the operating assumption of
  \<open>recover.go\<close> (a live process has claimed its job after the cutoff).
\<close>

definition protects :: "int \<Rightarrow> fleet \<Rightarrow> bool" where
  "protects cutoff s \<longleftrightarrow>
     (\<forall>k job. fl_pc s k = Executing job \<longrightarrow>
        (\<forall>r. by_id jr_id (jr_id job) (job_runs (fl_db s)) = Some r \<longrightarrow> cutoff \<le> jr_updated_at r))"

inductive fleet_step :: "fleet \<Rightarrow> fleet \<Rightarrow> bool" where
  choose: "fl_pc s k = Idle \<Longrightarrow> due_row now (job_runs (fl_db s)) = Some job \<Longrightarrow>
     fleet_step s (s\<lparr>fl_pc := (fl_pc s)(k := Chosen job)\<rparr>)"
| claim: "fl_pc s k = Chosen job \<Longrightarrow> count_where (claimable (jr_id job)) (job_runs (fl_db s)) \<noteq> 0 \<Longrightarrow>
     fleet_step s (s\<lparr>fl_db := on_jobs (claim_rows now (jr_id job)) (fl_db s),
                     fl_pc := (fl_pc s)(k := Executing job)\<rparr>)"
| lose: "fl_pc s k = Chosen job \<Longrightarrow> count_where (claimable (jr_id job)) (job_runs (fl_db s)) = 0 \<Longrightarrow>
     fleet_step s (s\<lparr>fl_pc := (fl_pc s)(k := Idle)\<rparr>)"
| finish: "fl_pc s k = Executing job \<Longrightarrow>
     fleet_step s (s\<lparr>fl_db := write_job (jr_id job) (bookkept_row env job res) (fl_db s),
                     fl_pc := (fl_pc s)(k := Idle)\<rparr>)"
| no_handler: "fl_pc s k = Executing job \<Longrightarrow>
     fleet_step s (s\<lparr>fl_db := write_job (jr_id job) (unknown_kind_row now job) (fl_db s),
                     fl_pc := (fl_pc s)(k := Idle)\<rparr>)"
| crash: "fleet_step s (s\<lparr>fl_pc := (fl_pc s)(k := Idle)\<rparr>)"
| enqueue: "fleet_step s
     (s\<lparr>fl_db := (fl_db s)\<lparr>job_runs := fst (add_job (new_job kind payload run_at now) (job_runs (fl_db s)))\<rparr>\<rparr>)"
| cancel: "by_id jr_id i (job_runs (fl_db s)) = Some r \<Longrightarrow> jr_status r = Queued \<Longrightarrow>
     fleet_step s (s\<lparr>fl_db := delete_jobs (\<lambda>r. jr_id r = i) (fl_db s)\<rparr>)"
| prune: "fleet_step s (s\<lparr>fl_db := delete_jobs (finished_before cutoff) (fl_db s)\<rparr>)"
| recover: "protects cutoff s \<Longrightarrow>
     fleet_step s (s\<lparr>fl_db := on_jobs (requeue_stale_rows max_attempts crash_error now cutoff) (fl_db s)\<rparr>)"

inductive fleet_reachable :: "database \<Rightarrow> fleet \<Rightarrow> bool" for d where
  start: "fleet_reachable d (fleet_init d)"
| step: "fleet_reachable d s \<Longrightarrow> fleet_step s t \<Longrightarrow> fleet_reachable d t"

section \<open>The invariant\<close>

text \<open>
  A worker executes a row that is running, no two workers the same one, and the snapshots that
  workers carry have attempts left.
\<close>

definition snapshot_ok :: "wpc \<Rightarrow> bool" where
  "snapshot_ok p = (case p of Idle \<Rightarrow> True
     | Chosen j \<Rightarrow> 0 \<le> jr_attempts j \<and> jr_attempts j < max_attempts
     | Executing j \<Rightarrow> 0 \<le> jr_attempts j \<and> jr_attempts j < max_attempts)"

definition executes :: "fleet \<Rightarrow> nat \<Rightarrow> int \<Rightarrow> bool" where
  "executes s k i \<longleftrightarrow> (\<exists>job. fl_pc s k = Executing job \<and> jr_id job = i)"

definition fleet_inv :: "fleet \<Rightarrow> bool" where
  "fleet_inv s \<longleftrightarrow> jobs_ok (fl_db s) \<and> (\<forall>k. snapshot_ok (fl_pc s k)) \<and>
     (\<forall>k i. executes s k i \<longrightarrow> running_row i (fl_db s) \<noteq> None) \<and>
     (\<forall>k l i. executes s k i \<longrightarrow> executes s l i \<longrightarrow> k = l)"

lemma fleet_invI:
  assumes "jobs_ok (fl_db s)" "\<And>k. snapshot_ok (fl_pc s k)"
    and "\<And>k i. executes s k i \<Longrightarrow> running_row i (fl_db s) \<noteq> None"
    and "\<And>k l i. executes s k i \<Longrightarrow> executes s l i \<Longrightarrow> k = l"
  shows "fleet_inv s"
  using assms by (auto simp: fleet_inv_def)

lemma executes_upd [simp]:
  "executes (s\<lparr>fl_pc := (fl_pc s)(k := p)\<rparr>) l i \<longleftrightarrow>
     (if l = k then (\<exists>job. p = Executing job \<and> jr_id job = i) else executes s l i)"
  by (auto simp: executes_def)

lemma executes_db [simp]: "executes (s\<lparr>fl_db := d\<rparr>) l i \<longleftrightarrow> executes s l i"
  by (simp add: executes_def)

lemma executes_both [simp]:
  "executes (s\<lparr>fl_db := d, fl_pc := (fl_pc s)(k := p)\<rparr>) l i \<longleftrightarrow>
     (if l = k then (\<exists>job. p = Executing job \<and> jr_id job = i) else executes s l i)"
  by (auto simp: executes_def)

text \<open>Changing the database only: what is executed must stay running.\<close>

lemma fleet_inv_db:
  assumes "fleet_inv s" "jobs_ok d"
    and "\<And>k i r. executes s k i \<Longrightarrow> running_row i (fl_db s) = Some r \<Longrightarrow> running_row i d \<noteq> None"
  shows "fleet_inv (s\<lparr>fl_db := d\<rparr>)"
proof (rule fleet_invI)
  show "running_row i (fl_db (s\<lparr>fl_db := d\<rparr>)) \<noteq> None" if "executes (s\<lparr>fl_db := d\<rparr>) k i" for k i
    using assms(1,3) that unfolding fleet_inv_def by fastforce
qed (use assms in \<open>auto simp: fleet_inv_def\<close>)

text \<open>A worker going idle keeps the invariant, also when it writes the row it executed.\<close>

lemma fleet_inv_idle: "fleet_inv s \<Longrightarrow> fleet_inv (s\<lparr>fl_pc := (fl_pc s)(k := Idle)\<rparr>)"
  by (rule fleet_invI) (auto simp: fleet_inv_def snapshot_ok_def split: if_splits)

lemma fleet_inv_finish:
  assumes inv: "fleet_inv s" and k: "fl_pc s k = Executing job"
    and f: "\<And>r. jr_id (f r) = jr_id r" "\<And>r. row_ok r \<Longrightarrow> jr_status r = Running \<Longrightarrow> row_ok (f r)"
  shows "fleet_inv (s\<lparr>fl_db := write_job (jr_id job) f (fl_db s), fl_pc := (fl_pc s)(k := Idle)\<rparr>)"
proof (rule fleet_invI)
  have ex: "executes s k (jr_id job)" using k by (auto simp: executes_def)
  with inv obtain r where "running_row (jr_id job) (fl_db s) = Some r"
    unfolding fleet_inv_def by blast
  then have r: "by_id jr_id (jr_id job) (job_runs (fl_db s)) = Some r" "jr_status r = Running"
    by (simp_all add: running_row_Some)
  from inv have ok: "jobs_ok (fl_db s)" by (simp add: fleet_inv_def)
  with r have "row_ok r" by (blast dest: jobs_ok_row)
  with r(2) f(2) have "row_ok (f r)" by blast
  then have "jobs_ok (on_jobs (update_where (\<lambda>r. jr_id r = jr_id job) f) (fl_db s))"
    by (rule jobs_ok_write [OF ok r(1) f(1)])
  then show "jobs_ok (fl_db (s\<lparr>fl_db := write_job (jr_id job) f (fl_db s), fl_pc := (fl_pc s)(k := Idle)\<rparr>))"
    by (simp add: write_job_def)
  fix l i
  assume "executes (s\<lparr>fl_db := write_job (jr_id job) f (fl_db s), fl_pc := (fl_pc s)(k := Idle)\<rparr>) l i"
  then have l: "l \<noteq> k" "executes s l i" by (auto split: if_splits)
  with inv ex have "i \<noteq> jr_id job" unfolding fleet_inv_def by blast
  moreover obtain q where "running_row i (fl_db s) = Some q"
    using inv l unfolding fleet_inv_def by blast
  moreover from this have "jr_id q = i" by (auto simp: running_row_Some dest: jobs_tab.by_id_Some)
  ultimately have "running_row i (write_job (jr_id job) f (fl_db s)) = Some q"
    unfolding write_job_def by (intro running_row_update f(1)) auto
  then show "running_row i (fl_db (s\<lparr>fl_db := write_job (jr_id job) f (fl_db s),
      fl_pc := (fl_pc s)(k := Idle)\<rparr>)) \<noteq> None"
    by simp
qed (use inv in \<open>auto simp: fleet_inv_def snapshot_ok_def split: if_splits\<close>)

lemma fleet_inv_claim:
  assumes inv: "fleet_inv s" and k: "fl_pc s k = Chosen job"
    and n: "count_where (claimable (jr_id job)) (job_runs (fl_db s)) \<noteq> 0"
  shows "fleet_inv (s\<lparr>fl_db := on_jobs (claim_rows now (jr_id job)) (fl_db s),
                     fl_pc := (fl_pc s)(k := Executing job)\<rparr>)"
    (is "fleet_inv ?t")
proof (rule fleet_invI)
  let ?w = "\<lparr>wdb = fl_db s, wfaults = []\<rparr>"
  let ?d = "on_jobs (claim_rows now (jr_id job)) (fl_db s)"
  from inv have ok: "jobs_ok (wdb ?w)" by (simp add: fleet_inv_def)
  have run: "claim_job_run now (jr_id job) ?w =
      (Inr (count_where (claimable (jr_id job)) (job_runs (fl_db s))), ?w\<lparr>wdb := ?d\<rparr>)"
    by (simp add: claim_job_run_def exec_run)
  from presD [OF pres_claim ok run] show "jobs_ok (fl_db ?t)" by simp
  obtain r where r: "by_id jr_id (jr_id job) (job_runs (fl_db s)) = Some r" "jr_status r = Queued"
    and run': "running_row (jr_id job) ?d \<noteq> None"
    by (rule claimed_row [OF ok run n]) auto
  have free: "\<not> executes s l (jr_id job)" for l
    using inv r by (fastforce simp: fleet_inv_def running_row_def)
  show "snapshot_ok (fl_pc ?t l)" for l
    using inv k unfolding fleet_inv_def snapshot_ok_def by (auto split: wpc.splits)
  show "running_row i (fl_db ?t) \<noteq> None" if "executes ?t l i" for l i
  proof (cases "i = jr_id job")
    case True
    with run' show ?thesis by simp
  next
    case False
    with that have "executes s l i" by (auto split: if_splits)
    with inv obtain q where "running_row i (fl_db s) = Some q" unfolding fleet_inv_def by blast
    moreover from this have "jr_id q = i" by (auto simp: running_row_Some dest: jobs_tab.by_id_Some)
    ultimately have "running_row i ?d = Some q"
      using False unfolding claim_rows_def by (intro running_row_update) (auto simp: claimable_def)
    then show ?thesis by simp
  qed
  show "l = m" if "executes ?t l i" "executes ?t m i" for l m i
    using that inv free unfolding fleet_inv_def by (auto split: if_splits)
qed

lemma due_row_Some: "due_row now rs = Some job \<Longrightarrow> job \<in> set rs \<and> due now job"
  by (auto simp: due_row_def dest!: first_min_Some)

lemma snapshot_executing:
  "fleet_inv s \<Longrightarrow> fl_pc s k = Executing job \<Longrightarrow> 0 \<le> jr_attempts job \<and> jr_attempts job < max_attempts"
proof -
  assume "fleet_inv s" "fl_pc s k = Executing job"
  then have "snapshot_ok (Executing job)" unfolding fleet_inv_def by metis
  then show ?thesis by (simp add: snapshot_ok_def)
qed

lemma fleet_inv_jobs: "fleet_inv s \<Longrightarrow> jobs_ok (fl_db s)"
  by (simp add: fleet_inv_def)

lemma fleet_inv_delete:
  assumes "fleet_inv s" and "\<And>r. jr_status r = Running \<Longrightarrow> by_id jr_id (jr_id r) (job_runs (fl_db s)) = Some r \<Longrightarrow> \<not> p r"
  shows "fleet_inv (s\<lparr>fl_db := delete_jobs p (fl_db s)\<rparr>)"
proof (rule fleet_inv_db [OF assms(1) jobs_ok_delete [OF fleet_inv_jobs [OF assms(1)]]])
  fix k i r
  assume row: "running_row i (fl_db s) = Some r"
  then have r: "by_id jr_id i (job_runs (fl_db s)) = Some r" "jr_status r = Running"
    by (simp_all add: running_row_Some)
  then have "jr_id r = i" by (auto dest: jobs_tab.by_id_Some)
  with r assms(2) have "\<not> p r" by simp
  from running_row_delete [OF fleet_inv_jobs [OF assms(1)] row, of p, OF this]
  show "running_row i (delete_jobs p (fl_db s)) \<noteq> None" by simp
qed

lemma bookkept_snapshot_ok:
  assumes "row_ok r" "0 \<le> jr_attempts job" "jr_attempts job < max_attempts" "jr_status r = Running"
  shows "row_ok (bookkept_row env job res r)"
proof (cases res)
  case (Inl e)
  with assms show ?thesis by (simp add: bookkept_row_def row_ok_def)
next
  case (Inr u)
  with assms show ?thesis by (simp add: bookkept_row_def row_ok_def)
qed

lemma unknown_kind_ok:
  "row_ok r \<Longrightarrow> 0 \<le> jr_attempts job \<Longrightarrow> jr_attempts job < max_attempts \<Longrightarrow> row_ok (unknown_kind_row now job r)"
  by (simp add: unknown_kind_row_def row_ok_def)

lemma fleet_step_inv: "fleet_step s t \<Longrightarrow> fleet_inv s \<Longrightarrow> fleet_inv t"
proof (induction rule: fleet_step.induct)
  case (choose s k now job)
  then have "row_ok job" "jr_status job = Queued"
    by (auto simp: fleet_inv_def jobs_ok_def list_all_iff due_def dest!: due_row_Some)
  then have "snapshot_ok (Chosen job)" by (auto simp: snapshot_ok_def row_ok_def)
  with choose show ?case
    by (intro fleet_invI) (auto simp: fleet_inv_def split: if_splits)
next
  case (claim s k job now)
  then show ?case by (intro fleet_inv_claim)
next
  case (finish s k job env res)
  note a = snapshot_executing [OF finish(2,1)]
  show ?case
    by (rule fleet_inv_finish [OF finish(2,1)])
      (simp_all add: bookkept_snapshot_ok conjunct1 [OF a] conjunct2 [OF a])
next
  case (no_handler s k job now)
  note a = snapshot_executing [OF no_handler(2,1)]
  show ?case
    by (rule fleet_inv_finish [OF no_handler(2,1)])
      (simp_all add: unknown_kind_ok conjunct1 [OF a] conjunct2 [OF a], simp add: unknown_kind_row_def)
next
  case (enqueue s kind payload run_at now)
  show ?case
    by (rule fleet_inv_db [OF enqueue jobs_ok_add [OF fleet_inv_jobs [OF enqueue] row_ok_new]])
      (simp add: running_row_add)
next
  case (cancel i s r)
  then show ?case by (intro fleet_inv_delete) auto
next
  case (prune s cutoff)
  then show ?case by (intro fleet_inv_delete) (auto simp: finished_before_def)
next
  case (recover cutoff s now)
  have "jobs_ok (on_jobs (requeue_stale_rows max_attempts crash_error now cutoff) (fl_db s))"
    unfolding requeue_stale_rows_def using recover
    by (intro jobs_ok_update row_ok_requeue) (auto simp: fleet_inv_def requeue_row_def)
  moreover have "running_row i (on_jobs (requeue_stale_rows max_attempts crash_error now cutoff) (fl_db s)) \<noteq> None"
    if ex: "executes s k i" and row: "running_row i (fl_db s) = Some r" for k i r
  proof -
    from ex row recover(1) have "\<not> stale cutoff r"
      by (fastforce simp: protects_def executes_def running_row_Some stale_def)
    then have "running_row i (on_jobs (requeue_stale_rows max_attempts crash_error now cutoff) (fl_db s)) = Some r"
      unfolding requeue_stale_rows_def by (intro running_row_update row) (simp add: requeue_row_def)
    then show ?thesis by simp
  qed
  ultimately show ?case using recover by (intro fleet_inv_db)
qed (auto intro: fleet_inv_idle)

lemma fleet_reachable_inv: "fleet_reachable d s \<Longrightarrow> jobs_ok d \<Longrightarrow> fleet_inv s"
proof (induction rule: fleet_reachable.induct)
  case start
  then show ?case by (auto simp: fleet_inv_def fleet_init_def executes_def snapshot_ok_def)
next
  case (step s t)
  then show ?case by (blast intro: fleet_step_inv)
qed

inductive_cases fleet_stepE: "fleet_step s t"

section \<open>What the queue guarantees\<close>


definition one_queued :: database where
  "one_queued = empty_db\<lparr>job_runs := [(new_job kind_publish_page None 5 1)\<lparr>jr_id := 1\<rparr>]\<rparr>"

lemma one_queued_ok: "jobs_ok one_queued"
  by (simp add: one_queued_def jobs_ok_def ids_ok_def new_job_def row_ok_def max_attempts_def)

lemma one_queued_executing:
  "\<exists>s job. fleet_reachable one_queued s \<and> fl_pc s 0 = Executing job"
proof -
  let ?j = "(new_job kind_publish_page None 5 1)\<lparr>jr_id := 1\<rparr>"
  let ?s0 = "fleet_init one_queued"
  let ?s1 = "?s0\<lparr>fl_pc := (fl_pc ?s0)(0 := Chosen ?j)\<rparr>"
  let ?s2 = "?s1\<lparr>fl_db := on_jobs (claim_rows 7 (jr_id ?j)) (fl_db ?s1),
                 fl_pc := (fl_pc ?s1)(0 := Executing ?j)\<rparr>"
  have "fleet_step ?s0 ?s1"
    by (rule fleet_step.choose [where now = 7])
      (simp_all add: fleet_init_def one_queued_def due_row_def due_def new_job_def)
  moreover have "fleet_step ?s1 ?s2"
    by (rule fleet_step.claim)
      (simp_all add: fleet_init_def one_queued_def claimable_def new_job_def count_where_def)
  ultimately have "fleet_reachable one_queued ?s2"
    by (blast intro: fleet_reachable.intros)
  moreover have "fl_pc ?s2 0 = Executing ?j" by simp
  ultimately show ?thesis by blast
qed


text \<open>
  Finished jobs stay finished: whatever any worker or request does next, the row of a job that
  is done or has failed is afterwards either exactly as it was or gone (pruned); in particular no
  step puts it back into the queue and no late bookkeeping of another worker overwrites it.
\<close>

theorem finished_jobs_stay_finished:
  assumes "jobs_ok d" "fleet_reachable d s" "fleet_step s t"
    and "by_id jr_id i (job_runs (fl_db s)) = Some r" "jr_status r = Done \<or> jr_status r = Failed"
  shows "by_id jr_id i (job_runs (fl_db t)) = Some r \<or> by_id jr_id i (job_runs (fl_db t)) = None"
proof -
  have inv: "fleet_inv s" using assms(1,2) by (blast intro: fleet_reachable_inv)
  then have ids: "ids_ok jr_id (job_runs (fl_db s))" by (simp add: fleet_inv_def jobs_ok_def)
  have ri: "jr_id r = i" using assms(4) by (auto dest: jobs_tab.by_id_Some)
  have other: "jr_id job \<noteq> i" if "fl_pc s k = Executing job" for k job
  proof
    assume i: "jr_id job = i"
    with that have "executes s k i" by (auto simp: executes_def)
    with inv obtain q where "running_row i (fl_db s) = Some q" unfolding fleet_inv_def by blast
    with assms(4,5) show False by (auto simp: running_row_Some)
  qed
  have unaffected: "by_id jr_id i (job_runs (write_job j f (fl_db s))) = Some r"
    if "j \<noteq> i" "\<And>r. jr_id (f r) = jr_id r" for j f
    using that assms(4) ri by (simp add: write_job_def jobs_tab.by_id_update)
  show ?thesis
    using assms(3)
  proof (cases rule: fleet_step.cases)
    case (claim k job now)
    then show ?thesis
      using assms(4,5) by (auto simp: claim_rows_def jobs_tab.by_id_update claimable_def)
  next
    case (finish k job env res)
    with other unaffected [of "jr_id job" "bookkept_row env job res"] show ?thesis by auto
  next
    case (no_handler k job now)
    with other unaffected [of "jr_id job" "unknown_kind_row now job"] show ?thesis
      by (auto simp: unknown_kind_row_def)
  next
    case (enqueue kind payload run_at now)
    have "i \<in> jr_id ` set (job_runs (fl_db s))"
      using assms(4) ri by (auto dest: jobs_tab.by_id_Some)
    then have "i \<noteq> jr_id (snd (add_job (new_job kind payload run_at now) (job_runs (fl_db s))))"
      unfolding add_job_def using jobs_tab.insert_row_fresh [of "new_job kind payload run_at now"] by metis
    with enqueue assms(4) show ?thesis by (simp add: add_job_def jobs_tab.by_id_insert)
  next
    case (recover cutoff now)
    with assms(4,5) show ?thesis
      by (auto simp: requeue_stale_rows_def jobs_tab.by_id_update requeue_row_def stale_def)
  qed (use assms(4) ids in \<open>auto simp: delete_jobs_def jobs_tab.by_id_delete\<close>)
qed

definition one_done :: database where
  "one_done = empty_db\<lparr>job_runs := [(new_job kind_publish_page None 5 1)\<lparr>jr_id := 1, jr_status := Done\<rparr>]\<rparr>"

theorem finished_jobs_stay_finished_witness:
  "by_id jr_id 1 (job_runs (fl_db (fleet_init one_done))) \<noteq> None \<and>
   (\<exists>t. fleet_step (fleet_init one_done) t \<and>
        (by_id jr_id 1 (job_runs (fl_db t)) = by_id jr_id 1 (job_runs one_done)
         \<or> by_id jr_id 1 (job_runs (fl_db t)) = None))"
proof -
  have ok: "jobs_ok one_done"
    by (simp add: one_done_def jobs_ok_def ids_ok_def new_job_def row_ok_def max_attempts_def)
  have r: "by_id jr_id 1 (job_runs (fl_db (fleet_init one_done))) =
      Some ((new_job kind_publish_page None 5 1)\<lparr>jr_id := 1, jr_status := Done\<rparr>)"
    by (simp add: fleet_init_def one_done_def by_id_def)
  have st: "fleet_step (fleet_init one_done)
      ((fleet_init one_done)\<lparr>fl_db := delete_jobs (finished_before 9) (fl_db (fleet_init one_done))\<rparr>)"
    by (rule fleet_step.prune)
  show ?thesis
    using finished_jobs_stay_finished [OF ok fleet_reachable.start st r] r st
    by (auto simp: fleet_init_def)
qed


end
