(* ===== verification/Publishing.thy ===== *)
theory Publishing
  imports Worker
begin

text \<open>
  The scheduled publishing of \<open>internal/jobs/publish.go\<close> with the statements of
  \<open>internal/db/query/publish.sql.go\<close> and the status values of \<open>internal/domain/status.go\<close>:
  the \<open>publish_article\<close> and \<open>publish_page\<close> handlers, the registry they form (an
  interpretation of \<open>job_handlers\<close>), and what a publish does under any failure of its
  statements. The readings of the clock are arguments: \<open>clk 0\<close> is the handler's own, the
  others those of the enqueues it makes, in order.
\<close>

section \<open>Status values\<close>

definition status_draft :: int where "status_draft = 0"
definition status_publish :: int where "status_publish = 1"
definition status_schedule :: int where "status_schedule = 2"
definition status_trash :: int where "status_trash = 3"
definition status_shared :: int where "status_shared = 4"

lemmas status_defs = status_draft_def status_publish_def status_schedule_def status_trash_def
  status_shared_def

definition status_string :: "int \<Rightarrow> string" where
  "status_string s =
     (if s = status_draft then ''draft'' else if s = status_publish then ''publish''
      else if s = status_schedule then ''schedule'' else if s = status_trash then ''trash''
      else if s = status_shared then ''shared'' else '''')"

section \<open>Statements\<close>

record publish_state =
  ps_status :: int
  ps_scheduled_at :: "int option"
  ps_platforms :: jtext
  ps_newsletter :: int

definition get_article_publish_state :: "int \<Rightarrow> publish_state db_act" where
  "get_article_publish_state i = query_row (\<lambda>d.
     map_option (\<lambda>a. \<lparr>ps_status = a_status a, ps_scheduled_at = a_scheduled_at a,
       ps_platforms = a_scheduled_platforms a, ps_newsletter = a_scheduled_newsletter a\<rparr>)
       (by_id a_id i (articles d)))"

definition get_page_publish_state :: "int \<Rightarrow> (int \<times> int option) db_act" where
  "get_page_publish_state i = query_row (\<lambda>d.
     map_option (\<lambda>p. (p_status p, p_scheduled_at p)) (by_id p_id i (pages d)))"

definition published_row :: "int \<Rightarrow> int \<Rightarrow> article \<Rightarrow> article" where
  "published_row created updated a =
     a\<lparr>a_status := status_publish, a_created_at := created, a_scheduled_at := None,
       a_scheduled_platforms := to_text (JArr []), a_scheduled_newsletter := 0, a_updated_at := updated\<rparr>"

definition scheduled_article :: "int \<Rightarrow> article \<Rightarrow> bool" where
  "scheduled_article i a = (a_id a = i \<and> a_status a = status_schedule)"

definition publish_scheduled_article :: "int \<Rightarrow> int \<Rightarrow> int \<Rightarrow> nat db_act" where
  "publish_scheduled_article created updated i =
     exec (\<lambda>d. Inr (d\<lparr>articles := update_where (scheduled_article i) (published_row created updated) (articles d)\<rparr>,
                    count_where (scheduled_article i) (articles d)))"

definition scheduled_page :: "int \<Rightarrow> page \<Rightarrow> bool" where
  "scheduled_page i p = (p_id p = i \<and> p_status p = status_schedule)"

definition publish_scheduled_page :: "int \<Rightarrow> int \<Rightarrow> nat db_act" where
  "publish_scheduled_page updated i =
     exec (\<lambda>d. Inr (d\<lparr>pages := update_where (scheduled_page i)
                (\<lambda>p. p\<lparr>p_status := status_publish, p_scheduled_at := None, p_updated_at := updated\<rparr>) (pages d)\<rparr>,
                    count_where (scheduled_page i) (pages d)))"

section \<open>Handlers\<close>

text \<open>The payloads \<open>publishArticlePayload\<close>, \<open>publishPagePayload\<close> and \<open>publishCrosspostPayload\<close>.\<close>

definition article_payload :: "int \<Rightarrow> json" where
  "article_payload i = JObj [(''article_id'', JNum i)]"

definition page_payload :: "int \<Rightarrow> json" where
  "page_payload i = JObj [(''page_id'', JNum i)]"

definition crosspost_payload :: "int \<Rightarrow> string list \<Rightarrow> json" where
  "crosspost_payload i platforms =
     JObj [(''article_id'', JNum i), (''platforms'', JArr (map JStr platforms))]"

definition should_publish :: "int \<Rightarrow> int \<Rightarrow> int option \<Rightarrow> bool" where
  "should_publish now st at = (st = status_schedule \<and> (case at of None \<Rightarrow> False | Some t \<Rightarrow> t \<le> now))"

definition when_act :: "bool \<Rightarrow> 'a db_act \<Rightarrow> unit db_act" where
  "when_act b m = (if b then bindE m (\<lambda>_. ret ()) else ret ())"

text \<open>The body of the handler's transaction; the transactional enqueuer has no wake callback.\<close>

definition publish_article_body :: "(nat \<Rightarrow> int) \<Rightarrow> int \<Rightarrow> publish_state \<Rightarrow> (bool \<times> unit) db_act" where
  "publish_article_body clk i st =
     bindE (wrapping (''publish article '' @ dec_int i)
              (publish_scheduled_article (int_of (ps_scheduled_at st)) (clk 0) i)) (\<lambda>flipped.
     if flipped = 0 then ret (False, ())
     else (case unmarshal (\<lambda>j. put_strings j []) (Some (ps_platforms st)) of
       Inl e \<Rightarrow> raise (ErrWrap (''article '' @ dec_int i @ '': parse scheduled_crosspost_platforms'') e)
     | Inr platforms \<Rightarrow>
         bindE (when_act (platforms \<noteq> [])
             (wrapping (''enqueue crosspost for article '' @ dec_int i)
                (enqueue False (clk 1) kind_crosspost (Some (crosspost_payload i platforms)) (clk 0)))) (\<lambda>_.
         bindE (when_act (ps_newsletter st \<noteq> 0)
             (wrapping (''enqueue newsletter for article '' @ dec_int i)
                (enqueue False (clk 2) kind_send_newsletter (Some (article_payload i)) (clk 0)))) (\<lambda>_.
         ret (True, ())))))"

definition publish_article_state :: "(nat \<Rightarrow> int) \<Rightarrow> int \<Rightarrow> publish_state \<Rightarrow> unit db_act" where
  "publish_article_state clk i st =
     (if \<not> should_publish (clk 0) (ps_status st) (ps_scheduled_at st) then ret ()
      else in_tx (ErrWrap (''publish article '' @ dec_int i @ '': begin tx''))
             (ErrWrap (''publish article '' @ dec_int i @ '': commit tx''))
             (publish_article_body clk i st))"

definition publish_article_handler :: "(nat \<Rightarrow> int) \<Rightarrow> jtext option \<Rightarrow> unit db_act" where
  "publish_article_handler clk payload =
     (case unmarshal (struct1 put_int ''article_id'' 0) payload of
        Inl e \<Rightarrow> raise (ErrWrap ''decode publish_article payload'' e)
      | Inr i \<Rightarrow>
          bindE (attempt (get_article_publish_state i)) (\<lambda>r.
            case r of
              Inl e \<Rightarrow> if error_is e ErrNoRows then ret () else raise (ErrWrap (''load article '' @ dec_int i) e)
            | Inr st \<Rightarrow> publish_article_state clk i st))"

definition publish_page_handler :: "(nat \<Rightarrow> int) \<Rightarrow> jtext option \<Rightarrow> unit db_act" where
  "publish_page_handler clk payload =
     (case unmarshal (struct1 put_int ''page_id'' 0) payload of
        Inl e \<Rightarrow> raise (ErrWrap ''decode publish_page payload'' e)
      | Inr i \<Rightarrow>
          bindE (attempt (get_page_publish_state i)) (\<lambda>r.
            case r of
              Inl e \<Rightarrow> if error_is e ErrNoRows then ret () else raise (ErrWrap (''load page '' @ dec_int i) e)
            | Inr (st, at) \<Rightarrow>
                if \<not> should_publish (clk 0) st at then ret ()
                else wrapping (''publish page '' @ dec_int i)
                       (bindE (publish_scheduled_page (clk 0) i) (\<lambda>_. ret ()))))"

text \<open>\<open>RegisterPublishHandlers\<close>\<close>

definition publish_registry :: "(nat \<Rightarrow> int) \<Rightarrow> registry \<Rightarrow> registry" where
  "publish_registry clk reg =
     register kind_publish_page (handler_of (publish_page_handler clk))
       (register kind_publish_article (handler_of (publish_article_handler clk)) reg)"

section \<open>The handlers keep the queue\<close>

definition queue_safe :: "unit db_act \<Rightarrow> bool" where
  "queue_safe m \<longleftrightarrow> pres jobs_ok m \<and> (\<forall>i r. pres (\<lambda>d. running_row i d = Some r) m)"

lemma handler_of_keeps:
  assumes "queue_safe (h payload)"
  shows "jobs_ok (wdb w) \<Longrightarrow> jobs_ok (wdb (snd (handler_of h i payload w)))"
    and "running_row k (wdb w) = Some r \<Longrightarrow> running_row k (wdb (snd (handler_of h i payload w))) = Some r"
  using assms unfolding queue_safe_def pres_def
  by (auto simp: handler_of_def split: prod.splits sum.splits)
    (metis snd_conv)+

lemma job_handlers_empty: "job_handlers Map.empty"
  by unfold_locales auto

lemma job_handlers_register:
  assumes "job_handlers reg" "\<And>payload. queue_safe (h payload)"
  shows "job_handlers (register kind (handler_of h) reg)"
proof
  fix k g i p r and w :: dbworld
  assume g: "register kind (handler_of h) reg k = Some g" and ok: "jobs_ok (wdb w)"
  show "jobs_ok (wdb (snd (g i p w)))"
    using g ok handler_of_keeps(1) [of h, OF assms(2)] job_handlers.keeps_queue [OF assms(1)]
    by (auto simp: register_def split: if_splits)
  assume "running_row i (wdb w) = Some r"
  then show "running_row i (wdb (snd (g i p w))) = Some r"
    using g ok handler_of_keeps(2) [of h, OF assms(2)] job_handlers.keeps_running_row [OF assms(1)]
    by (auto simp: register_def split: if_splits)
qed

lemma running_row_frame [simp]:
  "running_row i (d\<lparr>articles := as\<rparr>) = running_row i d"
  "running_row i (d\<lparr>pages := ps\<rparr>) = running_row i d"
  by (simp_all add: running_row_def)

lemma jobs_ok_frame: "jobs_ok (d\<lparr>articles := as\<rparr>) = jobs_ok d" "jobs_ok (d\<lparr>pages := ps\<rparr>) = jobs_ok d"
  by (simp_all add: jobs_ok_def)

lemma running_row_enqueue [pres_rules]:
  "pres (\<lambda>d. running_row i d = Some r) (enqueue wake now kind payload run_at)"
  unfolding enqueue_def enqueue_job_run_def
  by (intro pres_rules pres_exec) (auto simp: Let_def case_prod_beta intro: running_row_add)

lemma pres_publish_stmt [pres_rules]:
  "(\<And>d f. I d \<Longrightarrow> I (d\<lparr>articles := f\<rparr>)) \<Longrightarrow> pres I (publish_scheduled_article created updated i)"
  "(\<And>d f. I d \<Longrightarrow> I (d\<lparr>pages := f\<rparr>)) \<Longrightarrow> pres I (publish_scheduled_page updated i)"
  unfolding publish_scheduled_article_def publish_scheduled_page_def by (rule pres_exec; auto)+

lemma pres_when_act [pres_rules]: "pres I m \<Longrightarrow> pres I (when_act b m)"
  unfolding when_act_def by (intro pres_rules)

lemma pres_publish_article:
  assumes "\<And>d f. I d \<Longrightarrow> I (d\<lparr>articles := f\<rparr>)"
    and "\<And>now kind payload at. pres I (enqueue False now kind payload at)"
  shows "pres I (publish_article_handler clk payload)"
  unfolding publish_article_handler_def publish_article_state_def publish_article_body_def
    get_article_publish_state_def
  by (intro pres_rules assms)

lemma pres_publish_page:
  assumes "\<And>d f. I d \<Longrightarrow> I (d\<lparr>pages := f\<rparr>)"
  shows "pres I (publish_page_handler clk payload)"
  unfolding publish_page_handler_def get_page_publish_state_def
  by (intro pres_rules assms)

lemma publish_queue_safe:
  "queue_safe (publish_article_handler clk payload)"
  "queue_safe (publish_page_handler clk payload)"
  unfolding queue_safe_def
  by (auto intro!: pres_publish_article pres_publish_page pres_rules simp: jobs_ok_frame)

lemma publish_registry_handlers:
  "job_handlers reg \<Longrightarrow> job_handlers (publish_registry clk reg)"
  unfolding publish_registry_def by (intro job_handlers_register publish_queue_safe)

interpretation publishing: job_handlers "publish_registry clk Map.empty" for clk
  by (rule publish_registry_handlers [OF job_handlers_empty])

section \<open>Under any failure\<close>

lemma publish_article_state_error:
  "publish_article_state clk i st w = (Inl e, w') \<Longrightarrow> wdb w' = wdb w"
  by (auto simp: publish_article_state_def ret_def split: if_splits dest: in_tx_error_keeps)

lemma get_article_publish_state_keeps: "wdb (snd (get_article_publish_state i w)) = wdb w"
  unfolding get_article_publish_state_def by (rule query_row_keeps)


section \<open>Without failures\<close>

definition next_job_id :: "job_run list \<Rightarrow> int" where
  "next_job_id rs = next_rowid (map jr_id rs)"

text \<open>The follow-up jobs of one publish, from the snapshot the article carried.\<close>

definition queue_job :: "string \<Rightarrow> json \<Rightarrow> int \<Rightarrow> int \<Rightarrow> job_run list \<Rightarrow> job_run list" where
  "queue_job kind payload run_at now rs =
     fst (add_job (new_job kind (Some (to_text payload)) run_at now) rs)"

definition follow_ups :: "(nat \<Rightarrow> int) \<Rightarrow> article \<Rightarrow> string list \<Rightarrow> job_run list \<Rightarrow> job_run list" where
  "follow_ups clk a platforms rs =
     (let rs1 = (if platforms = [] then rs
                 else queue_job kind_crosspost (crosspost_payload (a_id a) platforms) (clk 0) (clk 1) rs)
      in if a_scheduled_newsletter a = 0 then rs1
         else queue_job kind_send_newsletter (article_payload (a_id a)) (clk 0) (clk 2) rs1)"

lemma enqueue_run [run_simps]:
  "wfaults w = [] \<Longrightarrow> enqueue wake now kind (Some j) at w =
     (Inr (next_job_id (job_runs (wdb w)), wake),
      w\<lparr>wdb := (wdb w)\<lparr>job_runs := queue_job kind j at now (job_runs (wdb w))\<rparr>\<rparr>)"
  by (simp add: enqueue_def enqueue_job_run_def run_simps Let_def case_prod_beta add_job_simps
      queue_job_def next_job_id_def)

lemma publish_scheduled_article_run [run_simps]:
  "wfaults w = [] \<Longrightarrow> publish_scheduled_article created updated i w =
     (Inr (count_where (scheduled_article i) (articles (wdb w))),
      w\<lparr>wdb := (wdb w)\<lparr>articles :=
         update_where (scheduled_article i) (published_row created updated) (articles (wdb w))\<rparr>\<rparr>)"
  by (simp add: publish_scheduled_article_def run_simps)

text \<open>The transaction on its own: it acts on the snapshot it is given, whatever the row says by then.\<close>

lemma publish_article_state_run:
  assumes "wfaults w = []" "ids_ok a_id (articles (wdb w))"
    and "by_id a_id i (articles (wdb w)) = Some a" "a_status a = status_schedule"
    and "should_publish (clk 0) (ps_status st) (ps_scheduled_at st)"
    and "parsed (ps_platforms st) = Some (JArr (map JStr platforms))"
  shows "publish_article_state clk i st w =
    (Inr (), w\<lparr>wdb := (wdb w)
       \<lparr>articles := update_where (\<lambda>x. a_id x = i) (published_row (int_of (ps_scheduled_at st)) (clk 0)) (articles (wdb w)),
        job_runs := follow_ups clk (a\<lparr>a_scheduled_newsletter := ps_newsletter st\<rparr>) platforms (job_runs (wdb w))\<rparr>\<rparr>)"
proof -
  have ai: "a_id a = i" using assms(3) by (auto dest: articles_tab.by_id_Some)
  have n: "count_where (scheduled_article i) (articles (wdb w)) = 1"
    using articles_tab.count_by_id [OF assms(2), of i "\<lambda>a. a_status a = status_schedule"] assms(3,4)
    by (simp add: scheduled_article_def [abs_def])
  have u: "update_where (scheduled_article i) f (articles (wdb w)) =
      update_where (\<lambda>x. a_id x = i) f (articles (wdb w))" for f
    using assms(2-4) ai unfolding update_where_def scheduled_article_def
    by (auto dest: articles_tab.by_id_Some articles_tab.ids_ok_unique)
  have p: "unmarshal (\<lambda>j. put_strings j []) (Some (ps_platforms st)) = Inr platforms"
    using assms(6) put_strings_map [of platforms "[]"] by (simp add: unmarshal_def)
  show ?thesis
    using assms(1,5) ai p
    by (simp add: run_simps publish_article_state_def publish_article_body_def n u when_act_def
        follow_ups_def Let_def)
qed

lemma decode_article_payload:
  "in_int64 i \<Longrightarrow> unmarshal (struct1 put_int ''article_id'' 0) (Some (to_text (article_payload i))) = Inr i"
  unfolding article_payload_def by (rule unmarshal_int_field)

lemma publish_article_run_due:
  assumes "wfaults w = []" "in_int64 i" "ids_ok a_id (articles (wdb w))"
    and "by_id a_id i (articles (wdb w)) = Some a" "a_status a = status_schedule"
    and "a_scheduled_at a = Some t" "t \<le> clk 0"
    and "parsed (a_scheduled_platforms a) = Some (JArr (map JStr platforms))"
  shows "publish_article_handler clk (Some (to_text (article_payload i))) w =
    (Inr (), w\<lparr>wdb := (wdb w)
       \<lparr>articles := update_where (\<lambda>x. a_id x = i) (published_row t (clk 0)) (articles (wdb w)),
        job_runs := follow_ups clk a platforms (job_runs (wdb w))\<rparr>\<rparr>)"
proof -
  let ?st = "\<lparr>ps_status = a_status a, ps_scheduled_at = a_scheduled_at a,
    ps_platforms = a_scheduled_platforms a, ps_newsletter = a_scheduled_newsletter a\<rparr>"
  have "publish_article_handler clk (Some (to_text (article_payload i))) w = publish_article_state clk i ?st w"
    using assms(1,4) by (simp add: publish_article_handler_def decode_article_payload [OF assms(2)]
        run_simps get_article_publish_state_def)
  then show ?thesis
    using publish_article_state_run [OF assms(1,3,4,5), of clk ?st platforms] assms(5-8)
    by (simp add: should_publish_def)
qed

text \<open>A run that changed something has flipped the article.\<close>

lemma publish_scheduled_article_ok:
  assumes "publish_scheduled_article created updated i w = (Inr n, w')"
  shows "wdb w' = (wdb w)\<lparr>articles :=
     update_where (scheduled_article i) (published_row created updated) (articles (wdb w))\<rparr>"
  using exec_ok [OF assms [unfolded publish_scheduled_article_def]] by simp

lemma publish_article_body_articles:
  assumes "publish_article_body clk i st w = (Inr (c, u), w')"
  shows "c \<longrightarrow> articles (wdb w') = update_where (scheduled_article i)
     (published_row (int_of (ps_scheduled_at st)) (clk 0)) (articles (wdb w))"
proof -
  let ?P = "\<lambda>d. articles d = update_where (scheduled_article i)
     (published_row (int_of (ps_scheduled_at st)) (clk 0)) (articles (wdb w))"
  have enq: "pres ?P (when_act b (wrapping m (enqueue False now kind (Some j) at)))" for b m now kind j at
    unfolding when_act_def enqueue_def enqueue_job_run_def
    by (intro pres_rules pres_exec) (auto simp: Let_def split: prod.splits)
  let ?rest = "\<lambda>platforms. bindE (when_act (platforms \<noteq> [])
             (wrapping (''enqueue crosspost for article '' @ dec_int i)
                (enqueue False (clk 1) kind_crosspost (Some (crosspost_payload i platforms)) (clk 0)))) (\<lambda>_.
         bindE (when_act (ps_newsletter st \<noteq> 0)
             (wrapping (''enqueue newsletter for article '' @ dec_int i)
                (enqueue False (clk 2) kind_send_newsletter (Some (article_payload i)) (clk 0)))) (\<lambda>_.
         ret (True, ())))"
  have rest: "pres ?P (?rest platforms)" for platforms
    by (intro pres_rules enq)
  from assms obtain n w1 where n: "publish_scheduled_article (int_of (ps_scheduled_at st)) (clk 0) i w = (Inr n, w1)"
    and r: "(if n = 0 then ret (False, ())
     else (case unmarshal (\<lambda>j. put_strings j []) (Some (ps_platforms st)) of
       Inl e \<Rightarrow> raise (ErrWrap (''article '' @ dec_int i @ '': parse scheduled_crosspost_platforms'') e)
     | Inr platforms \<Rightarrow> ?rest platforms)) w1 = (Inr (c, u), w')"
    unfolding publish_article_body_def by (rule bindE_ok) (auto simp: wrapping_ok)
  have w1: "?P (wdb w1)" using publish_scheduled_article_ok [OF n] by simp
  show ?thesis
  proof
    assume c
    with r obtain platforms where "?rest platforms w1 = (Inr (c, u), w')"
      by (auto simp: ret_def raise_def split: if_splits sum.splits)
    with rest w1 show "?P (wdb w')" by (rule presD)
  qed
qed

lemma flipped_status:
  assumes "by_id a_id i (update_where (scheduled_article i) (published_row t now) as) = Some b"
  shows "a_status b \<noteq> status_schedule"
proof -
  from assms obtain a where "b = (if scheduled_article i a then published_row t now a else a)"
    and "by_id a_id i as = Some a"
    by (auto simp: articles_tab.by_id_update published_row_def)
  then show ?thesis
    by (auto simp: scheduled_article_def published_row_def status_defs dest: articles_tab.by_id_Some split: if_splits)
qed

lemma publish_article_flips:
  assumes "publish_article_handler clk (Some (to_text (article_payload i))) w = (Inr (), w')"
    and "wdb w' \<noteq> wdb w" "in_int64 i"
  shows "by_id a_id i (articles (wdb w')) = Some b \<Longrightarrow> a_status b \<noteq> status_schedule"
proof -
  obtain r w1 where g: "get_article_publish_state i w = (r, w1)" by fastforce
  have w1: "wdb w1 = wdb w" using get_article_publish_state_keeps [of i w] g by simp
  have "\<exists>st. publish_article_state clk i st w1 = (Inr (), w')"
    using assms g w1
    by (auto simp: publish_article_handler_def decode_article_payload bindE_def attempt_run ret_def
        raise_def split: sum.splits if_splits)
  then obtain st where "publish_article_state clk i st w1 = (Inr (), w')" by blast
  with assms(2) w1 have "in_tx (ErrWrap (''publish article '' @ dec_int i @ '': begin tx''))
             (ErrWrap (''publish article '' @ dec_int i @ '': commit tx''))
             (publish_article_body clk i st) w1 = (Inr (), w')"
    by (auto simp: publish_article_state_def ret_def split: if_splits)
  then obtain w2 c w3 where body: "publish_article_body clk i st w2 = (Inr (c, ()), w3)"
    and w2: "wdb w2 = wdb w1" and "wdb w' = (if c then wdb w3 else wdb w1)"
    by (rule in_tx_ok) auto
  with assms(2) w1 have w3: "wdb w' = wdb w3" by (auto split: if_splits)
  moreover have c using assms(2) w1 w3 \<open>wdb w' = (if c then wdb w3 else wdb w1)\<close> by (auto split: if_splits)
  ultimately have "articles (wdb w') = update_where (scheduled_article i)
        (published_row (int_of (ps_scheduled_at st)) (clk 0)) (articles (wdb w2))"
    using publish_article_body_articles [OF body] by simp
  then show "by_id a_id i (articles (wdb w')) = Some b \<Longrightarrow> a_status b \<noteq> status_schedule"
    using flipped_status by metis
qed

text \<open>
  A due publish does everything in one step: when the article is scheduled for \<open>t\<close> and
  \<open>t\<close> has passed, the handler succeeds; afterwards the article is published with its creation
  time set back to \<open>t\<close>, its schedule and snapshot are cleared, and exactly the follow-up jobs
  of the snapshot (a crosspost job when it lists platforms, a newsletter job when it asks for one) have
  been queued; no other row of any table is touched.
\<close>

theorem publish_article_effect:
  assumes "wfaults w = []" "in_int64 i" "ids_ok a_id (articles (wdb w))"
    and "by_id a_id i (articles (wdb w)) = Some a" "a_status a = status_schedule"
    and "a_scheduled_at a = Some t" "t \<le> clk 0"
    and "parsed (a_scheduled_platforms a) = Some (JArr (map JStr platforms))"
  shows "publish_article_handler clk (Some (to_text (article_payload i))) w =
    (Inr (), w\<lparr>wdb := (wdb w)
       \<lparr>articles := update_where (\<lambda>x. a_id x = i) (published_row t (clk 0)) (articles (wdb w)),
        job_runs := follow_ups clk a platforms (job_runs (wdb w))\<rparr>\<rparr>)"
  using assms by (rule publish_article_run_due)

definition scheduled_example :: article where
  "scheduled_example =
     \<lparr>a_id = 1, a_title = Some ''T'', a_slug = Some ''t'', a_content_html = None, a_content_type = ''html'',
      a_description = None, a_excerpt = None, a_meta_description = None, a_meta_title = None,
      a_meta_image = None, a_source_author = None, a_source_url = None, a_source_content = None,
      a_status = status_schedule, a_comment = 0, a_scheduled_at = Some 50,
      a_scheduled_platforms = to_text (JArr [JStr ''mastodon'']), a_scheduled_newsletter = 1,
      a_created_at = 10, a_updated_at = 20, a_content_markdown = None\<rparr>"

definition scheduled_db :: database where
  "scheduled_db = empty_db\<lparr>articles := [scheduled_example]\<rparr>"

lemmas scheduled_example_defs = scheduled_db_def scheduled_example_def empty_db_def

theorem publish_article_effect_witness:
  "publish_article_handler (\<lambda>n. 60 + int n) (Some (to_text (article_payload 1)))
     \<lparr>wdb = scheduled_db, wfaults = []\<rparr> =
   (Inr (), \<lparr>wdb = scheduled_db
      \<lparr>articles := [published_row 50 60 scheduled_example],
       job_runs := [(new_job kind_crosspost (Some (to_text (crosspost_payload 1 [''mastodon'']))) 60 61)\<lparr>jr_id := 1\<rparr>,
                    (new_job kind_send_newsletter (Some (to_text (article_payload 1))) 60 62)\<lparr>jr_id := 2\<rparr>]\<rparr>,
    wfaults = []\<rparr>)"
  using publish_article_effect [of "\<lparr>wdb = scheduled_db, wfaults = []\<rparr>" 1 scheduled_example 50
      "\<lambda>n. 60 + int n" "[''mastodon'']"]
  by (simp add: scheduled_example_defs in_int64_def ids_ok_def by_id_def update_where_def
      follow_ups_def queue_job_def add_job_simps next_rowid_def new_job_def)

text \<open>The last statement of the transaction, the newsletter job, is the one that fails.\<close>

definition failing_world :: "err \<Rightarrow> database world" where
  "failing_world e = \<lparr>wdb = scheduled_db, wfaults = [None, None, None, None, Some e]\<rparr>"


text \<open>
  An article that is gone, is not scheduled, has no schedule time, or is scheduled for later than
  the handler's clock is left alone: the handler writes nothing, whatever fails.
\<close>

theorem publish_article_not_due:
  assumes "\<And>a. by_id a_id i (articles (wdb w)) = Some a \<Longrightarrow>
      \<not> should_publish (clk 0) (a_status a) (a_scheduled_at a)"
    and "in_int64 i"
  shows "wdb (snd (publish_article_handler clk (Some (to_text (article_payload i))) w)) = wdb w"
proof -
  obtain r w1 where g: "get_article_publish_state i w = (r, w1)" by fastforce
  have w1: "wdb w1 = wdb w" using get_article_publish_state_keeps [of i w] g by simp
  show ?thesis
  proof (cases r)
    case (Inl e)
    with g w1 show ?thesis
      by (simp add: publish_article_handler_def decode_article_payload [OF assms(2)] bindE_def attempt_run
          ret_def raise_def)
  next
    case (Inr st)
    with g have "\<not> should_publish (clk 0) (ps_status st) (ps_scheduled_at st)"
      using assms(1) by (auto simp: get_article_publish_state_def dest!: query_row_ok)
    with g w1 Inr show ?thesis
      by (simp add: publish_article_handler_def decode_article_payload [OF assms(2)] bindE_def attempt_run
          ret_def publish_article_state_def)
  qed
qed

theorem publish_article_not_due_witness:
  "wdb (snd (publish_article_handler (\<lambda>n. 40) (Some (to_text (article_payload 1)))
     \<lparr>wdb = scheduled_db, wfaults = [None]\<rparr>)) = scheduled_db"
  using publish_article_not_due [of 1 "\<lparr>wdb = scheduled_db, wfaults = [None]\<rparr>" "\<lambda>n. 40"]
  by (simp add: scheduled_example_defs by_id_def should_publish_def in_int64_def)

text \<open>
  The snapshot of a schedule is consumed exactly once: when a run of the handler has changed the
  database, every later run for the same article finds nothing to do, so no follow-up job is
  queued a second time.
\<close>

theorem publish_article_once:
  assumes "publish_article_handler clk (Some (to_text (article_payload i))) w = (Inr (), w')"
    and "wdb w' \<noteq> wdb w" "in_int64 i" "wdb v = wdb w'"
  shows "wdb (snd (publish_article_handler clk' (Some (to_text (article_payload i))) v)) = wdb v"
proof (rule publish_article_not_due [OF _ assms(3)])
  fix b assume b: "by_id a_id i (articles (wdb v)) = Some b"
  have "a_status b \<noteq> status_schedule"
    using publish_article_flips [OF assms(1,2,3)] b assms(4) by simp
  then show "\<not> should_publish (clk' 0) (a_status b) (a_scheduled_at b)"
    by (simp add: should_publish_def)
qed

theorem publish_article_once_witness:
  "wdb (snd (publish_article_handler (\<lambda>n. 99) (Some (to_text (article_payload 1)))
     (snd (publish_article_handler (\<lambda>n. 60) (Some (to_text (article_payload 1)))
        \<lparr>wdb = scheduled_db, wfaults = []\<rparr>)))) =
   wdb (snd (publish_article_handler (\<lambda>n. 60) (Some (to_text (article_payload 1)))
        \<lparr>wdb = scheduled_db, wfaults = []\<rparr>))"
proof -
  let ?w = "\<lparr>wdb = scheduled_db, wfaults = []\<rparr>"
  let ?run = "publish_article_handler (\<lambda>n. 60) (Some (to_text (article_payload 1))) ?w"
  have run: "?run = (Inr (), ?w\<lparr>wdb := scheduled_db
      \<lparr>articles := update_where (\<lambda>x. a_id x = 1) (published_row 50 60) (articles scheduled_db),
       job_runs := follow_ups (\<lambda>n. 60) scheduled_example [''mastodon''] (job_runs scheduled_db)\<rparr>\<rparr>)"
    using publish_article_run_due [of ?w 1 scheduled_example 50 "\<lambda>n. 60" "[''mastodon'']"]
    by (simp add: scheduled_example_defs in_int64_def ids_ok_def by_id_def)
  have "?run = (Inr (), snd ?run)" by (simp add: run)
  moreover have "wdb (snd ?run) \<noteq> wdb ?w"
  proof
    assume "wdb (snd ?run) = wdb ?w"
    from arg_cong [OF this, of articles]
    have "update_where (\<lambda>x. a_id x = 1) (published_row 50 60) (articles scheduled_db) = articles scheduled_db"
      unfolding run by simp
    then show False
      by (simp add: scheduled_db_def update_where_def scheduled_example_def published_row_def status_defs)
  qed
  moreover have "in_int64 1" by (simp add: in_int64_def)
  ultimately show ?thesis by (rule publish_article_once [OF _ _ _ refl])
qed

text \<open>
  C9: What the guard of the publishing update does not check: the transaction tests only that the
  article is still scheduled, not that it is still scheduled for the time the handler read. An article
  moved to a later time between the read and the update is published at once, dated with the old time.
\<close>

theorem publish_ignores_moved_schedule:
  assumes "wfaults w = []" "ids_ok a_id (articles (wdb w))"
    and "by_id a_id i (articles (wdb w)) = Some a" "a_status a = status_schedule"
    and "a_scheduled_at a = Some later" "clk 0 < later"
    and "should_publish (clk 0) (ps_status st) (ps_scheduled_at st)"
    and "parsed (ps_platforms st) = Some (JArr (map JStr platforms))"
  shows "by_id a_id i (articles (wdb (snd (publish_article_state clk i st w)))) =
    Some (published_row (int_of (ps_scheduled_at st)) (clk 0) a)"
  using publish_article_state_run [where clk = clk and st = st and platforms = platforms, OF assms(1-4,7,8)] assms(3)
  by (auto simp: articles_tab.by_id_update published_row_def dest: articles_tab.by_id_Some)

theorem publish_ignores_moved_schedule_witness:
  "by_id a_id 1 (articles (wdb (snd (publish_article_state (\<lambda>n. 45) 1
      \<lparr>ps_status = status_schedule, ps_scheduled_at = Some 40, ps_platforms = to_text (JArr []), ps_newsletter = 0\<rparr>
      \<lparr>wdb = scheduled_db, wfaults = []\<rparr>)))) = Some (published_row 40 45 scheduled_example)"
  using publish_ignores_moved_schedule [of "\<lparr>wdb = scheduled_db, wfaults = []\<rparr>" 1 scheduled_example 50
      "\<lambda>n. 45" "\<lparr>ps_status = status_schedule, ps_scheduled_at = Some 40, ps_platforms = to_text (JArr []), ps_newsletter = 0\<rparr>" "[]"]
  by (simp add: scheduled_example_defs ids_ok_def by_id_def should_publish_def)

section \<open>The worker with these handlers\<close>

text \<open>
  The queue's invariant survives every worker round over the publish handlers, whichever
  statements fail: row ids stay distinct, a live job has attempts left, a failed job says why.
\<close>

theorem publish_round_keeps_queue:
  assumes "jobs_ok (wdb w)" "run_once (publish_registry clk Map.empty) env w = (res, w')"
  shows "jobs_ok (wdb w')"
  using assms by (rule publishing.run_once_pres)

definition publish_due_db :: database where
  "publish_due_db = scheduled_db\<lparr>job_runs :=
     [(new_job kind_publish_article (Some (to_text (article_payload 1))) 50 10)\<lparr>jr_id := 1\<rparr>]\<rparr>"

lemma publish_due_db_ok: "jobs_ok publish_due_db"
  by (simp add: publish_due_db_def jobs_ok_def ids_ok_def new_job_def row_ok_def max_attempts_def)

definition one_unknown :: database where
  "one_unknown = empty_db\<lparr>job_runs := [(new_job kind_twitter_sync None 50 10)\<lparr>jr_id := 1\<rparr>]\<rparr>"

definition env60 :: run_env where
  "env60 = \<lparr>env_now = 60, env_fail_now = 61, env_cancelled = False\<rparr>"

theorem publish_round_keeps_queue_witness:
  "jobs_ok (wdb (snd (run_once (publish_registry (\<lambda>n. 60) Map.empty) env60
     \<lparr>wdb = publish_due_db, wfaults = [None, None, Some ErrCanceled]\<rparr>)))"
  using publish_round_keeps_queue [of "\<lparr>wdb = publish_due_db, wfaults = [None, None, Some ErrCanceled]\<rparr>"
      "\<lambda>n. 60" env60]
  by (metis prod.collapse publish_due_db_ok world.select_convs(1))


lemma claim_run:
  assumes "wfaults w = []" "jobs_ok (wdb w)" "job \<in> set (job_runs (wdb w))" "jr_status job = Queued"
  shows "claim_job_run now (jr_id job) w = (Inr 1, w\<lparr>wdb := on_jobs (claim_rows now (jr_id job)) (wdb w)\<rparr>)"
proof -
  have ids: "ids_ok jr_id (job_runs (wdb w))" using assms(2) by (simp add: jobs_ok_def)
  have "count_where (claimable (jr_id job)) (job_runs (wdb w)) = 1"
    using jobs_tab.count_by_id [OF ids, of "jr_id job" "\<lambda>r. jr_status r = Queued"]
      jobs_tab.by_id_eq [OF ids assms(3)] assms(4) by (simp add: claimable_def [abs_def])
  with assms(1) show ?thesis by (simp add: claim_job_run_def run_simps)
qed

lemma complete_run [run_simps]:
  "wfaults w = [] \<Longrightarrow> complete_job_run now i w = (Inr (), w\<lparr>wdb := on_jobs (complete_rows now i) (wdb w)\<rparr>)"
  by (simp add: complete_job_run_def run_simps)

lemma publish_registry_article:
  "publish_registry clk reg kind_publish_article = Some (handler_of (publish_article_handler clk))"
  by (simp add: publish_registry_def register_def kind_defs)

text \<open>
  End to end: when the next due job of the queue is the publish job of an article whose time has
  come and no statement fails, one round of the worker claims it, publishes the article, queues the
  follow-ups and marks the job done; nothing else in the database changes.
\<close>

theorem publish_round_publishes:
  assumes "wfaults w = []" "jobs_ok (wdb w)" "ids_ok a_id (articles (wdb w))"
    and "due_row (env_now env) (job_runs (wdb w)) = Some job"
    and "jr_kind job = kind_publish_article" "jr_payload job = Some (to_text (article_payload i))" "in_int64 i"
    and "by_id a_id i (articles (wdb w)) = Some a" "a_status a = status_schedule"
    and "a_scheduled_at a = Some t" "t \<le> clk 0"
    and "parsed (a_scheduled_platforms a) = Some (JArr (map JStr platforms))"
  shows "run_once (publish_registry clk reg) env w =
    ((True, None), w\<lparr>wdb := (wdb w)
       \<lparr>articles := update_where (\<lambda>x. a_id x = i) (published_row t (clk 0)) (articles (wdb w)),
        job_runs := complete_rows (env_now env) (jr_id job)
          (follow_ups clk a platforms (claim_rows (env_now env) (jr_id job) (job_runs (wdb w))))\<rparr>\<rparr>)"
proof -
  have job: "job \<in> set (job_runs (wdb w))" "jr_status job = Queued"
    using assms(4) by (auto simp: due_row_def due_def dest!: first_min_Some)
  let ?w1 = "w\<lparr>wdb := on_jobs (claim_rows (env_now env) (jr_id job)) (wdb w)\<rparr>"
  have due: "get_due_job_run (env_now env) w = (Inr job, w)"
    using assms(1,4) by (simp add: get_due_job_run_def run_simps)
  have pub: "publish_article_handler clk (jr_payload job) ?w1 =
    (Inr (), ?w1\<lparr>wdb := (wdb ?w1)
       \<lparr>articles := update_where (\<lambda>x. a_id x = i) (published_row t (clk 0)) (articles (wdb ?w1)),
        job_runs := follow_ups clk a platforms (job_runs (wdb ?w1))\<rparr>\<rparr>)"
    unfolding assms(6) by (rule publish_article_run_due) (use assms in simp_all)
  show ?thesis
    using assms(1)
    by (simp add: run_once_def due claim_run [OF assms(1,2) job] execute_claimed_def assms(5)
        publish_registry_article run_handler_def handler_of_def pub bindE_run attempt_run bookkeep_def
        complete_run err_opt_def)
qed

theorem publish_round_publishes_witness:
  "run_once (publish_registry (\<lambda>n. 60) Map.empty) env60 \<lparr>wdb = publish_due_db, wfaults = []\<rparr> =
   ((True, None), \<lparr>wdb = publish_due_db
      \<lparr>articles := [published_row 50 60 scheduled_example],
       job_runs := complete_rows 60 1
         (follow_ups (\<lambda>n. 60) scheduled_example [''mastodon'']
            (claim_rows 60 1 (job_runs publish_due_db)))\<rparr>, wfaults = []\<rparr>)"
  using publish_round_publishes [of "\<lparr>wdb = publish_due_db, wfaults = []\<rparr>" env60
      "(new_job kind_publish_article (Some (to_text (article_payload 1))) 50 10)\<lparr>jr_id := 1\<rparr>" 1
      scheduled_example 50 "\<lambda>n. 60" "[''mastodon'']" Map.empty] publish_due_db_ok
  by (simp add: publish_due_db_def scheduled_db_def scheduled_example_def env60_def due_row_def due_def
      new_job_def in_int64_def ids_ok_def by_id_def update_where_def)


end
