(* ===== verification/Slug.thy ===== *)
theory Slug
  imports GoText
begin

text \<open>
  \<open>internal/domain/slug.go\<close> and \<open>internal/domain/excerpt.go\<close>: parameterized slugs, the
  characters a slug may not have, the suffix loop that makes a slug unique (locale
  \<open>slug_probe\<close>), and the excerpt of an article. The Unicode decomposition of
  \<open>golang.org/x/text\<close> and the plain text of an HTML body are arguments (\<open>deaccent\<close>,
  \<open>plain\<close>).
\<close>

section \<open>Reserved slugs\<close>

definition reserved_slugs :: "string list" where
  "reserved_slugs =
     [''admin'', ''tags'', ''pages'', ''users'', ''session'', ''setup'', ''confirm'',
      ''unsubscribe'', ''subscriptions'', ''static'', ''feed.xml'', ''sitemap.xml'',
      ''up'', ''rails'', ''twitter'']"

definition is_reserved_slug :: "string \<Rightarrow> bool" where
  "is_reserved_slug slug = list_ex (\<lambda>r. slug = r) reserved_slugs"

definition admin_article_batch_slugs :: "string list" where
  "admin_article_batch_slugs =
     [''batch_destroy'', ''batch_publish'', ''batch_unpublish'',
      ''batch_add_tags'', ''batch_crosspost'', ''batch_newsletter'']"

definition admin_page_batch_slugs :: "string list" where
  "admin_page_batch_slugs = [''batch_destroy'', ''batch_publish'', ''batch_unpublish'']"

section \<open>CleanSlug\<close>

definition slug_unsafe_chars :: string where
  "slug_unsafe_chars = [CHR ''.'', CHR ''/'', CHR ''?'', CHR ''#'', CHR ''%'', CHR 0x5C]"

definition is_slug_dropped :: "char \<Rightarrow> bool" where
  "is_slug_dropped c = (code_of c < 32 \<or> code_of c = 127 \<or> c \<in> set slug_unsafe_chars)"

text \<open>The C1 control characters U+0080 to U+009F are the byte 194 followed by one of 128 to 159.\<close>

fun clean_slug :: "string \<Rightarrow> string" where
  "clean_slug [] = []"
| "clean_slug [c] = (if is_slug_dropped c then [] else [c])"
| "clean_slug (c # d # s) =
     (if code_of c = 194 \<and> 128 \<le> code_of d \<and> code_of d < 160 then clean_slug s
      else if is_slug_dropped c then clean_slug (d # s)
      else c # clean_slug (d # s))"

definition is_valid_slug :: "string \<Rightarrow> bool" where
  "is_valid_slug slug = (clean_slug slug = slug)"

section \<open>Parameterize\<close>

definition is_slug_char :: "char \<Rightarrow> bool" where
  "is_slug_char c = (is_ascii_letter c \<or> is_digit c \<or> c = CHR ''_'' \<or> c = CHR ''-'')"

text \<open>
  The loop over the runes. A rune outside ASCII is one separator in the code and a run of bytes
  outside ASCII here; a run of separators is written once in both.
\<close>

fun separate :: "bool \<Rightarrow> string \<Rightarrow> string" where
  "separate last_was_sep [] = []"
| "separate last_was_sep (c # s) =
     (if is_slug_char c then c # separate False s
      else if \<not> last_was_sep then CHR ''-'' # separate True s
      else separate last_was_sep s)"

definition trim_dashes :: "string \<Rightarrow> string" where
  "trim_dashes s = rev (dropWhile (\<lambda>c. c = CHR ''-'') (rev (dropWhile (\<lambda>c. c = CHR ''-'') s)))"

text \<open>\<open>strings.ReplaceAll(out, "--", "-")\<close>, and the loop around it.\<close>

fun halve_dashes :: "string \<Rightarrow> string" where
  "halve_dashes (c # d # s) =
     (if c = CHR ''-'' \<and> d = CHR ''-'' then CHR ''-'' # halve_dashes s else c # halve_dashes (d # s))"
| "halve_dashes s = s"

fun has_double_dash :: "string \<Rightarrow> bool" where
  "has_double_dash (c # d # s) = (c = CHR ''-'' \<and> d = CHR ''-'' \<or> has_double_dash (d # s))"
| "has_double_dash s = False"

lemma halve_dashes_length: "length (halve_dashes s) \<le> length s"
  by (induction s rule: halve_dashes.induct) auto

lemma halve_dashes_shorter: "has_double_dash s \<Longrightarrow> length (halve_dashes s) < length s"
proof (induction s rule: halve_dashes.induct)
  case (1 c d s)
  then show ?case using halve_dashes_length [of s] by auto
qed auto

function collapse_dashes :: "string \<Rightarrow> string" where
  "collapse_dashes s = (if has_double_dash s then collapse_dashes (halve_dashes s) else s)"
  by pat_completeness auto
termination by (relation "measure length") (auto dest: halve_dashes_shorter)

declare collapse_dashes.simps [simp del]

definition parameterize :: "(string \<Rightarrow> string) \<Rightarrow> string \<Rightarrow> string" where
  "parameterize deaccent s = sql_lower (collapse_dashes (trim_dashes (separate False (deaccent s))))"

section \<open>The uniqueness loop\<close>

definition candidate :: "string \<Rightarrow> nat \<Rightarrow> string" where
  "candidate base k = (if k = 0 then base else base @ ''-'' @ dec_nat k)"

text \<open>\<open>k\<close> is the number of candidates already refused; \<open>None\<close>: out of fuel.\<close>

fun unique_slug_from :: "nat \<Rightarrow> (string \<Rightarrow> bool) \<Rightarrow> string \<Rightarrow> nat \<Rightarrow> string option" where
  "unique_slug_from 0 taken base k = None"
| "unique_slug_from (Suc fuel) taken base k =
     (if taken (candidate base k) then unique_slug_from fuel taken base (Suc k) else Some (candidate base k))"

lemma candidate_inj: "candidate base j = candidate base k \<Longrightarrow> j = k"
  by (auto simp: candidate_def dec_nat_nonempty split: if_splits dest: dec_nat_inj)

locale slug_probe =
  fixes taken :: "string \<Rightarrow> bool" and known :: "string set"
  assumes finite_known: "finite known" and taken_known: "taken s \<Longrightarrow> s \<in> known"
begin

lemma probe_free: "\<exists>k \<le> card known. \<not> taken (candidate base k)"
proof (rule ccontr)
  assume "\<not> ?thesis"
  then have sub: "candidate base ` {0..card known} \<subseteq> known" by (auto dest: taken_known)
  have "card (candidate base ` {0..card known}) = Suc (card known)"
    by (subst card_image) (auto intro: inj_onI dest: candidate_inj)
  moreover have "card (candidate base ` {0..card known}) \<le> card known"
    using sub finite_known by (intro card_mono)
  ultimately show False by simp
qed

lemma probe_first:
  assumes "\<not> taken (candidate base m)" "k \<le> m" "m < k + fuel"
  shows "\<exists>j. k \<le> j \<and> j \<le> m \<and> unique_slug_from fuel taken base k = Some (candidate base j) \<and>
     \<not> taken (candidate base j) \<and> (\<forall>i. k \<le> i \<and> i < j \<longrightarrow> taken (candidate base i))"
  using assms
proof (induction fuel arbitrary: k)
  case (Suc fuel)
  show ?case
  proof (cases "taken (candidate base k)")
    case True
    with Suc.prems have "k \<noteq> m" by auto
    with Suc.prems have "Suc k \<le> m" "m < Suc k + fuel" by auto
    from Suc.IH [OF Suc.prems(1) this] obtain j where "Suc k \<le> j" "j \<le> m"
      "unique_slug_from fuel taken base (Suc k) = Some (candidate base j)"
      "\<not> taken (candidate base j)" "\<forall>i. Suc k \<le> i \<and> i < j \<longrightarrow> taken (candidate base i)" by blast
    moreover have "taken (candidate base i)" if "k \<le> i" "i < j" for i
      using that True calculation by (cases "i = k") auto
    ultimately show ?thesis by (intro exI [of _ j]) auto
  next
    case False
    with Suc.prems show ?thesis by (intro exI [of _ k]) auto
  qed
qed simp

text \<open>The loop ends: with one more round than there are known slugs it returns a free slug.\<close>

lemma probe_ends:
  assumes "card known < fuel"
  obtains j where "j \<le> card known" "unique_slug_from fuel taken base 0 = Some (candidate base j)"
    "\<not> taken (candidate base j)" "\<forall>i < j. taken (candidate base i)"
proof -
  obtain m where m: "m \<le> card known" "\<not> taken (candidate base m)" using probe_free by blast
  with assms have "m < 0 + fuel" by simp
  from probe_first [OF m(2) _ this] obtain j where j: "j \<le> m"
    "unique_slug_from fuel taken base 0 = Some (candidate base j)"
    "\<not> taken (candidate base j)" "\<forall>i. 0 \<le> i \<and> i < j \<longrightarrow> taken (candidate base i)" by auto
  show thesis by (rule that [of j]) (use j m(1) in auto)
qed

end

section \<open>GenerateSlug\<close>

text \<open>\<open>now.Format("2006-01-02-15-04")\<close> of a time with these calendar fields.\<close>

definition pad_left :: "nat \<Rightarrow> string \<Rightarrow> string" where
  "pad_left n s = replicate (n - length s) (CHR ''0'') @ s"

definition stamp :: "nat \<Rightarrow> nat \<Rightarrow> nat \<Rightarrow> nat \<Rightarrow> nat \<Rightarrow> string" where
  "stamp y mo d h mi = pad_left 4 (dec_nat y) @ ''-'' @ pad_left 2 (dec_nat mo) @ ''-'' @
     pad_left 2 (dec_nat d) @ ''-'' @ pad_left 2 (dec_nat h) @ ''-'' @ pad_left 2 (dec_nat mi)"

text \<open>\<open>taken = None\<close> is the nil callback.\<close>

definition generate_slug ::
  "(string \<Rightarrow> string) \<Rightarrow> nat \<Rightarrow> string \<Rightarrow> string \<Rightarrow> string \<Rightarrow> (string \<Rightarrow> bool) option \<Rightarrow> string option" where
  "generate_slug deaccent fuel slug title now_stamp taken =
     (if \<not> is_blank slug then Some (clean_slug slug)
      else if is_blank title then Some (clean_slug (parameterize deaccent now_stamp))
      else if parameterize deaccent title \<noteq> '''' then Some (clean_slug (parameterize deaccent title))
      else (case taken of
              None \<Rightarrow> Some (clean_slug (clean_slug (squish title)))
            | Some t \<Rightarrow> map_option clean_slug (unique_slug_from fuel t (clean_slug (squish title)) 0)))"

section \<open>BuildExcerpt\<close>

definition excerpt_length :: nat where "excerpt_length = 200"

text \<open>\<open>[]rune(s)\<close>: the bytes of the characters.\<close>

fun runes_of :: "string \<Rightarrow> string list" where
  "runes_of [] = []"
| "runes_of (c # s) =
     (case s of
        d # _ \<Rightarrow> if is_continuation d
                 then (case runes_of s of [] \<Rightarrow> [[c]] | r # rs \<Rightarrow> (c # r) # rs)
                 else [c] # runes_of s
      | [] \<Rightarrow> [[c]])"

definition is_word_separator :: "string \<Rightarrow> bool" where
  "is_word_separator r = (r \<in> set (map (\<lambda>n. [char_of (n :: nat)]) [32, 9, 13, 10, 12, 11]))"

definition truncate_words :: "string \<Rightarrow> nat \<Rightarrow> string" where
  "truncate_words s n =
     (let r = runes_of s in
      if length r \<le> n then s
      else let stop = n - 3;
               cut = (case find (\<lambda>i. is_word_separator (r ! i)) (rev [0..<Suc stop]) of
                        None \<Rightarrow> stop | Some i \<Rightarrow> i)
           in concat (take cut r) @ ''...'')"

definition build_excerpt :: "(string \<Rightarrow> string) \<Rightarrow> string \<Rightarrow> string \<Rightarrow> string" where
  "build_excerpt plain description content_html =
     (let source = (if is_blank description then plain content_html else description);
          txt = squish source
      in if txt = '''' then '''' else truncate_words txt excerpt_length)"

section \<open>What parameterize yields\<close>

definition slug_shape :: "string \<Rightarrow> bool" where
  "slug_shape s = (list_all is_slug_char s \<and> (s \<noteq> [] \<longrightarrow> hd s \<noteq> CHR ''-'' \<and> last s \<noteq> CHR ''-'') \<and>
                   \<not> has_double_dash s)"

lemma separate_chars: "c \<in> set (separate b s) \<Longrightarrow> is_slug_char c"
  by (induction b s rule: separate.induct) (auto simp: is_slug_char_def split: if_splits)

lemma trim_dashes_chars: "c \<in> set (trim_dashes s) \<Longrightarrow> c \<in> set s"
  unfolding trim_dashes_def by (metis set_dropWhileD set_rev)

lemma halve_dashes_chars: "c \<in> set (halve_dashes s) \<Longrightarrow> c \<in> set s"
  by (induction s rule: halve_dashes.induct) (auto split: if_splits)

lemma halve_dashes_hd: "s \<noteq> [] \<Longrightarrow> halve_dashes s \<noteq> [] \<and> hd (halve_dashes s) = hd s"
  by (induction s rule: halve_dashes.induct) auto

lemma halve_dashes_last: "s \<noteq> [] \<Longrightarrow> last (halve_dashes s) = last s"
proof (induction s rule: halve_dashes.induct)
  case (1 c d s)
  then show ?case using halve_dashes_hd [of s] halve_dashes_hd [of "d # s"] by (cases s) auto
qed auto

lemma collapse_dashes_keeps:
  "set (collapse_dashes s) \<subseteq> set s \<and>
   (s \<noteq> [] \<longrightarrow> collapse_dashes s \<noteq> [] \<and> hd (collapse_dashes s) = hd s \<and> last (collapse_dashes s) = last s) \<and>
   \<not> has_double_dash (collapse_dashes s)"
proof (induction s rule: collapse_dashes.induct)
  case (1 s)
  show ?case
  proof (cases "has_double_dash s")
    case True
    then have "s \<noteq> []" by auto
    with True "1" [OF True] show ?thesis
      using halve_dashes_chars [of _ s] halve_dashes_hd [of s] halve_dashes_last [of s]
      by (subst (1 2 3 4 5) collapse_dashes.simps) auto
  next
    case False
    then show ?thesis by (simp add: collapse_dashes.simps [of s])
  qed
qed

lemma hd_dropWhile_dash: "dropWhile P s \<noteq> [] \<Longrightarrow> \<not> P (hd (dropWhile P s))"
  by (rule hd_dropWhile)

lemma trim_dashes_ends:
  assumes "trim_dashes s \<noteq> []"
  shows "hd (trim_dashes s) \<noteq> CHR ''-'' \<and> last (trim_dashes s) \<noteq> CHR ''-''"
proof -
  let ?P = "\<lambda>c. c = CHR ''-''"
  let ?a = "dropWhile ?P s"
  let ?b = "dropWhile ?P (rev ?a)"
  have b: "?b \<noteq> []" using assms by (simp add: trim_dashes_def)
  then have "hd ?b \<noteq> CHR ''-''" by (rule hd_dropWhile)
  then have l: "last (rev ?b) \<noteq> CHR ''-''" by (subst last_rev)
  have a: "?a \<noteq> []" using b by fastforce
  have "suffix ?b (rev ?a)" by (rule suffix_dropWhile)
  then have "prefix (rev ?b) ?a" by (simp add: suffix_to_prefix)
  with b have h: "hd (rev ?b) = hd ?a" by (metis hd_append2 prefixE rev_is_Nil_conv)
  have "hd ?a \<noteq> CHR ''-''" using a by (rule hd_dropWhile)
  with h l show ?thesis by (simp only: trim_dashes_def simp_thms)
qed

lemma dash_code: "c = CHR ''-'' \<longleftrightarrow> code_of c = 45"
proof -
  have "code_of c = 45 \<longleftrightarrow> code_of c = code_of (CHR ''-'')" by simp
  then show ?thesis by (simp only: of_char_eq_iff)
qed

lemma ascii_lower_dash [simp]: "(ascii_lower c = CHR ''-'') = (c = CHR ''-'')"
  unfolding dash_code by (simp add: ascii_lower_def)

lemma has_double_dash_lower [simp]: "has_double_dash (map ascii_lower s) = has_double_dash s"
  by (induction s rule: has_double_dash.induct) auto

text \<open>The characters of a parameterized slug: lower-case letters, digits, underscore and dash.\<close>

definition is_param_char :: "char \<Rightarrow> bool" where
  "is_param_char c = (97 \<le> code_of c \<and> code_of c \<le> 122 \<or> is_digit c \<or> code_of c = 95 \<or> code_of c = 45)"

lemma underscore_code: "c = CHR ''_'' \<longleftrightarrow> code_of c = 95"
proof -
  have "code_of c = 95 \<longleftrightarrow> code_of c = code_of (CHR ''_'')" by simp
  then show ?thesis by (simp only: of_char_eq_iff)
qed

lemma is_param_char_lower: "is_slug_char c \<Longrightarrow> is_param_char (ascii_lower c)"
  unfolding is_slug_char_def dash_code underscore_code
  by (auto simp: is_param_char_def is_digit_def is_ascii_letter_def code_of_lower)

lemma parameterize_chars:
  "list_all is_param_char (parameterize deaccent s) \<and>
   \<not> has_double_dash (parameterize deaccent s) \<and>
   (parameterize deaccent s = [] \<or>
    hd (parameterize deaccent s) \<noteq> CHR ''-'' \<and> last (parameterize deaccent s) \<noteq> CHR ''-'')"
proof -
  let ?t = "trim_dashes (separate False (deaccent s))"
  let ?c = "collapse_dashes ?t"
  note k = collapse_dashes_keeps [of ?t]
  have "is_slug_char c" if "c \<in> set ?c" for c
    using that k by (blast dest: trim_dashes_chars separate_chars)
  then have "list_all is_param_char (map ascii_lower ?c)"
    by (simp add: list_all_iff is_param_char_lower)
  moreover have "\<not> has_double_dash (map ascii_lower ?c)" using k by simp
  moreover have "?c = [] \<or> hd (map ascii_lower ?c) \<noteq> CHR ''-'' \<and> last (map ascii_lower ?c) \<noteq> CHR ''-''"
  proof (cases "?t = []")
    case True
    then show ?thesis by (simp add: collapse_dashes.simps)
  next
    case False
    with k trim_dashes_ends [OF False] show ?thesis by (simp add: hd_map last_map)
  qed
  ultimately show ?thesis by (auto simp: parameterize_def sql_lower_def)
qed

text \<open>
  Parameterized slugs: whatever the title, the result consists of lower-case letters, digits,
  underscores and dashes, neither begins nor ends with a dash and never has two dashes in a row.
\<close>

theorem parameterize_shape:
  "list_all is_param_char (parameterize deaccent s) \<and>
   \<not> has_double_dash (parameterize deaccent s) \<and>
   (parameterize deaccent s = [] \<or>
    hd (parameterize deaccent s) \<noteq> CHR ''-'' \<and> last (parameterize deaccent s) \<noteq> CHR ''-'')"
  by (rule parameterize_chars)

text \<open>A slug of that shape passes unchanged.\<close>

lemma separate_id: "list_all is_slug_char s \<Longrightarrow> separate b s = s"
  by (induction s arbitrary: b) auto

lemma is_param_slug_char: "is_param_char c \<Longrightarrow> is_slug_char c"
  unfolding is_slug_char_def dash_code underscore_code
  by (auto simp: is_param_char_def is_ascii_letter_def)

lemma param_char_lower: "is_param_char c \<Longrightarrow> ascii_lower c = c"
  by (auto simp: is_param_char_def ascii_lower_def is_digit_def)

lemma trim_dashes_id: "s \<noteq> [] \<Longrightarrow> hd s \<noteq> CHR ''-'' \<Longrightarrow> last s \<noteq> CHR ''-'' \<Longrightarrow> trim_dashes s = s"
proof -
  assume s: "s \<noteq> []" "hd s \<noteq> CHR ''-''" "last s \<noteq> CHR ''-''"
  then have "dropWhile (\<lambda>c. c = CHR ''-'') s = s" by (cases s) auto
  moreover have "dropWhile (\<lambda>c. c = CHR ''-'') (rev s) = rev s"
    using s by (cases s rule: rev_cases) auto
  ultimately show ?thesis by (simp add: trim_dashes_def)
qed

text \<open>
  Parameterizing is idempotent: a slug that \<open>Parameterize\<close> produced is mapped to itself
  (given that the decomposition leaves strings without bytes above 127 alone, as NFD does).
\<close>

theorem parameterize_idempotent:
  assumes "\<And>t. is_ascii t \<Longrightarrow> deaccent t = t"
  shows "parameterize deaccent (parameterize deaccent s) = parameterize deaccent s"
proof -
  let ?p = "parameterize deaccent s"
  note p = parameterize_chars [of deaccent s]
  have chars: "list_all is_slug_char ?p" and low: "map ascii_lower ?p = ?p"
    using p by (auto simp: list_all_iff is_param_slug_char param_char_lower intro!: map_idI)
  have "is_ascii ?p"
    using p by (auto simp: is_ascii_def list_all_iff is_param_char_def is_digit_def)
  then have "deaccent ?p = ?p" by (rule assms)
  moreover have "trim_dashes ?p = ?p"
    using p by (cases "?p = []") (auto simp: trim_dashes_def intro: trim_dashes_id [unfolded trim_dashes_def])
  moreover have "collapse_dashes ?p = ?p" using p by (simp add: collapse_dashes.simps [of ?p])
  ultimately show ?thesis
    using chars low unfolding parameterize_def [of deaccent ?p] sql_lower_def
    by (simp add: separate_id)
qed

theorem parameterize_idempotent_witness:
  "parameterize (\<lambda>t. t) (parameterize (\<lambda>t. t) ''Hello,  World_2!'') = ''hello-world_2''"
proof -
  have "parameterize (\<lambda>t. t) ''Hello,  World_2!'' = ''hello-world_2''" by code_simp
  with parameterize_idempotent [of "\<lambda>t. t" "''Hello,  World_2!''"] show ?thesis by simp
qed

section \<open>What generate\_slug yields\<close>

text \<open>
  In valid UTF-8 the byte 194 is followed by a continuation byte; this is all that the cleaning of
  slugs needs of the encoding.
\<close>

fun lead_ok :: "string \<Rightarrow> bool" where
  "lead_ok (c # d # s) = ((code_of c = 194 \<longrightarrow> is_continuation d) \<and> lead_ok (d # s))"
| "lead_ok [c] = (code_of c \<noteq> 194)"
| "lead_ok [] = True"

lemma lead_ok_tl: "lead_ok (c # s) \<Longrightarrow> lead_ok s"
  by (cases s) auto

lemma dropped_ascii: "is_slug_dropped c \<Longrightarrow> code_of c < 128"
  unfolding is_slug_dropped_def slug_unsafe_chars_def by auto

lemma clean_slug_keep:
  "\<not> is_slug_dropped c \<Longrightarrow> code_of c \<noteq> 194 \<Longrightarrow> clean_slug (c # s) = c # clean_slug s"
  by (cases s) auto

lemma clean_slug_drop: "is_slug_dropped c \<Longrightarrow> clean_slug (c # s) = clean_slug s"
  using dropped_ascii [of c] by (cases s) auto

lemma clean_slug_c1: "code_of c = 194 \<Longrightarrow> 128 \<le> code_of d \<Longrightarrow> code_of d < 160 \<Longrightarrow> clean_slug (c # d # s) = clean_slug s"
  by simp

text \<open>On valid UTF-8 the cleaned slug has nothing left to clean: no new two-byte control can arise.\<close>

lemma clean_slug_cont: "is_continuation e \<Longrightarrow> clean_slug (e # t) = e # clean_slug t"
  by (rule clean_slug_keep) (auto simp: is_continuation_def dest!: dropped_ascii)

lemma lead_cases:
  assumes "lead_ok (c # d # s)"
  obtains (control) "code_of c = 194" "is_continuation d" "code_of d < 160"
    | (pair) "code_of c = 194" "is_continuation d" "160 \<le> code_of d"
    | (dropped) "code_of c \<noteq> 194" "is_slug_dropped c"
    | (kept) "code_of c \<noteq> 194" "\<not> is_slug_dropped c"
  using assms by fastforce

lemma clean_slug_idem: "lead_ok s \<Longrightarrow> clean_slug (clean_slug s) = clean_slug s"
proof (induction s rule: clean_slug.induct)
  case (2 c)
  then show ?case by auto
next
  case (3 c d s)
  have lead: "lead_ok (d # s)" using 3(4) by simp
  from 3(4) show ?case
  proof (cases rule: lead_cases)
    case control
    then show ?thesis using "3.IH"(1) lead_ok_tl [OF lead] by (simp add: is_continuation_def)
  next
    case pair
    then have "\<not> is_slug_dropped c" by (auto dest: dropped_ascii)
    with pair "3.IH"(3) lead clean_slug_cont [OF pair(2)] show ?thesis by auto
  next
    case dropped
    then show ?thesis using "3.IH"(2) lead by simp
  next
    case kept
    then have "clean_slug (c # t) = c # clean_slug t" for t by (intro clean_slug_keep)
    with kept "3.IH"(3) lead show ?thesis by simp
  qed
qed simp

lemma lead_ok_clean: "lead_ok s \<Longrightarrow> lead_ok (clean_slug s)"
proof (induction s rule: clean_slug.induct)
  case (3 c d s)
  have lead: "lead_ok (d # s)" using 3(4) by simp
  from 3(4) show ?case
  proof (cases rule: lead_cases)
    case control
    then show ?thesis using "3.IH"(1) lead_ok_tl [OF lead] by (simp add: is_continuation_def)
  next
    case pair
    then have "\<not> is_slug_dropped c" by (auto dest: dropped_ascii)
    with pair "3.IH"(3) lead clean_slug_cont [OF pair(2)] show ?thesis by auto
  next
    case dropped
    then show ?thesis using "3.IH"(2) lead by simp
  next
    case kept
    then have "clean_slug (c # d # s) = c # clean_slug (d # s)" by (intro clean_slug_keep)
    moreover have "lead_ok (clean_slug (d # s))" using kept "3.IH"(3) lead by simp
    ultimately show ?thesis using kept by (cases "clean_slug (d # s)") auto
  qed
qed auto

lemma lead_ok_ascii: "list_all is_param_char s \<Longrightarrow> lead_ok s"
  by (induction s rule: lead_ok.induct) (auto simp: is_param_char_def is_digit_def)

lemma lead_ok_append: "lead_ok s \<Longrightarrow> lead_ok t \<Longrightarrow> lead_ok (s @ t)"
proof (induction s rule: lead_ok.induct)
  case (2 c)
  then show ?case by (cases t) auto
qed auto

lemma lead_ok_digits: "lead_ok (dec_nat n)"
  using dec_nat_digits [of _ n] by (intro lead_ok_ascii) (auto simp: list_all_iff is_param_char_def)

lemma lead_ok_candidate: "lead_ok base \<Longrightarrow> lead_ok (candidate base k)"
  unfolding candidate_def using lead_ok_append [of "''-''" "dec_nat k"] lead_ok_digits [of k]
  by (auto intro!: lead_ok_append)

lemma unique_slug_from_candidate:
  "unique_slug_from fuel taken base k = Some x \<Longrightarrow> \<exists>j. x = candidate base j"
  by (induction fuel taken base k rule: unique_slug_from.induct) (auto split: if_splits)

text \<open>
  Every generated slug is valid: handwritten, parameterized, derived from a title in another
  script with its uniqueness suffix, or made from the clock, the result has no character that
  \<open>CleanSlug\<close> would remove.
\<close>

theorem generated_slug_valid:
  assumes "generate_slug deaccent fuel slug title now_stamp taken = Some s"
    and "lead_ok slug" "lead_ok (squish title)"
  shows "is_valid_slug s"
proof -
  have param: "lead_ok (parameterize deaccent t)" for t
    using parameterize_chars [of deaccent t] by (blast intro: lead_ok_ascii)
  have cand: "lead_ok x" if "unique_slug_from fuel tk (clean_slug (squish title)) 0 = Some x" for tk x
    using unique_slug_from_candidate [OF that] lead_ok_candidate lead_ok_clean [OF assms(3)] by auto
  show ?thesis
    using assms(1) clean_slug_idem [OF assms(2)] clean_slug_idem [OF param]
      clean_slug_idem [OF lead_ok_clean [OF assms(3)]] clean_slug_idem [OF cand]
    by (auto simp: generate_slug_def is_valid_slug_def split: if_splits option.splits)
qed

text \<open>A title in Chinese: one character and an ASCII question mark.\<close>

definition ni_title :: string where
  "ni_title = [CHR 0xE4, CHR 0xBD, CHR 0xA0, CHR ''?'']"

theorem generated_slug_valid_witness:
  "generate_slug (\<lambda>t. t) 5 '''' ni_title ''2024-01-02-03-04''
     (Some (\<lambda>s. s = butlast ni_title)) = Some (butlast ni_title @ ''-1'') \<and>
   is_valid_slug (butlast ni_title @ ''-1'')"
proof -
  have g: "generate_slug (\<lambda>t. t) 5 '''' ni_title ''2024-01-02-03-04''
     (Some (\<lambda>s. s = butlast ni_title)) = Some (butlast ni_title @ ''-1'')"
    by code_simp
  have "lead_ok (squish ni_title)" by code_simp
  with generated_slug_valid [OF g] g show ?thesis by simp
qed

interpretation used_slugs: slug_probe "\<lambda>s. s \<in> set used" "set used" for used
  by unfold_locales auto

text \<open>
  C40: The uniqueness loop ends and picks the first free name: one round more than there are slugs
  in use is enough, and the result is the first of \<open>base\<close>, \<open>base-1\<close>, \<open>base-2\<close>, \<dots>
  that is free.
\<close>

theorem unique_slug_first_free:
  assumes "length used < fuel"
  shows "\<exists>j \<le> length used. unique_slug_from fuel (\<lambda>s. s \<in> set used) base 0 = Some (candidate base j) \<and>
    candidate base j \<notin> set used \<and> (\<forall>i < j. candidate base i \<in> set used)"
proof -
  have "card (set used) < fuel" using card_length [of used] assms by simp
  then obtain j where "j \<le> card (set used)"
    "unique_slug_from fuel (\<lambda>s. s \<in> set used) base 0 = Some (candidate base j)"
    "candidate base j \<notin> set used" "\<forall>i < j. candidate base i \<in> set used"
    by (rule used_slugs.probe_ends)
  moreover from this have "j \<le> length used" using card_length [of used] by simp
  ultimately show ?thesis by blast
qed

theorem unique_slug_first_free_witness:
  "unique_slug_from 3 (\<lambda>s. s \<in> set [''a'', ''a-1'']) ''a'' 0 = Some ''a-2''"
proof -
  have "unique_slug_from 3 (\<lambda>s. s \<in> set [''a'', ''a-1'']) ''a'' 0 = Some ''a-2''" by code_simp
  with unique_slug_first_free [of "[''a'', ''a-1'']" 3 "''a''"] show ?thesis by simp
qed

section \<open>What an excerpt is\<close>

lemma runes_of_Cons: "runes_of (c # s) \<noteq> []"
  by (auto split: list.splits)

lemma concat_runes [simp]: "concat (runes_of s) = s"
proof (induction s)
  case (Cons c s)
  show ?case
  proof (cases s)
    case Nil
    then show ?thesis by simp
  next
    case (Cons d t)
    then obtain r rs where "runes_of s = r # rs" using runes_of_Cons [of d t] by (cases "runes_of s") auto
    with Cons.IH Cons show ?thesis by simp
  qed
qed simp

text \<open>
  Truncation: a text of at most \<open>n\<close> characters is returned as it is; a longer one becomes a
  beginning of it, whole characters, followed by three dots and at most \<open>n\<close> characters long in
  all; the cut is at white space, or the text has none up to the last possible cut.
\<close>

theorem truncate_words_cut:
  assumes "3 \<le> n" "n < length (runes_of s)"
  shows "\<exists>k \<le> n - 3. truncate_words s n = concat (take k (runes_of s)) @ ''...'' \<and>
    (is_word_separator (runes_of s ! k) \<or> k = n - 3 \<and> (\<forall>i \<le> n - 3. \<not> is_word_separator (runes_of s ! i)))"
proof (cases "find (\<lambda>i. is_word_separator (runes_of s ! i)) (rev [0..<Suc (n - 3)])")
  case None
  then have "\<forall>i \<le> n - 3. \<not> is_word_separator (runes_of s ! i)"
    by (auto simp: find_None_iff simp del: upt_Suc)
  with None assms(2) show ?thesis
    by (intro exI [of _ "n - 3"]) (simp add: truncate_words_def Let_def del: upt_Suc)
next
  case (Some k)
  then have "k \<in> set (rev [0..<Suc (n - 3)]) \<and> is_word_separator (runes_of s ! k)"
    by (metis find_Some_iff nth_mem)
  with Some assms(2) show ?thesis
    by (intro exI [of _ k]) (auto simp: truncate_words_def Let_def simp del: upt_Suc)
qed

theorem truncate_words_cut_witness:
  "truncate_words ''one two three'' 10 = ''one two...''"
proof -
  have "truncate_words ''one two three'' 10 = ''one two...''" by code_simp
  moreover have "(10::nat) < length (runes_of ''one two three'')" by code_simp
  ultimately show ?thesis using truncate_words_cut [of 10 "''one two three''"] by simp
qed

end
