(* ===== verification/Tags.thy ===== *)
theory Tags
  imports Schema Slug
begin

text \<open>
  \<open>internal/service/tags/tags.go\<close> with the statements of \<open>internal/db/query/tags.sql.go\<close>:
  find-or-create by names, create, rename and destroy of tags, with the constraints of the schema
  (UNIQUE name and slug, the foreign keys of the join tables). The two loops of the code that may
  not end (the slug probe, and the retry after a lost race) take fuel; \<open>None\<close> is out of fuel.
  A lost race is a statement of the fault schedule that fails with the UNIQUE error.
\<close>

section \<open>Statements\<close>

definition count_tags_by_slug :: "string \<Rightarrow> int \<Rightarrow> nat db_act" where
  "count_tags_by_slug slug ex = query (\<lambda>d. count_where (\<lambda>t. t_slug t = slug \<and> t_id t \<noteq> ex) (tags d))"

definition new_tag :: "string \<Rightarrow> string \<Rightarrow> int \<Rightarrow> tag" where
  "new_tag name slug now = \<lparr>t_id = 0, t_name = name, t_slug = slug, t_created_at = now, t_updated_at = now\<rparr>"

definition insert_tag :: "tag \<Rightarrow> database \<Rightarrow> err + database \<times> tag" where
  "insert_tag t d =
     (if list_ex (\<lambda>x. t_name x = t_name t) (tags d) then Inl (ErrUnique ''tags.name'')
      else if list_ex (\<lambda>x. t_slug x = t_slug t) (tags d) then Inl (ErrUnique ''tags.slug'')
      else let (ts, t') = insert_row t_id (\<lambda>i r. r\<lparr>t_id := i\<rparr>) t (tags d) in Inr (d\<lparr>tags := ts\<rparr>, t'))"

definition create_tag_row :: "string \<Rightarrow> string \<Rightarrow> int \<Rightarrow> tag db_act" where
  "create_tag_row name slug now = exec (insert_tag (new_tag name slug now))"

definition same_lower :: "string \<Rightarrow> tag \<Rightarrow> bool" where
  "same_lower name t = (sql_lower (t_name t) = sql_lower name)"

definition get_tag_by_lower_name :: "string \<Rightarrow> tag db_act" where
  "get_tag_by_lower_name name = query_row (\<lambda>d. find (same_lower name) (tags d))"

definition get_tag_by_id :: "int \<Rightarrow> tag db_act" where
  "get_tag_by_id i = query_row (\<lambda>d. by_id t_id i (tags d))"

definition insert_tag_if_absent :: "string \<Rightarrow> string \<Rightarrow> int \<Rightarrow> unit db_act" where
  "insert_tag_if_absent name slug now =
     exec (\<lambda>d. if list_ex (same_lower name) (tags d) then Inr (d, ())
               else (case insert_tag (new_tag name slug now) d of Inl e \<Rightarrow> Inl e | Inr (d', _) \<Rightarrow> Inr (d', ())))"

definition update_tag_name :: "string \<Rightarrow> int \<Rightarrow> int \<Rightarrow> unit db_act" where
  "update_tag_name name now i =
     exec (\<lambda>d. if list_ex (\<lambda>t. t_id t = i) (tags d) \<and> list_ex (\<lambda>t. t_id t \<noteq> i \<and> t_name t = name) (tags d)
               then Inl (ErrUnique ''tags.name'')
               else Inr (d\<lparr>tags := update_where (\<lambda>t. t_id t = i) (\<lambda>t. t\<lparr>t_name := name, t_updated_at := now\<rparr>) (tags d)\<rparr>, ()))"

definition touch_articles_by_tag_id :: "int \<Rightarrow> int \<Rightarrow> unit db_act" where
  "touch_articles_by_tag_id now i =
     modify (\<lambda>d. d\<lparr>articles := update_where
       (\<lambda>a. list_ex (\<lambda>x. at_article_id x = a_id a \<and> at_tag_id x = i) (article_tags d))
       (\<lambda>a. a\<lparr>a_updated_at := now\<rparr>) (articles d)\<rparr>)"

definition delete_article_tags_by_tag_id :: "int \<Rightarrow> unit db_act" where
  "delete_article_tags_by_tag_id i =
     modify (\<lambda>d. d\<lparr>article_tags := delete_where (\<lambda>x. at_tag_id x = i) (article_tags d)\<rparr>)"

definition delete_subscriber_tags_by_tag_id :: "int \<Rightarrow> unit db_act" where
  "delete_subscriber_tags_by_tag_id i =
     modify (\<lambda>d. d\<lparr>subscriber_tags := delete_where (\<lambda>x. st_tag_id x = i) (subscriber_tags d)\<rparr>)"

definition delete_tag :: "int \<Rightarrow> unit db_act" where
  "delete_tag i =
     exec (\<lambda>d. if list_ex (\<lambda>t. t_id t = i) (tags d) \<and>
                  (list_ex (\<lambda>x. at_tag_id x = i) (article_tags d) \<or> list_ex (\<lambda>x. st_tag_id x = i) (subscriber_tags d))
               then Inl fk_error
               else Inr (d\<lparr>tags := delete_where (\<lambda>t. t_id t = i) (tags d)\<rparr>, ()))"

section \<open>Operations\<close>

definition err_name_blank :: err where "err_name_blank = ErrText ''name can't be blank''"
definition err_name_taken :: err where "err_name_taken = ErrText ''name has already been taken''"

definition is_unique_violation :: "err \<Rightarrow> bool" where
  "is_unique_violation e = str_contains (err_text e) ''UNIQUE constraint failed''"

definition bind_some :: "'a option db_act \<Rightarrow> ('a \<Rightarrow> 'b option db_act) \<Rightarrow> 'b option db_act" where
  "bind_some m f = bindE m (\<lambda>r. case r of None \<Rightarrow> ret None | Some x \<Rightarrow> f x)"

definition tag_slug_base :: "string \<Rightarrow> string" where
  "tag_slug_base name = (let base = clean_slug (squish name) in if base = '''' then ''tag'' else base)"

fun unique_tag_slug_loop :: "nat \<Rightarrow> string \<Rightarrow> int \<Rightarrow> nat \<Rightarrow> string option db_act" where
  "unique_tag_slug_loop 0 base ex k = ret None"
| "unique_tag_slug_loop (Suc fuel) base ex k =
     bindE (count_tags_by_slug (candidate base k) ex) (\<lambda>taken.
       if taken = 0 then ret (Some (candidate base k)) else unique_tag_slug_loop fuel base ex (Suc k))"

definition unique_tag_slug :: "nat \<Rightarrow> string \<Rightarrow> int \<Rightarrow> string option db_act" where
  "unique_tag_slug fuel name ex = unique_tag_slug_loop fuel (tag_slug_base name) ex 0"

fun create_tag_loop :: "nat \<Rightarrow> nat \<Rightarrow> int \<Rightarrow> string \<Rightarrow> tag option db_act" where
  "create_tag_loop fuel 0 now name = ret None"
| "create_tag_loop fuel (Suc rounds) now name =
     bind_some (unique_tag_slug fuel name 0) (\<lambda>slug.
     bindE (attempt (create_tag_row name slug now)) (\<lambda>r. case r of
       Inr t \<Rightarrow> ret (Some t)
     | Inl e \<Rightarrow>
         if \<not> is_unique_violation e then raise e
         else bindE (attempt (get_tag_by_lower_name name)) (\<lambda>look. case look of
                Inr _ \<Rightarrow> raise err_name_taken
              | Inl _ \<Rightarrow> create_tag_loop fuel rounds now name)))"

definition create_tag :: "nat \<Rightarrow> nat \<Rightarrow> int \<Rightarrow> string \<Rightarrow> tag option db_act" where
  "create_tag fuel rounds now name0 =
     (let name = trim_space name0 in
      if name = '''' then raise err_name_blank
      else bindE (attempt (get_tag_by_lower_name name)) (\<lambda>r. case r of
             Inr _ \<Rightarrow> raise err_name_taken
           | Inl e \<Rightarrow> if \<not> error_is e ErrNoRows then raise e else create_tag_loop fuel rounds now name))"

fun find_or_create_loop :: "nat \<Rightarrow> nat \<Rightarrow> int \<Rightarrow> string \<Rightarrow> tag option db_act" where
  "find_or_create_loop fuel 0 now name = ret None"
| "find_or_create_loop fuel (Suc rounds) now name =
     bind_some (unique_tag_slug fuel name 0) (\<lambda>slug.
     bindE (attempt (insert_tag_if_absent name slug now)) (\<lambda>r. case r of
       Inl e \<Rightarrow> if is_unique_violation e then find_or_create_loop fuel rounds now name else raise e
     | Inr _ \<Rightarrow> bindE (get_tag_by_lower_name name) (\<lambda>t. ret (Some t))))"

definition find_or_create :: "nat \<Rightarrow> nat \<Rightarrow> int \<Rightarrow> string \<Rightarrow> tag option db_act" where
  "find_or_create fuel rounds now name =
     bindE (attempt (get_tag_by_lower_name name)) (\<lambda>r. case r of
       Inr t \<Rightarrow> ret (Some t)
     | Inl e \<Rightarrow> if \<not> error_is e ErrNoRows then raise e else find_or_create_loop fuel rounds now name)"

text \<open>\<open>clk name\<close> is the clock reading of the creation of \<open>name\<close>.\<close>

fun find_or_create_names ::
  "(string \<Rightarrow> string) \<Rightarrow> nat \<Rightarrow> nat \<Rightarrow> (string \<Rightarrow> int) \<Rightarrow> string list \<Rightarrow> string list \<Rightarrow> int list option db_act" where
  "find_or_create_names uni fuel rounds clk seen [] = ret (Some [])"
| "find_or_create_names uni fuel rounds clk seen (n # names) =
     (let name = trim_space n in
      if name = '''' \<or> to_lower uni name \<in> set seen
      then find_or_create_names uni fuel rounds clk seen names
      else bind_some (find_or_create fuel rounds (clk name) name) (\<lambda>t.
           bind_some (find_or_create_names uni fuel rounds clk (to_lower uni name # seen) names) (\<lambda>ids.
           ret (Some (t_id t # ids)))))"

definition find_or_create_by_names ::
  "(string \<Rightarrow> string) \<Rightarrow> nat \<Rightarrow> nat \<Rightarrow> (string \<Rightarrow> int) \<Rightarrow> string list \<Rightarrow> int list option db_act" where
  "find_or_create_by_names uni fuel rounds clk names = find_or_create_names uni fuel rounds clk [] names"

definition rename_tag :: "int \<Rightarrow> int \<Rightarrow> string \<Rightarrow> unit db_act" where
  "rename_tag now i name0 =
     (let name = trim_space name0 in
      if name = '''' then raise err_name_blank
      else bindE (get_tag_by_id i) (\<lambda>t.
           bindE (attempt (get_tag_by_lower_name name)) (\<lambda>r.
             let proceed = tx (bindE (attempt (update_tag_name name now i)) (\<lambda>u. case u of
                   Inl e \<Rightarrow> raise (if is_unique_violation e then err_name_taken else e)
                 | Inr _ \<Rightarrow> if t_name t \<noteq> name then touch_articles_by_tag_id now i else ret ()))
             in case r of
                  Inr clash \<Rightarrow> if t_id clash \<noteq> i then raise err_name_taken else proceed
                | Inl e \<Rightarrow> if \<not> error_is e ErrNoRows then raise e else proceed)))"

definition destroy_tag :: "int \<Rightarrow> unit db_act" where
  "destroy_tag i =
     bindE (get_tag_by_id i) (\<lambda>_.
       tx (bindE (delete_article_tags_by_tag_id i) (\<lambda>_.
           bindE (delete_subscriber_tags_by_tag_id i) (\<lambda>_.
           delete_tag i))))"

section \<open>The invariant of the table\<close>

text \<open>Ids are distinct and positive, slugs are distinct, and so are names up to ASCII case.\<close>

definition tags_ok :: "database \<Rightarrow> bool" where
  "tags_ok d = (ids_ok t_id (tags d) \<and> list_all (\<lambda>t. 0 < t_id t) (tags d) \<and>
                distinct (map t_slug (tags d)) \<and> distinct (map (\<lambda>t. sql_lower (t_name t)) (tags d)))"

lemma tags_ok_lower_unique:
  "tags_ok d \<Longrightarrow> s \<in> set (tags d) \<Longrightarrow> t \<in> set (tags d) \<Longrightarrow>
   sql_lower (t_name s) = sql_lower (t_name t) \<Longrightarrow> s = t"
  unfolding tags_ok_def by (auto simp: distinct_map inj_on_def)

lemma find_same_lower:
  assumes "tags_ok d" "t \<in> set (tags d)" "sql_lower (t_name t) = sql_lower name"
  shows "find (same_lower name) (tags d) = Some t"
proof (cases "find (same_lower name) (tags d)")
  case None
  with assms show ?thesis by (auto simp: find_None_iff same_lower_def)
next
  case (Some s)
  then have "s \<in> set (tags d)" "same_lower name s"
    by (auto simp: find_Some_iff)
  with assms have "s = t" by (intro tags_ok_lower_unique [OF assms(1)]) (auto simp: same_lower_def)
  with Some show ?thesis by simp
qed

lemma find_same_lower_Some: "find (same_lower name) ts = Some t \<Longrightarrow> t \<in> set ts \<and> sql_lower (t_name t) = sql_lower name"
  by (auto simp: find_Some_iff same_lower_def)

definition slugs_used :: "database \<Rightarrow> string list" where
  "slugs_used d = map t_slug (tags d)"

text \<open>The tag the code adds for a name: the first free slug, the next row id.\<close>

definition add_tag :: "string \<Rightarrow> string \<Rightarrow> int \<Rightarrow> database \<Rightarrow> database" where
  "add_tag name slug now d =
     d\<lparr>tags := fst (insert_row t_id (\<lambda>i r. r\<lparr>t_id := i\<rparr>) (new_tag name slug now) (tags d))\<rparr>"

definition added_tag :: "string \<Rightarrow> string \<Rightarrow> int \<Rightarrow> database \<Rightarrow> tag" where
  "added_tag name slug now d = (new_tag name slug now)\<lparr>t_id := next_rowid (map t_id (tags d))\<rparr>"

lemma add_tag_tags: "tags (add_tag name slug now d) = tags d @ [added_tag name slug now d]"
  by (simp add: add_tag_def added_tag_def insert_row_def Let_def)

lemma next_rowid_pos: "list_all (\<lambda>i. 0 < i) ids \<Longrightarrow> 0 < next_rowid ids"
proof -
  assume a: "list_all (\<lambda>i. 0 < i) ids"
  show ?thesis
  proof (cases "ids = []")
    case False
    then have "Max (set ids) \<in> set ids" by simp
    with a have "0 < Max (set ids)" by (simp add: list_all_iff)
    with False show ?thesis by (simp add: next_rowid_def)
  qed (simp add: next_rowid_def)
qed

lemma tags_ok_add:
  assumes "tags_ok d" "find (same_lower name) (tags d) = None" "slug \<notin> set (slugs_used d)"
  shows "tags_ok (add_tag name slug now d)"
proof -
  have "ids_ok t_id (tags (add_tag name slug now d))"
    using assms(1) unfolding add_tag_def tags_ok_def by (simp add: tags_tab.ids_ok_insert)
  moreover have "0 < next_rowid (map t_id (tags d))"
    using assms(1) by (intro next_rowid_pos) (simp add: tags_ok_def list_all_iff)
  moreover have "sql_lower name \<notin> (\<lambda>t. sql_lower (t_name t)) ` set (tags d)"
    using assms(2) by (auto simp: find_None_iff same_lower_def)
  ultimately show ?thesis
    using assms(1,3) by (auto simp: tags_ok_def add_tag_tags added_tag_def new_tag_def slugs_used_def)
qed

lemma insert_tag_ok:
  assumes "find (same_lower name) (tags d) = None" "slug \<notin> set (slugs_used d)"
  shows "insert_tag (new_tag name slug now) d = Inr (add_tag name slug now d, added_tag name slug now d)"
proof -
  have "\<not> list_ex (\<lambda>x. t_name x = name) (tags d)"
    using assms(1) by (auto simp: find_None_iff same_lower_def list_ex_iff)
  moreover have "\<not> list_ex (\<lambda>x. t_slug x = slug) (tags d)"
    using assms(2) by (auto simp: slugs_used_def list_ex_iff)
  ultimately show ?thesis
    by (simp add: insert_tag_def add_tag_def added_tag_def insert_row_def Let_def)
      (simp add: new_tag_def)
qed

section \<open>Runs without failures\<close>

lemma get_tag_by_lower_name_run [run_simps]:
  "wfaults w = [] \<Longrightarrow> get_tag_by_lower_name name w =
     (case find (same_lower name) (tags (wdb w)) of None \<Rightarrow> (Inl ErrNoRows, w) | Some t \<Rightarrow> (Inr t, w))"
  by (simp add: get_tag_by_lower_name_def run_simps)

lemma count_slug_zero:
  "tags_ok d \<Longrightarrow> count_where (\<lambda>t. t_slug t = s \<and> t_id t \<noteq> 0) (tags d) = 0 \<longleftrightarrow> s \<notin> set (slugs_used d)"
  by (auto simp: count_where_zero slugs_used_def tags_ok_def list_all_iff)

lemma unique_tag_slug_loop_run:
  "wfaults w = [] \<Longrightarrow> tags_ok (wdb w) \<Longrightarrow>
   unique_tag_slug_loop fuel base 0 k w =
     (Inr (unique_slug_from fuel (\<lambda>s. s \<in> set (slugs_used (wdb w))) base k), w)"
  by (induction fuel arbitrary: k)
    (simp_all add: run_simps count_tags_by_slug_def count_slug_zero)

text \<open>With enough fuel the probe yields a free slug and changes nothing.\<close>

lemma unique_tag_slug_run:
  assumes "wfaults w = []" "tags_ok (wdb w)" "length (tags (wdb w)) < fuel"
  obtains slug where "unique_tag_slug fuel name 0 w = (Inr (Some slug), w)"
    "slug \<notin> set (slugs_used (wdb w))" "\<exists>j. slug = candidate (tag_slug_base name) j"
proof -
  have "card (set (slugs_used (wdb w))) < fuel"
    using assms(3) card_length [of "slugs_used (wdb w)"] by (simp add: slugs_used_def)
  then obtain j where
    "unique_slug_from fuel (\<lambda>s. s \<in> set (slugs_used (wdb w))) (tag_slug_base name) 0 = Some (candidate (tag_slug_base name) j)"
    "candidate (tag_slug_base name) j \<notin> set (slugs_used (wdb w))"
    by (rule used_slugs.probe_ends)
  with assms(1,2) show thesis
    by (intro that [of "candidate (tag_slug_base name) j"])
      (auto simp: unique_tag_slug_def unique_tag_slug_loop_run)
qed

lemma find_or_create_run:
  assumes "wfaults w = []" "tags_ok (wdb w)" "length (tags (wdb w)) < fuel" "0 < rounds"
  shows "\<exists>t w'. find_or_create fuel rounds now name w = (Inr (Some t), w') \<and> wfaults w' = [] \<and>
    tags_ok (wdb w') \<and> find (same_lower name) (tags (wdb w')) = Some t \<and>
    (case find (same_lower name) (tags (wdb w)) of
       Some s \<Rightarrow> w' = w
     | None \<Rightarrow> \<exists>slug. wdb w' = add_tag name slug now (wdb w))"
proof (cases "find (same_lower name) (tags (wdb w))")
  case (Some t)
  with assms show ?thesis by (simp add: find_or_create_def run_simps)
next
  case None
  obtain slug where slug: "unique_tag_slug fuel name 0 w = (Inr (Some slug), w)"
    "slug \<notin> set (slugs_used (wdb w))"
    using unique_tag_slug_run [OF assms(1-3)] by blast
  let ?d = "add_tag name slug now (wdb w)"
  let ?t = "added_tag name slug now (wdb w)"
  have ok: "tags_ok ?d" using assms(2) None slug(2) by (rule tags_ok_add)
  have nex: "\<not> list_ex (same_lower name) (tags (wdb w))" using None by (auto simp: find_None_iff list_ex_iff)
  have ins: "insert_tag_if_absent name slug now w = (Inr (), w\<lparr>wdb := ?d\<rparr>)"
    using assms(1) nex by (simp add: insert_tag_if_absent_def run_simps insert_tag_ok [OF None slug(2)])
  have found: "find (same_lower name) (tags ?d) = Some ?t"
    using None by (simp add: add_tag_tags find_snoc same_lower_def added_tag_def new_tag_def)
  obtain r where r: "rounds = Suc r" using assms(4) by (cases rounds) auto
  have err: "error_is ErrNoRows ErrNoRows" by simp
  have "find_or_create fuel rounds now name w = (Inr (Some ?t), w\<lparr>wdb := ?d\<rparr>)"
    using assms(1) None slug(1) ins found
    by (simp add: find_or_create_def r run_simps bind_some_def)
  with assms(1) ok found None show ?thesis by auto
qed

text \<open>The names that survive trimming, dropping blanks and removing repetitions.\<close>

fun distinct_names :: "(string \<Rightarrow> string) \<Rightarrow> string list \<Rightarrow> string list \<Rightarrow> string list" where
  "distinct_names uni seen [] = []"
| "distinct_names uni seen (n # names) =
     (let name = trim_space n in
      if name = '''' \<or> to_lower uni name \<in> set seen then distinct_names uni seen names
      else name # distinct_names uni (to_lower uni name # seen) names)"

definition names_tag :: "database \<Rightarrow> string \<Rightarrow> int \<Rightarrow> bool" where
  "names_tag d name i = (\<exists>t \<in> set (tags d). t_id t = i \<and> sql_lower (t_name t) = sql_lower name)"

lemma names_tag_mono: "names_tag d name i \<Longrightarrow> tags d' = tags d @ ts \<Longrightarrow> names_tag d' name i"
  by (auto simp: names_tag_def)

lemma find_or_create_names_run:
  assumes "wfaults w = []" "tags_ok (wdb w)" "length (tags (wdb w)) + length names < fuel" "0 < rounds"
  shows "\<exists>ids w' ts. find_or_create_names uni fuel rounds clk seen names w = (Inr (Some ids), w') \<and>
    wfaults w' = [] \<and> tags_ok (wdb w') \<and> wdb w' = (wdb w)\<lparr>tags := tags (wdb w) @ ts\<rparr> \<and>
    list_all2 (names_tag (wdb w')) (distinct_names uni seen names) ids"
  using assms
proof (induction names arbitrary: seen w)
  case Nil
  then show ?case
    by (intro exI [of _ "[]"] exI [of _ w]) (simp add: run_simps)
next
  case (Cons n names)
  let ?n = "trim_space n"
  show ?case
  proof (cases "?n = '''' \<or> to_lower uni ?n \<in> set seen")
    case True
    have "length (tags (wdb w)) + length names < fuel" using Cons.prems(3) by simp
    from Cons.IH [OF Cons.prems(1,2) this Cons.prems(4), of seen] True show ?thesis by (auto simp: Let_def)
  next
    case False
    have "length (tags (wdb w)) < fuel" using Cons.prems(3) by simp
    from find_or_create_run [OF Cons.prems(1,2) this Cons.prems(4), of "clk ?n" ?n] obtain t w1 where
      t: "find_or_create fuel rounds (clk ?n) ?n w = (Inr (Some t), w1)" "wfaults w1 = []" "tags_ok (wdb w1)"
        "find (same_lower ?n) (tags (wdb w1)) = Some t"
      and w1: "case find (same_lower ?n) (tags (wdb w)) of Some s \<Rightarrow> w1 = w
        | None \<Rightarrow> \<exists>slug. wdb w1 = add_tag ?n slug (clk ?n) (wdb w)"
      by blast
    obtain ts1 where ts1: "wdb w1 = (wdb w)\<lparr>tags := tags (wdb w) @ ts1\<rparr>" "length ts1 \<le> 1"
      using w1
      by (cases "find (same_lower ?n) (tags (wdb w))")
        (auto simp: add_tag_def insert_row_def Let_def intro: that [of "[]"])
    then have "length (tags (wdb w1)) + length names < fuel" using Cons.prems(3) by simp
    from Cons.IH [OF t(2,3) this Cons.prems(4), of "to_lower uni ?n # seen"] obtain ids w2 ts2 where
      ids: "find_or_create_names uni fuel rounds clk (to_lower uni ?n # seen) names w1 = (Inr (Some ids), w2)"
        "wfaults w2 = []" "tags_ok (wdb w2)" "wdb w2 = (wdb w1)\<lparr>tags := tags (wdb w1) @ ts2\<rparr>"
        "list_all2 (names_tag (wdb w2)) (distinct_names uni (to_lower uni ?n # seen) names) ids"
      by blast
    have "names_tag (wdb w1) ?n (t_id t)"
      using find_same_lower_Some [OF t(4)] by (auto simp: names_tag_def)
    then have nt: "names_tag (wdb w2) ?n (t_id t)" by (rule names_tag_mono [where ts = ts2]) (simp add: ids(4))
    have run: "find_or_create_names uni fuel rounds clk seen (n # names) w = (Inr (Some (t_id t # ids)), w2)"
      using False t(1) ids(1) by (simp add: Let_def run_simps bind_some_def)
    have db: "wdb w2 = (wdb w)\<lparr>tags := tags (wdb w) @ (ts1 @ ts2)\<rparr>" using ts1(1) ids(4) by simp
    have l2: "list_all2 (names_tag (wdb w2)) (distinct_names uni seen (n # names)) (t_id t # ids)"
      using False nt ids(5) by (simp add: Let_def)
    show ?thesis using run db l2 ids(2,3) by blast
  qed
qed

section \<open>Properties\<close>

text \<open>
  Find-or-create by names: with fuel for the probing loops the call succeeds; it returns one tag id per
  distinct name, in order, and each id is that of a tag with the name up to ASCII case; existing tags
  and every other table are unchanged, new tags are appended, and the table's constraints (distinct
  ids, slugs and names up to case) still hold.
\<close>

theorem tags_found_or_created:
  assumes "wfaults w = []" "tags_ok (wdb w)" "length (tags (wdb w)) + length names < fuel" "0 < rounds"
  shows "\<exists>ids w' ts. find_or_create_by_names uni fuel rounds clk names w = (Inr (Some ids), w') \<and>
    tags_ok (wdb w') \<and> wdb w' = (wdb w)\<lparr>tags := tags (wdb w) @ ts\<rparr> \<and>
    list_all2 (names_tag (wdb w')) (distinct_names uni [] names) ids"
  using find_or_create_names_run [OF assms, of uni clk "[]"] by (auto simp: find_or_create_by_names_def)

definition tag_db :: database where
  "tag_db = empty_db\<lparr>tags := [\<lparr>t_id = 3, t_name = ''Go'', t_slug = ''Go'', t_created_at = 1, t_updated_at = 1\<rparr>]\<rparr>"

lemma tag_db_ok: "tags_ok tag_db"
  by (simp add: tag_db_def tags_ok_def ids_ok_def)

theorem tags_found_or_created_witness:
  "\<exists>ids w'. find_or_create_by_names (\<lambda>s. s) 9 1 (\<lambda>_. 5) ['' go '', '''', ''Rust'', ''GO'']
      \<lparr>wdb = tag_db, wfaults = []\<rparr> = (Inr (Some ids), w') \<and> tags_ok (wdb w')"
  using tags_found_or_created [of "\<lparr>wdb = tag_db, wfaults = []\<rparr>" "['' go '', '''', ''Rust'', ''GO'']" 9 1
      "\<lambda>s. s" "\<lambda>_. 5"] tag_db_ok
  by (auto simp: tag_db_def)

text \<open>A name that has a tag is answered without a write.\<close>

lemma find_or_create_names_known:
  assumes "wfaults w = []" "tags_ok (wdb w)"
    and "list_all2 (names_tag (wdb w)) (distinct_names uni seen names) ids"
  shows "find_or_create_names uni fuel rounds clk seen names w = (Inr (Some ids), w)"
  using assms(3)
proof (induction names arbitrary: seen ids)
  case Nil
  then show ?case by (simp add: run_simps)
next
  case (Cons n names)
  let ?n = "trim_space n"
  show ?case
  proof (cases "?n = '''' \<or> to_lower uni ?n \<in> set seen")
    case True
    with Cons show ?thesis by (simp add: Let_def)
  next
    case False
    with Cons.prems obtain i ks where ids: "ids = i # ks" "names_tag (wdb w) ?n i"
      "list_all2 (names_tag (wdb w)) (distinct_names uni (to_lower uni ?n # seen) names) ks"
      by (auto simp: Let_def list_all2_Cons1)
    then obtain t where "t \<in> set (tags (wdb w))" "t_id t = i" "sql_lower (t_name t) = sql_lower ?n"
      by (auto simp: names_tag_def)
    with assms(2) have "find (same_lower ?n) (tags (wdb w)) = Some t" "t_id t = i"
      by (auto intro: find_same_lower)
    with assms(1) have "find_or_create fuel rounds (clk ?n) ?n w = (Inr (Some t), w)" "t_id t = i"
      by (simp_all add: find_or_create_def run_simps)
    with False Cons.IH [OF ids(3)] ids(1) show ?thesis by (simp add: Let_def run_simps bind_some_def)
  qed
qed

text \<open>
  Find-or-create is idempotent: asking again for the same names, at any later time, returns the
  same ids and writes nothing.
\<close>

theorem tags_find_again:
  assumes "wfaults w = []" "tags_ok (wdb w)" "length (tags (wdb w)) + length names < fuel" "0 < rounds"
    and "find_or_create_by_names uni fuel rounds clk names w = (r, w')"
  shows "find_or_create_by_names uni fuel' rounds' clk' names w' = (r, w')"
proof -
  obtain ids w1 ts where run: "find_or_create_names uni fuel rounds clk [] names w = (Inr (Some ids), w1)"
    "wfaults w1 = []" "tags_ok (wdb w1)" "list_all2 (names_tag (wdb w1)) (distinct_names uni [] names) ids"
    using find_or_create_names_run [OF assms(1-4), of uni clk "[]"] by blast
  with assms(5) have "r = Inr (Some ids)" "w' = w1" by (simp_all add: find_or_create_by_names_def)
  with find_or_create_names_known [OF run(2-4)] show ?thesis by (simp add: find_or_create_by_names_def)
qed

theorem tags_find_again_witness:
  "find_or_create_by_names (\<lambda>s. s) 1 1 (\<lambda>_. 8) [''Rust'']
     (snd (find_or_create_by_names (\<lambda>s. s) 9 1 (\<lambda>_. 5) [''Rust''] \<lparr>wdb = tag_db, wfaults = []\<rparr>)) =
   find_or_create_by_names (\<lambda>s. s) 9 1 (\<lambda>_. 5) [''Rust''] \<lparr>wdb = tag_db, wfaults = []\<rparr>"
  using tags_find_again [of "\<lparr>wdb = tag_db, wfaults = []\<rparr>" "[''Rust'']" 9 1 "\<lambda>s. s" "\<lambda>_. 5"
      "fst (find_or_create_by_names (\<lambda>s. s) 9 1 (\<lambda>_. 5) [''Rust''] \<lparr>wdb = tag_db, wfaults = []\<rparr>)"
      "snd (find_or_create_by_names (\<lambda>s. s) 9 1 (\<lambda>_. 5) [''Rust''] \<lparr>wdb = tag_db, wfaults = []\<rparr>)"
      1 1 "\<lambda>_. 8"] tag_db_ok
  by (simp add: tag_db_def)

text \<open>
  A lost creation race is survived: when another process inserts the slug first (the insert fails
  with the UNIQUE error), the loop retries and the name still ends up with exactly one tag.
\<close>

theorem tags_race_retried:
  assumes "wfaults w = [None, None, Some (ErrUnique ''tags.slug'')]" "tags_ok (wdb w)"
    and "length (tags (wdb w)) < fuel" "1 < rounds"
    and "find (same_lower name) (tags (wdb w)) = None" "tag_slug_base name \<notin> set (slugs_used (wdb w))"
  shows "\<exists>t w'. find_or_create fuel rounds now name w = (Inr (Some t), w') \<and> tags_ok (wdb w') \<and>
    find (same_lower name) (tags (wdb w')) = Some t"
proof -
  let ?w = "w\<lparr>wfaults := []\<rparr>"
  obtain f where f: "fuel = Suc f" using assms(3) by (cases fuel) auto
  obtain r where r: "rounds = Suc r" "0 < r" using assms(4) by (cases rounds) auto
  have free: "count_where (\<lambda>t. t_slug t = tag_slug_base name \<and> t_id t \<noteq> 0) (tags (wdb w)) = 0"
    using assms(2,6) by (simp add: count_slug_zero)
  have uv: "is_unique_violation (ErrUnique ''tags.slug'')"
    by (simp add: is_unique_violation_def has_prefix_def)
  have look: "get_tag_by_lower_name name w = (Inl ErrNoRows, w\<lparr>wfaults := [None, Some (ErrUnique ''tags.slug'')]\<rparr>)"
    using assms(1,5) by (simp add: get_tag_by_lower_name_def query_row_def exec_passing)
  have probe: "unique_tag_slug fuel name 0 (w\<lparr>wfaults := [None, Some (ErrUnique ''tags.slug'')]\<rparr>) =
      (Inr (Some (tag_slug_base name)), w\<lparr>wfaults := [Some (ErrUnique ''tags.slug'')]\<rparr>)"
    using free by (simp add: f unique_tag_slug_def candidate_def count_tags_by_slug_def query_def exec_passing
        bindE_run ret_run)
  have ins: "insert_tag_if_absent name (tag_slug_base name) now (w\<lparr>wfaults := [Some (ErrUnique ''tags.slug'')]\<rparr>) =
      (Inl (ErrUnique ''tags.slug''), ?w)"
    by (simp add: insert_tag_if_absent_def exec_failing)
  have step: "find_or_create fuel rounds now name w = find_or_create_loop fuel r now name ?w"
    using look probe ins uv by (simp add: find_or_create_def r(1) bindE_run attempt_run bind_some_def)
  have "find_or_create fuel r now name ?w = find_or_create_loop fuel r now name ?w"
    using assms(5) by (simp add: find_or_create_def run_simps)
  with find_or_create_run [of ?w fuel r now name] assms(2,3) r(2) step show ?thesis by auto
qed

theorem tags_race_retried_witness:
  "\<exists>t w'. find_or_create 9 2 5 ''Rust'' \<lparr>wdb = tag_db, wfaults = [None, None, Some (ErrUnique ''tags.slug'')]\<rparr> =
     (Inr (Some t), w') \<and> tags_ok (wdb w')"
proof -
  have "tag_slug_base ''Rust'' = ''Rust''" by code_simp
  then show ?thesis
    using tags_race_retried [of "\<lparr>wdb = tag_db, wfaults = [None, None, Some (ErrUnique ''tags.slug'')]\<rparr>"
        9 2 "''Rust''" 5] tag_db_ok
    by (force simp: tag_db_def same_lower_def sql_lower_def ascii_lower_def slugs_used_def)
qed

lemma rename_tx_error: "rename_tag now i name w = (Inl e, w') \<Longrightarrow> wdb w' = wdb w"
proof -
  have g: "wdb (snd (get_tag_by_id i w)) = wdb w" for i and w :: dbworld
    unfolding get_tag_by_id_def by (rule query_row_keeps)
  have l: "wdb (snd (get_tag_by_lower_name n w)) = wdb w" for n and w :: dbworld
    unfolding get_tag_by_lower_name_def by (rule query_row_keeps)
  assume "rename_tag now i name w = (Inl e, w')"
  then show ?thesis
    using g l
    by (auto simp: rename_tag_def Let_def bindE_def attempt_run raise_def split: if_splits prod.splits sum.splits
        dest!: tx_error_keeps) (metis snd_conv)+
qed

text \<open>
  A rename is all or nothing, whichever statement fails: an error leaves the database as it was;
  so a tag never carries its new name while the articles that show it keep a stale cache stamp.
\<close>

theorem rename_tag_atomic:
  assumes "rename_tag now i name w = (Inl e, w')"
  shows "wdb w' = wdb w"
  using assms by (rule rename_tx_error)

theorem rename_tag_atomic_witness:
  "wdb (snd (rename_tag 9 3 ''Rust'' \<lparr>wdb = tag_db, wfaults = [None, None, None, None, Some ErrCanceled]\<rparr>)) = tag_db"
proof -
  let ?w = "\<lparr>wdb = tag_db, wfaults = [None, None, None, None, Some ErrCanceled]\<rparr>"
  have "trim_space ''Rust'' = ''Rust''" by code_simp
  then have "fst (rename_tag 9 3 ''Rust'' ?w) = Inl ErrCanceled"
    by (simp add: rename_tag_def Let_def bindE_run attempt_run get_tag_by_id_def get_tag_by_lower_name_def
        query_row_def exec_passing exec_failing tag_db_def by_id_def same_lower_def sql_lower_def
        ascii_lower_def tx_def in_tx_def update_tag_name_def touch_articles_by_tag_id_def modify_def)
  then have "rename_tag 9 3 ''Rust'' ?w = (Inl ErrCanceled, snd (rename_tag 9 3 ''Rust'' ?w))"
    by (metis prod.collapse)
  from rename_tag_atomic [OF this] show ?thesis by simp
qed

text \<open>
  A rename: with no other tag of that name the tag gets the new name and keeps its slug, and
  when the name really changed exactly the articles carrying the tag are stamped for the render cache.
\<close>

theorem rename_tag_effect:
  assumes "wfaults w = []" "tags_ok (wdb w)" "by_id t_id i (tags (wdb w)) = Some t"
    and "trim_space name = n" "n \<noteq> ''''"
    and "\<forall>s \<in> set (tags (wdb w)). sql_lower (t_name s) = sql_lower n \<longrightarrow> t_id s = i"
  shows "rename_tag now i name w = (Inr (), w\<lparr>wdb := (wdb w)
     \<lparr>tags := update_where (\<lambda>t. t_id t = i) (\<lambda>t. t\<lparr>t_name := n, t_updated_at := now\<rparr>) (tags (wdb w)),
      articles := (if t_name t = n then articles (wdb w)
        else update_where (\<lambda>a. list_ex (\<lambda>x. at_article_id x = a_id a \<and> at_tag_id x = i) (article_tags (wdb w)))
          (\<lambda>a. a\<lparr>a_updated_at := now\<rparr>) (articles (wdb w)))\<rparr>\<rparr>)"
proof -
  have nu: "\<not> list_ex (\<lambda>t. t_id t \<noteq> i \<and> t_name t = n) (tags (wdb w))"
    using assms(6) by (auto simp: list_ex_iff)
  have cl: "find (same_lower n) (tags (wdb w)) = Some s \<Longrightarrow> t_id s = i" for s
    using assms(6) find_same_lower_Some by blast
  show ?thesis
    using assms(1,3-5) nu cl
    by (auto simp: rename_tag_def Let_def run_simps get_tag_by_id_def update_tag_name_def
        touch_articles_by_tag_id_def tx_def split: option.splits)
qed

theorem rename_tag_effect_witness:
  "rename_tag 9 3 ''go'' \<lparr>wdb = tag_db, wfaults = []\<rparr> = (Inr (), \<lparr>wdb = tag_db
     \<lparr>tags := [\<lparr>t_id = 3, t_name = ''go'', t_slug = ''Go'', t_created_at = 1, t_updated_at = 9\<rparr>]\<rparr>, wfaults = []\<rparr>)"
proof -
  have "trim_space ''go'' = ''go''" by code_simp
  from rename_tag_effect [OF _ _ _ this, of "\<lparr>wdb = tag_db, wfaults = []\<rparr>" 3
      "\<lparr>t_id = 3, t_name = ''Go'', t_slug = ''Go'', t_created_at = 1, t_updated_at = 1\<rparr>" 9] tag_db_ok
  show ?thesis by (simp add: tag_db_def by_id_def update_where_def empty_db_def)
qed

text \<open>
  Destroying a tag leaves nothing dangling: the tag and exactly its join rows disappear, no
  foreign key stops it, and a tag that does not exist is reported as no rows.
\<close>

theorem destroy_tag_effect:
  assumes "wfaults w = []"
  shows "destroy_tag i w =
    (case by_id t_id i (tags (wdb w)) of
       None \<Rightarrow> (Inl ErrNoRows, w)
     | Some _ \<Rightarrow> (Inr (), w\<lparr>wdb := (wdb w)
         \<lparr>article_tags := delete_where (\<lambda>x. at_tag_id x = i) (article_tags (wdb w)),
          subscriber_tags := delete_where (\<lambda>x. st_tag_id x = i) (subscriber_tags (wdb w)),
          tags := delete_where (\<lambda>t. t_id t = i) (tags (wdb w))\<rparr>\<rparr>))"
  using assms
  by (simp add: destroy_tag_def run_simps get_tag_by_id_def tx_def delete_article_tags_by_tag_id_def
      delete_subscriber_tags_by_tag_id_def delete_tag_def list_ex_iff split: option.splits)

theorem destroy_tag_effect_witness:
  "destroy_tag 3 \<lparr>wdb = tag_db, wfaults = []\<rparr> = (Inr (), \<lparr>wdb = empty_db, wfaults = []\<rparr>)"
  using destroy_tag_effect [of "\<lparr>wdb = tag_db, wfaults = []\<rparr>" 3]
  by (simp add: tag_db_def by_id_def delete_where_def empty_db_def)

end
