(* ===== verification/Articles.thy ===== *)
theory Articles
  imports Tags Publishing
begin

text \<open>
  \<open>internal/service/articles/articles.go\<close> with the article statements of
  \<open>internal/db/query/articles_admin.sql.go\<close>: saving an article (slug, validations, snapshot,
  tags, social posts, scheduling and publishing effects in one transaction) and the status
  transitions. Markdown rendering, HTML sanitizing and the plain text of a body are the fields of
  the argument \<open>text_env\<close>.
\<close>

section \<open>Parameters\<close>

record text_env =
  te_uni :: "string \<Rightarrow> string"
  te_deaccent :: "string \<Rightarrow> string"
  te_plain :: "string \<Rightarrow> string"
  te_markdown :: "string \<Rightarrow> string"
  te_sanitize :: "string \<Rightarrow> string"
  te_lazy :: "string \<Rightarrow> string"
  te_has_content :: "string \<Rightarrow> bool"

text \<open>\<open>SaveParams\<close>; \<open>sv_now_stamp\<close> is \<open>sv_now\<close> rendered as \<open>2006-01-02-15-04\<close>.\<close>

record save_params =
  sv_title :: string
  sv_slug :: string
  sv_content_type :: string
  sv_content_html :: string
  sv_description :: string
  sv_meta_title :: string
  sv_meta_image :: string
  sv_meta_description :: string
  sv_source_author :: string
  sv_source_url :: string
  sv_source_content :: string
  sv_status :: int
  sv_comment :: bool
  sv_created_at :: "int option"
  sv_scheduled_at :: "int option"
  sv_send_newsletter :: bool
  sv_crosspost :: "string \<Rightarrow> bool"
  sv_tag_list :: string
  sv_social_urls :: "string \<rightharpoonup> string"
  sv_archive_provided :: bool
  sv_has_existing_archive :: bool
  sv_now :: int
  sv_now_stamp :: string

datatype save_result = Saved article | Invalid "string list"

definition ct_html :: string where "ct_html = ''html''"
definition ct_markdown :: string where "ct_markdown = ''markdown''"
definition ct_archive :: string where "ct_archive = ''html_archive''"

definition crosspost_platforms :: "string list" where
  "crosspost_platforms = [''mastodon'', ''twitter'', ''bluesky'', ''xiaohongshu'']"

section \<open>Statements\<close>

definition count_admin_articles_by_slug :: "string \<Rightarrow> int \<Rightarrow> nat db_act" where
  "count_admin_articles_by_slug slug ex =
     query (\<lambda>d. count_where (\<lambda>a. a_slug a = Some slug \<and> a_id a \<noteq> ex) (articles d))"

definition slug_conflict :: "string option \<Rightarrow> int \<Rightarrow> database \<Rightarrow> bool" where
  "slug_conflict slug ex d = (slug \<noteq> None \<and> list_ex (\<lambda>a. a_slug a = slug \<and> a_id a \<noteq> ex) (articles d))"

definition create_article :: "article \<Rightarrow> article db_act" where
  "create_article a =
     exec (\<lambda>d. if a_slug a \<noteq> None \<and> list_ex (\<lambda>x. a_slug x = a_slug a) (articles d)
               then Inl (ErrUnique ''articles.slug'')
               else let (as, a') = insert_row a_id (\<lambda>i r. r\<lparr>a_id := i\<rparr>) a (articles d)
                    in Inr (d\<lparr>articles := as\<rparr>, a'))"

text \<open>\<open>UPDATE \<dots> RETURNING\<close>: no row is \<open>sql.ErrNoRows\<close>.\<close>

definition update_article :: "article \<Rightarrow> article db_act" where
  "update_article a =
     exec (\<lambda>d. if by_id a_id (a_id a) (articles d) = None then Inl ErrNoRows
               else if slug_conflict (a_slug a) (a_id a) d then Inl (ErrUnique ''articles.slug'')
               else Inr (d\<lparr>articles := update_where (\<lambda>x. a_id x = a_id a) (\<lambda>_. a) (articles d)\<rparr>, a))"

definition update_article_status :: "int \<Rightarrow> int \<Rightarrow> int \<Rightarrow> article db_act" where
  "update_article_status target now i =
     exec (\<lambda>d. case by_id a_id i (articles d) of
         None \<Rightarrow> Inl ErrNoRows
       | Some a \<Rightarrow> let f = (\<lambda>a. a\<lparr>a_status := target, a_scheduled_platforms := to_text (JArr []),
                                a_scheduled_newsletter := 0, a_updated_at := now\<rparr>)
                   in Inr (d\<lparr>articles := update_where (\<lambda>x. a_id x = i) f (articles d)\<rparr>, f a))"

definition get_admin_article_by_id :: "int \<Rightarrow> article db_act" where
  "get_admin_article_by_id i = query_row (\<lambda>d. by_id a_id i (articles d))"

definition delete_article_tags_by_article_id :: "int \<Rightarrow> unit db_act" where
  "delete_article_tags_by_article_id i =
     modify (\<lambda>d. d\<lparr>article_tags := delete_where (\<lambda>x. at_article_id x = i) (article_tags d)\<rparr>)"

text \<open>\<open>INSERT OR IGNORE\<close>: a repeated pair is skipped, a missing article or tag is not.\<close>

definition insert_article_tag :: "int \<Rightarrow> int \<Rightarrow> int \<Rightarrow> unit db_act" where
  "insert_article_tag now i t =
     exec (\<lambda>d. if list_ex (\<lambda>x. at_article_id x = i \<and> at_tag_id x = t) (article_tags d) then Inr (d, ())
               else if by_id a_id i (articles d) = None \<or> by_id t_id t (tags d) = None then Inl fk_error
               else Inr (d\<lparr>article_tags := fst (insert_row at_id (\<lambda>i r. r\<lparr>at_id := i\<rparr>)
                      \<lparr>at_id = 0, at_article_id = i, at_tag_id = t, at_created_at = now, at_updated_at = now\<rparr>
                      (article_tags d))\<rparr>, ()))"

definition post_of :: "int \<Rightarrow> string \<Rightarrow> social_media_post \<Rightarrow> bool" where
  "post_of i platform x = (sp_article_id x = i \<and> sp_platform x = platform)"

definition delete_social_media_post :: "int \<Rightarrow> string \<Rightarrow> unit db_act" where
  "delete_social_media_post i platform =
     modify (\<lambda>d. d\<lparr>social_posts := delete_where (post_of i platform) (social_posts d)\<rparr>)"

definition upsert_social_media_post :: "int \<Rightarrow> string \<Rightarrow> string \<Rightarrow> int \<Rightarrow> unit db_act" where
  "upsert_social_media_post i platform url now =
     exec (\<lambda>d. if list_ex (post_of i platform) (social_posts d)
               then Inr (d\<lparr>social_posts := update_where (post_of i platform)
                      (\<lambda>x. x\<lparr>sp_url := url, sp_updated_at := now\<rparr>) (social_posts d)\<rparr>, ())
               else if by_id a_id i (articles d) = None then Inl fk_error
               else Inr (d\<lparr>social_posts := fst (insert_row sp_id (\<lambda>i r. r\<lparr>sp_id := i\<rparr>)
                      \<lparr>sp_id = 0, sp_article_id = i, sp_platform = platform, sp_url = url,
                       sp_created_at = now, sp_updated_at = now\<rparr> (social_posts d))\<rparr>, ()))"

definition list_fetchable_social_posts_by_platform :: "int \<Rightarrow> string \<Rightarrow> social_media_post list db_act" where
  "list_fetchable_social_posts_by_platform i platform =
     query (\<lambda>d. filter (\<lambda>x. post_of i platform x \<and> sp_url x \<noteq> '''') (social_posts d))"

definition get_crosspost_by_platform :: "string \<Rightarrow> crosspost db_act" where
  "get_crosspost_by_platform platform = query_row (\<lambda>d. find (\<lambda>c. cp_platform c = platform) (crossposts d))"

definition get_newsletter_settings :: "newsletter_setting db_act" where
  "get_newsletter_settings = query_row newsletter_settings"

definition get_listmonk :: "listmonk db_act" where
  "get_listmonk = query_row listmonks"

section \<open>Helpers\<close>

definition parse_status :: "string \<Rightarrow> int option" where
  "parse_status s =
     (if s = ''draft'' then Some status_draft else if s = ''publish'' then Some status_publish
      else if s = ''schedule'' then Some status_schedule else if s = ''trash'' then Some status_trash
      else if s = ''shared'' then Some status_shared else None)"

definition split_tag_list :: "string \<Rightarrow> string list" where
  "split_tag_list s = (if is_blank s then [] else split_on (CHR '','') s)"

definition parse_scheduled_platforms :: "jtext \<Rightarrow> string list" where
  "parse_scheduled_platforms raw_text =
     (let values = (case unmarshal (\<lambda>j. put_strings j []) (Some raw_text) of
                      Inl _ \<Rightarrow> split_on (CHR '','') (raw raw_text) | Inr vs \<Rightarrow> vs)
      in filter (\<lambda>p. p \<in> set (map trim_space values)) crosspost_platforms)"

definition selected_platforms :: "(string \<Rightarrow> bool) \<Rightarrow> string list" where
  "selected_platforms crosspost = filter crosspost crosspost_platforms"

definition present :: "string option \<Rightarrow> bool" where
  "present s = (case s of None \<Rightarrow> False | Some x \<Rightarrow> x \<noteq> '''')"

definition null_string :: "string \<Rightarrow> string option" where
  "null_string s = (if is_blank s then None else Some s)"

definition content_type_or_default :: "string \<Rightarrow> string" where
  "content_type_or_default ct =
     (if ct = ct_markdown then ct_markdown else if ct = ct_archive then ct_archive else ct_html)"

text \<open>\<open>enqueueTx\<close>: inside the transaction, no wake.\<close>

definition enqueue_tx :: "int \<Rightarrow> string \<Rightarrow> json \<Rightarrow> int \<Rightarrow> unit db_act" where
  "enqueue_tx now kind payload run_at =
     bindE (enqueue_job_run kind (Some (to_text payload)) run_at now) (\<lambda>_. ret ())"

definition crosspost_save_payload :: "int \<Rightarrow> string \<Rightarrow> int \<Rightarrow> json" where
  "crosspost_save_payload i platform at =
     JObj [(''article_id'', JNum i), (''platform'', JStr platform), (''requested_at'', JNum at)]"

definition crosspost_enabled :: "string \<Rightarrow> bool db_act" where
  "crosspost_enabled platform =
     bindE (attempt (get_crosspost_by_platform platform)) (\<lambda>r. case r of
       Inl e \<Rightarrow> if error_is e ErrNoRows then ret False else raise e
     | Inr c \<Rightarrow> ret (cp_enabled c = 1))"

definition social_post_recorded :: "int \<Rightarrow> string \<Rightarrow> bool db_act" where
  "social_post_recorded i platform =
     bindE (list_fetchable_social_posts_by_platform i platform) (\<lambda>ps. ret (ps \<noteq> []))"

definition newsletter_ready :: "bool db_act" where
  "newsletter_ready =
     bindE (attempt get_newsletter_settings) (\<lambda>r. case r of
       Inl e \<Rightarrow> if error_is e ErrNoRows then ret False else raise e
     | Inr ns \<Rightarrow>
         if ns_enabled ns \<noteq> 1 then ret False
         else if ns_provider ns = ''listmonk''
         then bindE (attempt get_listmonk) (\<lambda>l. case l of
                Inl e \<Rightarrow> if error_is e ErrNoRows then ret False else raise e
              | Inr lm \<Rightarrow> ret (present (lm_api_key lm) \<and> present (lm_username lm) \<and> present (lm_url lm)))
         else ret (present (ns_smtp_address ns) \<and> ns_smtp_port ns \<noteq> None \<and>
                   present (ns_smtp_user_name ns) \<and> present (ns_smtp_password ns) \<and> present (ns_from_email ns)))"

definition newsletter_enabled :: "bool db_act" where
  "newsletter_enabled =
     bindE (attempt get_newsletter_settings) (\<lambda>r. case r of
       Inl e \<Rightarrow> if error_is e ErrNoRows then ret False else raise e
     | Inr ns \<Rightarrow> ret (ns_enabled ns = 1))"

section \<open>Cancelling and publishing\<close>

definition payload_article :: "job_run \<Rightarrow> int option" where
  "payload_article r =
     (case unmarshal (struct1 put_int ''article_id'' 0) (jr_payload r) of Inl _ \<Rightarrow> None | Inr i \<Rightarrow> Some i)"

definition cancel_queued_publish_jobs :: "int \<Rightarrow> unit db_act" where
  "cancel_queued_publish_jobs i =
     bindE (list_queued_job_runs_by_kind kind_publish_article)
       (each (\<lambda>r. if payload_article r = Some i then delete_job_run (jr_id r) else ret ()))"

definition enqueue_publish_effects :: "int \<Rightarrow> (string \<Rightarrow> bool) \<Rightarrow> bool \<Rightarrow> int \<Rightarrow> unit db_act" where
  "enqueue_publish_effects i crosspost send_newsletter now =
     bindE (each (\<lambda>platform.
         if \<not> crosspost platform then ret ()
         else bindE (crosspost_enabled platform) (\<lambda>enabled.
              if \<not> enabled \<or> platform = ''xiaohongshu'' then ret ()
              else bindE (social_post_recorded i platform) (\<lambda>posted.
                   if posted then ret ()
                   else enqueue_tx now kind_crosspost (crosspost_save_payload i platform now) now)))
       crosspost_platforms) (\<lambda>_.
     if send_newsletter
     then bindE newsletter_ready (\<lambda>ready.
            if ready then enqueue_tx now kind_send_newsletter (article_payload i) now else ret ())
     else ret ())"

section \<open>Save\<close>

text \<open>The callback \<open>exists\<close>: a failing count counts as free.\<close>

definition slug_exists :: "int \<Rightarrow> string \<Rightarrow> bool db_act" where
  "slug_exists ex slug =
     bindE (attempt (count_admin_articles_by_slug slug ex)) (\<lambda>r. case r of
       Inl _ \<Rightarrow> ret False | Inr n \<Rightarrow> ret (0 < n))"

fun unique_article_slug :: "nat \<Rightarrow> int \<Rightarrow> string \<Rightarrow> nat \<Rightarrow> string option db_act" where
  "unique_article_slug 0 ex base k = ret None"
| "unique_article_slug (Suc fuel) ex base k =
     bindE (slug_exists ex (candidate base k)) (\<lambda>taken.
       if taken then unique_article_slug fuel ex base (Suc k) else ret (Some (candidate base k)))"

text \<open>\<open>GenerateSlug\<close> with the callback that asks the database.\<close>

definition article_slug :: "text_env \<Rightarrow> nat \<Rightarrow> int \<Rightarrow> save_params \<Rightarrow> string option db_act" where
  "article_slug env fuel ex p =
     (if \<not> is_blank (sv_slug p) then ret (Some (clean_slug (sv_slug p)))
      else if is_blank (sv_title p) then ret (Some (clean_slug (parameterize (te_deaccent env) (sv_now_stamp p))))
      else if parameterize (te_deaccent env) (sv_title p) \<noteq> ''''
      then ret (Some (clean_slug (parameterize (te_deaccent env) (sv_title p))))
      else bind_some (unique_article_slug fuel ex (clean_slug (squish (sv_title p))) 0)
             (\<lambda>s. ret (Some (clean_slug s))))"

definition content_html_of :: "text_env \<Rightarrow> save_params \<Rightarrow> string" where
  "content_html_of env p =
     (let ct = sv_content_type p;
          body = (if ct = ct_markdown then te_markdown env (sv_content_html p) else sv_content_html p)
      in if ct = ct_archive then ''''
         else if ct \<noteq> ct_html then te_lazy env (te_sanitize env body) else body)"

definition save_errors :: "text_env \<Rightarrow> save_params \<Rightarrow> string \<Rightarrow> bool \<Rightarrow> string list" where
  "save_errors env p slug taken =
     (if is_blank slug then [''Slug can't be blank''] else []) @
     (if \<not> is_valid_slug slug then [''Slug is invalid''] else []) @
     (if taken then [''Slug has already been taken''] else []) @
     (if is_reserved_slug slug \<or> slug \<in> set admin_article_batch_slugs then [''Slug is reserved''] else []) @
     (if sv_status p = status_schedule \<and> sv_scheduled_at p = None then [''Scheduled at can't be blank''] else []) @
     (if sv_content_type p = ct_html
      then (if is_blank (sv_content_html p) then [''Html content can't be blank''] else [])
      else if sv_content_type p = ct_markdown
      then (if is_blank (sv_content_html p) then [''Content can't be blank''] else [])
      else if sv_content_type p = ct_archive
      then (if \<not> sv_archive_provided p \<and> \<not> sv_has_existing_archive p then [''Archive file can't be blank''] else [])
      else if \<not> te_has_content env (content_html_of env p) then [''Content can't be blank''] else [])"

definition save_columns :: "text_env \<Rightarrow> article option \<Rightarrow> save_params \<Rightarrow> string \<Rightarrow> article" where
  "save_columns env existing p slug =
     \<lparr>a_id = (case existing of None \<Rightarrow> 0 | Some a \<Rightarrow> a_id a),
      a_title = null_string (sv_title p), a_slug = null_string slug,
      a_content_html = null_string (content_html_of env p),
      a_content_type = content_type_or_default (sv_content_type p),
      a_description = null_string (sv_description p),
      a_excerpt = null_string (build_excerpt (te_plain env) (sv_description p) (content_html_of env p)),
      a_meta_description = null_string (sv_meta_description p), a_meta_title = null_string (sv_meta_title p),
      a_meta_image = null_string (sv_meta_image p), a_source_author = null_string (sv_source_author p),
      a_source_url = null_string (sv_source_url p), a_source_content = null_string (sv_source_content p),
      a_status = sv_status p, a_comment = (if sv_comment p then 1 else 0),
      a_scheduled_at = sv_scheduled_at p,
      a_scheduled_platforms = (if sv_status p = status_schedule
         then to_text (JArr (map JStr (selected_platforms (sv_crosspost p)))) else to_text (JArr [])),
      a_scheduled_newsletter = (if sv_status p = status_schedule \<and> sv_send_newsletter p then 1 else 0),
      a_created_at = (case sv_created_at p of Some t \<Rightarrow> t
         | None \<Rightarrow> (case existing of Some a \<Rightarrow> a_created_at a | None \<Rightarrow> sv_now p)),
      a_updated_at = sv_now p,
      a_content_markdown = (if sv_content_type p = ct_markdown then null_string (sv_content_html p) else None)\<rparr>"

definition save_social_posts :: "save_params \<Rightarrow> int \<Rightarrow> unit db_act" where
  "save_social_posts p i =
     each (\<lambda>platform. case sv_social_urls p platform of
         None \<Rightarrow> ret ()
       | Some url \<Rightarrow> if is_blank url then delete_social_media_post i platform
                      else upsert_social_media_post i platform (trim_space url) (sv_now p))
       crosspost_platforms"

definition save_schedule :: "save_params \<Rightarrow> int \<Rightarrow> unit db_act" where
  "save_schedule p i =
     (case sv_scheduled_at p of
        Some t \<Rightarrow> if sv_status p = status_schedule
          then bindE (cancel_queued_publish_jobs i) (\<lambda>_. enqueue_tx (sv_now p) kind_publish_article (article_payload i) t)
          else ret ()
      | None \<Rightarrow> ret ())"

text \<open>
  The part of the transaction after the row is written. \<open>clk\<close> reads the clock for each new tag;
  \<open>None\<close>: the tag loops ran out of fuel.
\<close>

definition save_rest :: "text_env \<Rightarrow> nat \<Rightarrow> nat \<Rightarrow> (string \<Rightarrow> int) \<Rightarrow> save_params \<Rightarrow> article \<Rightarrow> (bool \<times> save_result option) db_act" where
  "save_rest env fuel rounds clk p a =
     bindE (find_or_create_by_names (te_uni env) fuel rounds clk (split_tag_list (sv_tag_list p))) (\<lambda>r. case r of
       None \<Rightarrow> ret (False, None)
     | Some tag_ids \<Rightarrow>
         bindE (delete_article_tags_by_article_id (a_id a)) (\<lambda>_.
         bindE (each (insert_article_tag (sv_now p) (a_id a)) tag_ids) (\<lambda>_.
         bindE (save_social_posts p (a_id a)) (\<lambda>_.
         bindE (save_schedule p (a_id a)) (\<lambda>_.
         bindE (if sv_status p = status_publish
                then enqueue_publish_effects (a_id a) (sv_crosspost p) (sv_send_newsletter p) (sv_now p)
                else ret ()) (\<lambda>_.
         ret (True, Some (Saved a))))))))"

definition save_tx :: "text_env \<Rightarrow> nat \<Rightarrow> nat \<Rightarrow> (string \<Rightarrow> int) \<Rightarrow> article option \<Rightarrow> save_params \<Rightarrow> string \<Rightarrow> (bool \<times> save_result option) db_act" where
  "save_tx env fuel rounds clk existing p slug =
     (let columns = save_columns env existing p slug in
      bindE (attempt (case existing of None \<Rightarrow> create_article columns | Some _ \<Rightarrow> update_article columns)) (\<lambda>r. case r of
        Inl e \<Rightarrow> if is_unique_violation e then ret (False, Some (Invalid [''Slug has already been taken''])) else raise e
      | Inr a \<Rightarrow> save_rest env fuel rounds clk p a))"

definition save_article :: "text_env \<Rightarrow> nat \<Rightarrow> nat \<Rightarrow> (string \<Rightarrow> int) \<Rightarrow> article option \<Rightarrow> save_params \<Rightarrow> save_result option db_act" where
  "save_article env fuel rounds clk existing p =
     (let ex = (case existing of None \<Rightarrow> 0 | Some a \<Rightarrow> a_id a) in
      bind_some (article_slug env fuel ex p) (\<lambda>slug.
      bindE (slug_exists ex slug) (\<lambda>taken.
      let errs = save_errors env p slug taken in
      if errs \<noteq> [] then ret (Some (Invalid errs))
      else in_tx id id (save_tx env fuel rounds clk existing p slug))))"

section \<open>Status transitions\<close>

text \<open>The transaction of \<open>TransitionStatus\<close>, given the row read before it.\<close>

definition transition_tx :: "article \<Rightarrow> int \<Rightarrow> int \<Rightarrow> int \<Rightarrow> article db_act" where
  "transition_tx existing i target now =
     (let restored = target = status_publish \<and> a_status existing = status_schedule;
          platforms = (if restored then parse_scheduled_platforms (a_scheduled_platforms existing) else []);
          send = (restored \<and> a_scheduled_newsletter existing = 1)
      in tx (bindE (update_article_status target now i) (\<lambda>a.
             bindE (if target = status_publish
                    then enqueue_publish_effects i (\<lambda>p. p \<in> set platforms) send now else ret ()) (\<lambda>_.
             ret a))))"

definition transition_status :: "int \<Rightarrow> int \<Rightarrow> int \<Rightarrow> article db_act" where
  "transition_status i target now =
     bindE (get_admin_article_by_id i) (\<lambda>existing. transition_tx existing i target now)"

section \<open>What a save leaves alone and what it keeps\<close>

definition articles_ok :: "database \<Rightarrow> bool" where
  "articles_ok d = (ids_ok a_id (articles d) \<and>
     (\<forall>a \<in> set (articles d). \<forall>b \<in> set (articles d). a_slug a \<noteq> None \<longrightarrow> a_slug a = a_slug b \<longrightarrow> a_id a = a_id b))"

lemma articles_ok_frame [simp]:
  "articles_ok (d\<lparr>tags := x1\<rparr>) = articles_ok d" "articles_ok (d\<lparr>article_tags := x2\<rparr>) = articles_ok d"
  "articles_ok (d\<lparr>social_posts := x3\<rparr>) = articles_ok d" "articles_ok (d\<lparr>job_runs := x4\<rparr>) = articles_ok d"
  "articles_ok (d\<lparr>activity_logs := x5\<rparr>) = articles_ok d"
  by (simp_all add: articles_ok_def)

lemma pres_count_tags [pres_rules]: "pres I (count_tags_by_slug s ex)"
  unfolding count_tags_by_slug_def by (rule pres_query)

lemma pres_get_tag [pres_rules]: "pres I (get_tag_by_lower_name n)"
  unfolding get_tag_by_lower_name_def by (rule pres_query_row)

lemma pres_bind_some [pres_rules]: "pres I m \<Longrightarrow> (\<And>x. pres I (f x)) \<Longrightarrow> pres I (bind_some m f)"
  unfolding bind_some_def by (intro pres_rules)

lemma pres_tag_slug [pres_rules]: "pres I (unique_tag_slug_loop fuel base ex k)"
  by (induction fuel arbitrary: k) (auto intro!: pres_rules)

lemma pres_insert_tag_if_absent:
  "(\<And>d f. I d \<Longrightarrow> I (d\<lparr>tags := f\<rparr>)) \<Longrightarrow> pres I (insert_tag_if_absent n s now)"
  unfolding insert_tag_if_absent_def insert_tag_def
  by (rule pres_exec) (auto simp: Let_def split: if_splits sum.splits prod.splits)

lemma pres_find_or_create_loop:
  "(\<And>d f. I d \<Longrightarrow> I (d\<lparr>tags := f\<rparr>)) \<Longrightarrow> pres I (find_or_create_loop fuel rounds now n)"
  by (induction rounds) (auto simp: unique_tag_slug_def intro!: pres_rules pres_insert_tag_if_absent)

lemma pres_find_or_create_names:
  "(\<And>d f. I d \<Longrightarrow> I (d\<lparr>tags := f\<rparr>)) \<Longrightarrow> pres I (find_or_create_names uni fuel rounds clk seen names)"
  by (induction names arbitrary: seen)
    (auto simp: Let_def find_or_create_def intro!: pres_rules pres_find_or_create_loop)

lemma pres_find_or_create_by_names [pres_rules]:
  "(\<And>d f. I d \<Longrightarrow> I (d\<lparr>tags := f\<rparr>)) \<Longrightarrow> pres I (find_or_create_by_names uni fuel rounds clk names)"
  unfolding find_or_create_by_names_def by (rule pres_find_or_create_names)

lemma pres_article_joins:
  "(\<And>d f. I d \<Longrightarrow> I (d\<lparr>article_tags := f\<rparr>)) \<Longrightarrow> pres I (delete_article_tags_by_article_id i)"
  "(\<And>d f. I d \<Longrightarrow> I (d\<lparr>article_tags := f\<rparr>)) \<Longrightarrow> pres I (insert_article_tag now i t)"
  unfolding delete_article_tags_by_article_id_def insert_article_tag_def
  by (rule pres_modify; simp) (rule pres_exec; auto split: if_splits)

lemma pres_social:
  assumes "\<And>d f. I d \<Longrightarrow> I (d\<lparr>social_posts := f\<rparr>)"
  shows "pres I (save_social_posts p i)"
proof -
  have "pres I (delete_social_media_post i q)" for q
    unfolding delete_social_media_post_def using assms by (intro pres_modify)
  moreover have "pres I (upsert_social_media_post i q u now)" for q u now
    unfolding upsert_social_media_post_def using assms by (intro pres_exec) (auto split: if_splits)
  ultimately show ?thesis unfolding save_social_posts_def by (intro pres_rules)
qed

lemma pres_slug_exists [pres_rules]: "pres I (slug_exists ex s)"
  unfolding slug_exists_def count_admin_articles_by_slug_def by (intro pres_rules)

lemma pres_unique_article_slug [pres_rules]: "pres I (unique_article_slug fuel ex base k)"
  by (induction fuel arbitrary: k) (auto intro!: pres_rules)

lemma pres_article_slug [pres_rules]: "pres I (article_slug env fuel ex p)"
  unfolding article_slug_def by (intro pres_rules)

lemma pres_enqueue_tx [pres_rules]:
  assumes "\<And>d r. I d \<Longrightarrow> I (d\<lparr>job_runs := fst (add_job (new_job kind (Some (to_text j)) at now) (job_runs d))\<rparr>)"
  shows "pres I (enqueue_tx now kind j at)"
  unfolding enqueue_tx_def enqueue_job_run_def
  by (intro pres_rules pres_exec) (use assms in \<open>auto simp: Let_def case_prod_beta\<close>)

lemma pres_reads [pres_rules]:
  "pres I (crosspost_enabled q)" "pres I (social_post_recorded i q)" "pres I newsletter_ready"
  unfolding crosspost_enabled_def get_crosspost_by_platform_def social_post_recorded_def
    list_fetchable_social_posts_by_platform_def newsletter_ready_def get_newsletter_settings_def
    get_listmonk_def
  by (intro pres_rules)+

lemma pres_publish_effects [pres_rules]:
  assumes "\<And>d r. I d \<Longrightarrow> I (d\<lparr>job_runs := fst (add_job r (job_runs d))\<rparr>)"
  shows "pres I (enqueue_publish_effects i c s now)"
  unfolding enqueue_publish_effects_def by (intro pres_rules assms)

lemma pres_cancel_jobs [pres_rules]:
  assumes "\<And>d p. I d \<Longrightarrow> I (delete_jobs p d)"
  shows "pres I (cancel_queued_publish_jobs i)"
  unfolding cancel_queued_publish_jobs_def list_queued_job_runs_by_kind_def delete_job_run_def
  by (intro pres_rules pres_modify assms)

lemma pres_save_schedule [pres_rules]:
  assumes "\<And>d r. I d \<Longrightarrow> I (d\<lparr>job_runs := fst (add_job r (job_runs d))\<rparr>)" "\<And>d p. I d \<Longrightarrow> I (delete_jobs p d)"
  shows "pres I (save_schedule p i)"
  unfolding save_schedule_def by (intro pres_rules assms)

lemma pres_save_rest:
  assumes "\<And>d f. I d \<Longrightarrow> I (d\<lparr>tags := f\<rparr>)" "\<And>d f. I d \<Longrightarrow> I (d\<lparr>article_tags := f\<rparr>)"
    and "\<And>d f. I d \<Longrightarrow> I (d\<lparr>social_posts := f\<rparr>)"
    and "\<And>d r. I d \<Longrightarrow> I (d\<lparr>job_runs := fst (add_job r (job_runs d))\<rparr>)" "\<And>d p. I d \<Longrightarrow> I (delete_jobs p d)"
  shows "pres I (save_rest env fuel rounds clk p a)"
  unfolding save_rest_def by (intro pres_rules pres_article_joins pres_social assms)

lemma articles_okI:
  "ids_ok a_id (articles d) \<Longrightarrow>
   (\<And>b c. b \<in> set (articles d) \<Longrightarrow> c \<in> set (articles d) \<Longrightarrow> a_slug b \<noteq> None \<Longrightarrow> a_slug b = a_slug c \<Longrightarrow> a_id b = a_id c) \<Longrightarrow>
   articles_ok d"
  unfolding articles_ok_def by blast

lemma articles_ok_create:
  assumes "articles_ok d" "a_slug a \<noteq> None \<longrightarrow> \<not> list_ex (\<lambda>x. a_slug x = a_slug a) (articles d)"
  shows "articles_ok (d\<lparr>articles := fst (insert_row a_id (\<lambda>i r. r\<lparr>a_id := i\<rparr>) a (articles d))\<rparr>)"
proof -
  have ids: "ids_ok a_id (fst (insert_row a_id (\<lambda>i r. r\<lparr>a_id := i\<rparr>) a (articles d)))"
    using assms(1) by (intro articles_tab.ids_ok_insert) (simp add: articles_ok_def)
  have new: "a_slug b \<noteq> a_slug a" if "b \<in> set (articles d)" "a_slug a \<noteq> None" for b
    using assms(2) that by (auto simp: list_ex_iff)
  have old: "a_id b = a_id c" if "b \<in> set (articles d)" "c \<in> set (articles d)" "a_slug b \<noteq> None" "a_slug b = a_slug c" for b c
    using assms(1) that unfolding articles_ok_def by blast
  define a' where "a' = a\<lparr>a_id := next_rowid (map a_id (articles d))\<rparr>"
  have a': "a_slug a' = a_slug a" by (simp add: a'_def)
  have "fst (insert_row a_id (\<lambda>i r. r\<lparr>a_id := i\<rparr>) a (articles d)) = articles d @ [a']"
    by (simp add: insert_row_def Let_def a'_def)
  with ids show ?thesis
    unfolding articles_ok_def using new old a' by simp metis
qed

lemma articles_ok_update:
  assumes "articles_ok d" "\<not> slug_conflict (a_slug a) (a_id a) d"
  shows "articles_ok (d\<lparr>articles := update_where (\<lambda>x. a_id x = a_id a) (\<lambda>_. a) (articles d)\<rparr>)"
proof -
  let ?as = "update_where (\<lambda>x. a_id x = a_id a) (\<lambda>_. a) (articles d)"
  have "map a_id ?as = map a_id (articles d)"
    by (auto simp: update_where_def)
  with assms(1) have ids: "ids_ok a_id ?as" by (simp add: articles_ok_def ids_ok_def)
  have old: "a_id b = a_id c" if "b \<in> set (articles d)" "c \<in> set (articles d)" "a_slug b \<noteq> None" "a_slug b = a_slug c" for b c
    using assms(1) that unfolding articles_ok_def by blast
  have new: "a_id b = a_id a" if "b \<in> set (articles d)" "a_slug a \<noteq> None" "a_slug b = a_slug a" for b
    using assms(2) that by (auto simp: slug_conflict_def list_ex_iff)
  have mem: "b = a \<or> b \<in> set (articles d) \<and> a_id b \<noteq> a_id a" if "b \<in> set ?as" for b
    using that by (auto simp: set_update_where)
  have "a_id b = a_id c" if "b \<in> set ?as" "c \<in> set ?as" "a_slug b \<noteq> None" "a_slug b = a_slug c" for b c
    using mem [OF that(1)] mem [OF that(2)] new old that(3,4) by metis
  moreover have "articles (d\<lparr>articles := ?as\<rparr>) = ?as" by simp
  ultimately show ?thesis using ids by (intro articles_okI) metis+
qed

lemma pres_create_article: "pres articles_ok (create_article a)"
  unfolding create_article_def
  by (rule pres_exec) (auto simp: Let_def case_prod_beta split: if_splits intro!: articles_ok_create)

lemma pres_update_article: "pres articles_ok (update_article a)"
  unfolding update_article_def by (rule pres_exec) (auto split: if_splits intro!: articles_ok_update)


definition no_env :: text_env where
  "no_env = \<lparr>te_uni = (\<lambda>s. s), te_deaccent = (\<lambda>s. s), te_plain = (\<lambda>s. s), te_markdown = (\<lambda>s. s),
     te_sanitize = (\<lambda>s. s), te_lazy = (\<lambda>s. s), te_has_content = (\<lambda>s. s \<noteq> '''')\<rparr>"

definition hello_params :: save_params where
  "hello_params = \<lparr>sv_title = ''Hi'', sv_slug = ''hi'', sv_content_type = ''html'', sv_content_html = ''x'',
     sv_description = ''d'', sv_meta_title = '''', sv_meta_image = '''', sv_meta_description = '''',
     sv_source_author = '''', sv_source_url = '''', sv_source_content = '''', sv_status = status_schedule,
     sv_comment = True, sv_created_at = None, sv_scheduled_at = Some 500, sv_send_newsletter = True,
     sv_crosspost = (\<lambda>p. p = ''mastodon''), sv_tag_list = '''', sv_social_urls = Map.empty,
     sv_archive_provided = False, sv_has_existing_archive = False, sv_now = 100,
     sv_now_stamp = ''1970-01-01-00-01''\<rparr>"


lemma article_slug_keeps: "wdb (snd (article_slug env fuel ex p w)) = wdb w"
  using presD [OF pres_article_slug [where I = "\<lambda>d. d = wdb w"]] by (metis prod.collapse)

lemma slug_exists_keeps: "wdb (snd (slug_exists ex s w)) = wdb w"
  using presD [OF pres_slug_exists [where I = "\<lambda>d. d = wdb w"]] by (metis prod.collapse)

text \<open>The steps before the transaction, and the transaction itself.\<close>

lemma save_article_cases:
  assumes "save_article env fuel rounds clk existing p w = (r, w')"
  obtains (before) "wdb w' = wdb w" "\<And>a. r \<noteq> Inr (Some (Saved a))"
  | (inside) slug taken w2 where "wdb w2 = wdb w" "save_errors env p slug taken = []"
      "in_tx id id (save_tx env fuel rounds clk existing p slug) w2 = (r, w')"
proof -
  let ?ex = "case existing of None \<Rightarrow> 0 | Some a \<Rightarrow> a_id a"
  obtain sr w1 where s: "article_slug env fuel ?ex p w = (sr, w1)" by fastforce
  have w1: "wdb w1 = wdb w" using article_slug_keeps [of env fuel ?ex p w] s by simp
  show thesis
  proof (cases "\<exists>slug. sr = Inr (Some slug)")
    case False
    with assms s have "w' = w1 \<and> (\<forall>a. r \<noteq> Inr (Some (Saved a)))"
      by (cases sr) (auto simp: save_article_def Let_def bind_some_def bindE_def ret_def split: option.splits)
    with w1 show thesis by (intro before) auto
  next
    case True
    then obtain slug where slug: "sr = Inr (Some slug)" by blast
    obtain tr w2 where t: "slug_exists ?ex slug w1 = (tr, w2)" by fastforce
    have w2: "wdb w2 = wdb w" using slug_exists_keeps [of ?ex slug w1] t w1 by simp
    show thesis
    proof (cases tr)
      case (Inl e)
      with assms s slug t have "w' = w2" "r = Inl e"
        by (simp_all add: save_article_def Let_def bind_some_def bindE_def)
      with w2 show thesis by (intro before) auto
    next
      case (Inr taken)
      show thesis
      proof (cases "save_errors env p slug taken = []")
        case False
        with assms s slug t Inr have "w' = w2" "r = Inr (Some (Invalid (save_errors env p slug taken)))"
          by (simp_all add: save_article_def Let_def bind_some_def bindE_def ret_def)
        with w2 show thesis by (intro before) auto
      next
        case True
        with assms s slug t Inr have "in_tx id id (save_tx env fuel rounds clk existing p slug) w2 = (r, w')"
          by (simp add: save_article_def Let_def bind_some_def bindE_def ret_def)
        with w2 True show thesis by (rule inside)
      qed
    qed
  qed
qed

text \<open>A commit goes with a saved article and nothing else.\<close>

lemma save_tx_result:
  assumes "save_tx env fuel rounds clk existing p slug w = (Inr (c, r), w')"
  shows "c \<longleftrightarrow> (\<exists>a. r = Some (Saved a))"
proof -
  have rest: "ensures (\<lambda>_. True) (save_rest env fuel rounds clk p a) (\<lambda>(c, r) _. c \<longleftrightarrow> (\<exists>a. r = Some (Saved a)))" for a
    unfolding save_rest_def
    by (intro ensures_bindE [where R = "\<lambda>_ _. True"])
      (auto simp: ensures_def ret_def intro!: ensures_bindE [where R = "\<lambda>_ _. True"] split: option.splits elim!: bindE_ok)
  show ?thesis
    using assms ensuresD [OF rest TrueI]
    by (auto simp: save_tx_def Let_def bindE_def attempt_run ret_def raise_def split: sum.splits if_splits prod.splits)
      fastforce+
qed



text \<open>What the row written by a successful save looks like.\<close>

lemma create_article_result:
  "create_article a w = (Inr x, w') \<Longrightarrow> \<exists>i. x = a\<lparr>a_id := i\<rparr>"
  unfolding create_article_def by (auto simp: insert_row_def Let_def dest!: exec_ok split: if_splits)

lemma update_article_result: "update_article a w = (Inr x, w') \<Longrightarrow> x = a"
  unfolding update_article_def by (auto dest!: exec_ok split: if_splits)

lemma save_tx_saved:
  assumes "save_tx env fuel rounds clk existing p slug w = (Inr (c, Some (Saved a)), w')"
  obtains i w1 where "a = (save_columns env existing p slug)\<lparr>a_id := i\<rparr>"
    "save_rest env fuel rounds clk p a w1 = (Inr (c, Some (Saved a)), w')"
proof -
  let ?m = "case existing of None \<Rightarrow> create_article (save_columns env existing p slug)
    | Some _ \<Rightarrow> update_article (save_columns env existing p slug)"
  obtain r w1 where m: "?m w = (r, w1)" by fastforce
  have same: "b = a" if "save_rest env fuel rounds clk p b w1 = (Inr (c, Some (Saved a)), w')" for b
  proof -
    have "ensures (\<lambda>_. True) (save_rest env fuel rounds clk p b) (\<lambda>(c, r) _. \<forall>a. r = Some (Saved a) \<longrightarrow> a = b)"
      unfolding save_rest_def
      by (intro ensures_bindE [where R = "\<lambda>_ _. True"])
        (auto simp: ensures_def ret_def intro!: ensures_bindE [where R = "\<lambda>_ _. True"] split: option.splits elim!: bindE_ok)
    from ensuresD [OF this TrueI that] show ?thesis by simp
  qed
  show thesis
  proof (cases r)
    case (Inl e)
    with m assms show thesis
      by (auto simp: save_tx_def Let_def bindE_def attempt_run ret_def raise_def split: if_splits)
  next
    case (Inr b)
    with m assms have rest: "save_rest env fuel rounds clk p b w1 = (Inr (c, Some (Saved a)), w')"
      by (simp add: save_tx_def Let_def bindE_def attempt_run)
    have "\<exists>i. b = (save_columns env existing p slug)\<lparr>a_id := i\<rparr>"
    proof (cases existing)
      case None
      with m Inr show ?thesis by (auto dest: create_article_result)
    next
      case (Some e)
      with m Inr have "b = save_columns env existing p slug" by (auto dest: update_article_result)
      then have "b = (save_columns env existing p slug)\<lparr>a_id := a_id b\<rparr>" by simp
      then show ?thesis by blast
    qed
    with rest same [OF rest] that show thesis by blast
  qed
qed

lemma save_saved:
  assumes "save_article env fuel rounds clk existing p w = (Inr (Some (Saved a)), w')"
  obtains slug taken i w1 c w2 where "save_errors env p slug taken = []"
    "a = (save_columns env existing p slug)\<lparr>a_id := i\<rparr>"
    "save_rest env fuel rounds clk p a w1 = (Inr (c, Some (Saved a)), w2)" "wdb w' = wdb w2"
  using assms
proof (cases rule: save_article_cases)
  case before
  then show thesis by blast
next
  case (inside slug taken w2)
  from inside(3) obtain w3 c w4 where tx: "save_tx env fuel rounds clk existing p slug w3 = (Inr (c, Some (Saved a)), w4)"
    "wdb w' = (if c then wdb w4 else wdb w2)" by (rule in_tx_ok)
  then have "wdb w' = wdb w4" using save_tx_result [OF tx(1)] by simp
  with tx(1) inside(2) that show thesis by (metis save_tx_saved)
qed

text \<open>
  What is saved is valid, on every path and whatever failed on the way: the slug is present, clean,
  not reserved and not the name of a batch action; a scheduled article has its time; an article with
  raw HTML or markdown has a source; the excerpt is the one built from the description and body.
\<close>

theorem saved_article_valid:
  assumes "save_article env fuel rounds clk existing p w = (Inr (Some (Saved a)), w')"
  shows "\<exists>slug. a_slug a = Some slug \<and> is_valid_slug slug \<and> \<not> is_blank slug \<and> \<not> is_reserved_slug slug \<and>
      slug \<notin> set admin_article_batch_slugs \<and>
    (a_status a = status_schedule \<longrightarrow> a_scheduled_at a \<noteq> None) \<and>
    (sv_content_type p = ct_html \<or> sv_content_type p = ct_markdown \<longrightarrow> \<not> is_blank (sv_content_html p)) \<and>
    a_excerpt a = null_string (build_excerpt (te_plain env) (sv_description p) (content_html_of env p))"
proof -
  from assms obtain slug taken i where s: "save_errors env p slug taken = []"
    "a = (save_columns env existing p slug)\<lparr>a_id := i\<rparr>" by (rule save_saved)
  then have "\<not> is_blank slug" "a_slug a = Some slug"
    by (auto simp: save_errors_def save_columns_def null_string_def split: if_splits)
  with s show ?thesis
    by (auto simp: save_errors_def save_columns_def ct_html_def ct_markdown_def split: if_splits)
qed

text \<open>A successful save of \<open>hello_params\<close> into the empty database.\<close>

definition saved_row :: "err + save_result option \<Rightarrow> article option" where
  "saved_row r = (case r of Inr (Some (Saved a)) \<Rightarrow> Some a | _ \<Rightarrow> None)"

abbreviation hello_run :: "(err + save_result option) \<times> dbworld" where
  "hello_run \<equiv> save_article no_env 5 2 (\<lambda>_. 100) None hello_params \<lparr>wdb = empty_db, wfaults = []\<rparr>"

lemma hello_saved:
  obtains a where "hello_run = (Inr (Some (Saved a)), snd hello_run)" "a_id a = 1"
proof -
  have "map_option a_id (saved_row (fst hello_run)) = Some 1" by code_simp
  then obtain a where "saved_row (fst hello_run) = Some a" "a_id a = 1" by auto
  then have "fst hello_run = Inr (Some (Saved a))"
    by (auto simp: saved_row_def split: sum.splits option.splits save_result.splits)
  then have "hello_run = (Inr (Some (Saved a)), snd hello_run)" by (metis prod.collapse)
  with \<open>a_id a = 1\<close> that show thesis by blast
qed

theorem saved_article_valid_witness:
  "\<exists>a slug. hello_run = (Inr (Some (Saved a)), snd hello_run) \<and> a_slug a = Some slug \<and> \<not> is_reserved_slug slug"
proof -
  obtain a where a: "hello_run = (Inr (Some (Saved a)), snd hello_run)" by (rule hello_saved)
  from saved_article_valid [OF a] a show ?thesis by blast
qed

section \<open>Scheduling\<close>

definition queued_for :: "int \<Rightarrow> database \<Rightarrow> job_run list" where
  "queued_for i d = filter (\<lambda>r. jr_kind r = kind_publish_article \<and> jr_status r = Queued \<and>
                                payload_article r = Some i) (job_runs d)"

lemma ensures_cancel_each:
  "ensures (\<lambda>d. set (queued_for i d) \<subseteq> set rs)
     (each (\<lambda>r. if payload_article r = Some i then delete_job_run (jr_id r) else ret ()) rs)
     (\<lambda>_ d. queued_for i d = [])"
proof (induction rs)
  case Nil
  then show ?case by (auto intro: ensures_ret)
next
  case (Cons r rs)
  have "ensures (\<lambda>d. set (queued_for i d) \<subseteq> set (r # rs))
     (if payload_article r = Some i then delete_job_run (jr_id r) else ret ())
     (\<lambda>_ d. set (queued_for i d) \<subseteq> set rs)"
    unfolding delete_job_run_def
    by (intro ensures_if ensures_modify ensures_ret)
      (auto simp: queued_for_def delete_jobs_def delete_where_def)
  then show ?case using Cons.IH by (auto intro: ensures_bindE)
qed

lemma ensures_cancel: "ensures P (cancel_queued_publish_jobs i) (\<lambda>_ d. queued_for i d = [])"
proof -
  have "ensures P (list_queued_job_runs_by_kind kind_publish_article) (\<lambda>rs d. set (queued_for i d) \<subseteq> set rs)"
    unfolding list_queued_job_runs_by_kind_def by (rule ensures_query) (auto simp: queued_for_def)
  then show ?thesis
    unfolding cancel_queued_publish_jobs_def by (rule ensures_bindE) (rule ensures_cancel_each)
qed

lemma ensures_enqueue_publish:
  assumes "in_int64 i"
  shows "ensures (\<lambda>d. queued_for i d = []) (enqueue_tx now kind_publish_article (article_payload i) t)
    (\<lambda>_ d. \<exists>r. queued_for i d = [r] \<and> jr_run_at r = t)"
proof -
  have "payload_article ((new_job kind_publish_article (Some (to_text (article_payload i))) t now)\<lparr>jr_id := k\<rparr>) = Some i" for k
    by (simp add: payload_article_def new_job_def decode_article_payload [OF assms])
  then have "queued_for i (d\<lparr>job_runs := fst (add_job (new_job kind_publish_article (Some (to_text (article_payload i))) t now) (job_runs d))\<rparr>) =
      queued_for i d @ [(new_job kind_publish_article (Some (to_text (article_payload i))) t now)\<lparr>jr_id := next_rowid (map jr_id (job_runs d))\<rparr>]" for d
    by (simp add: queued_for_def add_job_simps new_job_def)
  then show ?thesis
    unfolding enqueue_tx_def enqueue_job_run_def
    by (intro ensures_bindE [where R = "\<lambda>_ d. \<exists>r. queued_for i d = [r] \<and> jr_run_at r = t"] ensures_exec ensures_ret)
      (auto simp: Let_def case_prod_beta new_job_def)
qed

text \<open>
  C4: Rescheduling replaces: after a successful save of a scheduled article, whatever jobs were queued
  before, exactly one publish job of the article is queued, and it runs at the scheduled time.
\<close>

theorem save_schedules_once:
  assumes "save_article env fuel rounds clk existing p w = (Inr (Some (Saved a)), w')"
    and "sv_status p = status_schedule" "sv_scheduled_at p = Some t" "in_int64 (a_id a)"
  shows "\<exists>r. queued_for (a_id a) (wdb w') = [r] \<and> jr_run_at r = t"
proof -
  from assms(1) obtain w1 c w2 where rest: "save_rest env fuel rounds clk p a w1 = (Inr (c, Some (Saved a)), w2)"
    "wdb w' = wdb w2" by (rule save_saved)
  let ?Q = "\<lambda>_ d. \<exists>r. queued_for (a_id a) d = [r] \<and> jr_run_at r = t"
  have sched: "ensures (\<lambda>_. True) (save_schedule p (a_id a)) ?Q"
    using assms(2,3) unfolding save_schedule_def
    by (auto intro!: ensures_bindE [OF ensures_cancel] ensures_enqueue_publish [OF assms(4)])
  have np: "sv_status p \<noteq> status_publish" using assms(2) by (simp add: status_defs)
  have "ensures (\<lambda>_. True) (save_rest env fuel rounds clk p a) (\<lambda>(c, r) d. r = None \<or> ?Q () d)"
    unfolding save_rest_def
  proof (rule ensures_bindE [where R = "\<lambda>_ _. True"])
    fix r
    show "ensures (\<lambda>_. True) (case r of None \<Rightarrow> ret (False, None) | Some tag_ids \<Rightarrow>
         bindE (delete_article_tags_by_article_id (a_id a)) (\<lambda>_.
         bindE (each (insert_article_tag (sv_now p) (a_id a)) tag_ids) (\<lambda>_.
         bindE (save_social_posts p (a_id a)) (\<lambda>_.
         bindE (save_schedule p (a_id a)) (\<lambda>_.
         bindE (if sv_status p = status_publish
                then enqueue_publish_effects (a_id a) (sv_crosspost p) (sv_send_newsletter p) (sv_now p)
                else ret ()) (\<lambda>_.
         ret (True, Some (Saved a))))))))
      (\<lambda>(c, r) d. r = None \<or> ?Q () d)"
    proof (cases r)
      case None
      then show ?thesis by (simp add: ensures_ret)
    next
      case (Some tag_ids)
      have "ensures (\<lambda>d. ?Q () d) (if sv_status p = status_publish
          then enqueue_publish_effects (a_id a) (sv_crosspost p) (sv_send_newsletter p) (sv_now p) else ret ()) ?Q"
        using np by (simp add: ensures_ret)
      then show ?thesis unfolding Some option.case
        by (intro ensures_bindE [OF ensures_True] ensures_bindE [OF sched]
            ensures_bindE [where R = ?Q and f = "\<lambda>_. ret (True, Some (Saved a))"] ensures_ret) auto
    qed
  qed (rule ensures_True)
  from ensuresD [OF this TrueI rest(1)] rest(2) show ?thesis by simp
qed

theorem save_schedules_once_witness:
  "\<exists>r. queued_for 1 (wdb (snd hello_run)) = [r] \<and> jr_run_at r = 500"
proof -
  obtain a where a: "hello_run = (Inr (Some (Saved a)), snd hello_run)" "a_id a = 1" by (rule hello_saved)
  from save_schedules_once [OF a(1), of 500] a(2) show ?thesis
    by (simp add: hello_params_def in_int64_def)
qed

section \<open>Publishing effects\<close>

definition platform_enabled :: "string \<Rightarrow> database \<Rightarrow> bool" where
  "platform_enabled q d = (case find (\<lambda>c. cp_platform c = q) (crossposts d) of None \<Rightarrow> False | Some c \<Rightarrow> cp_enabled c = 1)"

definition already_posted :: "int \<Rightarrow> string \<Rightarrow> database \<Rightarrow> bool" where
  "already_posted i q d = (filter (\<lambda>x. post_of i q x \<and> sp_url x \<noteq> '''') (social_posts d) \<noteq> [])"

definition newsletter_configured :: "database \<Rightarrow> bool" where
  "newsletter_configured d =
     (case newsletter_settings d of None \<Rightarrow> False
      | Some ns \<Rightarrow> ns_enabled ns = 1 \<and>
          (if ns_provider ns = ''listmonk''
           then (case listmonks d of None \<Rightarrow> False
                 | Some lm \<Rightarrow> present (lm_api_key lm) \<and> present (lm_username lm) \<and> present (lm_url lm))
           else present (ns_smtp_address ns) \<and> ns_smtp_port ns \<noteq> None \<and> present (ns_smtp_user_name ns) \<and>
                present (ns_smtp_password ns) \<and> present (ns_from_email ns)))"

lemma crosspost_enabled_run [run_simps]:
  "wfaults w = [] \<Longrightarrow> crosspost_enabled q w = (Inr (platform_enabled q (wdb w)), w)"
  by (simp add: crosspost_enabled_def get_crosspost_by_platform_def run_simps platform_enabled_def split: option.splits)

lemma social_post_recorded_run [run_simps]:
  "wfaults w = [] \<Longrightarrow> social_post_recorded i q w = (Inr (already_posted i q (wdb w)), w)"
  by (simp add: social_post_recorded_def list_fetchable_social_posts_by_platform_def run_simps already_posted_def)

lemma newsletter_ready_run [run_simps]:
  "wfaults w = [] \<Longrightarrow> newsletter_ready w = (Inr (newsletter_configured (wdb w)), w)"
  by (simp add: newsletter_ready_def get_newsletter_settings_def get_listmonk_def run_simps
      newsletter_configured_def split: option.splits)

lemma enqueue_tx_run [run_simps]:
  "wfaults w = [] \<Longrightarrow> enqueue_tx now kind j at w =
     (Inr (), w\<lparr>wdb := (wdb w)\<lparr>job_runs := queue_job kind j at now (job_runs (wdb w))\<rparr>\<rparr>)"
  by (simp add: enqueue_tx_def enqueue_job_run_def run_simps Let_def case_prod_beta queue_job_def)

text \<open>The platforms that get a job, and the queue after the effects.\<close>

definition due_platforms :: "int \<Rightarrow> (string \<Rightarrow> bool) \<Rightarrow> database \<Rightarrow> string list \<Rightarrow> string list" where
  "due_platforms i crosspost d qs =
     filter (\<lambda>q. crosspost q \<and> platform_enabled q d \<and> q \<noteq> ''xiaohongshu'' \<and> \<not> already_posted i q d) qs"

definition effect_jobs :: "int \<Rightarrow> (string \<Rightarrow> bool) \<Rightarrow> bool \<Rightarrow> int \<Rightarrow> database \<Rightarrow> job_run list" where
  "effect_jobs i crosspost send now d =
     (let rs = fold (\<lambda>q. queue_job kind_crosspost (crosspost_save_payload i q now) now now)
                 (due_platforms i crosspost d crosspost_platforms) (job_runs d)
      in if send \<and> newsletter_configured d then queue_job kind_send_newsletter (article_payload i) now now rs else rs)"

lemma platform_frame [simp]:
  "platform_enabled q (d\<lparr>job_runs := rs\<rparr>) = platform_enabled q d"
  "already_posted i q (d\<lparr>job_runs := rs\<rparr>) = already_posted i q d"
  "newsletter_configured (d\<lparr>job_runs := rs\<rparr>) = newsletter_configured d"
  "platform_enabled q (d\<lparr>articles := as\<rparr>) = platform_enabled q d"
  "already_posted i q (d\<lparr>articles := as\<rparr>) = already_posted i q d"
  "newsletter_configured (d\<lparr>articles := as\<rparr>) = newsletter_configured d"
  by (simp_all add: platform_enabled_def already_posted_def newsletter_configured_def cong: option.case_cong)

lemma platform_loop_run:
  "wfaults w = [] \<Longrightarrow>
   each (\<lambda>platform.
         if \<not> crosspost platform then ret ()
         else bindE (crosspost_enabled platform) (\<lambda>enabled.
              if \<not> enabled \<or> platform = ''xiaohongshu'' then ret ()
              else bindE (social_post_recorded i platform) (\<lambda>posted.
                   if posted then ret ()
                   else enqueue_tx now kind_crosspost (crosspost_save_payload i platform now) now))) qs w =
   (Inr (), w\<lparr>wdb := (wdb w)\<lparr>job_runs :=
      fold (\<lambda>q. queue_job kind_crosspost (crosspost_save_payload i q now) now now)
        (due_platforms i crosspost (wdb w) qs) (job_runs (wdb w))\<rparr>\<rparr>)"
proof (induction qs arbitrary: w)
  case Nil
  then show ?case by (simp add: run_simps due_platforms_def)
next
  case (Cons q qs)
  then show ?case by (simp add: run_simps due_platforms_def)
qed

lemma enqueue_publish_effects_run:
  "wfaults w = [] \<Longrightarrow> enqueue_publish_effects i crosspost send now w =
     (Inr (), w\<lparr>wdb := (wdb w)\<lparr>job_runs := effect_jobs i crosspost send now (wdb w)\<rparr>\<rparr>)"
  by (simp add: enqueue_publish_effects_def bindE_run platform_loop_run run_simps effect_jobs_def Let_def)

text \<open>
  C6: Publishing queues exactly what was asked for: one crosspost job per selected platform that is
  enabled, is not the log-only one and has no recorded post of this article, in the fixed order, and
  one newsletter job when it is selected and the newsletter is configured; nothing else changes.
\<close>

theorem publish_effects_exact:
  assumes "wfaults w = []"
  shows "enqueue_publish_effects i crosspost send now w =
     (Inr (), w\<lparr>wdb := (wdb w)\<lparr>job_runs := effect_jobs i crosspost send now (wdb w)\<rparr>\<rparr>)"
  using assms by (rule enqueue_publish_effects_run)

definition mastodon_crosspost :: crosspost where
  "mastodon_crosspost =
     \<lparr>cp_id = 1, cp_platform = ''mastodon'', cp_enabled = 1, cp_api_key = None, cp_api_key_secret = None,
      cp_access_token = Some ''t'', cp_access_token_secret = None, cp_client_id = None, cp_client_key = None,
      cp_client_secret = None, cp_app_password = None, cp_refresh_token = None, cp_token_expires_at = None,
      cp_server_url = None, cp_username = None, cp_max_characters = None, cp_auto_fetch_comments = 0,
      cp_comment_fetch_schedule = None, cp_settings = None, cp_created_at = 1, cp_updated_at = 1\<rparr>"

definition mastodon_db :: database where
  "mastodon_db = empty_db\<lparr>crossposts := [mastodon_crosspost]\<rparr>"

theorem publish_effects_exact_witness:
  "job_runs (wdb (snd (enqueue_publish_effects 4 (\<lambda>_. True) True 9 \<lparr>wdb = mastodon_db, wfaults = []\<rparr>))) =
     [(new_job kind_crosspost (Some (to_text (crosspost_save_payload 4 ''mastodon'' 9))) 9 9)\<lparr>jr_id := 1\<rparr>]"
proof -
  have "due_platforms 4 (\<lambda>_. True) mastodon_db crosspost_platforms = [''mastodon'']" by code_simp
  moreover have "\<not> newsletter_configured mastodon_db" by code_simp
  moreover have "job_runs mastodon_db = []" by (simp add: mastodon_db_def mastodon_crosspost_def empty_db_def)
  ultimately show ?thesis
    using publish_effects_exact [of "\<lparr>wdb = mastodon_db, wfaults = []\<rparr>" 4 "\<lambda>_. True" True 9]
    by (simp add: effect_jobs_def queue_job_def add_job_simps next_rowid_def)
qed

section \<open>Transitions\<close>

definition moved_row :: "int \<Rightarrow> int \<Rightarrow> article \<Rightarrow> article" where
  "moved_row target now a = a\<lparr>a_status := target, a_scheduled_platforms := to_text (JArr []),
     a_scheduled_newsletter := 0, a_updated_at := now\<rparr>"

lemma update_article_status_run [run_simps]:
  "wfaults w = [] \<Longrightarrow> by_id a_id i (articles (wdb w)) = Some a \<Longrightarrow>
   update_article_status target now i w = (Inr (moved_row target now a),
     w\<lparr>wdb := (wdb w)\<lparr>articles := update_where (\<lambda>x. a_id x = i) (moved_row target now) (articles (wdb w))\<rparr>\<rparr>)"
  by (simp add: update_article_status_def run_simps moved_row_def [abs_def] Let_def)

lemma transition_tx_run:
  assumes "wfaults w = []" "by_id a_id i (articles (wdb w)) = Some a"
  shows "transition_tx existing i target now w =
    (Inr (moved_row target now a), w\<lparr>wdb := (wdb w)
       \<lparr>articles := update_where (\<lambda>x. a_id x = i) (moved_row target now) (articles (wdb w)),
        job_runs := (if target \<noteq> status_publish then job_runs (wdb w)
          else effect_jobs i (\<lambda>q. a_status existing = status_schedule \<and>
                  q \<in> set (parse_scheduled_platforms (a_scheduled_platforms existing)))
                (a_status existing = status_schedule \<and> a_scheduled_newsletter existing = 1) now (wdb w))\<rparr>\<rparr>)"
proof -
  have e: "effect_jobs i c s now ((wdb w)\<lparr>articles := as\<rparr>) = effect_jobs i c s now (wdb w)" for c s as
    by (simp add: effect_jobs_def due_platforms_def)
  show ?thesis
    using assms
    by (cases "target = status_publish"; cases "a_status existing = status_schedule")
      (simp_all add: transition_tx_def Let_def tx_def run_simps enqueue_publish_effects_run e)
qed

text \<open>
  A status change does what the buttons say: the article gets the new status and loses its schedule
  snapshot; publishing a scheduled article queues the crossposts and the newsletter its snapshot had
  selected, any other change queues nothing.
\<close>

theorem transition_effect:
  assumes "wfaults w = []" "by_id a_id i (articles (wdb w)) = Some a"
  shows "transition_status i target now w =
    (Inr (moved_row target now a), w\<lparr>wdb := (wdb w)
       \<lparr>articles := update_where (\<lambda>x. a_id x = i) (moved_row target now) (articles (wdb w)),
        job_runs := (if target \<noteq> status_publish then job_runs (wdb w)
          else effect_jobs i (\<lambda>q. a_status a = status_schedule \<and>
                  q \<in> set (parse_scheduled_platforms (a_scheduled_platforms a)))
                (a_status a = status_schedule \<and> a_scheduled_newsletter a = 1) now (wdb w))\<rparr>\<rparr>)"
  using assms transition_tx_run [where existing = a and target = target and now = now, OF assms]
  by (simp add: transition_status_def get_admin_article_by_id_def run_simps)

theorem transition_effect_witness:
  "fst (transition_status 1 status_trash 70 \<lparr>wdb = scheduled_db, wfaults = []\<rparr>) =
     Inr (moved_row status_trash 70 scheduled_example)"
  using transition_effect [of "\<lparr>wdb = scheduled_db, wfaults = []\<rparr>" 1 scheduled_example status_trash 70]
  by (simp add: scheduled_db_def by_id_def) (simp add: scheduled_example_def)

text \<open>
  C8: A status change does not notice a publish that overtook it: its transaction trusts the row it read
  before. When the worker publishes the scheduled article in between (and queues the newsletter of
  the snapshot), the button queues the newsletter of the same snapshot a second time.
\<close>

theorem transition_after_publish_sends_twice:
  assumes "wfaults w = []" "in_int64 i" "ids_ok a_id (articles (wdb w))"
    and "by_id a_id i (articles (wdb w)) = Some a" "a_status a = status_schedule"
    and "a_scheduled_at a = Some t" "t \<le> clk 0" "a_scheduled_newsletter a = 1"
    and "a_scheduled_platforms a = to_text (JArr [])" "newsletter_configured (wdb w)"
    and "publish_article_handler clk (Some (to_text (article_payload i))) w = (r1, w1)"
    and "transition_tx a i status_publish now w1 = (r2, w2)"
  shows "job_runs (wdb w2) = queue_job kind_send_newsletter (article_payload i) now now
     (queue_job kind_send_newsletter (article_payload i) (clk 0) (clk 2) (job_runs (wdb w)))"
proof -
  have ai: "a_id a = i" using assms(4) by (auto dest: articles_tab.by_id_Some)
  have "parsed (a_scheduled_platforms a) = Some (JArr (map JStr []))" using assms(9) by simp
  from publish_article_run_due [where clk = clk and platforms = "[]", OF assms(1-7) this] assms(8,11)
  have w1: "w1 = w\<lparr>wdb := (wdb w)
       \<lparr>articles := update_where (\<lambda>x. a_id x = i) (published_row t (clk 0)) (articles (wdb w)),
        job_runs := queue_job kind_send_newsletter (article_payload i) (clk 0) (clk 2) (job_runs (wdb w))\<rparr>\<rparr>"
    by (simp add: follow_ups_def ai)
  have "by_id a_id i (articles (wdb w1)) = Some (published_row t (clk 0) a)"
    using assms(4) ai by (simp add: w1 articles_tab.by_id_update published_row_def)
  moreover have "parse_scheduled_platforms (to_text (JArr [])) = []" by code_simp
  moreover have "wfaults w1 = []" using w1 assms(1) by simp
  ultimately show ?thesis
    using transition_tx_run [of w1 i "published_row t (clk 0) a" a status_publish now] assms(5,8,9,10,12)
    by (auto simp: w1 effect_jobs_def due_platforms_def)
qed

definition newsletter_db :: database where
  "newsletter_db = scheduled_db\<lparr>articles := [scheduled_example\<lparr>a_scheduled_platforms := to_text (JArr [])\<rparr>],
     newsletter_settings := Some \<lparr>ns_id = 1, ns_enabled = 1, ns_provider = ''native'', ns_from_email = Some ''a@b'',
       ns_smtp_address = Some ''h'', ns_smtp_port = Some 25, ns_smtp_user_name = Some ''u'',
       ns_smtp_password = Some ''p'', ns_smtp_domain = None, ns_smtp_authentication = Some ''plain'',
       ns_smtp_enable_starttls = Some 1, ns_created_at = 1, ns_updated_at = 1\<rparr>\<rparr>"

theorem transition_after_publish_sends_twice_witness:
  "map jr_kind (job_runs (wdb (snd (transition_tx (scheduled_example\<lparr>a_scheduled_platforms := to_text (JArr [])\<rparr>)
      1 status_publish 61 (snd (publish_article_handler (\<lambda>_. 60) (Some (to_text (article_payload 1)))
        \<lparr>wdb = newsletter_db, wfaults = []\<rparr>)))))) = [kind_send_newsletter, kind_send_newsletter]"
proof -
  let ?w = "\<lparr>wdb = newsletter_db, wfaults = []\<rparr>"
  let ?a = "scheduled_example\<lparr>a_scheduled_platforms := to_text (JArr [])\<rparr>"
  let ?p = "publish_article_handler (\<lambda>_. 60) (Some (to_text (article_payload 1))) ?w"
  have "newsletter_configured newsletter_db" by code_simp
  moreover have "job_runs newsletter_db = []" by (simp add: newsletter_db_def scheduled_db_def empty_db_def)
  moreover have "by_id a_id 1 (articles newsletter_db) = Some ?a" "ids_ok a_id (articles newsletter_db)"
    by (simp_all add: newsletter_db_def by_id_def ids_ok_def) (simp add: scheduled_example_def)
  moreover have "a_status ?a = status_schedule" "a_scheduled_at ?a = Some 50" "a_scheduled_newsletter ?a = 1"
    by (simp_all add: scheduled_example_def)
  ultimately show ?thesis
    using transition_after_publish_sends_twice [of ?w 1 ?a 50 "\<lambda>_. 60" "fst ?p" "snd ?p" 61
        "fst (transition_tx ?a 1 status_publish 61 (snd ?p))" "snd (transition_tx ?a 1 status_publish 61 (snd ?p))"]
    by (simp add: in_int64_def queue_job_def add_job_simps new_job_def)
qed

end
