(* ===== verification/Activity.thy ===== *)
theory Activity
  imports Schema
begin

text \<open>
  \<open>internal/service/activity/activity.go\<close> and \<open>internal/db/query/activity.sql.go\<close>: the audit
  trail. Writing it never fails the caller (\<open>log_row\<close> swallows the error of its statement).
\<close>

definition level_info :: int where "level_info = 0"
definition level_warn :: int where "level_warn = 1"
definition level_error :: int where "level_error = 2"

text \<open>The class \<open>[-\s]\<close> of the separator pattern (RE2's \<open>\s\<close> is ASCII).\<close>

definition is_token_sep :: "char \<Rightarrow> bool" where
  "is_token_sep c = (c = CHR ''-'' \<or> code_of c \<in> {32, 9, 10, 12, 13})"

text \<open>\<open>ReplaceAllString(token, "_")\<close> of the maximal runs of separators.\<close>

fun fold_seps :: "bool \<Rightarrow> string \<Rightarrow> string" where
  "fold_seps in_run [] = []"
| "fold_seps in_run (c # s) =
     (if is_token_sep c then (if in_run then fold_seps True s else CHR ''_'' # fold_seps True s)
      else c # fold_seps False s)"

definition normalize_token :: "(string \<Rightarrow> string) \<Rightarrow> string \<Rightarrow> string" where
  "normalize_token uni value =
     (let token = trim_space value in
      if token = '''' then ''unknown'' else to_lower uni (fold_seps False token))"

definition normalize_level :: "(string \<Rightarrow> string) \<Rightarrow> string \<Rightarrow> int" where
  "normalize_level uni value =
     (let n = normalize_token uni value;
          normalized = (if n = ''warning'' then ''warn'' else n)
      in if normalized = ''info'' then level_info
         else if normalized = ''warn'' then level_warn
         else if normalized = ''error'' then level_error
         else if normalized = ''unknown'' then level_info
         else level_warn)"

definition level_name :: "int \<Rightarrow> string" where
  "level_name level =
     (if level = level_info then ''info'' else if level = level_warn then ''warn''
      else if level = level_error then ''error'' else ''unknown'')"

text \<open>\<open>Quote\<close> (and \<open>activityQuote\<close> of \<open>internal/httpd\<close>).\<close>

definition escape_quotes :: "string \<Rightarrow> string" where
  "escape_quotes s = concat (map (\<lambda>c. if code_of c = 92 \<or> code_of c = 34 then [CHR 0x5C, c] else [c]) s)"

definition activity_quote :: "string \<Rightarrow> string" where
  "activity_quote txt = [CHR 0x22] @ escape_quotes (squish txt) @ [CHR 0x22]"

text \<open>\<open>CreateActivityLog\<close>, and the fire-and-forget call of it.\<close>

definition add_log :: "activity_log \<Rightarrow> database \<Rightarrow> database" where
  "add_log l d = d\<lparr>activity_logs := fst (insert_row al_id (\<lambda>i r. r\<lparr>al_id := i\<rparr>) l (activity_logs d))\<rparr>"

definition create_activity_log :: "activity_log \<Rightarrow> database \<Rightarrow> err + database \<times> unit" where
  "create_activity_log l d =
     (case al_job_run_id l of
        None \<Rightarrow> Inr (add_log l d, ())
      | Some i \<Rightarrow> if by_id jr_id i (job_runs d) = None
                   then Inl (ErrDriver ''constraint failed: FOREIGN KEY constraint failed'')
                   else Inr (add_log l d, ()))"

definition log_row :: "int \<Rightarrow> int \<Rightarrow> string \<Rightarrow> string \<Rightarrow> string option \<Rightarrow> int option \<Rightarrow> unit db_act" where
  "log_row now level action target description run_id =
     bindE (attempt (exec (create_activity_log
        \<lparr>al_id = 0, al_level = level, al_action = Some action, al_target = Some target,
         al_description = description, al_created_at = now, al_updated_at = now, al_job_run_id = run_id\<rparr>)))
       (\<lambda>_. ret ())"

definition log_activity :: "(string \<Rightarrow> string) \<Rightarrow> int \<Rightarrow> int option \<Rightarrow> string \<Rightarrow> string \<Rightarrow> string \<Rightarrow> string \<Rightarrow> unit db_act" where
  "log_activity uni now run_id level action target description =
     log_row now (normalize_level uni level) (normalize_token uni action) (normalize_token uni target)
       (if description = '''' then None else Some description) run_id"

lemma log_row_never_fails: "\<exists>w'. log_row now l a t de r w = (Inr (), w')"
  by (simp add: log_row_def bindE_run attempt_run ret_run)

lemma pres_log_row [pres_rules]:
  "(\<And>d ls. I d \<Longrightarrow> I (d\<lparr>activity_logs := ls\<rparr>)) \<Longrightarrow> pres I (log_row now l a t de r)"
  unfolding log_row_def create_activity_log_def
  by (intro pres_rules pres_exec) (auto simp: add_log_def split: option.splits if_splits)

lemma ensures_log_row:
  "(\<And>d ls. P d \<Longrightarrow> P (d\<lparr>activity_logs := ls\<rparr>)) \<Longrightarrow> ensures P (log_row now l a t de r) (\<lambda>_. P)"
  by (rule ensures_pres) (rule pres_log_row)

end
