(* ===== verification/Subscribers.thy ===== *)
theory Subscribers
  imports Tags JobQueue Activity
begin

text \<open>
  \<open>internal/service/subscribers/subscribers.go\<close>, the statements of
  \<open>internal/db/query/subscribers.sql.go\<close>, and the public endpoints of
  \<open>internal/httpd/subscriptions.go\<close> (subscribe, confirm, unsubscribe) from the parsed form to
  the answer. The random source is the argument \<open>tok\<close> (the n-th token of the request, or the
  error of the reader), the verdicts on the captcha are arguments, and \<open>clk\<close> gives the clock
  readings of the request in order.
\<close>

section \<open>Validation and predicates\<close>

definition is_local_char :: "char \<Rightarrow> bool" where
  "is_local_char c = (is_ascii_letter c \<or> is_digit c \<or> c \<in> set ''.!#$%&*+/=?^_{|}~-'' \<or>
                      code_of c = 39 \<or> code_of c = 96)"

definition is_alnum :: "char \<Rightarrow> bool" where
  "is_alnum c = (is_ascii_letter c \<or> is_digit c)"

text \<open>One label of the domain: \<open>[a-zA-Z0-9](?:[a-zA-Z0-9-]{0,61}[a-zA-Z0-9])?\<close>.\<close>

definition valid_label :: "string \<Rightarrow> bool" where
  "valid_label l = (l \<noteq> [] \<and> length l \<le> 63 \<and> is_alnum (hd l) \<and> is_alnum (last l) \<and>
                    list_all (\<lambda>c. is_alnum c \<or> c = CHR ''-'') l)"

definition valid_email :: "string \<Rightarrow> bool" where
  "valid_email s =
     (case split_on (CHR ''@'') s of
        [local, domain] \<Rightarrow> local \<noteq> [] \<and> list_all is_local_char local \<and>
                           list_all valid_label (split_on (CHR ''.'') domain)
      | _ \<Rightarrow> False)"

definition normalize_email :: "(string \<Rightarrow> string) \<Rightarrow> string \<Rightarrow> string" where
  "normalize_email uni email = to_lower uni (trim_space email)"

definition confirmed :: "subscriber \<Rightarrow> bool" where
  "confirmed s = (s_confirmed_at s \<noteq> None)"

definition active_subscriber :: "subscriber \<Rightarrow> bool" where
  "active_subscriber s = (confirmed s \<and> s_unsubscribed_at s = None)"

section \<open>Statements\<close>

definition insert_subscriber :: "subscriber \<Rightarrow> database \<Rightarrow> err + database \<times> subscriber" where
  "insert_subscriber s d =
     (if list_ex (\<lambda>x. s_email x = s_email s) (subscribers d) then Inl (ErrUnique ''subscribers.email'')
      else if s_confirmation_token s \<noteq> None \<and> list_ex (\<lambda>x. s_confirmation_token x = s_confirmation_token s) (subscribers d)
      then Inl (ErrUnique ''subscribers.confirmation_token'')
      else if s_unsubscribe_token s \<noteq> None \<and> list_ex (\<lambda>x. s_unsubscribe_token x = s_unsubscribe_token s) (subscribers d)
      then Inl (ErrUnique ''subscribers.unsubscribe_token'')
      else let (ss, s') = insert_row s_id (\<lambda>i r. r\<lparr>s_id := i\<rparr>) s (subscribers d) in Inr (d\<lparr>subscribers := ss\<rparr>, s'))"

definition create_subscriber_row :: "string \<Rightarrow> string \<Rightarrow> string \<Rightarrow> int \<Rightarrow> subscriber db_act" where
  "create_subscriber_row email ct ut now =
     exec (insert_subscriber \<lparr>s_id = 0, s_email = email, s_confirmation_token = Some ct,
       s_unsubscribe_token = Some ut, s_confirmed_at = None, s_unsubscribed_at = None,
       s_created_at = now, s_updated_at = now\<rparr>)"

text \<open>\<open>COLLATE NOCASE ORDER BY (email = ?1) DESC\<close>: an exact match first.\<close>

definition email_row :: "string \<Rightarrow> subscriber list \<Rightarrow> subscriber option" where
  "email_row email ss =
     (case find (\<lambda>s. s_email s = email) ss of
        Some s \<Rightarrow> Some s
      | None \<Rightarrow> find (\<lambda>s. sql_lower (s_email s) = sql_lower email) ss)"

definition get_subscriber_by_email :: "string \<Rightarrow> subscriber db_act" where
  "get_subscriber_by_email email = query_row (\<lambda>d. email_row email (subscribers d))"

definition get_subscriber_by_confirmation_token :: "string \<Rightarrow> subscriber db_act" where
  "get_subscriber_by_confirmation_token t =
     query_row (\<lambda>d. find (\<lambda>s. s_confirmation_token s = Some t) (subscribers d))"

definition get_subscriber_by_unsubscribe_token :: "string \<Rightarrow> subscriber db_act" where
  "get_subscriber_by_unsubscribe_token t =
     query_row (\<lambda>d. find (\<lambda>s. s_unsubscribe_token s = Some t) (subscribers d))"

definition write_subscriber :: "int \<Rightarrow> (subscriber \<Rightarrow> subscriber) \<Rightarrow> database \<Rightarrow> database" where
  "write_subscriber i f d = d\<lparr>subscribers := update_where (\<lambda>s. s_id s = i) f (subscribers d)\<rparr>"

definition confirm_subscriber :: "int \<Rightarrow> int \<Rightarrow> int \<Rightarrow> unit db_act" where
  "confirm_subscriber at now i =
     modify (write_subscriber i (\<lambda>s. s\<lparr>s_confirmed_at := Some at, s_updated_at := now\<rparr>))"

definition unsubscribe_subscriber :: "int \<Rightarrow> int \<Rightarrow> int \<Rightarrow> unit db_act" where
  "unsubscribe_subscriber at now i =
     modify (write_subscriber i (\<lambda>s. s\<lparr>s_unsubscribed_at := Some at, s_updated_at := now\<rparr>))"

text \<open>The two writes of a confirmation token; both fail when another row has it.\<close>

definition token_conflict :: "int \<Rightarrow> string \<Rightarrow> database \<Rightarrow> bool" where
  "token_conflict i t d = (list_ex (\<lambda>s. s_id s = i) (subscribers d) \<and>
     list_ex (\<lambda>s. s_id s \<noteq> i \<and> s_confirmation_token s = Some t) (subscribers d))"

definition reset_subscriber_for_resubscribe :: "string \<Rightarrow> int \<Rightarrow> int \<Rightarrow> unit db_act" where
  "reset_subscriber_for_resubscribe t now i =
     exec (\<lambda>d. if token_conflict i t d then Inl (ErrUnique ''subscribers.confirmation_token'')
               else Inr (write_subscriber i (\<lambda>s. s\<lparr>s_confirmed_at := None, s_unsubscribed_at := None,
                           s_confirmation_token := Some t, s_updated_at := now\<rparr>) d, ()))"

definition set_subscriber_confirmation_token :: "string \<Rightarrow> int \<Rightarrow> int \<Rightarrow> unit db_act" where
  "set_subscriber_confirmation_token t now i =
     exec (\<lambda>d. if token_conflict i t d then Inl (ErrUnique ''subscribers.confirmation_token'')
               else Inr (write_subscriber i (\<lambda>s. s\<lparr>s_confirmation_token := Some t, s_updated_at := now\<rparr>) d, ()))"

definition delete_subscriber_tags_by_subscriber_id :: "int \<Rightarrow> unit db_act" where
  "delete_subscriber_tags_by_subscriber_id i =
     modify (\<lambda>d. d\<lparr>subscriber_tags := delete_where (\<lambda>x. st_subscriber_id x = i) (subscriber_tags d)\<rparr>)"

text \<open>\<open>ON CONFLICT \<dots> DO NOTHING\<close>\<close>

definition add_subscriber_tag :: "int \<Rightarrow> int \<Rightarrow> int \<Rightarrow> unit db_act" where
  "add_subscriber_tag now i t =
     exec (\<lambda>d. if list_ex (\<lambda>x. st_subscriber_id x = i \<and> st_tag_id x = t) (subscriber_tags d) then Inr (d, ())
               else if by_id s_id i (subscribers d) = None \<or> by_id t_id t (tags d) = None then Inl fk_error
               else Inr (d\<lparr>subscriber_tags := fst (insert_row st_id (\<lambda>i r. r\<lparr>st_id := i\<rparr>)
                      \<lparr>st_id = 0, st_subscriber_id = i, st_tag_id = t, st_created_at = now, st_updated_at = now\<rparr>
                      (subscriber_tags d))\<rparr>, ()))"

definition delete_subscriber :: "int \<Rightarrow> unit db_act" where
  "delete_subscriber i =
     exec (\<lambda>d. if list_ex (\<lambda>x. st_subscriber_id x = i) (subscriber_tags d) \<and> by_id s_id i (subscribers d) \<noteq> None
               then Inl fk_error
               else Inr (d\<lparr>subscribers := delete_where (\<lambda>s. s_id s = i) (subscribers d)\<rparr>, ()))"

definition list_tags_for_subscriber :: "int \<Rightarrow> tag list db_act" where
  "list_tags_for_subscriber i =
     query (\<lambda>d. List.map_filter (\<lambda>x. by_id t_id (st_tag_id x) (tags d))
              (filter (\<lambda>x. st_subscriber_id x = i) (subscriber_tags d)))"

definition list_subscriber_ids_by_tag_id :: "int \<Rightarrow> int list db_act" where
  "list_subscriber_ids_by_tag_id t =
     query (\<lambda>d. map st_subscriber_id (filter (\<lambda>x. st_tag_id x = t) (subscriber_tags d)))"

definition list_subscriber_ids_without_tags :: "int list db_act" where
  "list_subscriber_ids_without_tags =
     query (\<lambda>d. map s_id (filter (\<lambda>s. \<not> list_ex (\<lambda>x. st_subscriber_id x = s_id s) (subscriber_tags d)) (subscribers d)))"

definition count_unconfirmed_subscribers :: "nat db_act" where
  "count_unconfirmed_subscribers = query (\<lambda>d. count_where (\<lambda>s. s_confirmed_at s = None) (subscribers d))"

section \<open>The service\<close>

definition of_result :: "err + 'a \<Rightarrow> 'a db_act" where
  "of_result r = (case r of Inl e \<Rightarrow> raise e | Inr x \<Rightarrow> ret x)"

text \<open>\<open>Create\<close>: blank tokens are drawn in the order confirmation, unsubscribe.\<close>

definition create_subscriber ::
  "(string \<Rightarrow> string) \<Rightarrow> (nat \<Rightarrow> err + string) \<Rightarrow> int \<Rightarrow> string \<Rightarrow> string \<Rightarrow> string \<Rightarrow> subscriber db_act" where
  "create_subscriber uni tok now email ct ut =
     bindE (if ct = '''' then of_result (tok 0) else ret ct) (\<lambda>ct'.
     bindE (if ut = '''' then of_result (tok 1) else ret ut) (\<lambda>ut'.
     create_subscriber_row (normalize_email uni email) ct' ut' now))"

definition replace_tags :: "int \<Rightarrow> int \<Rightarrow> int list \<Rightarrow> unit db_act" where
  "replace_tags now i tag_ids =
     tx (bindE (delete_subscriber_tags_by_subscriber_id i) (\<lambda>_. each (add_subscriber_tag now i) tag_ids))"

definition destroy_subscriber :: "int \<Rightarrow> unit db_act" where
  "destroy_subscriber i =
     tx (bindE (delete_subscriber_tags_by_subscriber_id i) (\<lambda>_. delete_subscriber i))"

record recipient =
  rc_id :: int
  rc_email :: string
  rc_active :: bool
  rc_tag_ids :: "int list"

text \<open>\<open>FilterRelevant\<close>, the loop with its \<open>continue\<close>s and \<open>break\<close>.\<close>

fun contains_id :: "int list \<Rightarrow> int \<Rightarrow> bool" where
  "contains_id [] i = False"
| "contains_id (v # vs) i = (v = i \<or> contains_id vs i)"

fun any_relevant :: "int list \<Rightarrow> int list \<Rightarrow> bool" where
  "any_relevant article_tag_ids [] = False"
| "any_relevant article_tag_ids (t # ts) = (contains_id article_tag_ids t \<or> any_relevant article_tag_ids ts)"

fun filter_relevant :: "recipient list \<Rightarrow> int list \<Rightarrow> recipient list" where
  "filter_relevant [] article_tag_ids = []"
| "filter_relevant (s # ss) article_tag_ids =
     (if \<not> rc_active s then filter_relevant ss article_tag_ids
      else if rc_tag_ids s = [] then s # filter_relevant ss article_tag_ids
      else if any_relevant article_tag_ids (rc_tag_ids s) then s # filter_relevant ss article_tag_ids
      else filter_relevant ss article_tag_ids)"

section \<open>The endpoints\<close>

text \<open>\<open>joinIDs\<close>\<close>

definition join_ids :: "int list \<Rightarrow> string" where
  "join_ids ids = join_with '','' (map dec_int ids)"

text \<open>\<open>rubyToI\<close> of \<open>internal/httpd/public.go\<close>.\<close>

definition max_page_number :: int where "max_page_number = (2 ^ 63 - 1) div 64"

fun ruby_digits :: "int \<Rightarrow> string \<Rightarrow> int" where
  "ruby_digits n [] = n"
| "ruby_digits n (c # s) =
     (if \<not> is_digit c then n
      else if n > (max_page_number - 9) div 10 then ruby_digits (max_page_number + 1) s
      else ruby_digits (n * 10 + (int (code_of c) - 48)) s)"

definition ruby_to_i :: "string \<Rightarrow> int" where
  "ruby_to_i s0 =
     (let s = dropWhile (\<lambda>c. code_of c \<in> {32, 9, 10, 11, 12, 13}) s0 in
      case s of
        [] \<Rightarrow> 0
      | c # r \<Rightarrow> if c = CHR ''+'' then ruby_digits 0 r
                 else if c = CHR ''-'' then - ruby_digits 0 r else ruby_digits 0 s)"

fun existing_tag_ids :: "int list \<Rightarrow> string list \<Rightarrow> int list db_act" where
  "existing_tag_ids ids [] = ret ids"
| "existing_tag_ids ids (v # vs) =
     (if is_blank v \<or> ruby_to_i v \<le> 0 \<or> ruby_to_i v \<in> set ids then existing_tag_ids ids vs
      else bindE (attempt (get_tag_by_id (ruby_to_i v))) (\<lambda>r. case r of
             Inl e \<Rightarrow> if error_is e ErrNoRows then existing_tag_ids ids vs else raise e
           | Inr _ \<Rightarrow> existing_tag_ids (ids @ [ruby_to_i v]) vs))"

text \<open>The answers of the subscribe endpoint; an error of the action is the 500 page.\<close>

datatype subscribe_reply =
    BlankEmail | CaptchaExpired | CaptchaWrong | AlreadySubscribed | InvalidEmail | Subscribed

definition confirmation_payload :: "int \<Rightarrow> json" where
  "confirmation_payload i = JObj [(''subscriber_id'', JNum i)]"

definition create_or_reload :: "(string \<Rightarrow> string) \<Rightarrow> (nat \<Rightarrow> err + string) \<Rightarrow> int \<Rightarrow> string \<Rightarrow> subscriber db_act" where
  "create_or_reload uni tok now email =
     bindE (attempt (create_subscriber uni tok now email '''' '''')) (\<lambda>r. case r of
       Inr s \<Rightarrow> ret s
     | Inl e \<Rightarrow> if \<not> is_unique_violation e then raise e else get_subscriber_by_email email)"

text \<open>The confirmation state of the row the request goes on with.\<close>

definition renew_confirmation :: "(nat \<Rightarrow> err + string) \<Rightarrow> int \<Rightarrow> subscriber \<Rightarrow> unit db_act" where
  "renew_confirmation tok now s =
     (if s_unsubscribed_at s \<noteq> None
      then bindE (of_result (tok 2)) (\<lambda>t. reset_subscriber_for_resubscribe t now (s_id s))
      else if \<not> confirmed s \<and> str_of (s_confirmation_token s) = ''''
      then bindE (of_result (tok 2)) (\<lambda>t. set_subscriber_confirmation_token t now (s_id s))
      else ret ())"

definition finish_subscription ::
  "(nat \<Rightarrow> err + string) \<Rightarrow> (nat \<Rightarrow> int) \<Rightarrow> string \<Rightarrow> string list \<Rightarrow> subscriber \<Rightarrow> subscribe_reply db_act" where
  "finish_subscription tok clk email raw_tags s =
     bindE (renew_confirmation tok (clk 1) s) (\<lambda>_.
     bindE (existing_tag_ids [] raw_tags) (\<lambda>tag_ids.
     bindE (replace_tags (clk 2) (s_id s) tag_ids) (\<lambda>_.
     bindE (enqueue True (clk 4) kind_newsletter_confirmation (Some (confirmation_payload (s_id s))) (clk 3)) (\<lambda>_.
     bindE (log_row (clk 5) 0 ''created'' ''subscription''
       (Some (''email='' @ activity_quote email @ '' tags=['' @ join_ids tag_ids @ '']'')) None) (\<lambda>_.
     ret Subscribed)))))"

definition subscribe ::
  "(string \<Rightarrow> string) \<Rightarrow> (nat \<Rightarrow> err + string) \<Rightarrow> (nat \<Rightarrow> int) \<Rightarrow> bool \<Rightarrow> bool \<Rightarrow> string \<Rightarrow> string list \<Rightarrow> subscribe_reply db_act" where
  "subscribe uni tok clk token_live answer_right raw_email raw_tags =
     (let email = normalize_email uni raw_email;
          refuse = bindE (log_row (clk 0) 2 ''failed'' ''subscription''
                     (Some (''email='' @ activity_quote email @ '' errors='' @ activity_quote ''Email is invalid'')) None)
                     (\<lambda>_. ret InvalidEmail)
      in
      if is_blank email then ret BlankEmail
      else if \<not> token_live then ret CaptchaExpired
      else if \<not> answer_right then ret CaptchaWrong
      else bindE (attempt (get_subscriber_by_email email)) (\<lambda>r. case r of
          Inr s \<Rightarrow>
            if active_subscriber s then ret AlreadySubscribed
            else if \<not> valid_email email then refuse
            else finish_subscription tok clk email raw_tags s
        | Inl e \<Rightarrow>
            if \<not> error_is e ErrNoRows then raise e
            else if \<not> valid_email email then refuse
            else bindE (create_or_reload uni tok (clk 0) email) (\<lambda>s.
                   if active_subscriber s then ret AlreadySubscribed
                   else finish_subscription tok clk email raw_tags s)))"

text \<open>\<open>subscriptionConfirm\<close> and \<open>subscriptionUnsubscribe\<close>, from the token to the page.\<close>

datatype token_page = UnknownToken | AlreadyDone | DoneNow

definition subscription_confirm :: "(nat \<Rightarrow> int) \<Rightarrow> string \<Rightarrow> token_page db_act" where
  "subscription_confirm clk token =
     bindE (attempt (if token \<noteq> '''' then get_subscriber_by_confirmation_token token else raise ErrNoRows)) (\<lambda>r.
       case r of
         Inl e \<Rightarrow> if error_is e ErrNoRows then ret UnknownToken else raise e
       | Inr s \<Rightarrow>
           if confirmed s then ret AlreadyDone
           else bindE (confirm_subscriber (clk 0) (clk 1) (s_id s)) (\<lambda>_.
                bindE (log_row (clk 2) 0 ''confirmed'' ''subscription'' (Some (''email='' @ activity_quote (s_email s))) None) (\<lambda>_.
                ret DoneNow)))"

definition subscription_unsubscribe :: "(nat \<Rightarrow> int) \<Rightarrow> string \<Rightarrow> token_page db_act" where
  "subscription_unsubscribe clk token =
     bindE (attempt (if token \<noteq> '''' then get_subscriber_by_unsubscribe_token token else raise ErrNoRows)) (\<lambda>r.
       case r of
         Inl e \<Rightarrow> if error_is e ErrNoRows then ret UnknownToken else raise e
       | Inr s \<Rightarrow>
           bindE (if s_unsubscribed_at s = None then unsubscribe_subscriber (clk 0) (clk 1) (s_id s) else ret ()) (\<lambda>_.
           bindE (log_row (clk 2) 0 ''unsubscribed'' ''subscription'' (Some (''email='' @ activity_quote (s_email s))) None) (\<lambda>_.
           ret DoneNow)))"

section \<open>Recipients\<close>

lemma contains_id_iff: "contains_id ids i \<longleftrightarrow> i \<in> set ids"
  by (induction ids) auto

lemma any_relevant_iff: "any_relevant ats ts \<longleftrightarrow> set ts \<inter> set ats \<noteq> {}"
  by (induction ts) (auto simp: contains_id_iff)

lemma filter_relevant_filter:
  "filter_relevant rs ats =
     filter (\<lambda>s. rc_active s \<and> (rc_tag_ids s = [] \<or> set (rc_tag_ids s) \<inter> set ats \<noteq> {})) rs"
  by (induction rs) (auto simp: any_relevant_iff)

text \<open>
  Who gets an article: the selection loop keeps, in order and each once per occurrence, exactly the
  active recipients that follow everything (no tags) or share a tag with the article.
\<close>

theorem relevant_recipients:
  "s \<in> set (filter_relevant rs ats) \<longleftrightarrow>
     s \<in> set rs \<and> rc_active s \<and> (rc_tag_ids s = [] \<or> (\<exists>t \<in> set (rc_tag_ids s). t \<in> set ats))"
  by (auto simp: filter_relevant_filter)

section \<open>Tag sets\<close>

definition tags_of :: "int \<Rightarrow> database \<Rightarrow> int set" where
  "tags_of i d = st_tag_id ` {x \<in> set (subscriber_tags d). st_subscriber_id x = i}"

lemma tags_of_snoc:
  "tags_of j (d\<lparr>subscriber_tags := subscriber_tags d @ [x]\<rparr>) =
     (if st_subscriber_id x = j then insert (st_tag_id x) (tags_of j d) else tags_of j d)"
  by (auto simp: tags_of_def)

lemma tags_of_member:
  "list_ex (\<lambda>x. st_subscriber_id x = i \<and> st_tag_id x = t) (subscriber_tags d) \<longleftrightarrow> t \<in> tags_of i d"
  by (auto simp: tags_of_def list_ex_iff)

lemma ensures_add_tags:
  "ensures (\<lambda>d. tags_of i d = A \<and> (\<forall>j. j \<noteq> i \<longrightarrow> tags_of j d = B j)) (each (add_subscriber_tag now i) ts)
     (\<lambda>_ d. tags_of i d = A \<union> set ts \<and> (\<forall>j. j \<noteq> i \<longrightarrow> tags_of j d = B j))"
proof (induction ts arbitrary: A)
  case Nil
  then show ?case by (simp add: ensures_ret)
next
  case (Cons t ts)
  have "ensures (\<lambda>d. tags_of i d = A \<and> (\<forall>j. j \<noteq> i \<longrightarrow> tags_of j d = B j)) (add_subscriber_tag now i t)
     (\<lambda>_ d. tags_of i d = insert t A \<and> (\<forall>j. j \<noteq> i \<longrightarrow> tags_of j d = B j))"
    unfolding add_subscriber_tag_def
    by (rule ensures_exec) (auto simp: insert_row_def Let_def tags_of_snoc tags_of_member split: if_splits)
  from ensures_bindE [OF this] Cons.IH [of "insert t A"] show ?case by simp
qed

text \<open>
  Replacing a subscriber's tags is exact and all or nothing: on success they are the given ones and
  no one else's changed; on any failure, at any statement, every tag set is as before.
\<close>

theorem replace_tags_exact:
  assumes "replace_tags now i ts w = (r, w')"
  shows "case r of
      Inl e \<Rightarrow> wdb w' = wdb w
    | Inr _ \<Rightarrow> tags_of i (wdb w') = set ts \<and> (\<forall>j. j \<noteq> i \<longrightarrow> tags_of j (wdb w') = tags_of j (wdb w))"
proof (cases r)
  case (Inl e)
  with assms show ?thesis by (auto simp: replace_tags_def dest: tx_error_keeps)
next
  case (Inr u)
  let ?P = "\<lambda>d. tags_of i d = {} \<and> (\<forall>j. j \<noteq> i \<longrightarrow> tags_of j d = tags_of j (wdb w))"
  have del: "ensures (\<lambda>d. d = wdb w) (delete_subscriber_tags_by_subscriber_id i) (\<lambda>_. ?P)"
    unfolding delete_subscriber_tags_by_subscriber_id_def
    by (rule ensures_modify) (auto simp: tags_of_def)
  have "ensures (\<lambda>d. d = wdb w)
      (bindE (bindE (delete_subscriber_tags_by_subscriber_id i) (\<lambda>_. each (add_subscriber_tag now i) ts)) (\<lambda>x. ret (True, x)))
      (\<lambda>(c, x) d. c \<and> tags_of i d = set ts \<and> (\<forall>j. j \<noteq> i \<longrightarrow> tags_of j d = tags_of j (wdb w)))"
    by (rule ensures_bindE [OF ensures_bindE [OF del ensures_add_tags]]) (auto intro: ensures_ret)
  then have "ensures (\<lambda>d. d = wdb w) (replace_tags now i ts)
      (\<lambda>_ d. tags_of i d = set ts \<and> (\<forall>j. j \<noteq> i \<longrightarrow> tags_of j d = tags_of j (wdb w)))"
    unfolding replace_tags_def tx_def
    by (intro ensures_in_tx) (auto elim: ensures_weaken)
  from ensuresD [OF this refl assms [unfolded Inr]] Inr show ?thesis by simp
qed

theorem replace_tags_exact_witness:
  "tags_of 1 (wdb (snd (replace_tags 9 1 [] \<lparr>wdb = tag_db, wfaults = []\<rparr>))) = {}"
proof -
  let ?run = "replace_tags 9 1 [] \<lparr>wdb = tag_db, wfaults = []\<rparr>"
  have "fst ?run = Inr ()"
    by (simp add: replace_tags_def tx_def run_simps delete_subscriber_tags_by_subscriber_id_def)
  then have "?run = (Inr (), snd ?run)" by (metis prod.collapse)
  from replace_tags_exact [OF this] show ?thesis by simp
qed

section \<open>Addresses\<close>

lemma split_on_all: "list_all (\<lambda>x. list_all P x) (split_on c s) \<Longrightarrow> P c \<Longrightarrow> list_all P s"
proof (induction s)
  case (Cons a s)
  obtain x xs where "split_on c s = x # xs" using split_on_nonempty [of c s] by (cases "split_on c s") auto
  with Cons show ?case by (auto split: if_splits)
qed simp

lemma alnum_plain: "is_alnum c \<Longrightarrow> plain_char c"
  by (auto simp: is_alnum_def is_ascii_letter_def is_digit_def plain_char_def)

lemma local_plain: "is_local_char c \<Longrightarrow> plain_char c"
  by (auto simp: is_local_char_def is_ascii_letter_def is_digit_def plain_char_def)

lemma valid_email_plain:
  assumes "valid_email s"
  shows "list_all plain_char s"
proof -
  from assms obtain l dom where sp: "split_on (CHR ''@'') s = [l, dom]"
    and l: "list_all is_local_char l" and dom: "list_all valid_label (split_on (CHR ''.'') dom)"
    by (auto simp: valid_email_def split: list.splits)
  have "list_all plain_char dom"
  proof (rule split_on_all [where c = "CHR ''.''"])
    have "list_all plain_char x" if "valid_label x" for x
    proof -
      have "\<forall>c \<in> set x. is_alnum c \<or> c = CHR ''-''" using that by (simp add: valid_label_def list_all_iff)
      moreover have "plain_char (CHR ''-'')" by (simp add: plain_char_def)
      ultimately show ?thesis using alnum_plain unfolding list_all_iff by blast
    qed
    then show "list_all (\<lambda>x. list_all plain_char x) (split_on (CHR ''.'') dom)"
      using dom by (auto simp only: list_all_iff)
  qed (simp add: plain_char_def)
  moreover have "list_all plain_char l" using l by (auto simp: list_all_iff local_plain)
  ultimately have "list_all (\<lambda>x. list_all plain_char x) (split_on (CHR ''@'') s)" by (simp add: sp)
  then show ?thesis by (rule split_on_all) (simp add: plain_char_def)
qed

lemma normalize_valid_email:
  assumes "valid_email s"
  shows "sql_lower (normalize_email uni s) = sql_lower s"
proof -
  have "list_all plain_char s" using assms by (rule valid_email_plain)
  then have "is_ascii s" "trim_space s = s"
    by (auto simp: trim_space_plain is_ascii_def list_all_iff plain_char_def)
  then show ?thesis by (simp add: normalize_email_def to_lower_def)
qed

section \<open>What subscribing establishes\<close>

text \<open>Row \<open>i\<close> waits for its confirmation: not confirmed, not unsubscribed, with a token to confirm by.\<close>

definition pending :: "int \<Rightarrow> string \<Rightarrow> database \<Rightarrow> bool" where
  "pending i email d \<longleftrightarrow> (\<exists>s. by_id s_id i (subscribers d) = Some s \<and> sql_lower (s_email s) = sql_lower email \<and>
     s_confirmed_at s = None \<and> s_unsubscribed_at s = None \<and> str_of (s_confirmation_token s) \<noteq> '''')"

definition holds_row :: "string \<Rightarrow> subscriber \<Rightarrow> database \<Rightarrow> bool" where
  "holds_row email s d \<longleftrightarrow> by_id s_id (s_id s) (subscribers d) = Some s \<and> sql_lower (s_email s) = sql_lower email"

lemma email_row_Some: "email_row email ss = Some s \<Longrightarrow> s \<in> set ss \<and> sql_lower (s_email s) = sql_lower email"
  by (auto simp: email_row_def find_Some_iff split: option.splits)

lemma ensures_of_result: "(\<And>x. r = Inr x \<Longrightarrow> ensures P (f x) Q) \<Longrightarrow> ensures P (bindE (of_result r) f) Q"
  by (cases r) (auto simp: of_result_def ensures_def bindE_def raise_def ret_def)

lemma ensures_renew:
  assumes "\<And>n t. tok n = Inr t \<Longrightarrow> t \<noteq> ''''" "\<not> active_subscriber s"
  shows "ensures (holds_row email s) (renew_confirmation tok now s) (\<lambda>_. pending (s_id s) email)"
  unfolding renew_confirmation_def reset_subscriber_for_resubscribe_def set_subscriber_confirmation_token_def
proof (intro ensures_if ensures_of_result ensures_exec ensures_ret)
  fix x d d' u
  assume "tok 2 = Inr x" and d: "holds_row email s d"
    and "(if token_conflict (s_id s) x d then Inl (ErrUnique ''subscribers.confirmation_token'')
      else Inr (write_subscriber (s_id s) (\<lambda>s. s\<lparr>s_confirmed_at := None, s_unsubscribed_at := None,
             s_confirmation_token := Some x, s_updated_at := now\<rparr>) d, ())) = Inr (d', u)"
  then show "pending (s_id s) email d'"
    using assms(1) by (auto simp: pending_def holds_row_def write_subscriber_def subscribers_tab.by_id_update split: if_splits)
next
  fix x d d' u
  assume "tok 2 = Inr x" and d: "holds_row email s d" and "\<not> s_unsubscribed_at s \<noteq> None"
    and "\<not> confirmed s \<and> str_of (s_confirmation_token s) = ''''"
    and "(if token_conflict (s_id s) x d then Inl (ErrUnique ''subscribers.confirmation_token'')
      else Inr (write_subscriber (s_id s) (\<lambda>s. s\<lparr>s_confirmation_token := Some x, s_updated_at := now\<rparr>) d, ())) = Inr (d', u)"
  then show "pending (s_id s) email d'"
    using assms(1) by (auto simp: pending_def holds_row_def write_subscriber_def subscribers_tab.by_id_update
        confirmed_def split: if_splits)
next
  fix d
  assume "\<not> s_unsubscribed_at s \<noteq> None" "\<not> (\<not> confirmed s \<and> str_of (s_confirmation_token s) = '''')"
    "holds_row email s d"
  then show "pending (s_id s) email d"
    using assms(2) by (auto simp: pending_def holds_row_def active_subscriber_def confirmed_def)
qed

lemma pres_existing_tags [pres_rules]: "pres I (existing_tag_ids ids vs)"
  by (induction vs arbitrary: ids) (auto simp: get_tag_by_id_def intro!: pres_rules)

lemma pres_replace_tags:
  "(\<And>d f. I d \<Longrightarrow> I (d\<lparr>subscriber_tags := f\<rparr>)) \<Longrightarrow> pres I (replace_tags now i ts)"
  unfolding replace_tags_def delete_subscriber_tags_by_subscriber_id_def add_subscriber_tag_def
  by (intro pres_rules pres_modify pres_exec) (auto split: if_splits)

lemma pending_frame [simp]:
  "pending i e (d\<lparr>subscriber_tags := x\<rparr>) = pending i e d" "pending i e (d\<lparr>job_runs := y\<rparr>) = pending i e d"
  "pending i e (d\<lparr>activity_logs := z\<rparr>) = pending i e d"
  by (simp_all add: pending_def)

text \<open>A queued confirmation job for subscriber \<open>i\<close>.\<close>

definition confirmation_queued :: "int \<Rightarrow> database \<Rightarrow> bool" where
  "confirmation_queued i d \<longleftrightarrow> (\<exists>j \<in> set (job_runs d). jr_kind j = kind_newsletter_confirmation \<and>
     jr_status j = Queued \<and> jr_payload j = Some (to_text (confirmation_payload i)))"

lemma ensures_finish:
  assumes "\<And>n t. tok n = Inr t \<Longrightarrow> t \<noteq> ''''" "\<not> active_subscriber s"
  shows "ensures (holds_row email s) (finish_subscription tok clk email' raw_tags s)
    (\<lambda>r d. r = Subscribed \<and> (\<exists>i. pending i email d \<and> confirmation_queued i d))"
proof -
  let ?i = "s_id s"
  have enq: "ensures (pending ?i email) (enqueue True now kind_newsletter_confirmation (Some (confirmation_payload ?i)) at)
      (\<lambda>_ d. pending ?i email d \<and> confirmation_queued ?i d)" for now at
    unfolding enqueue_def enqueue_job_run_def
    by (intro ensures_bindE [where R = "\<lambda>_ d. pending ?i email d \<and> confirmation_queued ?i d"] ensures_exec ensures_ret)
      (auto simp: Let_def case_prod_beta add_job_simps confirmation_queued_def new_job_def)
  have log: "ensures (\<lambda>d. pending ?i email d \<and> confirmation_queued ?i d) (log_row now l a t de r)
      (\<lambda>_ d. pending ?i email d \<and> confirmation_queued ?i d)" for now l a t de r
    by (rule ensures_log_row) (simp add: confirmation_queued_def)
  show ?thesis
    unfolding finish_subscription_def
    by (intro ensures_bindE [OF ensures_renew [OF assms]]
        ensures_bindE [OF ensures_pres [OF pres_existing_tags]]
        ensures_bindE [OF ensures_pres [OF pres_replace_tags]]
        ensures_bindE [OF enq] ensures_bindE [OF log] ensures_ret) auto
qed

lemma ensures_create_or_reload:
  assumes "valid_email email"
  shows "ensures (\<lambda>d. ids_ok s_id (subscribers d)) (create_or_reload uni tok now email) (\<lambda>s. holds_row email s)"
proof -
  let ?P = "\<lambda>d. ids_ok s_id (subscribers d)"
  have row: "ensures ?P (create_subscriber_row (normalize_email uni email) ct ut now) (\<lambda>s. holds_row email s)" for ct ut
    unfolding create_subscriber_row_def
  proof (rule ensures_exec)
    fix d d' x
    let ?s = "\<lparr>s_id = 0, s_email = normalize_email uni email, s_confirmation_token = Some ct,
       s_unsubscribe_token = Some ut, s_confirmed_at = None, s_unsubscribed_at = None,
       s_created_at = now, s_updated_at = now\<rparr>"
    assume "insert_subscriber ?s d = Inr (d', x)"
    then have d': "subscribers d' = fst (insert_row s_id (\<lambda>i r. r\<lparr>s_id := i\<rparr>) ?s (subscribers d))"
      and x: "x = snd (insert_row s_id (\<lambda>i r. r\<lparr>s_id := i\<rparr>) ?s (subscribers d))"
      by (auto simp: insert_subscriber_def Let_def split: if_splits prod.splits)
    have "by_id s_id (s_id x) (subscribers d') = Some x"
      unfolding d' x subscribers_tab.by_id_insert by simp
    moreover have "s_email x = normalize_email uni email" by (simp add: x insert_row_def Let_def)
    ultimately show "holds_row email x d'" by (simp add: holds_row_def normalize_valid_email [OF assms])
  qed
  then have create: "ensures ?P (create_subscriber uni tok now email '''' '''') (\<lambda>s. holds_row email s)"
    unfolding create_subscriber_def by (auto intro!: ensures_of_result)
  have pres: "pres ?P (create_subscriber uni tok now email '''' '''')"
    unfolding create_subscriber_def of_result_def create_subscriber_row_def insert_subscriber_def
    by (intro pres_rules pres_exec)
      (auto simp: Let_def case_prod_beta split: if_splits intro: subscribers_tab.ids_ok_insert)
  have get: "ensures ?P (get_subscriber_by_email email) (\<lambda>s. holds_row email s)"
    unfolding get_subscriber_by_email_def
    by (rule ensures_query_row) (auto simp: holds_row_def subscribers_tab.by_id_eq dest!: email_row_Some)
  show ?thesis
    unfolding ensures_def
  proof (intro allI impI)
    fix w s w'
    assume ok: "?P (wdb w)" and run: "create_or_reload uni tok now email w = (Inr s, w')"
    obtain r w1 where c: "create_subscriber uni tok now email '''' '''' w = (r, w1)" by fastforce
    with pres ok have ok1: "?P (wdb w1)" by (blast dest: presD)
    show "holds_row email s (wdb w')"
    proof (cases r)
      case (Inl e)
      with run c have "get_subscriber_by_email email w1 = (Inr s, w')"
        by (auto simp: create_or_reload_def bindE_def attempt_run raise_def split: if_splits)
      with get ok1 show ?thesis by (blast dest: ensuresD)
    next
      case (Inr x)
      with run c have "s = x" "w' = w1"
        by (auto simp: create_or_reload_def bindE_def attempt_run ret_def)
      with create ok c Inr show ?thesis by (blast dest: ensuresD)
    qed
  qed
qed

lemma subscribe_subscribed:
  assumes "subscribe uni tok clk live right raw_email raw_tags w = (Inr Subscribed, w')"
  obtains s w1 where "holds_row (normalize_email uni raw_email) s (wdb w1) \<or> \<not> ids_ok s_id (subscribers (wdb w))"
    "\<not> active_subscriber s" "valid_email (normalize_email uni raw_email)"
    "finish_subscription tok clk (normalize_email uni raw_email) raw_tags s w1 = (Inr Subscribed, w')"
proof -
  let ?e = "normalize_email uni raw_email"
  obtain r w1 where g: "get_subscriber_by_email ?e w = (r, w1)" by fastforce
  have w1: "wdb w1 = wdb w"
    using query_row_keeps [of "\<lambda>d. email_row ?e (subscribers d)" w] g by (simp add: get_subscriber_by_email_def)
  have log: "log_row n l a t de i v = (Inr (), snd (log_row n l a t de i v))" for n l a t de i and v :: dbworld
    using log_row_never_fails by (metis snd_conv)
  show thesis
  proof (cases r)
    case (Inr s)
    with g have "email_row ?e (subscribers (wdb w)) = Some s"
      by (auto simp: get_subscriber_by_email_def dest!: query_row_ok)
    then have row: "holds_row ?e s (wdb w1) \<or> \<not> ids_ok s_id (subscribers (wdb w))"
      using w1 by (auto simp: holds_row_def subscribers_tab.by_id_eq dest!: email_row_Some)
    have "\<not> active_subscriber s" "valid_email ?e" "finish_subscription tok clk ?e raw_tags s w1 = (Inr Subscribed, w')"
      using assms g Inr
      by (auto simp: subscribe_def Let_def bindE_def attempt_run ret_def split: if_splits sum.splits prod.splits)
    with row show thesis by (rule that)
  next
    case (Inl e)
    with assms g have c: "valid_email ?e" "bindE (create_or_reload uni tok (clk 0) ?e) (\<lambda>s.
          if active_subscriber s then ret AlreadySubscribed
          else finish_subscription tok clk ?e raw_tags s) w1 = (Inr Subscribed, w')"
      by (auto simp: subscribe_def Let_def bindE_def attempt_run ret_def raise_def split: if_splits sum.splits prod.splits)
    from c(2) obtain s w2 where s: "create_or_reload uni tok (clk 0) ?e w1 = (Inr s, w2)"
      "(if active_subscriber s then ret AlreadySubscribed else finish_subscription tok clk ?e raw_tags s) w2 = (Inr Subscribed, w')"
      by (rule bindE_ok)
    have "holds_row ?e s (wdb w2) \<or> \<not> ids_ok s_id (subscribers (wdb w))"
      using ensuresD [OF ensures_create_or_reload [OF c(1)] _ s(1)] w1 by auto
    moreover from s(2) have "\<not> active_subscriber s" "finish_subscription tok clk ?e raw_tags s w2 = (Inr Subscribed, w')"
      by (auto simp: ret_def split: if_splits)
    ultimately show thesis using c(1) by (intro that)
  qed
qed

text \<open>
  What the success message of a subscription promises: whatever the address's history (new,
  unconfirmed, imported with a blank token, unsubscribed, inserted meanwhile by another request) and
  whichever statements failed on the way, a row of that address (up to ASCII case) now waits for
  confirmation, is not unsubscribed, has a usable confirmation token, and the job that mails the link
  is queued for exactly that row.
\<close>

theorem subscribed_is_pending:
  assumes "subscribe uni tok clk live right raw_email raw_tags w = (Inr Subscribed, w')"
    and "ids_ok s_id (subscribers (wdb w))" "\<And>n t. tok n = Inr t \<Longrightarrow> t \<noteq> ''''"
  shows "\<exists>i. pending i (normalize_email uni raw_email) (wdb w') \<and> confirmation_queued i (wdb w')"
proof -
  obtain s w1 where s: "holds_row (normalize_email uni raw_email) s (wdb w1)" "\<not> active_subscriber s"
    "finish_subscription tok clk (normalize_email uni raw_email) raw_tags s w1 = (Inr Subscribed, w')"
    using subscribe_subscribed [OF assms(1)] assms(2) by metis
  from ensuresD [OF ensures_finish [OF assms(3) s(2)] s(1) s(3)] show ?thesis by simp
qed

definition gone_db :: database where
  "gone_db = tag_db\<lparr>subscribers := [\<lparr>s_id = 4, s_email = ''Ann@x.org'', s_confirmation_token = Some ''old'',
     s_unsubscribe_token = Some '''', s_confirmed_at = Some 3, s_unsubscribed_at = Some 5,
     s_created_at = 1, s_updated_at = 5\<rparr>]\<rparr>"

abbreviation token_source :: "nat \<Rightarrow> err + string" where
  "token_source \<equiv> (\<lambda>n. Inr (''tok'' @ dec_nat n))"

abbreviation gone_run :: "(err + subscribe_reply) \<times> dbworld" where
  "gone_run \<equiv> subscribe (\<lambda>s. s) token_source (\<lambda>n. 10 + int n) True True '' ann@X.org '' [''3'', ''''] \<lparr>wdb = gone_db, wfaults = []\<rparr>"

lemma gone_run_result: "gone_run = (Inr Subscribed, snd gone_run)"
proof -
  have "fst gone_run = Inr Subscribed" by code_simp
  then show ?thesis by (metis prod.collapse)
qed

theorem subscribed_is_pending_witness:
  "\<exists>i. pending i (normalize_email (\<lambda>s. s) '' ann@X.org '') (wdb (snd gone_run)) \<and> confirmation_queued i (wdb (snd gone_run))"
proof (rule subscribed_is_pending [OF gone_run_result])
  show "ids_ok s_id (subscribers (wdb \<lparr>wdb = gone_db, wfaults = []\<rparr>))" by (simp add: gone_db_def ids_ok_def)
qed auto


text \<open>
  Only a real token acts: an empty token never finds a row on the confirm and unsubscribe endpoints,
  whatever the table holds and whatever fails, and nothing is written.
\<close>

theorem empty_token_is_unknown:
  "subscription_confirm clk '''' w = (Inr UnknownToken, w) \<and> subscription_unsubscribe clk '''' w = (Inr UnknownToken, w)"
  by (simp add: subscription_confirm_def subscription_unsubscribe_def bindE_run attempt_run raise_run ret_run)

lemma by_id_write_subscriber:
  "by_id s_id j (subscribers (write_subscriber i (\<lambda>s. s\<lparr>s_unsubscribed_at := x, s_updated_at := y\<rparr>) d)) =
     map_option (\<lambda>s. if s_id s = i then s\<lparr>s_unsubscribed_at := x, s_updated_at := y\<rparr> else s) (by_id s_id j (subscribers d))"
  by (simp add: write_subscriber_def subscribers_tab.by_id_update)

text \<open>
  Unsubscribing works and is final for the mailer: when the endpoint answers that it is done, the row
  that owns the token is unsubscribed and so no longer an active recipient, whatever its state was;
  its first unsubscription time is kept when the link is used again.
\<close>

theorem unsubscribe_stops_delivery:
  assumes "subscription_unsubscribe clk token w = (Inr DoneNow, w')" "ids_ok s_id (subscribers (wdb w))"
  shows "\<exists>s s'. s_unsubscribe_token s = Some token \<and> by_id s_id (s_id s) (subscribers (wdb w)) = Some s \<and>
     by_id s_id (s_id s) (subscribers (wdb w')) = Some s' \<and> \<not> active_subscriber s' \<and>
     s_unsubscribed_at s' = (case s_unsubscribed_at s of None \<Rightarrow> Some (clk 0) | Some t \<Rightarrow> Some t)"
proof -
  let ?get = "if token \<noteq> '''' then get_subscriber_by_unsubscribe_token token else raise ErrNoRows"
  obtain r w1 where g: "?get w = (r, w1)" by fastforce
  show ?thesis
  proof (cases r)
    case (Inl e)
    with assms(1) g show ?thesis
      by (auto simp: subscription_unsubscribe_def bindE_def attempt_run raise_def ret_def split: if_splits)
  next
    case (Inr s)
    with g have f: "find (\<lambda>s. s_unsubscribe_token s = Some token) (subscribers (wdb w)) = Some s" and w1: "wdb w1 = wdb w"
      by (auto simp: get_subscriber_by_unsubscribe_token_def raise_def split: if_splits dest!: query_row_ok)
    have s: "s \<in> set (subscribers (wdb w))" "s_unsubscribe_token s = Some token"
      using f by (auto simp: find_Some_iff)
    with assms(2) have row: "by_id s_id (s_id s) (subscribers (wdb w)) = Some s"
      by (simp add: subscribers_tab.by_id_eq)
    let ?s' = "if s_unsubscribed_at s = None then s\<lparr>s_unsubscribed_at := Some (clk 0), s_updated_at := clk 1\<rparr> else s"
    let ?Q = "\<lambda>d. by_id s_id (s_id s) (subscribers d) = Some ?s'"
    have "ensures (\<lambda>d. d = wdb w) (bindE (if s_unsubscribed_at s = None then unsubscribe_subscriber (clk 0) (clk 1) (s_id s) else ret ()) (\<lambda>_.
           bindE (log_row (clk 2) 0 ''unsubscribed'' ''subscription'' (Some (''email='' @ activity_quote (s_email s))) None) (\<lambda>_.
           ret DoneNow))) (\<lambda>_. ?Q)"
    proof (rule ensures_bindE [where R = "\<lambda>_. ?Q"])
      show "ensures (\<lambda>d. d = wdb w) (if s_unsubscribed_at s = None then unsubscribe_subscriber (clk 0) (clk 1) (s_id s) else ret ()) (\<lambda>_. ?Q)"
        unfolding unsubscribe_subscriber_def
        by (cases "s_unsubscribed_at s"; simp; intro ensures_modify ensures_ret)
          (simp_all add: row by_id_write_subscriber)
      show "ensures ?Q (bindE (log_row (clk 2) 0 ''unsubscribed'' ''subscription'' (Some (''email='' @ activity_quote (s_email s))) None) (\<lambda>_.
           ret DoneNow)) (\<lambda>_. ?Q)" for x :: unit
        by (rule ensures_bindE [where R = "\<lambda>_. ?Q"]) (auto intro: ensures_log_row ensures_ret)
    qed
    moreover have "bindE (if s_unsubscribed_at s = None then unsubscribe_subscriber (clk 0) (clk 1) (s_id s) else ret ()) (\<lambda>_.
           bindE (log_row (clk 2) 0 ''unsubscribed'' ''subscription'' (Some (''email='' @ activity_quote (s_email s))) None) (\<lambda>_.
           ret DoneNow)) w1 = (Inr DoneNow, w')"
      using assms(1) g Inr by (simp add: subscription_unsubscribe_def bindE_def attempt_run)
    ultimately have q: "?Q (wdb w')" using w1 by (blast dest: ensuresD)
    show ?thesis
      by (rule exI [of _ s], rule exI [of _ ?s'])
        (use s row q in \<open>auto simp: active_subscriber_def split: option.splits\<close>)
  qed
qed

definition reader_db :: database where
  "reader_db = empty_db\<lparr>subscribers := [\<lparr>s_id = 4, s_email = ''ann@x.org'', s_confirmation_token = Some ''c'',
     s_unsubscribe_token = Some ''u'', s_confirmed_at = Some 3, s_unsubscribed_at = None,
     s_created_at = 1, s_updated_at = 5\<rparr>]\<rparr>"

theorem unsubscribe_stops_delivery_witness:
  "\<exists>s'. by_id s_id 4 (subscribers (wdb (snd (subscription_unsubscribe (\<lambda>n. 20 + int n) ''u''
     \<lparr>wdb = reader_db, wfaults = []\<rparr>)))) = Some s' \<and> \<not> active_subscriber s'"
proof -
  let ?run = "subscription_unsubscribe (\<lambda>n. 20 + int n) ''u'' \<lparr>wdb = reader_db, wfaults = []\<rparr>"
  have "fst ?run = Inr DoneNow" by code_simp
  then have run: "?run = (Inr DoneNow, snd ?run)" by (metis prod.collapse)
  have ids: "ids_ok s_id (subscribers (wdb \<lparr>wdb = reader_db, wfaults = []\<rparr>))" by (simp add: reader_db_def ids_ok_def)
  from unsubscribe_stops_delivery [OF run ids] obtain s s' where s: "s_unsubscribe_token s = Some ''u''"
    "by_id s_id (s_id s) (subscribers reader_db) = Some s"
    "by_id s_id (s_id s) (subscribers (wdb (snd ?run))) = Some s'" "\<not> active_subscriber s'"
    by auto
  from s(2) have "s_id s = 4" by (auto simp: reader_db_def by_id_def split: if_splits)
  with s show ?thesis by auto
qed

end
