(* ===== verification/NetText.thy ===== *)
theory NetText
  imports GoText
begin

text \<open>
  More of Go's standard library, as the HTTP layer uses it: cutting and trimming strings, the
  index of a byte, \<open>net.SplitHostPort\<close>, and the template expansion of \<open>regexp\<close>. A compiled
  regular expression is what the code asks of it, the submatch spans of the leftmost match in a
  subject and the names of its groups; compilation itself (the RE2 engine) is an argument of the
  definitions that compile, as is \<open>url.Parse\<close>.
\<close>

section \<open>Strings\<close>

text \<open>\<open>strings.Cut(s, sep)\<close> for a one-byte separator.\<close>

definition cut_char :: "char \<Rightarrow> string \<Rightarrow> string \<times> string \<times> bool" where
  "cut_char c s = (takeWhile (\<lambda>x. x \<noteq> c) s, drop 1 (dropWhile (\<lambda>x. x \<noteq> c) s), c \<in> set s)"

definition trim_prefix :: "string \<Rightarrow> string \<Rightarrow> string" where
  "trim_prefix s p = (if has_prefix s p then drop (length p) s else s)"

definition contains_any :: "string \<Rightarrow> string \<Rightarrow> bool" where
  "contains_any s cs = list_ex (\<lambda>c. c \<in> set cs) s"

lemma cut_char_found: "c \<notin> set a \<Longrightarrow> cut_char c (a @ c # b) = (a, b, True)"
  by (induction a) (auto simp: cut_char_def)

lemma cut_char_missing: "c \<notin> set s \<Longrightarrow> cut_char c s = (s, [], False)"
proof -
  assume c: "c \<notin> set s"
  then have t: "takeWhile (\<lambda>x. x \<noteq> c) s = s" by (intro takeWhile_eq_all_conv [THEN iffD2]) auto
  then have d: "dropWhile (\<lambda>x. x \<noteq> c) s = []" by (metis append_self_conv takeWhile_dropWhile_id)
  show ?thesis unfolding cut_char_def t d using c by simp
qed

lemma cut_char_cases:
  obtains (missing) "c \<notin> set s" "cut_char c s = (s, [], False)"
  | (found) a b where "s = a @ c # b" "c \<notin> set a" "cut_char c s = (a, b, True)"
  by (metis cut_char_found cut_char_missing split_list_first)

lemma has_prefix_append [simp]: "has_prefix (p @ s) p"
  by (simp add: has_prefix_def)

lemma has_suffix_append [simp]: "has_suffix (s @ p) p"
  by (auto simp: has_suffix_iff)

lemma trim_suffix_append [simp]: "trim_suffix (s @ p) p = s"
  by (simp add: trim_suffix_def)

section \<open>Host and port\<close>

text \<open>\<open>net.SplitHostPort\<close>; \<open>None\<close>: its error.\<close>

definition before_last :: "char \<Rightarrow> string \<Rightarrow> string" where
  "before_last c s = rev (drop 1 (dropWhile (\<lambda>x. x \<noteq> c) (rev s)))"

definition after_last :: "char \<Rightarrow> string \<Rightarrow> string" where
  "after_last c s = rev (takeWhile (\<lambda>x. x \<noteq> c) (rev s))"

definition split_host_port :: "string \<Rightarrow> (string \<times> string) option" where
  "split_host_port s =
     (if CHR '':'' \<notin> set s then None
      else if hd s = CHR ''['' then
        (case cut_char (CHR '']'') s of (open_part, tail, found) \<Rightarrow>
           if \<not> found \<or> tail = [] \<or> hd tail \<noteq> CHR '':'' \<or> CHR '':'' \<in> set (tl tail) then None
           else if CHR ''['' \<in> set (tl s) \<or> CHR '']'' \<in> set tail then None
           else Some (tl open_part, tl tail))
      else if CHR '':'' \<in> set (before_last (CHR '':'') s) \<or> CHR ''['' \<in> set s \<or> CHR '']'' \<in> set s then None
      else Some (before_last (CHR '':'') s, after_last (CHR '':'') s))"

lemma last_colon: "c \<notin> set b \<Longrightarrow> before_last c (a @ c # b) = a \<and> after_last c (a @ c # b) = b"
proof -
  assume c: "c \<notin> set b"
  have "dropWhile (\<lambda>x. x \<noteq> c) (rev b @ c # rev a) = c # rev a"
    using c by (subst dropWhile_append2) auto
  moreover have "takeWhile (\<lambda>x. x \<noteq> c) (rev b @ c # rev a) = rev b"
    using c by (subst takeWhile_append2) auto
  ultimately show ?thesis by (simp add: before_last_def after_last_def)
qed

section \<open>URLs and case folding\<close>

text \<open>What the code reads of a parsed URL.\<close>

record url_parts =
  u_scheme :: string
  u_host :: string
  u_path :: string

text \<open>\<open>strings.EqualFold\<close>: outside ASCII the argument \<open>efold\<close> decides.\<close>

definition equal_fold :: "(string \<Rightarrow> string \<Rightarrow> bool) \<Rightarrow> string \<Rightarrow> string \<Rightarrow> bool" where
  "equal_fold efold a b = (if is_ascii a \<and> is_ascii b then sql_lower a = sql_lower b else efold a b)"

section \<open>Regular expressions\<close>

record regex =
  rx_find :: "string \<Rightarrow> (nat \<times> nat) option list option"
  rx_names :: "string list"

text \<open>
  \<open>Regexp.ExpandString\<close>: \<open>$1\<close>, \<open>${1}\<close>, \<open>$name\<close>, \<open>${name}\<close> and \<open>$$\<close>; a malformed
  reference keeps its dollar. \<open>uword\<close> says which characters outside ASCII are letters or digits.
\<close>

definition is_word_char :: "char \<Rightarrow> bool" where
  "is_word_char c = (is_ascii_letter c \<or> is_digit c \<or> c = CHR ''_'')"

function word_prefix :: "(string \<Rightarrow> bool) \<Rightarrow> string \<Rightarrow> string" where
  "word_prefix uword s =
     (case s of
        [] \<Rightarrow> []
      | c # t \<Rightarrow>
          if code_of c < 128 then (if is_word_char c then c # word_prefix uword t else [])
          else let r = c # takeWhile is_continuation t in
               if uword r then r @ word_prefix uword (dropWhile is_continuation t) else [])"
  by pat_completeness auto
termination by (relation "measure (\<lambda>(u, s). length s)") (auto simp: le_imp_less_Suc length_dropWhile_le)

declare word_prefix.simps [simp del]

definition template_name :: "(string \<Rightarrow> bool) \<Rightarrow> string \<Rightarrow> (string \<times> string) option" where
  "template_name uword s =
     (let brace = (s \<noteq> [] \<and> hd s = CHR ''{''); t = (if brace then tl s else s);
          name = word_prefix uword t; rest = drop (length name) t
      in if name = [] then None
         else if brace then (if rest \<noteq> [] \<and> hd rest = CHR ''}'' then Some (name, tl rest) else None)
         else Some (name, rest))"

fun group_number :: "nat \<Rightarrow> string \<Rightarrow> nat option" where
  "group_number n [] = Some n"
| "group_number n (c # s) =
     (if \<not> is_digit c \<or> 10 ^ 8 \<le> n then None else group_number (n * 10 + (code_of c - 48)) s)"

definition template_group :: "string \<Rightarrow> nat option" where
  "template_group name = (if hd name = CHR ''0'' \<and> 1 < length name then None else group_number 0 name)"

definition span_text :: "string \<Rightarrow> (nat \<times> nat) option \<Rightarrow> string" where
  "span_text subject sp = (case sp of None \<Rightarrow> [] | Some (a, b) \<Rightarrow> take (b - a) (drop a subject))"

definition group_text :: "string list \<Rightarrow> (nat \<times> nat) option list \<Rightarrow> string \<Rightarrow> string \<Rightarrow> string" where
  "group_text names m subject name =
     (case template_group name of
        Some n \<Rightarrow> if n < length m then span_text subject (m ! n) else []
      | None \<Rightarrow> (case find (\<lambda>(x, sp). x = name \<and> sp \<noteq> None) (zip names m) of
                  None \<Rightarrow> [] | Some (_, sp) \<Rightarrow> span_text subject sp))"

lemma cut_char_shorter: "cut_char c s = (a, b, f) \<Longrightarrow> c \<in> set s \<Longrightarrow> length b < length s"
  by (cases rule: cut_char_cases [of c s]) auto

lemma cut_char_le: "cut_char c s = (a, b, f) \<Longrightarrow> length b \<le> length s"
  by (cases rule: cut_char_cases [of c s]) auto

lemma template_name_shorter: "template_name uword s = Some (n, r) \<Longrightarrow> length r < length s"
proof -
  assume a: "template_name uword s = Some (n, r)"
  define t where "t = (if s \<noteq> [] \<and> hd s = CHR ''{'' then tl s else s)"
  define name where "name = word_prefix uword t"
  have "template_name uword s =
    (if name = [] then None
     else if s \<noteq> [] \<and> hd s = CHR ''{''
     then (if drop (length name) t \<noteq> [] \<and> hd (drop (length name) t) = CHR ''}''
           then Some (name, tl (drop (length name) t)) else None)
     else Some (name, drop (length name) t))"
    by (simp only: template_name_def Let_def t_def name_def)
  with a have a: "name \<noteq> []" "r = drop (length name) t \<or> r = tl (drop (length name) t)"
    by (auto split: if_splits)
  then have name: "name \<noteq> []" by simp
  then have t: "t \<noteq> []" by (auto simp: name_def word_prefix.simps)
  with name have "length (drop (length name) t) < length t" by simp
  moreover have "length t \<le> length s" by (simp add: t_def)
  moreover from a have "length r \<le> length (drop (length name) t)" by auto
  ultimately show ?thesis by simp
qed

function expand :: "(string \<Rightarrow> bool) \<Rightarrow> string list \<Rightarrow> (nat \<times> nat) option list \<Rightarrow> string \<Rightarrow> string \<Rightarrow> string" where
  "expand uword names m subject tpl =
     (if CHR ''$'' \<notin> set tpl then tpl
      else case cut_char (CHR ''$'') tpl of (before, after, _) \<Rightarrow>
        before @
        (if after \<noteq> [] \<and> hd after = CHR ''$'' then CHR ''$'' # expand uword names m subject (tl after)
         else (case template_name uword after of
             None \<Rightarrow> CHR ''$'' # expand uword names m subject after
           | Some (name, rest) \<Rightarrow> group_text names m subject name @ expand uword names m subject rest)))"
  by pat_completeness auto
termination
  by (relation "measure (\<lambda>(u, n, m, s, t). length t)")
    (auto dest!: cut_char_shorter [OF sym] template_name_shorter simp: le_imp_less_Suc dest: less_trans)

declare expand.simps [simp del]

end
