(* ===== verification/Redirects.thy ===== *)
theory Redirects
  imports NetText Schema
begin

text \<open>
  \<open>internal/httpd/middleware_redirect.go\<close> and the reads of \<open>internal/db/query/redirects.sql.go\<close>:
  the enabled redirect rules, how one rule rewrites its subject (the URL path, or host and path), the
  middleware's loop over the rules with its guards, and the process-wide cache of the rule list.
  \<open>compile\<close> is \<open>regexp.Compile\<close> (\<open>None\<close>: an error), \<open>parse\<close> is \<open>url.Parse\<close> reduced to the
  three fields the code reads, \<open>uni\<close> folds the case of strings outside ASCII.
\<close>

definition redirect_skip_prefixes :: "string list" where
  "redirect_skip_prefixes = [''/admin'', ''/assets'', ''/files'', ''/static'', ''/up'']"

definition match_path :: string where "match_path = ''path''"
definition match_host_path :: string where "match_host_path = ''host_path''"
definition match_simple :: string where "match_simple = ''simple''"
definition match_host_legacy :: string where "match_host_legacy = ''host''"

text \<open>\<open>redirectRule\<close>: a simple rule has a non-empty \<open>rr_from\<close>, any other rule its regex.\<close>

record redirect_rule =
  rr_host_path :: bool
  rr_permanent :: bool
  rr_from :: string
  rr_prefix :: bool
  rr_to :: string
  rr_re :: "regex option"
  rr_replacement :: string

section \<open>Hosts and paths\<close>

definition normalize_redirect_host :: "(string \<Rightarrow> string) \<Rightarrow> string \<Rightarrow> string" where
  "normalize_redirect_host uni host =
     (let h1 = (case split_host_port host of Some (h, _) \<Rightarrow> h | None \<Rightarrow> host);
          h2 = (if has_prefix h1 ''['' \<and> has_suffix h1 '']'' then take (length h1 - 2) (drop 1 h1) else h1)
      in trim_suffix (to_lower uni h2) ''.'')"

definition redirect_skippable_path :: "string \<Rightarrow> bool" where
  "redirect_skippable_path path =
     list_ex (\<lambda>p. path = p \<or> has_prefix path (p @ ''/'')) redirect_skip_prefixes"

definition trim_one_trailing_slash :: "string \<Rightarrow> string" where
  "trim_one_trailing_slash s = (if 1 < length s then trim_suffix s ''/'' else s)"

definition join_redirect_target :: "string \<Rightarrow> string \<Rightarrow> string" where
  "join_redirect_target to rest =
     (if rest = [] then to
      else if has_suffix to ''/'' \<and> has_prefix rest ''/'' then to @ tl rest
      else if \<not> has_suffix to ''/'' \<and> \<not> has_prefix rest ''/'' then to @ ''/'' @ rest
      else to @ rest)"

section \<open>One rule\<close>

definition apply_simple_to :: "redirect_rule \<Rightarrow> string \<Rightarrow> string option" where
  "apply_simple_to rule subject =
     (let from = rr_from rule in
      if \<not> rr_prefix rule then
        (if trim_one_trailing_slash subject \<noteq> trim_one_trailing_slash from then None else Some (rr_to rule))
      else if has_suffix from ''/'' then
        (if \<not> has_prefix subject from then None
         else Some (join_redirect_target (rr_to rule) (drop (length from) subject)))
      else if subject = from then Some (join_redirect_target (rr_to rule) [])
      else if has_prefix subject (from @ ''/'')
      then Some (join_redirect_target (rr_to rule) (drop (length from) subject))
      else None)"

text \<open>Ruby's \<open>sub\<close>: only the matched span is replaced. The first span is the whole match.\<close>

definition apply_regex_to :: "(string \<Rightarrow> bool) \<Rightarrow> regex \<Rightarrow> string \<Rightarrow> string \<Rightarrow> string option" where
  "apply_regex_to uword re replacement subject =
     (case rx_find re subject of
        Some (Some (a, b) # gs) \<Rightarrow>
          Some (take a subject @ expand uword (rx_names re) (Some (a, b) # gs) subject replacement @ drop b subject)
      | _ \<Rightarrow> None)"

definition apply_to :: "(string \<Rightarrow> bool) \<Rightarrow> redirect_rule \<Rightarrow> string \<Rightarrow> string option" where
  "apply_to uword rule subject =
     (if rr_from rule \<noteq> [] then apply_simple_to rule subject
      else (case rr_re rule of None \<Rightarrow> None | Some re \<Rightarrow> apply_regex_to uword re (rr_replacement rule) subject))"

definition redirect_targets_self :: "(string \<Rightarrow> url_parts option) \<Rightarrow> (string \<Rightarrow> string) \<Rightarrow> string \<Rightarrow> string \<Rightarrow> string \<Rightarrow> bool" where
  "redirect_targets_self parse uni target req_host req_path =
     (case parse target of
        None \<Rightarrow> False
      | Some u \<Rightarrow>
          let target_path = (if u_path u = [] then ''/'' else u_path u) in
          if u_host u = [] then target_path = req_path
          else normalize_redirect_host uni (u_host u) = req_host \<and> target_path = req_path)"

text \<open>\<open>site\<close> is the answer of the settings cache when it is asked.\<close>

definition redirect_site_base_url :: "(string \<Rightarrow> url_parts option) \<Rightarrow> err + setting \<Rightarrow> string option" where
  "redirect_site_base_url parse site =
     (case site of
        Inl _ \<Rightarrow> None
      | Inr st \<Rightarrow> (case parse (trim_space (str_of (se_url st))) of
          None \<Rightarrow> None
        | Some u \<Rightarrow> if se_url st = None \<or> u_scheme u = [] \<or> u_host u = [] then None
                    else Some (u_scheme u @ ''://'' @ u_host u)))"

section \<open>Loading the rules\<close>

definition rewrite_host_only_pattern :: "string \<Rightarrow> string" where
  "rewrite_host_only_pattern pattern =
     ''(?:'' @ (if has_suffix pattern [CHR 0x5C, CHR ''$''] then pattern else trim_suffix pattern ''$'') @ '')(?:/.*)?$''"

text \<open>\<open>rubyToGoExpansion\<close>; 92 is the backslash, 39 the apostrophe.\<close>

function ruby_to_go_expansion :: "string \<Rightarrow> string" where
  "ruby_to_go_expansion s =
     (case s of
        [] \<Rightarrow> []
      | c # t \<Rightarrow>
          if c = CHR 0x5C \<and> t \<noteq> [] \<and> is_digit (hd t)
          then ''${'' @ [hd t] @ ''}'' @ ruby_to_go_expansion (tl t)
          else if c = CHR 0x5C \<and> t \<noteq> [] \<and> hd t = CHR ''&''
          then ''${0}'' @ ruby_to_go_expansion (tl t)
          else if c = CHR 0x5C \<and> 2 \<le> length t \<and> hd t = CHR ''k'' \<and> (t ! 1 = CHR ''<'' \<or> t ! 1 = CHR 0x27)
          then (case cut_char (if t ! 1 = CHR 0x27 then CHR 0x27 else CHR ''>'') (drop 2 t) of (name, rest, found) \<Rightarrow>
                  if found \<and> name \<noteq> [] then ''${'' @ name @ ''}'' @ ruby_to_go_expansion rest
                  else c # ruby_to_go_expansion t)
          else if c = CHR 0x5C \<and> t \<noteq> [] \<and> hd t = CHR 0x5C
          then CHR 0x5C # ruby_to_go_expansion (tl t)
          else if c = CHR ''$'' then ''$$'' @ ruby_to_go_expansion t
          else c # ruby_to_go_expansion t)"
  by pat_completeness auto
termination
proof (relation "measure length", goal_cases)
  case 4
  then show ?case by (auto dest!: cut_char_le [OF sym])
qed auto

declare ruby_to_go_expansion.simps [simp del]

text \<open>\<open>normalizeMatchFrom\<close> of \<open>internal/httpd/redirects_admin.go\<close>.\<close>

definition normalize_match_from :: "(string \<Rightarrow> string) \<Rightarrow> string \<Rightarrow> string" where
  "normalize_match_from uni raw_value =
     (let v = trim_space raw_value in
      if has_prefix v ''/'' then v
      else (case cut_char (CHR ''/'') v of (host, path, found) \<Rightarrow>
        let h1 = (case split_host_port host of Some (h, p) \<Rightarrow> if p \<noteq> [] then h else host | None \<Rightarrow> host);
            h2 = trim_prefix (trim_suffix h1 '']'') ''['';
            h3 = trim_suffix (to_lower uni h2) ''.''
        in if \<not> found then h3 else h3 @ ''/'' @ path))"

definition regex_pattern :: "redirect_row \<Rightarrow> string" where
  "regex_pattern row =
     (let legacy = (r_match_on row = match_host_legacy);
          p1 = (if legacy then rewrite_host_only_pattern (r_regex row) else r_regex row)
      in if r_match_on row = match_host_path \<or> legacy
         then let p2 = (if \<not> str_contains p1 ''/'' then rewrite_host_only_pattern p1 else p1)
              in ''^(?:'' @ p2 @ '')$''
         else p1)"

definition load_rule :: "(string \<Rightarrow> regex option) \<Rightarrow> (string \<Rightarrow> string) \<Rightarrow> redirect_row \<Rightarrow> redirect_rule option" where
  "load_rule compile uni row =
     (if r_match_on row = match_simple
      then let from = normalize_match_from uni (r_match_from row) in
           if from = [] then None
           else Some \<lparr>rr_host_path = (\<not> has_prefix from ''/''), rr_permanent = (r_permanent row = 1),
                      rr_from = from, rr_prefix = (r_match_prefix row = 1), rr_to = r_replacement row,
                      rr_re = None, rr_replacement = []\<rparr>
      else if is_blank (r_regex row) then None
      else (case compile (regex_pattern row) of
              None \<Rightarrow> None
            | Some re \<Rightarrow>
                Some \<lparr>rr_host_path = (r_match_on row = match_host_path \<or> r_match_on row = match_host_legacy),
                      rr_permanent = (r_permanent row = 1), rr_from = [], rr_prefix = False, rr_to = [],
                      rr_re = Some re, rr_replacement = ruby_to_go_expansion (r_replacement row)\<rparr>))"

text \<open>\<open>ListEnabledRedirects\<close> and \<open>ListRedirects\<close>, ordered by position, then id.\<close>

definition by_position :: "redirect_row list \<Rightarrow> redirect_row list" where
  "by_position rs = sort_key r_position (sort_key r_id rs)"

definition list_enabled_redirects :: "redirect_row list db_act" where
  "list_enabled_redirects = query (\<lambda>d. filter (\<lambda>r. r_enabled r = 1) (by_position (redirects d)))"

definition list_redirects :: "redirect_row list db_act" where
  "list_redirects = query (\<lambda>d. by_position (redirects d))"

definition load_rules :: "(string \<Rightarrow> regex option) \<Rightarrow> (string \<Rightarrow> string) \<Rightarrow> redirect_row list \<Rightarrow> redirect_rule list" where
  "load_rules compile uni rows = List.map_filter (load_rule compile uni) rows"

section \<open>The cache\<close>

text \<open>
  The entry of \<open>s.Ext\<close>: the rules and the time they were fetched, in nanoseconds. \<open>redirectRules\<close>
  is a lookup, on a miss the read of the table, and the store of what was read; concurrent requests
  and admin writes run between the three.
\<close>

type_synonym redirect_cache = "(redirect_rule list \<times> int) option"

definition redirect_cache_ttl :: int where "redirect_cache_ttl = 5 * 60 * 1000000000"

definition cached_rules :: "int \<Rightarrow> redirect_cache \<Rightarrow> redirect_rule list option" where
  "cached_rules now cache =
     (case cache of
        Some (rules, fetched) \<Rightarrow> if now - fetched < redirect_cache_ttl then Some rules else None
      | None \<Rightarrow> None)"

definition store_rules :: "redirect_rule list \<Rightarrow> int \<Rightarrow> redirect_cache \<Rightarrow> redirect_cache" where
  "store_rules rules now cache = Some (rules, now)"

definition invalidate_redirect_cache :: "redirect_cache \<Rightarrow> redirect_cache" where
  "invalidate_redirect_cache cache = None"

definition redirect_rules ::
  "(string \<Rightarrow> regex option) \<Rightarrow> (string \<Rightarrow> string) \<Rightarrow> (nat \<Rightarrow> int) \<Rightarrow> redirect_cache \<Rightarrow> dbworld \<Rightarrow>
   redirect_rule list \<times> redirect_cache \<times> dbworld" where
  "redirect_rules compile uni clk cache w =
     (case cached_rules (clk 0) cache of
        Some rules \<Rightarrow> (rules, cache, w)
      | None \<Rightarrow> (case list_enabled_redirects w of
          (Inl _, w') \<Rightarrow> ([], cache, w')
        | (Inr rows, w') \<Rightarrow>
            let rules = load_rules compile uni rows in (rules, store_rules rules (clk 1) cache, w')))"

section \<open>The middleware\<close>

datatype http_answer = PassOn | Answer nat string

record request =
  rq_method :: string
  rq_host :: string
  rq_path :: string

text \<open>The environment: the parameters named above and the settings' answer.\<close>

record redirect_env =
  re_parse :: "string \<Rightarrow> url_parts option"
  re_uni :: "string \<Rightarrow> string"
  re_uword :: "string \<Rightarrow> bool"
  re_site :: "err + setting"

definition rule_subject :: "redirect_env \<Rightarrow> request \<Rightarrow> redirect_rule \<Rightarrow> string option" where
  "rule_subject env rq rule =
     (if rr_host_path rule then Some (normalize_redirect_host (re_uni env) (rq_host rq) @ rq_path rq)
      else if redirect_skippable_path (rq_path rq) then None
      else Some (rq_path rq))"

text \<open>One round of the loop: the final target, or \<open>None\<close> where the code continues.\<close>

definition rule_target :: "redirect_env \<Rightarrow> request \<Rightarrow> redirect_rule \<Rightarrow> string option" where
  "rule_target env rq rule =
     (case rule_subject env rq rule of
        None \<Rightarrow> None
      | Some subject \<Rightarrow> (case apply_to (re_uword env) rule subject of
          None \<Rightarrow> None
        | Some target \<Rightarrow>
            (case (if rr_host_path rule \<and> has_prefix target ''/''
                   then map_option (\<lambda>base. base @ target) (redirect_site_base_url (re_parse env) (re_site env))
                   else Some target) of
               None \<Rightarrow> None
             | Some final \<Rightarrow>
                 if has_prefix final ''//'' then None
                 else if redirect_targets_self (re_parse env) (re_uni env) final
                           (normalize_redirect_host (re_uni env) (rq_host rq)) (rq_path rq) then None
                 else Some final)))"

fun first_redirect :: "redirect_env \<Rightarrow> request \<Rightarrow> redirect_rule list \<Rightarrow> http_answer" where
  "first_redirect env rq [] = PassOn"
| "first_redirect env rq (rule # rules) =
     (case rule_target env rq rule of
        None \<Rightarrow> first_redirect env rq rules
      | Some target \<Rightarrow> Answer (if rr_permanent rule then 301 else 302) target)"

definition redirect_middleware ::
  "redirect_env \<Rightarrow> (string \<Rightarrow> regex option) \<Rightarrow> (nat \<Rightarrow> int) \<Rightarrow> request \<Rightarrow> redirect_cache \<Rightarrow> dbworld \<Rightarrow>
   http_answer \<times> redirect_cache \<times> dbworld" where
  "redirect_middleware env compile clk rq cache w =
     (if rq_method rq \<noteq> ''GET'' \<and> rq_method rq \<noteq> ''HEAD'' then (PassOn, cache, w)
      else (case redirect_rules compile (re_uni env) clk cache w of (rules, cache', w') \<Rightarrow>
              (first_redirect env rq rules, cache', w')))"

section \<open>The replacement syntax\<close>

text \<open>
  What a replacement means: literal characters and references to the groups of the match. Written in
  Ruby's syntax, a literal backslash is doubled, a group is \<open>\\3\<close> or \<open>\\k<name>\<close>.
\<close>

datatype ruby_piece = Lit char | Numbered nat | Named string

fun ruby_show :: "ruby_piece \<Rightarrow> string" where
  "ruby_show (Lit c) = (if c = CHR 0x5C then [c, c] else [c])"
| "ruby_show (Numbered n) = [CHR 0x5C, char_of (48 + n)]"
| "ruby_show (Named name) = [CHR 0x5C, CHR ''k'', CHR ''<''] @ name @ ''>''"

fun piece_ok :: "ruby_piece \<Rightarrow> bool" where
  "piece_ok (Lit c) = True"
| "piece_ok (Numbered n) = (n < 10)"
| "piece_ok (Named name) = (name \<noteq> [] \<and> list_all is_word_char name)"

fun piece_value :: "string list \<Rightarrow> (nat \<times> nat) option list \<Rightarrow> string \<Rightarrow> ruby_piece \<Rightarrow> string" where
  "piece_value names m subject (Lit c) = [c]"
| "piece_value names m subject (Numbered n) = (if n < length m then span_text subject (m ! n) else [])"
| "piece_value names m subject (Named name) = group_text names m subject name"

fun go_show :: "ruby_piece \<Rightarrow> string" where
  "go_show (Lit c) = (if c = CHR ''$'' then ''$$'' else [c])"
| "go_show (Numbered n) = ''${'' @ [char_of (48 + n)] @ ''}''"
| "go_show (Named name) = ''${'' @ name @ ''}''"

lemma word_char_code: "is_word_char c \<Longrightarrow> code_of c < 128"
  by (auto simp: is_word_char_def is_ascii_letter_def is_digit_def)

lemma word_char_not: "is_word_char c \<Longrightarrow> c \<noteq> CHR ''>'' \<and> c \<noteq> CHR ''}'' \<and> c \<noteq> CHR ''$''"
  by (auto simp: is_word_char_def is_ascii_letter_def is_digit_def)

lemma ruby_to_go_show:
  assumes "piece_ok p"
  shows "ruby_to_go_expansion (ruby_show p @ t) = go_show p @ ruby_to_go_expansion t"
proof (cases p)
  case (Lit c)
  then show ?thesis by (subst ruby_to_go_expansion.simps) (auto simp: is_digit_def)
next
  case (Numbered n)
  then have "n < 10" using assms by simp
  then have "is_digit (char_of (48 + n))" by (simp only: is_digit_def code_of_digit) simp
  with Numbered show ?thesis by (subst ruby_to_go_expansion.simps) simp
next
  case (Named name)
  then have n: "name \<noteq> []" "CHR ''>'' \<notin> set name"
    using assms word_char_not by (auto simp: list_all_iff)
  then have "cut_char (CHR ''>'') (name @ CHR ''>'' # t) = (name, t, True)" by (intro cut_char_found)
  with Named n show ?thesis
    by (subst ruby_to_go_expansion.simps) (simp add: is_digit_def)
qed

lemma word_prefix_name:
  "list_all is_word_char name \<Longrightarrow> word_prefix uword (name @ CHR ''}'' # t) = name"
proof (induction name)
  case Nil
  show ?case by (simp add: word_prefix.simps is_word_char_def is_ascii_letter_def is_digit_def)
next
  case (Cons c name)
  then show ?case using word_char_code [of c] by (simp add: word_prefix.simps)
qed

lemma template_name_braced:
  assumes "name \<noteq> []" "list_all is_word_char name"
  shows "template_name uword (CHR ''{'' # name @ CHR ''}'' # t) = Some (name, t)"
  using assms by (simp add: template_name_def word_prefix_name)

lemma expand_reference:
  assumes "name \<noteq> []" "list_all is_word_char name"
  shows "expand uword names m subject (''${'' @ name @ ''}'' @ t) =
    group_text names m subject name @ expand uword names m subject t"
proof -
  have "cut_char (CHR ''$'') (CHR ''$'' # u) = ([], u, True)" for u
    using cut_char_found [of "CHR ''$''" "[]"] by simp
  with assms show ?thesis
    by (subst expand.simps) (simp add: template_name_braced)
qed

lemma expand_literal:
  assumes "c \<noteq> CHR ''$''"
  shows "expand uword names m subject (c # t) = c # expand uword names m subject t"
proof (cases rule: cut_char_cases [of "CHR ''$''" t])
  case missing
  with assms show ?thesis by (simp add: expand.simps [of uword names m subject])
next
  case (found a b)
  then have "cut_char (CHR ''$'') (c # t) = (c # a, b, True)"
    using assms cut_char_found [of "CHR ''$''" "c # a" b] by simp
  with found show ?thesis by (subst (1 2) expand.simps) (simp add: assms)
qed

lemma expand_dollar: "expand uword names m subject (''$$'' @ t) = CHR ''$'' # expand uword names m subject t"
proof -
  have "cut_char (CHR ''$'') (CHR ''$'' # u) = ([], u, True)" for u
    using cut_char_found [of "CHR ''$''" "[]"] by simp
  then show ?thesis by (subst expand.simps) simp
qed

lemma expand_go_show:
  assumes "piece_ok p"
  shows "expand uword names m subject (go_show p @ t) =
    piece_value names m subject p @ expand uword names m subject t"
proof (cases p)
  case (Lit c)
  then show ?thesis using expand_dollar expand_literal by simp
next
  case (Numbered n)
  let ?name = "[char_of (48 + n) :: char]"
  have n: "n < 10" using assms Numbered by simp
  then have d: "code_of (char_of (48 + n) :: char) = 48 + n" by (rule code_of_digit)
  with n have w: "list_all is_word_char ?name" by (simp add: is_word_char_def is_digit_def)
  have "template_group ?name = Some n"
    using n d by (simp add: template_group_def is_digit_def)
  then have "group_text names m subject ?name = piece_value names m subject (Numbered n)"
    by (simp add: group_text_def)
  with expand_reference [OF _ w, of uword names m subject t] Numbered show ?thesis by simp
next
  case (Named name)
  with assms expand_reference [of name] show ?thesis by simp
qed

text \<open>
  The replacement syntax keeps its Ruby meaning: a replacement written in Ruby's syntax, from any
  sequence of literal characters and numbered or named group references, is rewritten at load time
  so that Go's template expansion yields, for every match, exactly the literals and the texts of the
  referenced groups; no dollar or backslash of the replacement is lost or reinterpreted.
\<close>

theorem ruby_replacement_expands:
  assumes "list_all piece_ok ps"
  shows "expand uword names m subject (ruby_to_go_expansion (concat (map ruby_show ps))) =
    concat (map (piece_value names m subject) ps)"
  using assms
proof (induction ps)
  case Nil
  show ?case by (simp add: ruby_to_go_expansion.simps expand.simps)
next
  case (Cons p ps)
  then show ?case by (simp add: ruby_to_go_show expand_go_show)
qed

theorem ruby_replacement_expands_witness:
  "expand (\<lambda>_. False) ['''', ''slug''] [Some (0, 7), Some (3, 7)] ''/a/post'' (ruby_to_go_expansion
     ([CHR ''$'', CHR 0x5C, CHR 0x5C, CHR 0x5C, CHR ''1'', CHR 0x5C] @ ''k<slug>'')) =
   [CHR ''$'', CHR 0x5C] @ ''postpost''"
proof -
  have "char_of (49 :: nat) = CHR ''1''" by code_simp
  with ruby_replacement_expands [of "[Lit (CHR ''$''), Lit (CHR 0x5C), Numbered 1, Named ''slug'']"
      "\<lambda>_. False" "['''', ''slug'']" "[Some (0, 7), Some (3, 7)]" "''/a/post''"]
  show ?thesis
    by (simp add: is_word_char_def is_ascii_letter_def span_text_def group_text_def template_group_def is_digit_def)
qed

section \<open>Which rule answers\<close>

lemma first_redirect_Answer:
  "first_redirect env rq rules = Answer code loc \<Longrightarrow>
   \<exists>before rule after. rules = before @ rule # after \<and> (\<forall>r \<in> set before. rule_target env rq r = None) \<and>
     rule_target env rq rule = Some loc \<and> code = (if rr_permanent rule then 301 else 302)"
proof (induction rules)
  case (Cons rule rules)
  show ?case
  proof (cases "rule_target env rq rule")
    case None
    with Cons obtain before r after where r: "rules = before @ r # after"
      "\<forall>r \<in> set before. rule_target env rq r = None" "rule_target env rq r = Some loc"
      "code = (if rr_permanent r then 301 else 302)" by auto
    show ?thesis
      by (rule exI [of _ "rule # before"], rule exI [of _ r], rule exI [of _ after]) (use r None in auto)
  next
    case (Some loc')
    with Cons.prems have "loc' = loc" "code = (if rr_permanent rule then 301 else 302)" by auto
    with Some show ?thesis by (intro exI [of _ "[]"] exI [of _ rule] exI [of _ rules]) auto
  qed
qed simp

lemma rule_target_Some:
  assumes "rule_target env rq rule = Some loc"
  shows "\<not> has_prefix loc ''//''"
    and "\<not> redirect_targets_self (re_parse env) (re_uni env) loc
           (normalize_redirect_host (re_uni env) (rq_host rq)) (rq_path rq)"
    and "redirect_skippable_path (rq_path rq) \<Longrightarrow> rr_host_path rule"
  using assms by (auto simp: rule_target_def rule_subject_def split: option.splits if_splits)

text \<open>The rules a request is matched against: the cached ones, or the enabled rows in order.\<close>

definition rules_in_force ::
  "(string \<Rightarrow> regex option) \<Rightarrow> (string \<Rightarrow> string) \<Rightarrow> int \<Rightarrow> redirect_cache \<Rightarrow> database \<Rightarrow> redirect_rule list" where
  "rules_in_force compile uni now cache d =
     (case cached_rules now cache of
        Some rules \<Rightarrow> rules
      | None \<Rightarrow> load_rules compile uni (filter (\<lambda>r. r_enabled r = 1) (by_position (redirects d))))"

lemma redirect_rules_in_force:
  assumes "redirect_rules compile uni clk cache w = (rules, cache', w')" "rules \<noteq> []"
  shows "rules = rules_in_force compile uni (clk 0) cache (wdb w)"
  using assms
  by (auto simp: redirect_rules_def rules_in_force_def list_enabled_redirects_def Let_def
      split: option.splits prod.splits sum.splits dest: query_ok)

text \<open>
  C12: What the redirect middleware answers: only a GET or HEAD is redirected; the answering rule is the
  first of the rules in force (the cached list within its five minutes, else the enabled rows by
  position and id) that yields an acceptable target, 301 exactly when it is permanent; the target is
  never protocol-relative and never the request itself; and on the reserved prefixes (admin, assets, files,
  static, up) only a host rule can answer.
\<close>

theorem redirect_answer_first_match:
  assumes "redirect_middleware env compile clk rq cache w = (Answer code loc, cache', w')"
  shows "(rq_method rq = ''GET'' \<or> rq_method rq = ''HEAD'') \<and> \<not> has_prefix loc ''//'' \<and>
    \<not> redirect_targets_self (re_parse env) (re_uni env) loc
        (normalize_redirect_host (re_uni env) (rq_host rq)) (rq_path rq) \<and>
    (\<exists>before rule after.
       rules_in_force compile (re_uni env) (clk 0) cache (wdb w) = before @ rule # after \<and>
       (\<forall>r \<in> set before. rule_target env rq r = None) \<and> rule_target env rq rule = Some loc \<and>
       code = (if rr_permanent rule then 301 else 302) \<and>
       (redirect_skippable_path (rq_path rq) \<longrightarrow> rr_host_path rule))"
proof -
  obtain rules c v where run: "redirect_rules compile (re_uni env) clk cache w = (rules, c, v)"
    by (metis prod_cases3)
  from assms run have m: "rq_method rq = ''GET'' \<or> rq_method rq = ''HEAD''"
    and f: "first_redirect env rq rules = Answer code loc"
    by (auto simp: redirect_middleware_def split: if_splits)
  then have "rules \<noteq> []" by auto
  with run have r: "rules_in_force compile (re_uni env) (clk 0) cache (wdb w) = rules"
    by (rule redirect_rules_in_force [symmetric])
  from first_redirect_Answer [OF f] obtain before rule after where
    "rules = before @ rule # after" "\<forall>r \<in> set before. rule_target env rq r = None"
    and t: "rule_target env rq rule = Some loc" and "code = (if rr_permanent rule then 301 else 302)" by blast
  with m rule_target_Some [OF t] show ?thesis unfolding r by blast
qed

definition blog_row :: redirect_row where
  "blog_row = \<lparr>r_id = 1, r_regex = [], r_replacement = ''/'', r_enabled = 1, r_permanent = 0,
     r_created_at = 1, r_updated_at = 1, r_match_on = match_simple, r_match_from = ''/blog'',
     r_match_prefix = 1, r_position = 1\<rparr>"

definition path_only :: "string \<Rightarrow> url_parts option" where
  "path_only t = Some \<lparr>u_scheme = [], u_host = [], u_path = t\<rparr>"

definition plain_env :: redirect_env where
  "plain_env = \<lparr>re_parse = path_only, re_uni = id, re_uword = (\<lambda>_. False), re_site = Inl ErrNoRows\<rparr>"

definition blog_world :: dbworld where
  "blog_world = \<lparr>wdb = empty_db\<lparr>redirects := [blog_row]\<rparr>, wfaults = []\<rparr>"

theorem redirect_answer_first_match_witness:
  "\<not> has_prefix ''/post'' ''//'' \<and>
   (\<exists>before rule after. rules_in_force (\<lambda>_. None) id 0 None (wdb blog_world) = before @ rule # after \<and>
      rr_from rule = ''/blog'')"
proof -
  let ?rq = "\<lparr>rq_method = ''GET'', rq_host = ''x.org'', rq_path = ''/blog/post''\<rparr>"
  have "fst (redirect_middleware plain_env (\<lambda>_. None) (\<lambda>n. int n) ?rq None blog_world) = Answer 302 ''/post''"
    by code_simp
  then obtain c w where run:
    "redirect_middleware plain_env (\<lambda>_. None) (\<lambda>n. int n) ?rq None blog_world = (Answer 302 ''/post'', c, w)"
    by (metis prod.collapse)
  have rules: "map rr_from (rules_in_force (\<lambda>_. None) id 0 None (wdb blog_world)) = [''/blog'']" by code_simp
  from redirect_answer_first_match [OF run] obtain before rule after where
    r: "rules_in_force (\<lambda>_. None) id 0 None (wdb blog_world) = before @ rule # after"
    and p: "\<not> has_prefix ''/post'' ''//''"
    by (auto simp: plain_env_def)
  from rules r have "rr_from rule = ''/blog''" by (auto simp: append_eq_Cons_conv Cons_eq_append_conv)
  with r p show ?thesis by blast
qed

section \<open>Simple host rules\<close>

text \<open>The names a host form field takes: letters, digits, dashes and dots, with no dot at the end.\<close>

definition host_char :: "char \<Rightarrow> bool" where
  "host_char c = (is_ascii_letter c \<or> is_digit c \<or> c = CHR ''-'' \<or> c = CHR ''.'')"

definition plain_host :: "string \<Rightarrow> bool" where
  "plain_host h = (h \<noteq> [] \<and> list_all host_char h \<and> last h \<noteq> CHR ''.'')"

text \<open>How clients write a host: any letter case, the root dot, a port.\<close>

definition host_spelling :: "string \<Rightarrow> string \<Rightarrow> bool" where
  "host_spelling h header =
     (\<exists>h' dot port. header = h' @ dot @ port \<and> sql_lower h' = sql_lower h \<and> list_all host_char h' \<and>
        dot \<in> {[], ''.''} \<and> (port = [] \<or> (\<exists>ds. port = CHR '':'' # ds \<and> list_all is_digit ds)))"

lemma host_char_plain: "host_char c \<Longrightarrow> plain_char c"
  by (auto simp: host_char_def is_ascii_letter_def is_digit_def plain_char_def)

lemma host_char_not: "host_char c \<Longrightarrow> c \<noteq> CHR '':'' \<and> c \<noteq> CHR ''['' \<and> c \<noteq> CHR '']'' \<and> c \<noteq> CHR ''/''"
  by (auto simp: host_char_def is_ascii_letter_def is_digit_def)

lemma ascii_lower_dot: "ascii_lower c = CHR ''.'' \<longleftrightarrow> c = CHR ''.''"
proof
  assume "ascii_lower c = CHR ''.''"
  then have "code_of (ascii_lower c) = 46" by simp
  then have "code_of c = 46" by (simp add: code_of_lower split: if_splits)
  then have "code_of c = code_of (CHR ''.'')" by simp
  then show "c = CHR ''.''" by (simp only: of_char_eq_iff)
qed (simp add: ascii_lower_def)

lemma trim_dot:
  assumes "h' \<noteq> []" "last h' \<noteq> CHR ''.''" "dot \<in> {[], ''.''}"
  shows "trim_suffix (h' @ dot) ''.'' = h'"
proof (cases "dot = []")
  case True
  have "\<not> has_suffix h' ''.''"
    using assms by (auto simp: has_suffix_iff)
  with True show ?thesis by (simp add: trim_suffix_def)
next
  case False
  with assms show ?thesis by simp
qed

lemma plain_host_not: "list_all host_char h \<Longrightarrow> CHR '':'' \<notin> set h \<and> CHR ''['' \<notin> set h \<and> CHR '']'' \<notin> set h \<and> CHR ''/'' \<notin> set h"
  by (auto simp: list_all_iff dest!: host_char_not)

lemma plain_host_ascii: "list_all host_char h \<Longrightarrow> is_ascii h"
  by (auto simp: is_ascii_def list_all_iff plain_char_def dest!: host_char_plain)

lemma no_bracket: "CHR ''['' \<notin> set s \<Longrightarrow> \<not> has_prefix s ''[''"
  by (auto simp: has_prefix_iff)

lemma normalize_spelling:
  assumes "plain_host h" "host_spelling h header"
  shows "normalize_redirect_host uni header = sql_lower h"
proof -
  from assms(2) obtain h' dot port where hd: "header = h' @ dot @ port" "sql_lower h' = sql_lower h"
    "list_all host_char h'" "dot \<in> {[], ''.''}"
    and port: "port = [] \<or> (\<exists>ds. port = CHR '':'' # ds \<and> list_all is_digit ds)"
    by (auto simp: host_spelling_def)
  from assms(1) hd(2) have ne: "h' \<noteq> []" by (auto simp: plain_host_def sql_lower_def)
  have "last (sql_lower h') \<noteq> CHR ''.''"
    using assms(1) hd(2) by (auto simp: plain_host_def sql_lower_def last_map ascii_lower_dot)
  then have l: "trim_suffix (sql_lower h' @ dot) ''.'' = sql_lower h'"
    using hd(4) ne by (intro trim_dot) (auto simp: sql_lower_def)
  have chars: "list_all host_char (h' @ dot)" using hd(3,4) by (auto simp: host_char_def)
  note no = plain_host_not [OF chars]
  have low: "to_lower uni (h' @ dot) = sql_lower h' @ dot"
    using plain_host_ascii [OF chars] hd(4) by (auto simp: to_lower_def sql_lower_def ascii_lower_def)
  have "(case split_host_port header of Some (h, _) \<Rightarrow> h | None \<Rightarrow> header) = h' @ dot"
    using port
  proof
    assume "port = []"
    with no hd(1) show ?thesis by (simp add: split_host_port_def)
  next
    assume "\<exists>ds. port = CHR '':'' # ds \<and> list_all is_digit ds"
    then obtain ds where ds: "port = CHR '':'' # ds" "list_all is_digit ds" by blast
    then have d: "CHR '':'' \<notin> set ds" "CHR ''['' \<notin> set ds" "CHR '']'' \<notin> set ds"
      by (auto simp: list_all_iff is_digit_def)
    have h: "header = (h' @ dot) @ CHR '':'' # ds" using hd(1) ds by simp
    have "hd header \<noteq> CHR ''[''" using no ne h by (cases h') auto
    with no d last_colon [OF d(1), of "h' @ dot"] h show ?thesis
      by (auto simp: split_host_port_def)
  qed
  with no_bracket no low l hd(2) show ?thesis
    by (simp add: normalize_redirect_host_def)
qed

lemma normalize_plain_host:
  assumes "plain_host h"
  shows "normalize_match_from uni h = sql_lower h"
proof -
  from assms have h: "h \<noteq> []" "list_all host_char h" "last h \<noteq> CHR ''.''" by (auto simp: plain_host_def)
  note no = plain_host_not [OF h(2)]
  have "trim_space h = h"
    using h(2) by (intro trim_space_plain) (auto simp: list_all_iff host_char_plain)
  moreover have "\<not> has_prefix h ''/''" using no by (auto simp: has_prefix_iff)
  moreover have "cut_char (CHR ''/'') h = (h, [], False)" using no by (simp add: cut_char_missing)
  moreover have "split_host_port h = None" using no by (simp add: split_host_port_def)
  moreover have "trim_suffix h '']'' = h" using no by (auto simp: trim_suffix_def has_suffix_iff)
  moreover have "trim_prefix h ''['' = h" using no by (auto simp: trim_prefix_def has_prefix_iff)
  moreover have "to_lower uni h = sql_lower h" using plain_host_ascii [OF h(2)] by (simp add: to_lower_def)
  moreover have "trim_suffix (sql_lower h @ []) ''.'' = sql_lower h"
    using h by (intro trim_dot) (auto simp: sql_lower_def last_map ascii_lower_dot)
  ultimately show ?thesis by (simp add: normalize_match_from_def)
qed

lemma host_char_lower: "host_char c \<Longrightarrow> host_char (ascii_lower c)"
  by (auto simp: host_char_def is_ascii_letter_def is_digit_def code_of_lower ascii_lower_def)

lemma simple_rule:
  assumes "r_match_on row = match_simple" "load_rule compile uni row = Some rule"
  shows "rr_from rule = normalize_match_from uni (r_match_from row)" "rr_from rule \<noteq> []"
    "rr_host_path rule = (\<not> has_prefix (rr_from rule) ''/'')"
    "rr_prefix rule = (r_match_prefix row = 1)" "rr_to rule = r_replacement row"
  using assms by (auto simp: load_rule_def Let_def split: if_splits)

text \<open>
  A host rule redirects its whole host and only it: the rule saved for a plain host name with prefix matching
  carries every path of a request for that host, however the client writes the name (letter case, root
  dot, port), to the target, with exactly one slash in between; any other subject, in particular that of a
  host which merely begins with the name, is not matched.
\<close>

theorem host_rule_carries_every_path:
  assumes "plain_host h" "r_match_on row = match_simple" "r_match_from row = h" "r_match_prefix row = 1"
    and "load_rule compile uni row = Some rule" "host_spelling h header"
  shows "rr_host_path rule \<and>
    apply_to uword rule (normalize_redirect_host uni header @ ''/'' @ rest) =
      Some (if has_suffix (r_replacement row) ''/'' then r_replacement row @ rest else r_replacement row @ ''/'' @ rest) \<and>
    (\<forall>subject. apply_to uword rule subject \<noteq> None \<longrightarrow>
       subject = sql_lower h \<or> has_prefix subject (sql_lower h @ ''/''))"
proof -
  have "normalize_match_from uni (r_match_from row) = sql_lower h"
    using assms(1,3) by (simp add: normalize_plain_host)
  with simple_rule [OF assms(2,5)] assms(4) have rule: "rr_from rule = sql_lower h" "sql_lower h \<noteq> []"
    "rr_host_path rule = (\<not> has_prefix (sql_lower h) ''/'')" "rr_prefix rule" "rr_to rule = r_replacement row"
    by auto
  have "list_all host_char (sql_lower h)"
    using assms(1) by (auto simp: plain_host_def sql_lower_def list_all_iff host_char_lower)
  then have "CHR ''/'' \<notin> set (sql_lower h)" using plain_host_not by blast
  then have slash: "\<not> has_suffix (sql_lower h) ''/''" "\<not> has_prefix (sql_lower h) ''/''"
    by (auto simp: has_suffix_iff has_prefix_iff dest!: arg_cong [where f = set])
  have whole: "has_prefix (sql_lower h @ ''/'' @ rest) (sql_lower h @ ''/'')"
    by (auto simp: has_prefix_iff)
  have "has_prefix (CHR ''/'' # rest) ''/''" by (simp add: has_prefix_def)
  with rule slash whole have "apply_to uword rule (sql_lower h @ ''/'' @ rest) =
      Some (if has_suffix (r_replacement row) ''/'' then r_replacement row @ rest else r_replacement row @ ''/'' @ rest)"
    by (simp add: apply_to_def apply_simple_to_def join_redirect_target_def)
  moreover have "apply_to uword rule subject \<noteq> None \<longrightarrow> subject = sql_lower h \<or> has_prefix subject (sql_lower h @ ''/'')"
    for subject using rule slash by (auto simp: apply_to_def apply_simple_to_def Let_def split: if_splits)
  ultimately show ?thesis using normalize_spelling [OF assms(1,6)] rule(3) slash(2) by simp
qed

definition old_host_row :: redirect_row where
  "old_host_row = blog_row\<lparr>r_match_from := ''Old.example.org'', r_replacement := ''https://example.org''\<rparr>"

theorem host_rule_carries_every_path_witness:
  "apply_to (\<lambda>_. False) (the (load_rule (\<lambda>_. None) id old_host_row))
     (normalize_redirect_host id ''OLD.example.org.:8080'' @ ''/a'') = Some ''https://example.org/a''"
proof -
  have "plain_host ''Old.example.org''" by code_simp
  moreover have "\<not> Option.is_none (load_rule (\<lambda>_. None) id old_host_row)" by code_simp
  then have "load_rule (\<lambda>_. None) id old_host_row = Some (the (load_rule (\<lambda>_. None) id old_host_row))"
    by (simp add: Option.is_none_def)
  moreover have "host_spelling ''Old.example.org'' ''OLD.example.org.:8080''"
    unfolding host_spelling_def
    by (rule exI [of _ "''OLD.example.org''"], rule exI [of _ "''.''"], rule exI [of _ "'':8080''"],
        intro conjI; (rule disjI2, rule exI [of _ "''8080''"], code_simp | code_simp))
  ultimately show ?thesis
    using host_rule_carries_every_path [of "''Old.example.org''" old_host_row "\<lambda>_. None" id
        "the (load_rule (\<lambda>_. None) id old_host_row)" "''OLD.example.org.:8080''" "\<lambda>_. False" "''a''"]
    by (simp add: old_host_row_def blog_row_def has_suffix_def has_prefix_def)
qed

section \<open>What the guard against off-site targets lets through\<close>

text \<open>
  C13: The guard against targets that leave the site looks for a leading double slash only. A prefix rule that
  moves a section to the root (\<open>/blog\<close> to \<open>/\<close>) answers the request path \<open>/blog/\\host\<close> (sent as
  \<open>/blog/%5Chost\<close>) with the location \<open>/\\host\<close>, which is no path of the site for a browser: browsers
  read the backslash as a slash and go to the other host.
\<close>

theorem backslash_leaves_the_site:
  assumes "rr_from rule = ''/blog''" "rr_prefix rule" "rr_to rule = ''/''" "\<not> rr_host_path rule" "\<not> rr_permanent rule"
    and "re_parse env ([CHR ''/'', CHR 0x5C] @ host) =
           Some \<lparr>u_scheme = [], u_host = [], u_path = [CHR ''/'', CHR 0x5C] @ host\<rparr>"
    and "rq_path rq = ''/blog/'' @ [CHR 0x5C] @ host"
  shows "first_redirect env rq [rule] = Answer 302 ([CHR ''/'', CHR 0x5C] @ host)"
proof -
  have skip: "\<not> redirect_skippable_path (rq_path rq)"
    by (simp add: assms(7) redirect_skippable_path_def redirect_skip_prefixes_def has_prefix_def)
  have "apply_to (re_uword env) rule (rq_path rq) = Some ([CHR ''/'', CHR 0x5C] @ host)"
    by (simp add: assms apply_to_def apply_simple_to_def join_redirect_target_def has_suffix_def has_prefix_def)
  moreover have "\<not> redirect_targets_self (re_parse env) (re_uni env) ([CHR ''/'', CHR 0x5C] @ host) h (rq_path rq)" for h
    using assms(6,7) by (simp add: redirect_targets_self_def)
  ultimately show ?thesis using skip assms(4,5)
    by (simp add: rule_target_def rule_subject_def has_prefix_def)
qed

theorem backslash_leaves_the_site_witness:
  "first_redirect plain_env \<lparr>rq_method = ''GET'', rq_host = ''x.org'', rq_path = ''/blog/'' @ [CHR 0x5C] @ ''evil.org''\<rparr>
     (load_rules (\<lambda>_. None) id [blog_row]) = Answer 302 ([CHR ''/'', CHR 0x5C] @ ''evil.org'')"
proof -
  let ?rule = "the (load_rule (\<lambda>_. None) id blog_row)"
  have "\<not> Option.is_none (load_rule (\<lambda>_. None) id blog_row)" by code_simp
  then have "load_rules (\<lambda>_. None) id [blog_row] = [?rule]"
    by (auto simp: load_rules_def List.map_filter_simps Option.is_none_def)
  moreover have "rr_from ?rule = ''/blog''" "rr_prefix ?rule" "rr_to ?rule = ''/''" "\<not> rr_host_path ?rule" "\<not> rr_permanent ?rule"
    by code_simp+
  ultimately show ?thesis
    using backslash_leaves_the_site [of ?rule plain_env "''evil.org''"] by (simp add: plain_env_def path_only_def)
qed

end
