(* ===== verification/RedirectsAdmin.thy ===== *)
theory RedirectsAdmin
  imports Redirects Activity
begin

text \<open>
  \<open>internal/httpd/redirects_admin.go\<close> and the writes of \<open>internal/db/query/redirects.sql.go\<close>: the
  form of a redirect rule (what it is read into, how it is validated, how a stored rule is taken apart
  for the edit page), and the create, update, destroy and reorder handlers. A handler is an action
  that returns its reply and whether it dropped the rule cache. \<open>fv\<close> is \<open>r.FormValue\<close>, \<open>pf\<close> the
  values of \<open>r.PostForm\<close>.
\<close>

section \<open>Statements\<close>

definition create_redirect :: "redirect_row \<Rightarrow> redirect_row db_act" where
  "create_redirect r =
     exec (\<lambda>d. let r' = r\<lparr>r_position := (if redirects d = [] then 0 else Max (r_position ` set (redirects d))) + 1\<rparr>;
                   (rs, row) = insert_row r_id (\<lambda>i r. r\<lparr>r_id := i\<rparr>) r' (redirects d)
               in Inr (d\<lparr>redirects := rs\<rparr>, row))"

definition get_redirect_by_id :: "int \<Rightarrow> redirect_row db_act" where
  "get_redirect_by_id i = query_row (\<lambda>d. by_id r_id i (redirects d))"

definition delete_redirect :: "int \<Rightarrow> unit db_act" where
  "delete_redirect i = modify (\<lambda>d. d\<lparr>redirects := delete_where (\<lambda>r. r_id r = i) (redirects d)\<rparr>)"

definition set_redirect_position :: "int \<Rightarrow> int \<Rightarrow> unit db_act" where
  "set_redirect_position position i =
     modify (\<lambda>d. d\<lparr>redirects := update_where (\<lambda>r. r_id r = i) (\<lambda>r. r\<lparr>r_position := position\<rparr>) (redirects d)\<rparr>)"

definition update_redirect :: "redirect_row \<Rightarrow> int \<Rightarrow> int \<Rightarrow> unit db_act" where
  "update_redirect p now i =
     modify (\<lambda>d. d\<lparr>redirects := update_where (\<lambda>r. r_id r = i)
       (\<lambda>r. r\<lparr>r_regex := r_regex p, r_replacement := r_replacement p, r_match_from := r_match_from p,
              r_match_prefix := r_match_prefix p, r_match_on := r_match_on p, r_permanent := r_permanent p,
              r_enabled := r_enabled p, r_updated_at := now\<rparr>) (redirects d)\<rparr>)"

section \<open>The form\<close>

record redirect_form =
  rf_row :: redirect_row
  rf_kind :: string
  rf_host :: string
  rf_path :: string

definition checkbox_int :: "(string \<Rightarrow> string list) \<Rightarrow> string \<Rightarrow> int" where
  "checkbox_int pf name =
     (if pf name = [] then 0 else if last (pf name) \<in> {''1'', ''true'', ''on''} then 1 else 0)"

definition join_host_path :: "string \<Rightarrow> string \<Rightarrow> string" where
  "join_host_path host path =
     (if path = [] then host else trim_suffix host ''/'' @ ''/'' @ trim_prefix path ''/'')"

definition is_inline_flags :: "string \<Rightarrow> bool" where
  "is_inline_flags s = (s \<noteq> [] \<and> list_all (\<lambda>c. c \<in> set ''imsU-'') s)"

definition unwrap_group_prefix :: "string \<Rightarrow> string option" where
  "unwrap_group_prefix p =
     (if \<not> has_prefix p ''('' then None
      else if \<not> has_prefix p ''(?'' then Some (drop 1 p)
      else if has_prefix p ''(?:'' \<or> has_prefix p ''(?='' \<or> has_prefix p ''(?!'' then Some (drop 3 p)
      else if has_prefix p ''(?P<'' \<or> has_prefix p ''(?<''
      then (case cut_char (CHR ''>'') (drop (if has_prefix p ''(?P<'' then 4 else 3) p) of (name, rest, found) \<Rightarrow>
              if found \<and> name \<noteq> [] then Some rest else None)
      else let body = drop 2 p; flags = takeWhile (\<lambda>c. c \<noteq> CHR '')'' \<and> c \<noteq> CHR '':'') body in
           if length flags < length body \<and> is_inline_flags flags then Some (drop (length flags + 1) body) else None)"

lemma unwrap_group_shorter: "unwrap_group_prefix p = Some q \<Longrightarrow> length q < length p"
proof -
  assume a: "unwrap_group_prefix p = Some q"
  then have p: "has_prefix p ''(''" by (auto simp: unwrap_group_prefix_def split: if_splits)
  then obtain c p' where "p = c # p'" by (auto simp: has_prefix_iff)
  with a show ?thesis
    by (auto simp: unwrap_group_prefix_def Let_def split: if_splits prod.splits dest!: cut_char_le)
qed

function strip_openers :: "string \<Rightarrow> string" where
  "strip_openers p =
     (if has_prefix p ''^'' then strip_openers (drop 1 p)
      else case unwrap_group_prefix p of Some rest \<Rightarrow> strip_openers rest | None \<Rightarrow> p)"
  by pat_completeness auto
termination
  by (relation "measure length") (auto dest: unwrap_group_shorter simp: has_prefix_iff)

declare strip_openers.simps [simp del]

definition detect_redirect_match_on :: "string \<Rightarrow> string" where
  "detect_redirect_match_on pattern =
     (if has_prefix (strip_openers pattern) ''/'' then match_path else match_host_path)"

definition redirect_from_form :: "(string \<Rightarrow> string) \<Rightarrow> (string \<Rightarrow> string) \<Rightarrow> (string \<Rightarrow> string list) \<Rightarrow> redirect_form" where
  "redirect_from_form uni fv pf =
     (let row = \<lparr>r_id = 0, r_regex = [], r_replacement = fv ''replacement'', r_enabled = checkbox_int pf ''enabled'',
            r_permanent = checkbox_int pf ''permanent'', r_created_at = 0, r_updated_at = 0, r_match_on = [],
            r_match_from = [], r_match_prefix = 0, r_position = 0\<rparr>;
          prefix_flag = (if fv ''match_mode'' = ''prefix'' then 1 else 0)
      in if fv ''kind'' = ''regex''
         then \<lparr>rf_row = row\<lparr>r_regex := fv ''regex'', r_match_on := detect_redirect_match_on (fv ''regex'')\<rparr>,
               rf_kind = ''regex'', rf_host = [], rf_path = []\<rparr>
         else if fv ''kind'' = ''host''
         then let host = trim_space (fv ''host''); path = trim_space (fv ''host_path'') in
              \<lparr>rf_row = row\<lparr>r_match_on := match_simple, r_match_prefix := prefix_flag,
                            r_match_from := normalize_match_from uni (join_host_path host path)\<rparr>,
               rf_kind = ''host'', rf_host = host, rf_path = path\<rparr>
         else let path = trim_space (fv ''path'') in
              \<lparr>rf_row = row\<lparr>r_match_on := match_simple, r_match_prefix := prefix_flag, r_match_from := path\<rparr>,
               rf_kind = ''path'', rf_host = [], rf_path = path\<rparr>)"

definition redirect_form_split :: "redirect_row \<Rightarrow> string \<times> string \<times> string" where
  "redirect_form_split red =
     (if r_match_on red = match_simple
      then (if has_prefix (r_match_from red) ''/'' then (''path'', [], r_match_from red)
            else (case cut_char (CHR ''/'') (r_match_from red) of (h, p, found) \<Rightarrow>
                    if \<not> found then (''host'', r_match_from red, []) else (''host'', h, ''/'' @ p)))
      else (''regex'', [], []))"

definition redirect_log_match :: "redirect_row \<Rightarrow> string" where
  "redirect_log_match red =
     (if r_match_on red = match_simple then ''match_from='' @ activity_quote (r_match_from red)
      else ''regex='' @ activity_quote (r_regex red))"

definition valid_simple_redirect_target :: "string \<Rightarrow> bool" where
  "valid_simple_redirect_target t =
     (\<not> has_prefix t ''//'' \<and> (has_prefix t ''/'' \<or> has_prefix t ''http://'' \<or> has_prefix t ''https://''))"

text \<open>\<open>compile_error\<close> is the text of the error when the pattern does not compile.\<close>

definition validate_redirect_form :: "(string \<Rightarrow> regex option) \<Rightarrow> (string \<Rightarrow> string) \<Rightarrow> redirect_form \<Rightarrow> string list" where
  "validate_redirect_form compile compile_error f =
     (let row = rf_row f in
      if rf_kind f = ''regex''
      then (if is_blank (r_regex row) then [''Regex can't be blank''] else []) @
           (if is_blank (r_replacement row) then [''Replacement can't be blank''] else []) @
           (if \<not> is_blank (r_regex row) \<and> compile (r_regex row) = None
            then [''Regex is not a valid regular expression: '' @ compile_error (r_regex row)] else [])
      else
        (if rf_kind f = ''host''
         then (if rf_host f = [] then [''Host can't be blank'']
               else if contains_any (rf_host f) [CHR '' '', CHR 0x09] \<or> str_contains (rf_host f) ''://'' \<or>
                       str_contains (rf_host f) ''/'' \<or> has_suffix (rf_host f) '':''
               then [''Host must be a plain host name, like blog.example.com (no scheme, path or port)''] else [])
         else []) @
        (if rf_path f = [] then (if rf_kind f = ''path'' then [''Path can't be blank''] else [])
         else if \<not> has_prefix (rf_path f) ''/'' then [''Path must start with /'']
         else if contains_any (rf_path f) [CHR '' '', CHR 0x09] then [''Path must not contain spaces''] else []) @
        (if is_blank (r_replacement row) then [''Replacement can't be blank'']
         else if \<not> valid_simple_redirect_target (r_replacement row)
         then [''Replacement must start with / or be an absolute URL (http:// or https://)''] else []))"

section \<open>The handlers\<close>

datatype admin_reply = BadRequest | NotFound | InternalError | Rejected "string list" | Done

text \<open>\<open>now\<close> is the handler's clock, \<open>log_now\<close> that of the activity row.\<close>

definition log_redirect :: "(string \<Rightarrow> string) \<Rightarrow> int \<Rightarrow> string \<Rightarrow> redirect_row \<Rightarrow> unit db_act" where
  "log_redirect uni log_now action red =
     log_activity uni log_now None ''info'' action ''redirect''
       (redirect_log_match red @ '' replacement='' @ activity_quote (r_replacement red))"

definition reject_redirect :: "(string \<Rightarrow> string) \<Rightarrow> int \<Rightarrow> redirect_row \<Rightarrow> string list \<Rightarrow> (admin_reply \<times> bool) db_act" where
  "reject_redirect uni log_now red errs =
     bindE (log_activity uni log_now None ''error'' ''failed'' ''redirect''
              (redirect_log_match red @ '' errors='' @ activity_quote (join_with '', '' errs))) (\<lambda>_.
     ret (Rejected errs, False))"

text \<open>An error of the action is logged and answered with the 500 page.\<close>

definition or_internal :: "'a db_act \<Rightarrow> ('a \<Rightarrow> (admin_reply \<times> bool) db_act) \<Rightarrow> (admin_reply \<times> bool) db_act" where
  "or_internal m f = bindE (attempt m) (\<lambda>r. case r of Inl _ \<Rightarrow> ret (InternalError, False) | Inr x \<Rightarrow> f x)"

definition or_not_found :: "'a db_act \<Rightarrow> ('a \<Rightarrow> (admin_reply \<times> bool) db_act) \<Rightarrow> (admin_reply \<times> bool) db_act" where
  "or_not_found m f = bindE (attempt m) (\<lambda>r. case r of
     Inl e \<Rightarrow> ret (if error_is e ErrNoRows then NotFound else InternalError, False) | Inr x \<Rightarrow> f x)"

definition admin_redirects_create ::
  "(string \<Rightarrow> string) \<Rightarrow> (string \<Rightarrow> regex option) \<Rightarrow> (string \<Rightarrow> string) \<Rightarrow> int \<Rightarrow> int \<Rightarrow>
   (string \<Rightarrow> string) \<Rightarrow> (string \<Rightarrow> string list) \<Rightarrow> (admin_reply \<times> bool) db_act" where
  "admin_redirects_create uni compile compile_error now log_now fv pf =
     (let f = redirect_from_form uni fv pf; errs = validate_redirect_form compile compile_error f in
      if errs \<noteq> [] then reject_redirect uni log_now (rf_row f) errs
      else or_internal (create_redirect ((rf_row f)\<lparr>r_created_at := now, r_updated_at := now\<rparr>)) (\<lambda>red.
           bindE (log_redirect uni log_now ''created'' red) (\<lambda>_. ret (Done, True))))"

definition admin_redirects_update ::
  "(string \<Rightarrow> string) \<Rightarrow> (string \<Rightarrow> regex option) \<Rightarrow> (string \<Rightarrow> string) \<Rightarrow> int \<Rightarrow> int \<Rightarrow> int \<Rightarrow>
   (string \<Rightarrow> string) \<Rightarrow> (string \<Rightarrow> string list) \<Rightarrow> (admin_reply \<times> bool) db_act" where
  "admin_redirects_update uni compile compile_error now log_now i fv pf =
     or_not_found (get_redirect_by_id i) (\<lambda>existing.
       let f0 = redirect_from_form uni fv pf;
           keep = (rf_kind f0 = ''regex'' \<and> r_match_on existing \<noteq> match_simple \<and> r_regex existing = r_regex (rf_row f0));
           row = (rf_row f0)\<lparr>r_id := i, r_match_on := (if keep then r_match_on existing else r_match_on (rf_row f0))\<rparr>;
           f = f0\<lparr>rf_row := row\<rparr>;
           errs = validate_redirect_form compile compile_error f
       in if errs \<noteq> [] then reject_redirect uni log_now row errs
          else or_internal (update_redirect row now i) (\<lambda>_.
               bindE (log_redirect uni log_now ''updated'' row) (\<lambda>_. ret (Done, True))))"

definition admin_redirects_destroy :: "(string \<Rightarrow> string) \<Rightarrow> int \<Rightarrow> int \<Rightarrow> (admin_reply \<times> bool) db_act" where
  "admin_redirects_destroy uni log_now i =
     or_not_found (get_redirect_by_id i) (\<lambda>red.
       or_internal (delete_redirect i) (\<lambda>_.
       bindE (log_redirect uni log_now ''deleted'' red) (\<lambda>_. ret (Done, True))))"

text \<open>The request body \<open>{"ids": [\<dots>]}\<close>; a null or missing list is empty.\<close>

fun put_ints :: "json \<Rightarrow> int list \<Rightarrow> int list option" where
  "put_ints JNull old = Some []"
| "put_ints (JArr xs) old =
     (if list_all (\<lambda>j. put_int j 0 \<noteq> None) xs then Some (map (\<lambda>j. the (put_int j 0)) xs) else None)"
| "put_ints _ old = None"

fun renumber :: "int \<Rightarrow> int list \<Rightarrow> unit db_act" where
  "renumber k [] = ret ()"
| "renumber k (i # ids) = bindE (set_redirect_position k i) (\<lambda>_. renumber (k + 1) ids)"

definition admin_redirects_reorder :: "(string \<Rightarrow> string) \<Rightarrow> int \<Rightarrow> jtext option \<Rightarrow> (admin_reply \<times> bool) db_act" where
  "admin_redirects_reorder uni log_now body =
     (case unmarshal (struct1 put_ints ''ids'' []) body of
        Inl _ \<Rightarrow> ret (BadRequest, False)
      | Inr ids \<Rightarrow>
          or_internal (tx (renumber 1 ids)) (\<lambda>_.
          bindE (log_activity uni log_now None ''info'' ''reordered'' ''redirect'' (''count='' @ dec_nat (length ids))) (\<lambda>_.
          ret (Done, True))))"

text \<open>\<open>redirectIDParam\<close> keeps what \<open>ParseInt\<close> returns beside its error.\<close>

definition redirect_id_param :: "string \<Rightarrow> int" where
  "redirect_id_param raw_id = parsed_int64 raw_id"

section \<open>Reordering\<close>

fun renumbered :: "int \<Rightarrow> int list \<Rightarrow> redirect_row list \<Rightarrow> redirect_row list" where
  "renumbered k [] rs = rs"
| "renumbered k (i # ids) rs =
     renumbered (k + 1) ids (update_where (\<lambda>r. r_id r = i) (\<lambda>r. r\<lparr>r_position := k\<rparr>) rs)"

lemma renumber_run:
  "wfaults w = [] \<Longrightarrow> renumber k ids w = (Inr (), w\<lparr>wdb := (wdb w)\<lparr>redirects := renumbered k ids (redirects (wdb w))\<rparr>\<rparr>)"
  by (induction k ids arbitrary: w rule: renumber.induct)
    (simp_all add: run_simps set_redirect_position_def)

lemma update_position_ids: "map r_id (update_where p (\<lambda>r. r\<lparr>r_position := k\<rparr>) rs) = map r_id rs"
  by (induction rs) (auto simp: update_where_def)

lemma renumbered_ids: "map r_id (renumbered k ids rs) = map r_id rs"
  by (induction k ids rs rule: renumbered.induct) (simp_all add: update_position_ids)

lemma renumbered_keeps: "r \<in> set (renumbered k ids rs) \<Longrightarrow> r_id r \<notin> set ids \<Longrightarrow> r \<in> set rs"
proof (induction k ids rs rule: renumbered.induct)
  case (2 k i ids rs)
  then show ?case by (auto simp: set_update_where)
qed simp

lemma renumbered_position:
  "r \<in> set (renumbered k ids rs) \<Longrightarrow> distinct ids \<Longrightarrow> n < length ids \<Longrightarrow> r_id r = ids ! n \<Longrightarrow> r_position r = k + int n"
proof (induction k ids rs arbitrary: n rule: renumbered.induct)
  case (2 k i ids rs)
  show ?case
  proof (cases n)
    case 0
    with "2.prems" have r: "r_id r \<notin> set ids" "r_id r = i" by auto
    have "r \<in> set (update_where (\<lambda>r. r_id r = i) (\<lambda>r. r\<lparr>r_position := k\<rparr>) rs)"
      by (rule renumbered_keeps [OF "2.prems"(1) [unfolded renumbered.simps] r(1)])
    then obtain s where s: "r = (if r_id s = i then s\<lparr>r_position := k\<rparr> else s)"
      unfolding update_where_def set_map by (elim imageE) iprover
    with r(2) 0 show ?thesis by (cases "r_id s = i") simp_all
  next
    case (Suc m)
    with "2.IH" [of m] "2.prems" show ?thesis by auto
  qed
qed simp

lemma set_by_position [simp]: "set (by_position rs) = set rs"
  by (simp add: by_position_def)

lemma distinct_by_position: "distinct (map r_id rs) \<Longrightarrow> distinct (map r_id (by_position rs))"
  by (auto simp: by_position_def distinct_map)

lemma by_position_renumbered:
  assumes "distinct ids" "distinct (map r_id rs)" "set ids = r_id ` set rs"
  shows "map r_id (by_position (renumbered 1 ids rs)) = ids"
proof -
  let ?rs = "renumbered 1 ids rs"
  have ids: "map r_id ?rs = map r_id rs" by (rule renumbered_ids)
  have pos: "\<exists>n < length ids. r_id r = ids ! n \<and> r_position r = 1 + int n" if "r \<in> set ?rs" for r
  proof -
    from that have "r_id r \<in> set ids" using ids assms(3) by (metis image_eqI list.set_map)
    then obtain n where "n < length ids" "r_id r = ids ! n" by (metis in_set_conv_nth)
    with renumbered_position [OF that assms(1)] show ?thesis by auto
  qed
  have id_of: "r_id r = ids ! nat (r_position r - 1)" if "r \<in> set ?rs" for r
    using pos [OF that] by auto
  have srt: "sorted (map r_position (by_position ?rs))" unfolding by_position_def by simp
  have "inj_on r_position (set ?rs)"
  proof (rule inj_onI)
    fix r s assume rs: "r \<in> set ?rs" "s \<in> set ?rs" "r_position r = r_position s"
    then have "r_id r = r_id s" by (simp add: id_of)
    with rs assms(2) show "r = s" by (metis distinct_map ids inj_onD)
  qed
  moreover have "distinct ?rs" using assms(2) ids by (metis distinct_map)
  ultimately have dst: "distinct (map r_position (by_position ?rs))"
    by (simp add: distinct_map by_position_def)
  have "r_position ` set ?rs = {1..int (length ids)}"
  proof
    show "r_position ` set ?rs \<subseteq> {1..int (length ids)}" using pos by fastforce
    show "{1..int (length ids)} \<subseteq> r_position ` set ?rs"
    proof
      fix p assume p: "p \<in> {1..int (length ids)}"
      then have n: "nat (p - 1) < length ids" by auto
      then have "ids ! nat (p - 1) \<in> r_id ` set ?rs"
        using ids assms(3) by (metis list.set_map nth_mem)
      then obtain r where "r \<in> set ?rs" "r_id r = ids ! nat (p - 1)" by auto
      with renumbered_position [OF _ assms(1) n] p show "p \<in> r_position ` set ?rs" by force
    qed
  qed
  then have "map r_position (by_position ?rs) = [1..int (length ids)]"
    using srt dst by (intro sorted_distinct_set_unique) auto
  then have "map (\<lambda>p. ids ! nat (p - 1)) (map r_position (by_position ?rs)) = map (\<lambda>p. ids ! nat (p - 1)) [1..int (length ids)]"
    by simp
  also have "\<dots> = ids" by (rule nth_equalityI) (auto simp: nth_upto)
  finally have "map (\<lambda>r. ids ! nat (r_position r - 1)) (by_position ?rs) = ids" by (simp add: comp_def)
  moreover have "map (\<lambda>r. ids ! nat (r_position r - 1)) (by_position ?rs) = map r_id (by_position ?rs)"
    using id_of by (intro map_cong) auto
  ultimately show ?thesis by simp
qed

lemma renumber_ok: "renumber k ids w = (Inr u, w') \<Longrightarrow> wdb w' = (wdb w)\<lparr>redirects := renumbered k ids (redirects (wdb w))\<rparr>"
proof (induction k ids arbitrary: w rule: renumber.induct)
  case (1 k)
  then show ?case by (simp add: ret_def)
next
  case (2 k i ids)
  from "2.prems" obtain x w1 where m: "set_redirect_position k i w = (Inr x, w1)" "renumber (k + 1) ids w1 = (Inr u, w')"
    by (auto elim: bindE_ok)
  from m(1) have "wdb w1 = (wdb w)\<lparr>redirects := update_where (\<lambda>r. r_id r = i) (\<lambda>r. r\<lparr>r_position := k\<rparr>) (redirects (wdb w))\<rparr>"
    unfolding set_redirect_position_def by (rule modify_ok)
  with "2.IH" [OF m(2)] show ?case by simp
qed

lemma tx_renumber:
  assumes "tx (renumber 1 ids) w = (Inr u, w')"
  shows "redirects (wdb w') = renumbered 1 ids (redirects (wdb w))"
proof -
  from assms obtain w1 c w2 where "wdb w1 = wdb w" "bindE (renumber 1 ids) (\<lambda>x. ret (True, x)) w1 = (Inr (c, u), w2)"
    "wdb w' = (if c then wdb w2 else wdb w)" unfolding tx_def by (rule in_tx_ok)
  moreover from this(2) have c "renumber 1 ids w1 = (Inr u, w2)" by (auto elim!: bindE_ok simp: ret_def)
  ultimately show ?thesis by (auto dest!: renumber_ok)
qed

lemma pres_log_redirects: "pres (\<lambda>d. redirects d = rs) (log_activity uni now i l a t de)"
  unfolding log_activity_def by (rule pres_log_row) simp

text \<open>
  Drag-and-drop works: when the posted list names every rule once, the rules are afterwards evaluated
  and listed in exactly that order and the rule cache is dropped; when any statement, the begin or the
  commit fails, the order is what it was.
\<close>

theorem reorder_orders:
  assumes "distinct ids" "distinct (map r_id (redirects (wdb w)))" "set ids = r_id ` set (redirects (wdb w))"
    and "list_all in_int64 ids"
    and "admin_redirects_reorder uni log_now (Some (to_text (JObj [(''ids'', JArr (map JNum ids))]))) w = ((r, w'))"
  shows "case r of
      Inr (Done, dropped) \<Rightarrow> dropped \<and> map r_id (by_position (redirects (wdb w'))) = ids
    | _ \<Rightarrow> redirects (wdb w') = redirects (wdb w)"
proof -
  have "map (\<lambda>j. the (put_int j 0)) (map JNum ids) = ids"
    using assms(4) by (induction ids) auto
  then have body: "unmarshal (struct1 put_ints ''ids'' []) (Some (to_text (JObj [(''ids'', JArr (map JNum ids))]))) = Inr ids"
    using assms(4) by (simp add: unmarshal_def struct1_def list_all_iff)
  obtain t w1 where t: "tx (renumber 1 ids) w = (t, w1)" by fastforce
  show ?thesis
  proof (cases t)
    case (Inl e)
    with t have "wdb w1 = wdb w" by (metis tx_error_keeps)
    moreover have "r = Inr (InternalError, False)" "w' = w1"
      using assms(5) t Inl body by (auto simp: admin_redirects_reorder_def or_internal_def bindE_def attempt_run ret_def)
    ultimately show ?thesis by simp
  next
    case (Inr u)
    have "map r_id (by_position (redirects (wdb w1))) = ids"
      using tx_renumber [OF t [unfolded Inr]] by_position_renumbered [OF assms(1-3)] by simp
    moreover obtain v w2 where l: "log_activity uni log_now None ''info'' ''reordered'' ''redirect'' (''count='' @ dec_nat (length ids)) w1 = (v, w2)"
      by fastforce
    moreover have "redirects (wdb w2) = redirects (wdb w1)"
      using presD [OF pres_log_redirects [where rs = "redirects (wdb w1)"] _ l] by simp
    moreover from l have "v = Inr ()" using log_row_never_fails by (metis log_activity_def prod.inject)
    ultimately show ?thesis
      using assms(5) t Inr body by (auto simp: admin_redirects_reorder_def or_internal_def bindE_def attempt_run ret_def)
  qed
qed

theorem reorder_orders_witness:
  "map r_id (by_position (redirects (wdb (snd (admin_redirects_reorder id 9
     (Some (to_text (JObj [(''ids'', JArr (map JNum [2, 1]))])))
     \<lparr>wdb = empty_db\<lparr>redirects := [blog_row, blog_row\<lparr>r_id := 2, r_position := 2\<rparr>]\<rparr>, wfaults = []\<rparr>))))) = [2, 1]"
proof -
  let ?w = "\<lparr>wdb = empty_db\<lparr>redirects := [blog_row, blog_row\<lparr>r_id := 2, r_position := 2\<rparr>]\<rparr>, wfaults = []\<rparr>"
  let ?run = "admin_redirects_reorder id 9 (Some (to_text (JObj [(''ids'', JArr (map JNum [2, 1]))]))) ?w"
  have "fst ?run = Inr (Done, True)" by code_simp
  then have run: "?run = (Inr (Done, True), snd ?run)" by (metis prod.collapse)
  from reorder_orders [OF _ _ _ _ run] show ?thesis
    by (simp add: blog_row_def in_int64_def insert_commute)
qed

section \<open>The edit form\<close>

text \<open>
  What the edit page submits when nothing is changed: the fields of
  \<open>internal/templates/_redirect_form.html\<close> filled from the stored rule. A checkbox sends its hidden 0
  and, when checked, 1.
\<close>

definition edit_value :: "redirect_row \<Rightarrow> string \<Rightarrow> string" where
  "edit_value row name =
     (case redirect_form_split row of (kind, host, path) \<Rightarrow>
        if name = ''kind'' then kind
        else if name = ''host'' then host
        else if name = ''path'' \<or> name = ''host_path'' then path
        else if name = ''regex'' then r_regex row
        else if name = ''replacement'' then r_replacement row
        else if name = ''match_mode'' then (if r_match_prefix row = 1 then ''prefix'' else ''exact'')
        else [])"

definition edit_checks :: "redirect_row \<Rightarrow> string \<Rightarrow> string list" where
  "edit_checks row name =
     (if name = ''permanent'' then ''0'' # (if r_permanent row \<noteq> 0 then [''1''] else [])
      else if name = ''enabled'' then ''0'' # (if r_enabled row \<noteq> 0 then [''1''] else [])
      else [])"

text \<open>A path field that passed validation.\<close>

definition path_field :: "string \<Rightarrow> bool" where
  "path_field p = (trim_space p = p \<and> (\<exists>r. p = CHR ''/'' # r))"

lemma slash_not_space: "q \<in> set space_seqs \<Longrightarrow> CHR ''/'' \<notin> set q"
  by (auto simp: space_seqs_def)

lemma trim_host_path:
  assumes "list_all plain_char h" "path_field p"
  shows "trim_space (h @ p) = h @ p"
proof (rule trim_space_fixed)
  obtain r where r: "p = CHR ''/'' # r" using assms(2) by (auto simp: path_field_def)
  have "plain_char (hd (h @ p))" using assms(1) r by (cases h) (auto simp: plain_char_def)
  then obtain c t where "h @ p = c # t" "plain_char c" using r by (cases "h @ p") auto
  then show "after_space (h @ p) = None" by (simp add: after_space_def space_seqs_def plain_char_not)
  have p: "after_space_rev (rev p) = None"
    using assms(2) trim_space_ends(2) [of p] by (simp add: path_field_def)
  show "after_space_rev (rev (h @ p)) = None"
    unfolding after_space_rev_None
  proof (intro ballI notI)
    fix q assume q: "q \<in> set space_seqs" "take (length q) (rev (h @ p)) = rev q"
    show False
    proof (cases "length q \<le> length p")
      case True
      with q have "take (length q) (rev p) = rev q" by simp
      with p q(1) show False by (auto simp: after_space_rev_None)
    next
      case False
      with q(2) have "rev p @ take (length q - length p) (rev h) = rev q" by simp
      then have "set p \<subseteq> set q" by (metis le_sup_iff order_refl set_append set_rev)
      with r slash_not_space [OF q(1)] show False by auto
    qed
  qed
qed

lemma normalize_host_path:
  assumes "plain_host h" "p = [] \<or> path_field p"
  shows "normalize_match_from uni (join_host_path h p) = sql_lower h @ p"
  using assms(2)
proof
  assume "p = []"
  with assms(1) show ?thesis by (simp add: join_host_path_def normalize_plain_host)
next
  assume pf: "path_field p"
  then obtain r where r: "p = CHR ''/'' # r" by (auto simp: path_field_def)
  from assms(1) have h: "h \<noteq> []" "list_all host_char h" "last h \<noteq> CHR ''.''" by (auto simp: plain_host_def)
  note no = plain_host_not [OF h(2)]
  have "\<not> has_suffix h ''/''" using no by (auto simp: has_suffix_iff)
  then have j: "join_host_path h p = h @ p" using r by (simp add: join_host_path_def trim_suffix_def trim_prefix_def has_prefix_def)
  have "list_all plain_char h" using h(2) by (auto simp: list_all_iff host_char_plain)
  then have t: "trim_space (h @ p) = h @ p" using pf by (rule trim_host_path)
  have np: "\<not> has_prefix (h @ p) ''/''" using no h(1) by (cases h) (auto simp: has_prefix_def)
  have c: "cut_char (CHR ''/'') (h @ p) = (h, r, True)" using no r by (simp add: cut_char_found)
  have "normalize_match_from uni h = sql_lower h" using assms(1) by (rule normalize_plain_host)
  moreover have "trim_space h = h" using h(2) by (intro trim_space_plain) (auto simp: list_all_iff host_char_plain)
  moreover have "\<not> has_prefix h ''/''" using no by (auto simp: has_prefix_iff)
  moreover have "cut_char (CHR ''/'') h = (h, [], False)" using no by (simp add: cut_char_missing)
  ultimately show ?thesis using t np c r unfolding j by (simp add: normalize_match_from_def Let_def)
qed

lemma plain_host_lower:
  assumes "plain_host h"
  shows "plain_host (sql_lower h)"
  using assms by (auto simp: plain_host_def sql_lower_def list_all_iff host_char_lower last_map ascii_lower_dot)

lemma split_host_rule:
  assumes "plain_host h" "p = [] \<or> path_field p" "r_match_on row = match_simple" "r_match_from row = h @ p"
  shows "redirect_form_split row = (''host'', h, p)"
proof -
  from assms(1) have h: "h \<noteq> []" "list_all host_char h" by (auto simp: plain_host_def)
  note no = plain_host_not [OF h(2)]
  have np: "\<not> has_prefix (h @ p) ''/''" using no h(1) by (cases h) (auto simp: has_prefix_def)
  from assms(2) show ?thesis
  proof
    assume "p = []"
    with np no assms(3,4) show ?thesis by (simp add: redirect_form_split_def cut_char_missing)
  next
    assume "path_field p"
    then obtain r where r: "p = CHR ''/'' # r" by (auto simp: path_field_def)
    with no have "cut_char (CHR ''/'') (h @ p) = (h, r, True)" by (simp add: cut_char_found)
    with np r assms(3,4) show ?thesis by (simp add: redirect_form_split_def)
  qed
qed

lemma checks_kept:
  assumes "r_permanent row = checkbox_int pf ''permanent''" "r_enabled row = checkbox_int pf ''enabled''"
  shows "checkbox_int (edit_checks row) ''permanent'' = r_permanent row"
    and "checkbox_int (edit_checks row) ''enabled'' = r_enabled row"
  using assms by (auto simp: checkbox_int_def edit_checks_def)

lemma path_field_valid:
  "has_prefix (trim_space p) ''/'' \<Longrightarrow> path_field (trim_space p)"
  by (auto simp: path_field_def has_prefix_iff)

text \<open>
  Editing a rule without changing it changes nothing: for every form that validation accepts (a host given
  as a plain host name), taking the stored rule apart for the edit page and submitting that page unchanged
  yields the same rule: the same kind, match string and mode, regex and match subject, target and flags.
\<close>

theorem redirect_edit_roundtrip:
  assumes "f = redirect_from_form uni fv pf" "validate_redirect_form compile compile_error f = []"
    and "rf_kind f = ''host'' \<longrightarrow> plain_host (rf_host f)"
  shows "rf_row (redirect_from_form uni (edit_value (rf_row f)) (edit_checks (rf_row f))) = rf_row f \<and>
    rf_kind (redirect_from_form uni (edit_value (rf_row f)) (edit_checks (rf_row f))) = rf_kind f"
proof -
  consider (regex) "fv ''kind'' = ''regex''" | (host) "fv ''kind'' = ''host''"
    | (path) "fv ''kind'' \<noteq> ''regex''" "fv ''kind'' \<noteq> ''host''" by blast
  then show ?thesis
  proof cases
    case regex
    then show ?thesis
      by (simp add: assms(1) redirect_from_form_def Let_def edit_value_def redirect_form_split_def
          detect_redirect_match_on_def match_path_def match_host_path_def match_simple_def checks_kept)
  next
    case host
    let ?h = "trim_space (fv ''host'')" and ?p = "trim_space (fv ''host_path'')"
    have h: "plain_host ?h" and p: "?p = [] \<or> path_field ?p"
      using assms host by (auto simp: redirect_from_form_def Let_def validate_redirect_form_def
          path_field_valid split: if_splits)
    let ?h' = "sql_lower ?h"
    have h': "plain_host ?h'" using h by (rule plain_host_lower)
    have "trim_space ?h' = ?h'"
      using h' by (intro trim_space_plain) (auto simp: plain_host_def list_all_iff host_char_plain)
    moreover have "r_match_from (rf_row f) = ?h' @ ?p" "r_match_on (rf_row f) = match_simple"
      using host normalize_host_path [OF h p, of uni] by (simp_all add: assms(1) redirect_from_form_def Let_def)
    moreover from split_host_rule [OF h' p this(2,1)]
    have "redirect_form_split (rf_row f) = (''host'', ?h', ?p)" .
    moreover have "normalize_match_from uni (join_host_path ?h' ?p) = ?h' @ ?p"
      using normalize_host_path [OF h' p, of uni] by simp
    moreover note normalize_host_path [OF h p, of uni]
    ultimately show ?thesis using host
      by (simp add: assms(1) redirect_from_form_def Let_def edit_value_def checks_kept)
  next
    case path
    let ?p = "trim_space (fv ''path'')"
    have "path_field ?p"
      using assms(2) path by (auto simp: assms(1) redirect_from_form_def Let_def validate_redirect_form_def
          path_field_valid split: if_splits)
    then have "has_prefix ?p ''/''" by (auto simp: path_field_def has_prefix_def)
    with path show ?thesis
      by (simp add: assms(1) redirect_from_form_def Let_def edit_value_def redirect_form_split_def checks_kept)
  qed
qed

theorem redirect_edit_roundtrip_witness:
  "let fv = (\<lambda>n. if n = ''kind'' then ''host'' else if n = ''host'' then '' Old.example.org '' else
                 if n = ''host_path'' then ''/feed'' else if n = ''replacement'' then ''/new'' else []);
       row = rf_row (redirect_from_form id fv (\<lambda>_. [''0'', ''1'']))
   in r_match_from row = ''old.example.org/feed'' \<and> rf_row (redirect_from_form id (edit_value row) (edit_checks row)) = row"
proof -
  let ?fv = "\<lambda>n. if n = ''kind'' then ''host'' else if n = ''host'' then '' Old.example.org '' else
                 if n = ''host_path'' then ''/feed'' else if n = ''replacement'' then ''/new'' else []"
  let ?f = "redirect_from_form id ?fv (\<lambda>_. [''0'', ''1''])"
  have v: "validate_redirect_form (\<lambda>_. None) id ?f = []" by code_simp
  have h: "plain_host (rf_host ?f)" by code_simp
  have "r_match_from (rf_row ?f) = ''old.example.org/feed''" by code_simp
  with redirect_edit_roundtrip [OF refl v] h show ?thesis by (simp add: Let_def)
qed

section \<open>The cache between a read and a write\<close>

lemma ensures_destroy_redirect:
  "ensures (\<lambda>_. True) (admin_redirects_destroy uni log_now i)
     (\<lambda>r d. r = (Done, True) \<longrightarrow> by_id r_id i (redirects d) = None)"
proof -
  let ?gone = "\<lambda>d. by_id r_id i (redirects d) = None"
  have del: "ensures (\<lambda>_. True) (delete_redirect i) (\<lambda>_. ?gone)"
    unfolding delete_redirect_def by (rule ensures_modify) (auto simp: redirects_tab.by_id_None)
  have log: "ensures ?gone (log_redirect uni log_now a red) (\<lambda>_. ?gone)" for a red
    unfolding log_redirect_def log_activity_def by (rule ensures_log_row) simp
  have "ensures (\<lambda>_. True)
     (or_internal (delete_redirect i) (\<lambda>_. bindE (log_redirect uni log_now ''deleted'' red) (\<lambda>_. ret (Done, True))))
     (\<lambda>r d. r = (Done, True) \<longrightarrow> ?gone d)" for red
    unfolding or_internal_def
  proof (rule ensures_bindE [OF ensures_attempt [OF del]])
    fix r :: "err + unit"
    show "ensures (\<lambda>d. \<forall>x. r = Inr x \<longrightarrow> ?gone d)
       (case r of Inl _ \<Rightarrow> ret (InternalError, False)
        | Inr _ \<Rightarrow> bindE (log_redirect uni log_now ''deleted'' red) (\<lambda>_. ret (Done, True)))
       (\<lambda>r d. r = (Done, True) \<longrightarrow> ?gone d)"
      by (cases r) (auto intro: ensures_ret ensures_bindE [OF log])
  qed
  then show ?thesis
    unfolding admin_redirects_destroy_def or_not_found_def
    by (intro ensures_bindE [OF ensures_True])
      (auto intro: ensures_ret ensures_weaken split: sum.splits)
qed

text \<open>
  C14: What the cache invalidation does not cover: \<open>redirectRules\<close> reads the table and stores the list in two
  steps. A request that has read the rows before an admin deletes a rule, and stores them after the
  handler dropped the cache, puts the deleted rule back in force: every later request within five minutes
  of the store is matched against it, whatever the table says.
\<close>

theorem deleted_rule_back_in_force:
  assumes "list_enabled_redirects w = (Inr rows, w1)"
    and "admin_redirects_destroy uni log_now i w1 = (Inr (Done, True), w2)"
    and "clk 0 - stored < redirect_cache_ttl"
    and "by_id r_id i (redirects (wdb w)) = Some row" "r_enabled row = 1" "load_rule compile uni row = Some rule"
  shows "by_id r_id i (redirects (wdb w2)) = None \<and> rule \<in> set (load_rules compile uni rows) \<and>
    redirect_rules compile uni clk
      (store_rules (load_rules compile uni rows) stored (invalidate_redirect_cache cache)) w2 =
      (load_rules compile uni rows, Some (load_rules compile uni rows, stored), w2)"
proof -
  have rows: "rows = filter (\<lambda>r. r_enabled r = 1) (by_position (redirects (wdb w)))"
    using assms(1) by (auto simp: list_enabled_redirects_def dest: query_ok)
  have "row \<in> set (redirects (wdb w))" using assms(4) by (auto dest: redirects_tab.by_id_Some)
  with assms(5,6) have "rule \<in> set (load_rules compile uni rows)"
    by (force simp: rows load_rules_def List.map_filter_def)
  moreover have "by_id r_id i (redirects (wdb w2)) = None"
    using ensuresD [OF ensures_destroy_redirect TrueI assms(2)] by simp
  ultimately show ?thesis using assms(3)
    by (simp add: redirect_rules_def store_rules_def cached_rules_def)
qed

theorem deleted_rule_back_in_force_witness:
  "by_id r_id 1 (redirects (wdb (snd (admin_redirects_destroy id 9 1 blog_world)))) = None \<and>
   load_rules (\<lambda>_. None) id [blog_row] \<noteq> []"
proof -
  let ?w2 = "snd (admin_redirects_destroy id 9 1 blog_world)"
  have "fst (admin_redirects_destroy id 9 1 blog_world) = Inr (Done, True)" by code_simp
  then have d: "admin_redirects_destroy id 9 1 blog_world = (Inr (Done, True), ?w2)" by (metis prod.collapse)
  have l: "list_enabled_redirects blog_world = (Inr [blog_row], blog_world)" by code_simp
  have "\<not> Option.is_none (load_rule (\<lambda>_. None) id blog_row)" by code_simp
  then obtain rule where r: "load_rule (\<lambda>_. None) id blog_row = Some rule" by (auto simp: Option.is_none_def)
  have row: "by_id r_id 1 (redirects (wdb blog_world)) = Some blog_row" "r_enabled blog_row = 1"
    by (simp_all add: blog_world_def by_id_def blog_row_def)
  from deleted_rule_back_in_force [OF l d _ row r, of "\<lambda>_. 10" 5 None]
  show ?thesis by (auto simp: redirect_cache_ttl_def)
qed

end
