(* ===== verification/CommentTree.thy ===== *)
theory CommentTree
  imports Publishing "HOL-Library.Option_ord"
begin

text \<open>
  The display tree of the comments of one article or page (\<open>internal/service/comments/comments.go\<close>,
  \<open>BuildTree\<close> and \<open>PrepareDisplay\<close>): which comments a reader sees, under which platform, and in which
  order. \<open>build_replies\<close> is the closure \<open>build\<close> with its map \<open>seen\<close> passed along; it returns for every
  list of comments, also when parent ids form a cycle.
\<close>

section \<open>The tree\<close>

definition comment_pending :: int where "comment_pending = 0"
definition comment_approved :: int where "comment_approved = 1"
definition comment_rejected :: int where "comment_rejected = 2"

record form_data =
  fd_action :: string
  fd_parent_id :: int
  fd_question :: string
  fd_token :: string
  fd_a :: int
  fd_b :: int
  fd_op :: string

datatype threaded =
  Threaded (th_comment: comment) (th_type: string) (th_depth: nat) (th_replies: "threaded list")
    (th_time_zone: string) (th_form: "form_data option")

definition max_reply_depth :: nat where "max_reply_depth = 5"

definition external_platforms :: "string list" where
  "external_platforms = [''mastodon'', ''bluesky'', ''twitter'']"

text \<open>\<open>sortByPublishedAt\<close>: a stable sort, NULL first.\<close>

definition sort_by_published_at :: "comment list \<Rightarrow> comment list" where
  "sort_by_published_at cs = sort_key c_published_at cs"

text \<open>The filter on replies: a local tree keeps what is approved, a platform's tree its own comments.\<close>

definition same_thread :: "string \<Rightarrow> comment \<Rightarrow> bool" where
  "same_thread ty c =
     (if ty = ''local'' then c_status c = comment_approved else c_platform c = Some ty)"

function build_replies ::
  "comment list \<Rightarrow> comment list \<Rightarrow> comment \<Rightarrow> string \<Rightarrow> nat \<Rightarrow> int set \<Rightarrow> threaded list \<times> int set" where
  "build_replies all [] parent ty depth seen = ([], seen)"
| "build_replies all (c # cs) parent ty depth seen =
     (if c_parent_id c \<noteq> Some (c_id parent) \<or> c_id c \<in> seen then build_replies all cs parent ty depth seen
      else if \<not> same_thread ty c then build_replies all cs parent ty depth seen
      else (case build_replies all all c ty (depth + 1) (insert (c_id c) seen) of (replies, seen1) \<Rightarrow>
             (case build_replies all cs parent ty depth seen1 of (out, seen2) \<Rightarrow>
                (Threaded c ty depth replies [] None # out, seen2))))"
  by pat_completeness auto

lemma build_replies_seen:
  "build_replies_dom (all, cs, p, ty, d, seen) \<Longrightarrow> seen \<subseteq> snd (build_replies all cs p ty d seen)"
proof (induction all cs p ty d seen rule: build_replies.pinduct)
  case (1 all p ty d seen)
  then show ?case by (simp add: build_replies.psimps)
next
  case (2 all c cs p ty d seen)
  then show ?case
    by (cases "build_replies all all c ty (d + 1) (insert (c_id c) seen)")
      (force simp: build_replies.psimps split: prod.splits)
qed

text \<open>Every round either marks one more id of the list or shortens the rest of the loop.\<close>

definition open_ids ::
  "((comment list \<times> comment list \<times> comment \<times> string \<times> nat \<times> int set) \<times>
    (comment list \<times> comment list \<times> comment \<times> string \<times> nat \<times> int set)) set" where
  "open_ids = inv_image (finite_psubset <*lex*> less_than)
     (\<lambda>(all, cs, p, ty, d, seen). (c_id ` (set all \<union> set cs) - seen, length cs))"

lemma open_ids_marks: "c_id (c :: comment) \<notin> seen \<Longrightarrow> insert (c_id c) seen \<subseteq> seen1 \<Longrightarrow>
    ((all, cs, p, ty, d, seen1), all, c # cs, p, ty, d, seen) \<in> open_ids"
  by (auto simp: open_ids_def finite_psubset_def)

lemma open_ids_nested: "c_id (c :: comment) \<notin> seen \<Longrightarrow>
    ((all, all, c, ty, d', insert (c_id c) seen), all, c # cs, p, ty, d, seen) \<in> open_ids"
  by (auto simp: open_ids_def finite_psubset_def)

lemma open_ids_skips: "((all, cs, p, ty, d, seen), all, c # cs, p, ty, d, seen) \<in> open_ids"
  by (auto simp: open_ids_def finite_psubset_def)

termination build_replies
proof (relation open_ids)
  show "wf open_ids" by (auto simp: open_ids_def)
next
  fix all cs :: "comment list" and p c :: comment and ty d and seen :: "int set" and replies seen1
  assume fresh: "\<not> (c_parent_id c \<noteq> Some (c_id p) \<or> c_id c \<in> seen)" "\<not> \<not> same_thread ty c"
    and r: "(replies, seen1) = build_replies all all c ty (d + 1) (insert (c_id c) seen)"
    and dom: "build_replies_dom (all, all, c, ty, d + 1, insert (c_id c) seen)"
  have "insert (c_id c) seen \<subseteq> seen1"
    using build_replies_seen [OF dom] unfolding r [symmetric] by simp
  with fresh show "((all, cs, p, ty, d, seen1), all, c # cs, p, ty, d, seen) \<in> open_ids"
    by (intro open_ids_marks) auto
qed (auto intro: open_ids_nested open_ids_skips)

text \<open>\<open>appendRoots\<close>: every root starts with a map of its own.\<close>

definition append_roots :: "comment list \<Rightarrow> string \<Rightarrow> (comment \<Rightarrow> bool) \<Rightarrow> threaded list" where
  "append_roots ordered ty match =
     map (\<lambda>c. Threaded c ty 0 (fst (build_replies ordered ordered c ty 1 {c_id c})) [] None)
       (filter (\<lambda>c. c_parent_id c = None \<and> match c) ordered)"

definition build_tree :: "comment list \<Rightarrow> threaded list" where
  "build_tree cs =
     (let ordered = sort_by_published_at cs in
      append_roots ordered ''local'' (\<lambda>c. c_platform c = None \<and> c_status c = comment_approved) @
      concat (map (\<lambda>p. append_roots ordered p (\<lambda>c. c_platform c = Some p)) external_platforms))"

section \<open>What the pages use of it\<close>

fun prepare_display :: "string \<Rightarrow> form_data \<Rightarrow> threaded \<Rightarrow> threaded" where
  "prepare_display tz base (Threaded c ty d rs _ f) =
     Threaded c ty d (map (prepare_display tz base) rs) tz
       (if ty = ''local'' \<and> d < max_reply_depth then Some (base\<lparr>fd_parent_id := c_id c\<rparr>) else f)"

definition visible :: "comment \<Rightarrow> bool" where
  "visible c = (c_platform c \<noteq> None \<or> c_status c = comment_approved)"

definition visible_count :: "comment list \<Rightarrow> nat" where
  "visible_count cs = length (filter visible cs)"

definition can_reply :: "threaded \<Rightarrow> bool" where
  "can_reply t = (th_type t = ''local'' \<and> th_depth t < max_reply_depth)"

definition published_unix :: "threaded \<Rightarrow> int" where
  "published_unix t = (case c_published_at (th_comment t) of Some t' \<Rightarrow> t' | None \<Rightarrow> c_created_at (th_comment t))"

definition border_color :: "threaded \<Rightarrow> string" where
  "border_color t =
     (if th_type t = ''mastodon'' then ''#6364FF'' else if th_type t = ''bluesky'' then ''#0085FF''
      else if th_type t = ''twitter'' then ''#1DA1F2'' else ''#333'')"

definition accepts_comments :: "int \<Rightarrow> int \<Rightarrow> bool" where
  "accepts_comments status comment_flag = (comment_flag = 1 \<and> (status = status_publish \<or> status = status_shared))"

section \<open>What is shown\<close>

text \<open>
  The specification: a comment is shown under a type when it is a root of that type or answers a
  shown comment and passes the filter of the tree.
\<close>

inductive displayed :: "comment list \<Rightarrow> string \<Rightarrow> comment \<Rightarrow> bool" for cs where
  local_root: "c \<in> set cs \<Longrightarrow> c_parent_id c = None \<Longrightarrow> c_platform c = None \<Longrightarrow>
     c_status c = comment_approved \<Longrightarrow> displayed cs ''local'' c"
| platform_root: "c \<in> set cs \<Longrightarrow> c_parent_id c = None \<Longrightarrow> c_platform c = Some ty \<Longrightarrow>
     ty \<in> set external_platforms \<Longrightarrow> displayed cs ty c"
| reply: "displayed cs ty p \<Longrightarrow> c \<in> set cs \<Longrightarrow> c_parent_id c = Some (c_id p) \<Longrightarrow> same_thread ty c \<Longrightarrow>
     displayed cs ty c"

text \<open>The comments of a tree with their types, in the order of the page.\<close>

fun shown :: "threaded \<Rightarrow> (string \<times> comment) list" where
  "shown (Threaded c ty d rs z f) = (ty, c) # concat (map shown rs)"

definition all_shown :: "threaded list \<Rightarrow> (string \<times> comment) list" where
  "all_shown ts = concat (map shown ts)"

definition answers :: "string \<Rightarrow> comment \<Rightarrow> comment \<Rightarrow> bool" where
  "answers ty p c = (c_parent_id c = Some (c_id p) \<and> same_thread ty c)"

text \<open>The descendants of a comment inside one tree.\<close>

inductive below :: "comment list \<Rightarrow> string \<Rightarrow> comment \<Rightarrow> comment \<Rightarrow> bool" for cs ty r where
  child: "c \<in> set cs \<Longrightarrow> answers ty r c \<Longrightarrow> below cs ty r c"
| deeper: "below cs ty r p \<Longrightarrow> c \<in> set cs \<Longrightarrow> answers ty p c \<Longrightarrow> below cs ty r c"

lemma below_trans: "below cs ty c x \<Longrightarrow> c \<in> set cs \<Longrightarrow> answers ty r c \<Longrightarrow> below cs ty r x"
  by (induction rule: below.induct) (auto intro: below.intros)

lemma all_shown_Cons [simp]:
  "all_shown (Threaded c ty d rs z f # ts) = (ty, c) # all_shown rs @ all_shown ts"
  by (simp add: all_shown_def)

lemma all_shown_Nil [simp]: "all_shown [] = []"
  by (simp add: all_shown_def)

definition shown_ids :: "threaded list \<Rightarrow> int list" where
  "shown_ids ts = map (\<lambda>(ty, c). c_id c) (all_shown ts)"

lemma shown_ids_simps [simp]:
  "shown_ids [] = []"
  "shown_ids (Threaded c ty d rs z f # ts) = c_id c # shown_ids rs @ shown_ids ts"
  by (simp_all add: shown_ids_def)

text \<open>The induction a round of the loop gives: at the end, a comment passed over, a comment shown.\<close>

lemma build_replies_induct [consumes 1, case_names stop skip node]:
  assumes "build_replies all cs p ty d seen = (ts, seen')"
    and "\<And>p d seen. P [] p d seen [] seen"
    and "\<And>c cs p d seen ts seen'. \<not> (answers ty p c \<and> c_id c \<notin> seen) \<Longrightarrow>
           build_replies all cs p ty d seen = (ts, seen') \<Longrightarrow> P cs p d seen ts seen' \<Longrightarrow> P (c # cs) p d seen ts seen'"
    and "\<And>c cs p d seen rs seen1 out seen2. answers ty p c \<Longrightarrow> c_id c \<notin> seen \<Longrightarrow>
           build_replies all all c ty (d + 1) (insert (c_id c) seen) = (rs, seen1) \<Longrightarrow>
           P all c (d + 1) (insert (c_id c) seen) rs seen1 \<Longrightarrow>
           build_replies all cs p ty d seen1 = (out, seen2) \<Longrightarrow> P cs p d seen1 out seen2 \<Longrightarrow>
           P (c # cs) p d seen (Threaded c ty d rs [] None # out) seen2"
  shows "P cs p d seen ts seen'"
  using assms
proof (induction all cs p ty d seen arbitrary: ts seen' rule: build_replies.induct)
  case (1 all p ty d seen)
  then show ?case by simp
next
  case (2 all c cs p ty d seen)
  obtain rs seen1 where r: "build_replies all all c ty (d + 1) (insert (c_id c) seen) = (rs, seen1)" by fastforce
  obtain out seen2 where o: "build_replies all cs p ty d seen1 = (out, seen2)" by fastforce
  show ?case
  proof (cases "answers ty p c \<and> c_id c \<notin> seen")
    case True
    then have g: "\<not> (c_parent_id c \<noteq> Some (c_id p) \<or> c_id c \<in> seen)" "\<not> \<not> same_thread ty c"
      by (auto simp: answers_def)
    have "ts = Threaded c ty d rs [] None # out" "seen' = seen2"
      using "2.prems"(1) g r o by auto
    moreover have "P all c (d + 1) (insert (c_id c) seen) rs seen1"
      by (rule "2.IH"(3) [OF g r "2.prems"(2-4)])
    moreover have "P cs p d seen1 out seen2"
      by (rule "2.IH"(4) [OF g r [symmetric] o "2.prems"(2-4)])
    moreover have "P (c # cs) p d seen (Threaded c ty d rs [] None # out) seen2"
      using True r calculation(3) o calculation(4) by (intro "2.prems"(4)) auto
    ultimately show ?thesis by simp
  next
    case False
    then have run: "build_replies all cs p ty d seen = (ts, seen')"
      using "2.prems"(1) by (auto simp: answers_def split: if_splits)
    have "P cs p d seen ts seen'"
    proof (cases "c_parent_id c \<noteq> Some (c_id p) \<or> c_id c \<in> seen")
      case True
      then show ?thesis by (rule "2.IH"(1) [OF _ run "2.prems"(2-4)])
    next
      case f: False
      with False have "\<not> same_thread ty c" by (simp add: answers_def)
      with f show ?thesis by (rule "2.IH"(2) [OF _ _ run "2.prems"(2-4)])
    qed
    with False run show ?thesis by (rule "2.prems"(3))
  qed
qed

text \<open>
  The loop marks what it shows, shows nothing twice, shows only descendants of the parent under the
  type of the tree, and leaves no answer to the parent or to a comment it shows unmarked.
\<close>

lemma build_replies_marks:
  "build_replies all cs p ty d seen = (ts, seen') \<Longrightarrow>
     seen' = seen \<union> set (shown_ids ts) \<and> distinct (shown_ids ts) \<and> set (shown_ids ts) \<inter> seen = {}"
  by (induction rule: build_replies_induct) auto

lemma build_replies_type:
  "build_replies all cs p ty d seen = (ts, seen') \<Longrightarrow> \<forall>x \<in> set (all_shown ts). fst x = ty"
  by (induction rule: build_replies_induct) auto

lemma build_replies_below:
  "build_replies all cs p ty d seen = (ts, seen') \<Longrightarrow> set cs \<subseteq> set all \<longrightarrow> (\<forall>x \<in> set (all_shown ts). below all ty p (snd x))"
  by (induction rule: build_replies_induct) (auto intro: child below_trans)

lemma build_replies_complete:
  "build_replies all cs p ty d seen = (ts, seen') \<Longrightarrow>
     (\<forall>c \<in> set cs. answers ty p c \<longrightarrow> c_id c \<in> seen') \<and>
     (\<forall>x \<in> set (all_shown ts). \<forall>c \<in> set all. answers ty (snd x) c \<longrightarrow> c_id c \<in> seen')"
proof (induction rule: build_replies_induct)
  case (stop p d seen)
  then show ?case by simp
next
  case (skip c cs p d seen ts seen')
  then have "seen \<subseteq> seen'" using build_replies_marks by blast
  with skip show ?case by auto
next
  case (node c cs p d seen rs seen1 out seen2)
  then have "insert (c_id c) seen \<subseteq> seen1" "seen1 \<subseteq> seen2" using build_replies_marks by blast+
  with node.IH show ?case by auto
qed

section \<open>Which comments a page shows\<close>

lemma below_in: "below cs ty r c \<Longrightarrow> c \<in> set cs \<and> c_parent_id c \<noteq> None \<and> same_thread ty c"
  by (induction rule: below.induct) (auto simp: answers_def)

lemma below_displayed: "below cs ty r c \<Longrightarrow> displayed cs ty r \<Longrightarrow> displayed cs ty c"
  by (induction rule: below.induct) (auto simp: answers_def intro: displayed.reply)

lemma comment_by_id: "distinct (map c_id cs) \<Longrightarrow> x \<in> set cs \<Longrightarrow> y \<in> set cs \<Longrightarrow> c_id x = c_id y \<Longrightarrow> x = y"
  by (auto simp: distinct_map inj_on_def)

text \<open>A comment has one parent, so it is below one root only.\<close>

lemma below_one_root:
  assumes "distinct (map c_id cs)" and r: "r \<in> set cs" "c_parent_id r = None" and s: "s \<in> set cs" "c_parent_id s = None"
  shows "below cs ty r x \<Longrightarrow> below cs ty' s x \<Longrightarrow> r = s"
proof (induction rule: below.induct)
  case (child c)
  from child(3,2,1) r s show ?case
    by (cases rule: below.cases) (auto simp: answers_def dest: below_in comment_by_id [OF assms(1)])
next
  case (deeper p c)
  from deeper(5) show ?case
  proof (cases rule: below.cases)
    case child
    with deeper(1,3) s have "p = s" by (auto simp: answers_def dest: below_in comment_by_id [OF assms(1)])
    with deeper(1) s show ?thesis by (auto dest: below_in)
  next
    case (deeper q)
    with \<open>below cs ty r p\<close> \<open>answers ty p c\<close> have "p = q"
      by (auto simp: answers_def dest: below_in comment_by_id [OF assms(1)])
    with deeper \<open>below cs ty' s p \<Longrightarrow> r = s\<close> show ?thesis by simp
  qed
qed

text \<open>The tree of one root.\<close>

definition root_tree :: "comment list \<Rightarrow> string \<times> comment \<Rightarrow> threaded" where
  "root_tree ordered = (\<lambda>(ty, c). Threaded c ty 0 (fst (build_replies ordered ordered c ty 1 {c_id c})) [] None)"

lemma root_tree_shows:
  assumes "distinct (map c_id cs)" "r \<in> set cs" "c_parent_id r = None"
  shows "set (shown (root_tree cs (ty, r))) = {(ty, x) |x. x = r \<or> below cs ty r x}"
    and "distinct (map (\<lambda>(ty, c). c_id c) (shown (root_tree cs (ty, r))))"
proof -
  obtain ts seen where run: "build_replies cs cs r ty 1 {c_id r} = (ts, seen)" by fastforce
  then have sh: "shown (root_tree cs (ty, r)) = (ty, r) # all_shown ts"
    by (simp add: root_tree_def all_shown_def)
  note marks = build_replies_marks [OF run] and complete = build_replies_complete [OF run]
  have within: "\<And>t x. (t, x) \<in> set (all_shown ts) \<Longrightarrow> t = ty \<and> below cs ty r x"
    using build_replies_type [OF run] build_replies_below [OF run] by force
  have found: "(ty, c) \<in> set (all_shown ts)" if c: "c \<in> set cs" "c_parent_id c \<noteq> None" "c_id c \<in> seen" for c
  proof -
    have "c_id c \<noteq> c_id r"
    proof
      assume "c_id c = c_id r"
      then have "c = r" by (rule comment_by_id [OF assms(1) c(1) assms(2)])
      with c(2) assms(3) show False by simp
    qed
    with c(3) marks obtain t y where y: "(t, y) \<in> set (all_shown ts)" "c_id y = c_id c"
      by (auto simp: shown_ids_def)
    with within have t: "t = ty" "below cs ty r y" by auto
    have "y = c" using comment_by_id [OF assms(1) _ c(1) y(2)] below_in [OF t(2)] by simp
    with y t show ?thesis by simp
  qed
  have "(ty, x) \<in> set (all_shown ts)" if "below cs ty r x" for x
    using that
  proof (induction rule: below.induct)
    case (child c)
    with complete have "c_id c \<in> seen" by blast
    with child show ?case by (intro found) (auto simp: answers_def)
  next
    case (deeper p c)
    with complete have "c_id c \<in> seen" by fastforce
    with deeper show ?case by (intro found) (auto simp: answers_def)
  qed
  with within sh show "set (shown (root_tree cs (ty, r))) = {(ty, x) |x. x = r \<or> below cs ty r x}" by auto
  show "distinct (map (\<lambda>(ty, c). c_id c) (shown (root_tree cs (ty, r))))"
    using marks sh by (auto simp: shown_ids_def)
qed

lemma in_root_tree:
  "distinct (map c_id cs) \<Longrightarrow> r \<in> set cs \<Longrightarrow> c_parent_id r = None \<Longrightarrow>
     (t, x) \<in> set (shown (root_tree cs (ty, r))) \<longleftrightarrow> t = ty \<and> (x = r \<or> below cs ty r x)"
  using root_tree_shows(1) [of cs r ty] by simp

text \<open>The roots of the page, with the type of their tree.\<close>

definition roots :: "comment list \<Rightarrow> (string \<times> comment) list" where
  "roots cs =
     map (Pair ''local'') (filter (\<lambda>c. c_parent_id c = None \<and> c_platform c = None \<and> c_status c = comment_approved) cs) @
     concat (map (\<lambda>p. map (Pair p) (filter (\<lambda>c. c_parent_id c = None \<and> c_platform c = Some p) cs)) external_platforms)"

lemma build_tree_roots:
  "build_tree cs = map (root_tree (sort_by_published_at cs)) (roots (sort_by_published_at cs))"
  by (simp add: build_tree_def append_roots_def roots_def root_tree_def Let_def external_platforms_def)

lemma set_roots:
  "(ty, c) \<in> set (roots cs) \<longleftrightarrow> c \<in> set cs \<and> c_parent_id c = None \<and>
     (ty = ''local'' \<and> c_platform c = None \<and> c_status c = comment_approved \<or> ty \<in> set external_platforms \<and> c_platform c = Some ty)"
  by (auto simp: roots_def)

lemma roots_distinct: "distinct cs \<Longrightarrow> distinct (map snd (roots cs))"
  by (auto simp: roots_def external_platforms_def comp_def distinct_map inj_on_def)

lemma displayed_iff:
  "displayed cs ty c \<longleftrightarrow> (\<exists>r. (ty, r) \<in> set (roots cs) \<and> (c = r \<or> below cs ty r c))" (is "?L \<longleftrightarrow> ?R")
proof
  show "?L \<Longrightarrow> ?R"
  proof (induction rule: displayed.induct)
    case (reply ty p c)
    then have "answers ty p c" by (simp add: answers_def)
    with reply show ?case by (auto intro: below.intros)
  qed (auto simp: set_roots)
  show "?R \<Longrightarrow> ?L"
    by (auto simp: set_roots intro: displayed.intros below_displayed)
qed

lemma all_shown_roots: "all_shown (map (root_tree cs) rs) = concat (map (\<lambda>r. shown (root_tree cs r)) rs)"
  by (simp add: all_shown_def comp_def)

lemma displayed_visible: "displayed cs ty c \<Longrightarrow> c \<in> set cs \<and> visible c"
proof (induction rule: displayed.induct)
  case (reply ty p c)
  then show ?case by (auto simp: visible_def same_thread_def split: if_splits)
qed (auto simp: visible_def)

lemma distinct_trees:
  assumes "distinct (map c_id cs)" "distinct (map snd rs)" "\<And>ty r. (ty, r) \<in> set rs \<Longrightarrow> r \<in> set cs \<and> c_parent_id r = None"
  shows "distinct (shown_ids (map (root_tree cs) rs))"
  using assms(2,3)
proof (induction rs)
  case Nil
  then show ?case by simp
next
  case (Cons r rs)
  obtain ty c where r: "r = (ty, c)" by fastforce
  have "distinct (map (\<lambda>(ty, c). c_id c) (shown (root_tree cs (ty, c))))"
    using Cons.prems(2) r by (intro root_tree_shows(2) [OF assms(1)]) auto
  moreover have "distinct (shown_ids (map (root_tree cs) rs))"
    using Cons by auto
  moreover have "c_id y \<noteq> c_id z"
    if y: "(t, y) \<in> set (shown (root_tree cs (ty, c)))" and s: "(ty', s) \<in> set rs"
      and z: "(u, z) \<in> set (shown (root_tree cs (ty', s)))" for t y ty' s u z
  proof
    assume "c_id y = c_id z"
    have c: "c \<in> set cs" "c_parent_id c = None" and d: "s \<in> set cs" "c_parent_id s = None" and "c \<noteq> s"
      using Cons.prems r s by (auto simp: image_iff)
    have y': "y = c \<or> below cs ty c y" and z': "z = s \<or> below cs ty' s z"
      using y z in_root_tree [OF assms(1) c] in_root_tree [OF assms(1) d] by auto
    with c d below_in have "y \<in> set cs" "z \<in> set cs" by auto
    with \<open>c_id y = c_id z\<close> have "y = z" by (intro comment_by_id [OF assms(1)])
    with y' z' \<open>c \<noteq> s\<close> c d below_in below_one_root [OF assms(1) c d] show False by metis
  qed
  ultimately show ?case
    unfolding shown_ids_def all_shown_roots r by (fastforce simp: shown_ids_def all_shown_roots)
qed

text \<open>
  C15: What readers see. When the comments of an article or page have distinct ids, the tree of
  \<open>BuildTree\<close> shows exactly the comments the display rules name, each once and under the type of its root:
  an approved local comment without a parent, a comment of one of the three platforms without a parent,
  and every answer to a shown comment that passes the filter of its tree. So a local comment that is pending or
  rejected is never shown, at no depth, and the page shows at most as many comments as
  \<open>VisibleCount\<close> announces.
\<close>

theorem build_tree_exact:
  assumes "distinct (map c_id cs)"
  shows "(\<forall>ty c. (ty, c) \<in> set (all_shown (build_tree cs)) \<longleftrightarrow> displayed cs ty c) \<and>
    distinct (shown_ids (build_tree cs)) \<and>
    (\<forall>(ty, c) \<in> set (all_shown (build_tree cs)). c_platform c = None \<longrightarrow> c_status c = comment_approved) \<and>
    length (all_shown (build_tree cs)) \<le> visible_count cs"
proof -
  let ?o = "sort_by_published_at cs"
  have o: "set ?o = set cs" and d: "distinct (map c_id ?o)"
    using assms by (simp_all add: sort_by_published_at_def distinct_map distinct_sort)
  have disp: "displayed ?o ty c \<longleftrightarrow> displayed cs ty c" for ty c
  proof -
    have "displayed xs ty c \<Longrightarrow> set xs = set ys \<Longrightarrow> displayed ys ty c" for xs ys
      by (induction rule: displayed.induct) (auto intro: displayed.intros)
    with o show ?thesis by blast
  qed
  have exact: "(ty, c) \<in> set (all_shown (build_tree cs)) \<longleftrightarrow> displayed cs ty c" for ty c
  proof -
    have m: "(t, r) \<in> set (roots ?o) \<Longrightarrow>
        (ty, c) \<in> set (shown (root_tree ?o (t, r))) \<longleftrightarrow> ty = t \<and> (c = r \<or> below ?o t r c)" for t r
      using in_root_tree [OF d, of r ty c t] by (simp add: set_roots)
    have "(ty, c) \<in> set (all_shown (build_tree cs)) \<longleftrightarrow>
        (\<exists>t r. (t, r) \<in> set (roots ?o) \<and> (ty, c) \<in> set (shown (root_tree ?o (t, r))))"
      by (auto simp: build_tree_roots all_shown_roots)
    also have "\<dots> \<longleftrightarrow> (\<exists>r. (ty, r) \<in> set (roots ?o) \<and> (c = r \<or> below ?o ty r c))"
      by (simp add: m cong: conj_cong)
    also have "\<dots> \<longleftrightarrow> displayed cs ty c" by (simp add: displayed_iff [symmetric] disp)
    finally show ?thesis .
  qed
  have dist: "distinct (shown_ids (build_tree cs))"
    unfolding build_tree_roots
    using d by (intro distinct_trees roots_distinct) (auto simp: set_roots distinct_map)
  have shown: "\<forall>(ty, c) \<in> set (all_shown (build_tree cs)). visible c"
    using displayed_visible exact by blast
  have sub: "snd ` set (all_shown (build_tree cs)) \<subseteq> set (filter visible cs)"
    using displayed_visible by (auto simp: exact)
  have "distinct (map snd (all_shown (build_tree cs)))"
    using dist by (auto simp: shown_ids_def distinct_map inj_on_def case_prod_beta)
  then have "length (all_shown (build_tree cs)) = card (snd ` set (all_shown (build_tree cs)))"
    using distinct_card by fastforce
  also have "\<dots> \<le> card (set (filter visible cs))" using sub by (intro card_mono) auto
  also have "\<dots> \<le> visible_count cs" unfolding visible_count_def by (rule card_length)
  finally have "length (all_shown (build_tree cs)) \<le> visible_count cs" .
  with exact dist shown show ?thesis by (auto simp: visible_def)
qed

text \<open>A thread with a pending comment in its middle, a cycle of parents and a comment fetched from a platform.\<close>

definition sample_comment :: "int \<Rightarrow> int option \<Rightarrow> int \<Rightarrow> string option \<Rightarrow> int option \<Rightarrow> comment" where
  "sample_comment i parent status platform published =
     \<lparr>c_id = i, c_commentable_type = Some ''Article'', c_commentable_id = Some 1, c_article_id = None,
      c_parent_id = parent, c_author_name = ''a'', c_author_email = None, c_author_url = None,
      c_author_username = None, c_author_avatar_url = None, c_content = ''text'', c_status = status,
      c_platform = platform, c_external_id = None, c_url = None, c_published_at = published,
      c_created_at = 1, c_updated_at = 1\<rparr>"

definition sample_thread :: "comment list" where
  "sample_thread =
     [sample_comment 1 None 1 None (Some 50), sample_comment 2 (Some 1) 0 None (Some 60),
      sample_comment 3 (Some 2) 1 None (Some 70), sample_comment 4 (Some 1) 1 None (Some 55),
      sample_comment 5 (Some 6) 1 None None, sample_comment 6 (Some 5) 1 None None,
      sample_comment 7 None 0 (Some ''mastodon'') (Some 40), sample_comment 8 None 1 None (Some 45)]"

theorem build_tree_exact_witness:
  "shown_ids (build_tree sample_thread) = [8, 1, 4, 7] \<and>
   (\<forall>ty c. (ty, c) \<in> set (all_shown (build_tree sample_thread)) \<longleftrightarrow> displayed sample_thread ty c)"
proof -
  have "distinct (map c_id sample_thread)" by code_simp
  moreover have "shown_ids (build_tree sample_thread) = [8, 1, 4, 7]" by code_simp
  ultimately show ?thesis using build_tree_exact by blast
qed

section \<open>How the tree is ordered\<close>

fun tree_ok :: "threaded \<Rightarrow> bool" where
  "tree_ok (Threaded c ty d rs z f) =
     (sorted (map (\<lambda>t. c_published_at (th_comment t)) rs) \<and>
      list_all (\<lambda>r. c_parent_id (th_comment r) = Some (c_id c) \<and> th_type r = ty \<and> th_depth r = d + 1) rs \<and>
      list_all tree_ok rs)"

fun forms_ok :: "string \<Rightarrow> form_data \<Rightarrow> threaded \<Rightarrow> bool" where
  "forms_ok tz base (Threaded c ty d rs z f) =
     (z = tz \<and> f = (if can_reply (Threaded c ty d rs z f) then Some (base\<lparr>fd_parent_id := c_id c\<rparr>) else None) \<and>
      list_all (forms_ok tz base) rs)"

fun unprepared :: "threaded \<Rightarrow> bool" where
  "unprepared (Threaded c ty d rs z f) = (f = None \<and> list_all unprepared rs)"

lemma build_replies_ordered:
  "build_replies all cs p ty d seen = (ts, seen') \<Longrightarrow> sorted (map c_published_at all) \<longrightarrow> sorted (map c_published_at cs) \<longrightarrow>
     set (map th_comment ts) \<subseteq> set cs \<and> sorted (map (\<lambda>t. c_published_at (th_comment t)) ts) \<and>
     list_all (\<lambda>r. c_parent_id (th_comment r) = Some (c_id p) \<and> th_type r = ty \<and> th_depth r = d) ts \<and>
     list_all tree_ok ts \<and> list_all unprepared ts"
proof (induction rule: build_replies_induct)
  case (node c cs p d seen rs seen1 out seen2)
  then show ?case by (auto simp: answers_def)
qed auto

lemma prepare_forms: "unprepared t \<Longrightarrow> forms_ok tz base (prepare_display tz base t)"
  by (induction t rule: unprepared.induct) (auto simp: can_reply_def list_all_iff)

lemma shown_prepared: "shown (prepare_display tz base t) = shown t"
  by (induction t rule: shown.induct) (auto simp: comp_def intro!: arg_cong [where f = concat])

lemma root_tree_ok: "sorted (map c_published_at cs) \<Longrightarrow> tree_ok (root_tree cs r) \<and> unprepared (root_tree cs r)"
proof (cases r)
  case (Pair ty c)
  assume s: "sorted (map c_published_at cs)"
  obtain ts seen where "build_replies cs cs c ty 1 {c_id c} = (ts, seen)" by fastforce
  with s Pair build_replies_ordered [OF this] show ?thesis by (simp add: root_tree_def)
qed

text \<open>
  The shape of the page. At every level of the tree siblings come in the order of
  their publication (comments without a date first), every reply is one deeper than the comment it answers
  and has the type of its root; the roots of each type are ordered in the same way and start at depth 0.
  \<open>PrepareDisplay\<close> shows the same comments, and gives a reply form, bound to the comment, to exactly the
  local comments less than five levels deep.
\<close>

theorem build_tree_ordered:
  "list_all tree_ok (build_tree cs) \<and>
   sorted (map (\<lambda>t. c_published_at (th_comment t)) (filter (\<lambda>t. th_type t = ty) (build_tree cs))) \<and>
   list_all (\<lambda>t. th_depth t = 0 \<and> c_parent_id (th_comment t) = None) (build_tree cs) \<and>
   list_all (forms_ok tz base) (map (prepare_display tz base) (build_tree cs)) \<and>
   all_shown (map (prepare_display tz base) (build_tree cs)) = all_shown (build_tree cs)"
proof -
  let ?o = "sort_by_published_at cs"
  have o: "sorted (map c_published_at ?o)" by (simp add: sort_by_published_at_def)
  have f: "th_type (root_tree ?o r) = fst r" "th_comment (root_tree ?o r) = snd r" "th_depth (root_tree ?o r) = 0" for r
    by (simp_all add: root_tree_def case_prod_beta)
  have filtered: "sorted (map c_published_at (filter p ?o))" for p
    using o by (rule sorted_filter)
  consider "ty = ''local''" | "ty = ''mastodon''" | "ty = ''bluesky''" | "ty = ''twitter''"
    | "ty \<noteq> ''local''" "ty \<noteq> ''mastodon''" "ty \<noteq> ''bluesky''" "ty \<noteq> ''twitter''" by blast
  then have "sorted (map (\<lambda>r. c_published_at (snd r)) (filter (\<lambda>r. fst r = ty) (roots ?o)))"
    by cases (simp_all add: roots_def external_platforms_def filter_map comp_def filtered)
  then have "sorted (map (\<lambda>t. c_published_at (th_comment t)) (filter (\<lambda>t. th_type t = ty) (build_tree cs)))"
    by (simp add: build_tree_roots filter_map comp_def f)
  moreover have "list_all tree_ok (build_tree cs) \<and> list_all unprepared (build_tree cs)"
    using root_tree_ok [OF o] by (simp add: build_tree_roots list_all_iff)
  moreover have "list_all (\<lambda>t. th_depth t = 0 \<and> c_parent_id (th_comment t) = None) (build_tree cs)"
    using set_roots by (auto simp: build_tree_roots list_all_iff f)
  moreover have "all_shown (map (prepare_display tz base) (build_tree cs)) = all_shown (build_tree cs)"
    by (simp add: all_shown_def shown_prepared comp_def)
  ultimately show ?thesis using prepare_forms by (auto simp: list_all_iff)
qed

end
