(* ===== verification/JsonText.thy ===== *)
theory JsonText
  imports Json
begin

text \<open>
  The other half of \<open>encoding/json\<close>: reading a document. \<open>json_parse\<close> follows Go's scanner (white space,
  literals, the number grammar, escapes with surrogate pairs); it takes as much fuel as the text is long.
  What \<open>json_print\<close> wrote is read back (\<open>parse_print\<close>). The decoder's nesting limit of 10000 is not
  modelled.
\<close>

section \<open>Strings\<close>

text \<open>\<open>utf8.AppendRune\<close>.\<close>

definition utf8 :: "nat \<Rightarrow> string" where
  "utf8 n =
     (if n < 128 then [char_of n]
      else if n < 2048 then [char_of (192 + n div 64), char_of (128 + n mod 64)]
      else if n < 65536 then [char_of (224 + n div 4096), char_of (128 + n div 64 mod 64), char_of (128 + n mod 64)]
      else [char_of (240 + n div 262144), char_of (128 + n div 4096 mod 64),
            char_of (128 + n div 64 mod 64), char_of (128 + n mod 64)])"

definition hex_value :: "char \<Rightarrow> nat option" where
  "hex_value c =
     (let n = code_of c in
      if 48 \<le> n \<and> n \<le> 57 then Some (n - 48)
      else if 97 \<le> n \<and> n \<le> 102 then Some (n - 87)
      else if 65 \<le> n \<and> n \<le> 70 then Some (n - 55) else None)"

definition hex4 :: "char \<Rightarrow> char \<Rightarrow> char \<Rightarrow> char \<Rightarrow> nat option" where
  "hex4 a b c d =
     (case (hex_value a, hex_value b, hex_value c, hex_value d) of
        (Some w, Some x, Some y, Some z) \<Rightarrow> Some (((w * 16 + x) * 16 + y) * 16 + z)
      | _ \<Rightarrow> None)"

text \<open>The second half of a surrogate pair, when one follows a high surrogate.\<close>

definition low_half :: "nat \<Rightarrow> string \<Rightarrow> (nat \<times> string) option" where
  "low_half hi s =
     (case s of
        e # u # a # b # c # d # r \<Rightarrow>
          if 55296 \<le> hi \<and> hi < 56320 \<and> e = CHR 0x5C \<and> u = CHR ''u'' then
            (case hex4 a b c d of
               Some lo \<Rightarrow> if 56320 \<le> lo \<and> lo < 57344
                          then Some (65536 + (hi - 55296) * 1024 + (lo - 56320), r) else None
             | None \<Rightarrow> None)
          else None
      | _ \<Rightarrow> None)"

lemma low_half_shorter: "low_half hi s = Some (n, r) \<Longrightarrow> length r < length s"
  by (auto simp: low_half_def split: list.splits option.splits if_splits)

definition rune_at :: "nat \<Rightarrow> string \<Rightarrow> nat \<times> string" where
  "rune_at n s =
     (if 55296 \<le> n \<and> n < 57344 then (case low_half n s of Some p \<Rightarrow> p | None \<Rightarrow> (65533, s)) else (n, s))"

lemma rune_at_shorter: "length (snd (rune_at n s)) \<le> length s"
  by (auto simp: rune_at_def split: option.splits dest!: low_half_shorter)

definition short_escape :: "char \<Rightarrow> char option" where
  "short_escape c =
     (let n = code_of c in
      if n = 34 \<or> n = 92 \<or> n = 47 then Some c
      else if n = 98 then Some (CHR 0x08) else if n = 102 then Some (CHR 0x0C)
      else if n = 110 then Some (CHR 0x0A) else if n = 114 then Some (CHR 0x0D)
      else if n = 116 then Some (CHR 0x09) else None)"

text \<open>The rest of a string literal after its opening quote: the value and what follows the closing quote.\<close>

function unquote_json :: "string \<Rightarrow> (string \<times> string) option" where
  "unquote_json s =
     (case s of
        [] \<Rightarrow> None
      | c # t \<Rightarrow>
          if code_of c = 34 then Some ([], t)
          else if code_of c < 32 then None
          else if code_of c \<noteq> 92 then map_option (\<lambda>(v, r). (c # v, r)) (unquote_json t)
          else (case t of
                  [] \<Rightarrow> None
                | e # t1 \<Rightarrow>
                    if e = CHR ''u'' then
                      (case t1 of
                         a # b # d # f # t2 \<Rightarrow>
                           (case hex4 a b d f of
                              None \<Rightarrow> None
                            | Some n \<Rightarrow> map_option (\<lambda>(v, r). (utf8 (fst (rune_at n t2)) @ v, r))
                                          (unquote_json (snd (rune_at n t2))))
                       | _ \<Rightarrow> None)
                    else (case short_escape e of
                            None \<Rightarrow> None
                          | Some x \<Rightarrow> map_option (\<lambda>(v, r). (x # v, r)) (unquote_json t1))))"
  by pat_completeness auto
termination
  by (relation "measure length") (auto intro: le_less_trans [OF rune_at_shorter])

declare unquote_json.simps [simp del]

section \<open>Numbers\<close>

text \<open>The fraction and the exponent: whether there is one, and what follows.\<close>

definition number_tail :: "string \<Rightarrow> (bool \<times> string) option" where
  "number_tail r =
     (let dot = (r \<noteq> [] \<and> hd r = CHR ''.''); fs = (if dot then takeWhile is_digit (tl r) else []);
          r1 = (if dot then dropWhile is_digit (tl r) else r);
          e = (r1 \<noteq> [] \<and> hd r1 \<in> set ''eE'');
          t2 = (if e then (if tl r1 \<noteq> [] \<and> hd (tl r1) \<in> set ''+-'' then tl (tl r1) else tl r1) else r1);
          es = (if e then takeWhile is_digit t2 else [])
      in if dot \<and> fs = [] \<or> e \<and> es = [] then None
         else Some (dot \<or> e, if e then dropWhile is_digit t2 else r1))"

definition parse_number :: "string \<Rightarrow> (json \<times> string) option" where
  "parse_number s =
     (let neg = (s \<noteq> [] \<and> hd s = CHR ''-''); t = (if neg then tl s else s);
          ds = takeWhile is_digit t
      in if ds = [] \<or> hd ds = CHR ''0'' \<and> 1 < length ds then None
         else (case number_tail (dropWhile is_digit t) of
                 None \<Rightarrow> None
               | Some (True, r) \<Rightarrow> Some (JFrac (take (length s - length r) s), r)
               | Some (False, r) \<Rightarrow> map_option (\<lambda>n. (JNum (if neg then - int n else int n), r)) (read_nat 0 ds)))"

section \<open>Documents\<close>

definition is_json_space :: "char \<Rightarrow> bool" where
  "is_json_space c = (c \<in> set [CHR 0x20, CHR 0x09, CHR 0x0A, CHR 0x0D])"

definition skip_space :: "string \<Rightarrow> string" where
  "skip_space s = dropWhile is_json_space s"

fun parse_value :: "nat \<Rightarrow> string \<Rightarrow> (json \<times> string) option"
  and parse_items :: "nat \<Rightarrow> string \<Rightarrow> (json list \<times> string) option"
  and parse_members :: "nat \<Rightarrow> string \<Rightarrow> ((string \<times> json) list \<times> string) option" where
  "parse_value 0 s = None"
| "parse_value (Suc n) s =
     (case skip_space s of
        [] \<Rightarrow> None
      | c # t \<Rightarrow>
          if c = CHR 0x22 then map_option (\<lambda>(v, r). (JStr v, r)) (unquote_json t)
          else if c = CHR ''['' then
            (if has_prefix (skip_space t) '']'' then Some (JArr [], tl (skip_space t))
             else map_option (\<lambda>(xs, r). (JArr xs, r)) (parse_items n t))
          else if c = CHR 0x7B then
            (if has_prefix (skip_space t) [CHR 0x7D] then Some (JObj [], tl (skip_space t))
             else map_option (\<lambda>(xs, r). (JObj xs, r)) (parse_members n t))
          else if has_prefix (c # t) ''null'' then Some (JNull, drop 3 t)
          else if has_prefix (c # t) ''true'' then Some (JBool True, drop 3 t)
          else if has_prefix (c # t) ''false'' then Some (JBool False, drop 4 t)
          else parse_number (c # t))"
| "parse_items 0 s = None"
| "parse_items (Suc n) s =
     (case parse_value n s of
        None \<Rightarrow> None
      | Some (x, r) \<Rightarrow>
          (case skip_space r of
             [] \<Rightarrow> None
           | c # r1 \<Rightarrow>
               if c = CHR '','' then map_option (\<lambda>(xs, r). (x # xs, r)) (parse_items n r1)
               else if c = CHR '']'' then Some ([x], r1) else None))"
| "parse_members 0 s = None"
| "parse_members (Suc n) s =
     (case skip_space s of
        [] \<Rightarrow> None
      | q # t \<Rightarrow>
          if q \<noteq> CHR 0x22 then None
          else (case unquote_json t of
             None \<Rightarrow> None
           | Some (k, r) \<Rightarrow>
               if \<not> has_prefix (skip_space r) '':'' then None
               else (case parse_value n (tl (skip_space r)) of
                  None \<Rightarrow> None
                | Some (x, r1) \<Rightarrow>
                    (case skip_space r1 of
                       [] \<Rightarrow> None
                     | c # r2 \<Rightarrow>
                         if c = CHR '','' then map_option (\<lambda>(xs, r). ((k, x) # xs, r)) (parse_members n r2)
                         else if c = CHR 0x7D then Some ([(k, x)], r2) else None))))"

definition json_parse :: "string \<Rightarrow> json option" where
  "json_parse s =
     (case parse_value (Suc (length s)) s of
        Some (j, r) \<Rightarrow> if skip_space r = [] then Some j else None
      | None \<Rightarrow> None)"

text \<open>The text of a column or of a request body, with what it parses to.\<close>

definition text_of :: "string \<Rightarrow> jtext" where
  "text_of s = JText s (json_parse s)"

section \<open>Reading back what was printed\<close>

lemma hex_value_digit: "n < 16 \<Longrightarrow> hex_value (hex_digit n) = Some n"
  by (simp add: hex_value_def hex_digit_def Let_def)

lemma hex4_low: "n < 256 \<Longrightarrow> hex4 (CHR ''0'') (CHR ''0'') (hex_digit (n div 16)) (hex_digit (n mod 16)) = Some n"
proof -
  assume "n < 256"
  then have "n div 16 < 16" by simp
  then show ?thesis by (simp add: hex4_def hex_value_digit hex_value_def [of "CHR ''0''"])
qed

lemma unquote_plain: "code_of c \<noteq> 34 \<Longrightarrow> code_of c \<noteq> 92 \<Longrightarrow> 32 \<le> code_of c \<Longrightarrow>
    unquote_json (c # t) = map_option (\<lambda>(v, r). (c # v, r)) (unquote_json t)"
  by (subst unquote_json.simps) simp

lemma unquote_short: "e \<noteq> CHR ''u'' \<Longrightarrow> short_escape e = Some x \<Longrightarrow>
    unquote_json (CHR 0x5C # e # t) = map_option (\<lambda>(v, r). (x # v, r)) (unquote_json t)"
  by (subst unquote_json.simps) simp

lemma unquote_u: "hex4 a b c d = Some n \<Longrightarrow> n < 55296 \<Longrightarrow>
    unquote_json (CHR 0x5C # CHR ''u'' # a # b # c # d # t) = map_option (\<lambda>(v, r). (utf8 n @ v, r)) (unquote_json t)"
  by (subst unquote_json.simps) (simp add: rune_at_def)

lemma take_two: "take 2 s = [a, b] \<Longrightarrow> s = a # b # drop 2 s"
  by (metis append_Cons append_Nil append_take_drop_id)

lemma code_char: "code_of c = n \<Longrightarrow> c = char_of n"
  by (metis char_of_char)

lemma escape_quote: "code_of c = 34 \<or> code_of c = 92 \<Longrightarrow> json_escape (c # s) = CHR 0x5C # c # json_escape s"
  by (auto simp: Let_def)

lemma escape_low:
  "code_of c < 32 \<or> code_of c = 60 \<or> code_of c = 62 \<or> code_of c = 38 \<Longrightarrow> code_of c \<notin> {8, 9, 10, 12, 13} \<Longrightarrow>
     json_escape (c # s) = CHR 0x5C # CHR ''u'' # CHR ''0'' # CHR ''0'' # hex_digit (code_of c div 16) # hex_digit (code_of c mod 16) # json_escape s"
  by (auto simp: Let_def)

lemma escape_separator:
  "code_of c = 226 \<Longrightarrow> take 2 s = map char_of [128, 168 :: nat] \<Longrightarrow>
     json_escape (c # s) = CHR 0x5C # CHR ''u'' # CHR ''2'' # CHR ''0'' # CHR ''2'' # CHR ''8'' # json_escape (drop 2 s)"
  "code_of c = 226 \<Longrightarrow> take 2 s = map char_of [128, 169 :: nat] \<Longrightarrow>
     json_escape (c # s) = CHR 0x5C # CHR ''u'' # CHR ''2'' # CHR ''0'' # CHR ''2'' # CHR ''9'' # json_escape (drop 2 s)"
  by (simp_all add: Let_def)

lemma escape_plain:
  "\<not> (code_of c = 34 \<or> code_of c = 92) \<Longrightarrow> \<not> (code_of c < 32 \<or> code_of c = 60 \<or> code_of c = 62 \<or> code_of c = 38) \<Longrightarrow>
   \<not> (code_of c = 226 \<and> take 2 s = map char_of [128, 168 :: nat]) \<Longrightarrow>
   \<not> (code_of c = 226 \<and> take 2 s = map char_of [128, 169 :: nat]) \<Longrightarrow> json_escape (c # s) = c # json_escape s"
  by (auto simp: Let_def)

lemma separator_runes:
  "hex4 (CHR ''2'') (CHR ''0'') (CHR ''2'') (CHR ''8'') = Some 8232"
  "hex4 (CHR ''2'') (CHR ''0'') (CHR ''2'') (CHR ''9'') = Some 8233"
  "utf8 8232 = map char_of [226, 128, 168 :: nat]"
  "utf8 8233 = map char_of [226, 128, 169 :: nat]"
  by (code_simp, code_simp) (simp_all add: utf8_def)

lemma short_chars:
  "char_of (8 :: nat) = CHR 0x08" "char_of (9 :: nat) = CHR 0x09" "char_of (10 :: nat) = CHR 0x0A"
  "char_of (12 :: nat) = CHR 0x0C" "char_of (13 :: nat) = CHR 0x0D"
  by code_simp+

lemma unquote_escape: "unquote_json (json_escape s @ CHR 0x22 # r) = Some (s, r)"
proof (induction s rule: measure_induct_rule [where f = length])
  case (less s)
  show ?case
  proof (cases s)
    case Nil
    then show ?thesis by (simp add: unquote_json.simps [of "CHR 0x22 # r"])
  next
    case (Cons c t)
    let ?n = "code_of c"
    let ?ls = "take 2 t = map char_of [128, 168 :: nat]" and ?ps = "take 2 t = map char_of [128, 169 :: nat]"
    have ih: "unquote_json (json_escape t @ CHR 0x22 # r) = Some (t, r)"
      "unquote_json (json_escape (drop 2 t) @ CHR 0x22 # r) = Some (drop 2 t, r)"
      using less Cons by simp_all
    consider (quote) "?n = 34 \<or> ?n = 92" | (b) "?n = 8" | (f) "?n = 12" | (n) "?n = 10" | (r) "?n = 13" | (t) "?n = 9"
      | (low) "?n < 32 \<or> ?n = 60 \<or> ?n = 62 \<or> ?n = 38" "?n \<noteq> 8" "?n \<noteq> 12" "?n \<noteq> 10" "?n \<noteq> 13" "?n \<noteq> 9"
      | (ls) "?n = 226" ?ls | (ps) "?n = 226" ?ps
      | (plain) "\<not> (?n = 34 \<or> ?n = 92)" "\<not> (?n < 32 \<or> ?n = 60 \<or> ?n = 62 \<or> ?n = 38)"
          "\<not> (?n = 226 \<and> ?ls)" "\<not> (?n = 226 \<and> ?ps)"
      by satx
    then show ?thesis
    proof cases
      case quote
      then have "short_escape c = Some c" "c \<noteq> CHR ''u''" by (auto simp: short_escape_def Let_def)
      with quote Cons ih show ?thesis by (simp add: escape_quote unquote_short del: json_escape.simps)
    next
      case low
      then have "?n < 128" by auto
      then have "utf8 ?n = [c]" by (simp add: utf8_def)
      with low Cons ih \<open>?n < 128\<close> show ?thesis by (simp add: escape_low unquote_u [OF hex4_low] del: json_escape.simps)
    next
      case ls
      then have "utf8 8232 @ drop 2 t = c # t"
        using take_two [of t "char_of (128 :: nat)" "char_of (168 :: nat)"] code_char [OF ls(1)]
        by (simp only: separator_runes) simp
      with ls Cons ih show ?thesis by (simp add: escape_separator unquote_u [OF separator_runes(1)] del: json_escape.simps)
    next
      case ps
      then have "utf8 8233 @ drop 2 t = c # t"
        using take_two [of t "char_of (128 :: nat)" "char_of (169 :: nat)"] code_char [OF ps(1)]
        by (simp only: separator_runes) simp
      with ps Cons ih show ?thesis by (simp add: escape_separator unquote_u [OF separator_runes(2)] del: json_escape.simps)
    next
      case plain
      with Cons ih show ?thesis by (simp add: escape_plain unquote_plain del: json_escape.simps)
    qed (use ih Cons in \<open>auto simp: Let_def unquote_short short_escape_def short_chars dest!: code_char\<close>)
  qed
qed

text \<open>Documents without fractions; the fuel their text needs; what may follow a number.\<close>

fun whole :: "json \<Rightarrow> bool" where
  "whole (JFrac s) = False"
| "whole (JArr xs) = list_all whole xs"
| "whole (JObj kvs) = list_all (\<lambda>(k, v). whole v) kvs"
| "whole _ = True"

fun fuel_of :: "json \<Rightarrow> nat" where
  "fuel_of (JArr xs) = Suc (sum_list (map (\<lambda>x. Suc (fuel_of x)) xs))"
| "fuel_of (JObj kvs) = Suc (sum_list (map (\<lambda>(k, v). Suc (fuel_of v)) kvs))"
| "fuel_of _ = 1"

definition ends_number :: "string \<Rightarrow> bool" where
  "ends_number r = (r = [] \<or> \<not> is_digit (hd r) \<and> hd r \<noteq> CHR ''.'' \<and> hd r \<notin> set ''eE'')"

lemma dec_nat_lead: "0 < n \<Longrightarrow> hd (dec_nat n) \<noteq> CHR ''0''"
proof (induction n rule: dec_nat.induct)
  case (1 n)
  show ?case
  proof (cases "n < 10")
    case True
    show ?thesis
    proof
      assume "hd (dec_nat n) = CHR ''0''"
      with True have "code_of (char_of (48 + n) :: char) = code_of (CHR ''0'')" by (simp add: dec_nat.simps [of n])
      with True \<open>0 < n\<close> show False by (simp only: code_of_digit) simp
    qed
  next
    case False
    with 1 have "hd (dec_nat (n div 10)) \<noteq> CHR ''0''" by simp
    with False dec_nat_nonempty show ?thesis by (simp add: dec_nat.simps [of n])
  qed
qed

lemma dec_nat_canonical: "\<not> (hd (dec_nat n) = CHR ''0'' \<and> 1 < length (dec_nat n))"
proof (cases "n = 0")
  case True
  then show ?thesis by (simp add: dec_nat.simps [of 0])
next
  case False
  then show ?thesis by (simp add: dec_nat_lead)
qed

lemma digits_end:
  "ends_number r \<Longrightarrow> takeWhile is_digit (dec_nat n @ r) = dec_nat n"
  "ends_number r \<Longrightarrow> dropWhile is_digit (dec_nat n @ r) = r"
proof -
  have all: "\<forall>c \<in> set (dec_nat n). is_digit c" using dec_nat_digits by blast
  assume "ends_number r"
  then have "takeWhile is_digit r = []" "dropWhile is_digit r = r"
    by (cases r; simp add: ends_number_def)+
  with all show "takeWhile is_digit (dec_nat n @ r) = dec_nat n" "dropWhile is_digit (dec_nat n @ r) = r"
    by simp_all
qed

lemma dec_nat_minus: "dec_nat n @ r = c # t \<Longrightarrow> is_digit c \<and> c \<noteq> CHR ''-''"
  using dec_nat_nonempty [of n] dec_nat_digits [of c n]
  by (cases "dec_nat n") (auto simp: is_digit_def)

lemma number_tail_end: "ends_number r \<Longrightarrow> number_tail r = Some (False, r)"
  by (cases r) (auto simp: number_tail_def ends_number_def)

lemma parse_number_print:
  assumes "ends_number r"
  shows "parse_number (dec_int i @ r) = Some (JNum i, r)"
proof (cases "i < 0")
  case True
  then have "dec_int i @ r = CHR ''-'' # dec_nat (nat (- i)) @ r" by (simp add: dec_int_def)
  with True show ?thesis
    using dec_nat_canonical [of "nat (- i)"]
    by (simp add: parse_number_def Let_def digits_end [OF assms] number_tail_end [OF assms] dec_nat_nonempty read_dec_nat)
next
  case False
  then have p: "dec_int i @ r = dec_nat (nat i) @ r" by (simp add: dec_int_def)
  obtain c t where ct: "dec_nat (nat i) @ r = c # t"
    using dec_nat_nonempty [of "nat i"] by (cases "dec_nat (nat i)") auto
  then have "hd (dec_nat (nat i) @ r) \<noteq> CHR ''-''" using dec_nat_minus [OF ct] by simp
  with False show ?thesis
    unfolding p parse_number_def using dec_nat_canonical [of "nat i"]
    by (simp only: Let_def) (simp add: digits_end [OF assms] number_tail_end [OF assms] dec_nat_nonempty read_dec_nat)
qed

lemma print_start: "whole j \<Longrightarrow> \<exists>c t. json_print j = c # t \<and> \<not> is_json_space c \<and> c \<noteq> CHR '']''"
proof (cases j)
  case (JNum i)
  obtain c t where ct: "dec_nat (nat i) = c # t" using dec_nat_nonempty [of "nat i"] by (cases "dec_nat (nat i)") auto
  then have "is_digit c" using dec_nat_digits [of c "nat i"] by simp
  with JNum ct show ?thesis by (auto simp: dec_int_def is_json_space_def is_digit_def)
qed (auto simp: is_json_space_def json_quote_def)

lemma skip_space_print: "whole j \<Longrightarrow> skip_space (json_print j @ r) = json_print j @ r"
  using print_start [of j] by (auto simp: skip_space_def)

lemma skip_space_hd: "\<not> is_json_space c \<Longrightarrow> skip_space (c # s) = c # s"
  by (simp add: skip_space_def)

lemma parse_members_step:
  assumes v: "parse_value n (json_print x @ q) = Some (x, q)" and x: "whole x" and q: "q = c # r1" "\<not> is_json_space c"
  shows "parse_members (Suc n) (json_quote k @ '':'' @ json_print x @ q) =
     (if c = CHR '','' then map_option (\<lambda>(xs, r). ((k, x) # xs, r)) (parse_members n r1)
      else if c = CHR 0x7D then Some ([(k, x)], r1) else None)"
proof -
  have "skip_space (json_quote k @ '':'' @ json_print x @ q) = CHR 0x22 # json_escape k @ CHR 0x22 # '':'' @ json_print x @ q"
    by (simp add: json_quote_def skip_space_hd is_json_space_def)
  then show ?thesis
    using v q by (simp add: unquote_escape skip_space_hd is_json_space_def has_prefix_def)
qed

lemma parse_items_step:
  assumes "parse_value n (json_print x @ q) = Some (x, q)" and "q = c # r1" "\<not> is_json_space c"
  shows "parse_items (Suc n) (json_print x @ q) =
     (if c = CHR '','' then map_option (\<lambda>(xs, r). (x # xs, r)) (parse_items n r1)
      else if c = CHR '']'' then Some ([x], r1) else None)"
  using assms by (simp add: skip_space_hd)

abbreviation reads_back :: "json \<Rightarrow> bool" where
  "reads_back j \<equiv> (\<forall>n r. fuel_of j \<le> n \<longrightarrow> ends_number r \<longrightarrow> parse_value n (json_print j @ r) = Some (j, r))"

lemma parse_items_print:
  assumes "\<forall>x \<in> set (x # xs). whole x \<and> reads_back x" "sum_list (map (\<lambda>x. Suc (fuel_of x)) (x # xs)) \<le> n"
  shows "parse_items n (join_with '','' (map json_print (x # xs)) @ '']'' @ r) = Some (x # xs, r)"
  using assms
proof (induction xs arbitrary: x n)
  case Nil
  then obtain m where "n = Suc m" "fuel_of x \<le> m" by (cases n) auto
  moreover from this Nil have "parse_value m (json_print x @ '']'' @ r) = Some (x, '']'' @ r)"
    by (simp add: ends_number_def is_digit_def)
  ultimately show ?case by (simp add: skip_space_hd is_json_space_def)
next
  case (Cons y ys)
  then obtain m where m: "n = Suc m" "fuel_of x \<le> m" "sum_list (map (\<lambda>x. Suc (fuel_of x)) (y # ys)) \<le> m"
    by (cases n) auto
  let ?rest = "CHR '','' # join_with '','' (map json_print (y # ys)) @ '']'' @ r"
  from Cons.prems(1) m(2) have "parse_value m (json_print x @ ?rest) = Some (x, ?rest)"
    by (simp add: ends_number_def is_digit_def)
  from parse_items_step [OF this refl] m(1)
  have "parse_items n (json_print x @ ?rest) =
      map_option (\<lambda>(xs, r). (x # xs, r)) (parse_items m (join_with '','' (map json_print (y # ys)) @ '']'' @ r))"
    by (simp add: is_json_space_def)
  moreover have "parse_items m (join_with '','' (map json_print (y # ys)) @ '']'' @ r) = Some (y # ys, r)"
    using Cons.prems(1) m(3) by (intro Cons.IH) auto
  ultimately show ?case by simp
qed

abbreviation print_member :: "string \<times> json \<Rightarrow> string" where
  "print_member \<equiv> (\<lambda>(k, v). json_quote k @ '':'' @ json_print v)"

lemma parse_members_print:
  assumes "\<forall>(k, v) \<in> set (x # xs). whole v \<and> reads_back v" "sum_list (map (\<lambda>(k, v). Suc (fuel_of v)) (x # xs)) \<le> n"
  shows "parse_members n (join_with '','' (map print_member (x # xs)) @ CHR 0x7D # r) = Some (x # xs, r)"
  using assms
proof (induction xs arbitrary: x n)
  case Nil
  obtain k v where x: "x = (k, v)" by fastforce
  with Nil obtain m where "n = Suc m" "fuel_of v \<le> m" by (cases n) auto
  moreover from this Nil x have "parse_value m (json_print v @ CHR 0x7D # r) = Some (v, CHR 0x7D # r)"
    by (simp add: ends_number_def is_digit_def)
  ultimately show ?case
    using Nil x parse_members_step [of m v "CHR 0x7D # r" "CHR 0x7D" r k] by (simp add: is_json_space_def)
next
  case (Cons y ys)
  obtain k v where x: "x = (k, v)" by fastforce
  with Cons obtain m where m: "n = Suc m" "fuel_of v \<le> m" "sum_list (map (\<lambda>(k, v). Suc (fuel_of v)) (y # ys)) \<le> m"
    by (cases n) auto
  let ?rest = "CHR '','' # join_with '','' (map print_member (y # ys)) @ CHR 0x7D # r"
  from Cons.prems(1) m(2) x have v: "parse_value m (json_print v @ ?rest) = Some (v, ?rest)" "whole v"
    by (simp_all add: ends_number_def is_digit_def)
  from parse_members_step [OF v refl] m(1)
  have "parse_members n (json_quote k @ '':'' @ json_print v @ ?rest) =
      map_option (\<lambda>(xs, r). ((k, v) # xs, r)) (parse_members m (join_with '','' (map print_member (y # ys)) @ CHR 0x7D # r))"
    by (simp add: is_json_space_def)
  moreover have "parse_members m (join_with '','' (map print_member (y # ys)) @ CHR 0x7D # r) = Some (y # ys, r)"
    using Cons.prems(1) m(3) by (intro Cons.IH) auto
  ultimately show ?case by (simp add: x)
qed

lemma join_start: "join_with sep (map f (x # xs)) = f x @ (if xs = [] then [] else sep @ join_with sep (map f xs))"
  by (cases xs) simp_all

lemma reads_back: "whole j \<Longrightarrow> reads_back j"
proof (induction j)
  case (JArr xs)
  show ?case
  proof (intro allI impI)
    fix n r assume n: "fuel_of (JArr xs) \<le> n"
    then obtain m where m: "n = Suc m" by (cases n) auto
    show "parse_value n (json_print (JArr xs) @ r) = Some (JArr xs, r)"
    proof (cases xs)
      case Nil
      with m show ?thesis by (simp add: skip_space_hd is_json_space_def has_prefix_def)
    next
      case (Cons y ys)
      let ?body = "join_with '','' (map json_print (y # ys)) @ '']'' @ r"
      have "whole y" using JArr.prems Cons by simp
      then obtain c t where c: "json_print y = c # t" "\<not> is_json_space c" "c \<noteq> CHR '']''"
        using print_start by blast
      then have "skip_space ?body = ?body" "\<not> has_prefix ?body '']''"
        unfolding join_start by (simp_all add: skip_space_hd has_prefix_def)
      moreover have "parse_items m ?body = Some (y # ys, r)"
        using JArr n m Cons by (intro parse_items_print) (auto simp: list_all_iff)
      ultimately show ?thesis using m Cons by (simp add: skip_space_hd is_json_space_def)
    qed
  qed
next
  case (JObj kvs)
  show ?case
  proof (intro allI impI)
    fix n r assume n: "fuel_of (JObj kvs) \<le> n"
    then obtain m where m: "n = Suc m" by (cases n) auto
    show "parse_value n (json_print (JObj kvs) @ r) = Some (JObj kvs, r)"
    proof (cases kvs)
      case Nil
      with m show ?thesis by (simp add: skip_space_hd is_json_space_def has_prefix_def)
    next
      case (Cons y ys)
      let ?body = "join_with '','' (map print_member (y # ys)) @ CHR 0x7D # r"
      have "skip_space ?body = ?body" "\<not> has_prefix ?body [CHR 0x7D]"
        unfolding join_start by (cases y; simp add: json_quote_def skip_space_hd is_json_space_def has_prefix_def)+
      moreover have "parse_members m ?body = Some (y # ys, r)"
        using JObj n m Cons by (intro parse_members_print) (fastforce simp: list_all_iff)+
      ultimately show ?thesis using m Cons by (simp add: skip_space_hd is_json_space_def)
    qed
  qed
next
  case (JNum i)
  show ?case
  proof (intro allI impI)
    fix n r assume "fuel_of (JNum i) \<le> n" and r: "ends_number r"
    then obtain m where m: "n = Suc m" by (cases n) auto
    obtain c t where c: "json_print (JNum i) = c # t" "\<not> is_json_space c"
      using print_start [of "JNum i"] by auto
    then have "c = CHR ''-'' \<or> is_digit c"
      using dec_nat_digits dec_nat_nonempty by (auto simp: dec_int_def split: if_splits) (metis list.set_intros(1))
    then have "c \<noteq> CHR 0x22" "c \<noteq> CHR ''[''" "c \<noteq> CHR 0x7B" "c \<noteq> CHR ''n''" "c \<noteq> CHR ''t''" "c \<noteq> CHR ''f''"
      by (auto simp: is_digit_def)
    with m c parse_number_print [OF r, of i] show "parse_value n (json_print (JNum i) @ r) = Some (JNum i, r)"
      by (simp add: skip_space_hd has_prefix_def)
  qed
next
  case (JStr s)
  show ?case
  proof (intro allI impI)
    fix n r assume "fuel_of (JStr s) \<le> n"
    then obtain m where "n = Suc m" by (cases n) auto
    then show "parse_value n (json_print (JStr s) @ r) = Some (JStr s, r)"
      by (simp add: json_quote_def skip_space_hd is_json_space_def unquote_escape)
  qed
next
  case JNull
  show ?case
  proof (intro allI impI)
    fix n r assume "fuel_of JNull \<le> n"
    then obtain m where "n = Suc m" by (cases n) auto
    then show "parse_value n (json_print JNull @ r) = Some (JNull, r)"
      by (simp add: skip_space_hd is_json_space_def has_prefix_def)
  qed
next
  case (JBool b)
  show ?case
  proof (intro allI impI)
    fix n r assume "fuel_of (JBool b) \<le> n"
    then obtain m where "n = Suc m" by (cases n) auto
    then show "parse_value n (json_print (JBool b) @ r) = Some (JBool b, r)"
      by (simp add: skip_space_hd is_json_space_def has_prefix_def)
  qed
qed simp

lemma fuel_le_length: "whole j \<Longrightarrow> fuel_of j \<le> length (json_print j)"
proof (induction j)
  case (JArr xs)
  have "sum_list (map (\<lambda>x. Suc (fuel_of x)) ys) \<le> Suc (length (join_with '','' (map json_print ys)))"
    if "set ys \<subseteq> set xs" for ys
    using that
  proof (induction ys)
    case (Cons y ys)
    then have "fuel_of y \<le> length (json_print y)" using JArr by (auto simp: list_all_iff)
    with Cons show ?case by (simp only: join_start) auto
  qed simp
  from this [of xs] show ?case by simp
next
  case (JObj kvs)
  have "sum_list (map (\<lambda>(k, v). Suc (fuel_of v)) ys) \<le> length (join_with '','' (map print_member ys))"
    if "set ys \<subseteq> set kvs" for ys
    using that
  proof (induction ys)
    case (Cons y ys)
    obtain k v where y: "y = (k, v)" by fastforce
    then have "fuel_of v \<le> length (json_print v)" using JObj Cons.prems by (fastforce simp: list_all_iff)
    with Cons y show ?case by (simp only: join_start) (auto simp: json_quote_def)
  qed simp
  from this [of kvs] show ?case by simp
next
  case (JNum i)
  show ?case using print_start [of "JNum i"] by auto
qed (auto simp: json_quote_def)

lemma parse_print: "whole j \<Longrightarrow> json_parse (json_print j) = Some j"
proof -
  assume w: "whole j"
  have "parse_value (Suc (length (json_print j))) (json_print j @ []) = Some (j, [])"
    using reads_back [OF w] fuel_le_length [OF w] by (simp add: ends_number_def del: parse_value.simps)
  then show ?thesis by (simp add: json_parse_def skip_space_def del: parse_value.simps)
qed

lemma text_of_print: "whole j \<Longrightarrow> text_of (json_print j) = to_text j"
  by (simp add: text_of_def to_text_def parse_print)

end
