(* ===== verification/Captcha.thy ===== *)
theory Captcha
  imports JsonText NetText
begin

text \<open>
  The signed arithmetic challenge of the public forms (\<open>internal/service/captcha/captcha.go\<close>). The token
  carries the challenge and its expiry as base64url of a JSON document, and the MAC of that document; no
  state is kept on the server. HMAC-SHA-256 under the configured secret is the argument \<open>mac\<close>: nothing
  below depends on which function it is. What \<open>rand.IntN\<close> drew and the clock are arguments too.
\<close>

section \<open>base64.RawURLEncoding\<close>

definition b64_digit :: "nat \<Rightarrow> char" where
  "b64_digit n =
     (if n < 26 then char_of (65 + n) else if n < 52 then char_of (71 + n) else if n < 62 then char_of (n - 4)
      else if n = 62 then CHR ''-'' else CHR ''_'')"

definition b64_value :: "char \<Rightarrow> nat option" where
  "b64_value c =
     (let n = code_of c in
      if 65 \<le> n \<and> n \<le> 90 then Some (n - 65) else if 97 \<le> n \<and> n \<le> 122 then Some (n - 71)
      else if 48 \<le> n \<and> n \<le> 57 then Some (n + 4)
      else if n = 45 then Some 62 else if n = 95 then Some 63 else None)"

fun b64_encode :: "string \<Rightarrow> string" where
  "b64_encode [] = []"
| "b64_encode [a] = [b64_digit (code_of a div 4), b64_digit (code_of a mod 4 * 16)]"
| "b64_encode [a, b] =
     [b64_digit (code_of a div 4), b64_digit (code_of a mod 4 * 16 + code_of b div 16), b64_digit (code_of b mod 16 * 4)]"
| "b64_encode (a # b # c # s) =
     b64_digit (code_of a div 4) # b64_digit (code_of a mod 4 * 16 + code_of b div 16) #
     b64_digit (code_of b mod 16 * 4 + code_of c div 64) # b64_digit (code_of c mod 64) # b64_encode s"

text \<open>The decoder skips line breaks, and ignores the bits a last digit has too many.\<close>

fun b64_bytes :: "nat list \<Rightarrow> string option" where
  "b64_bytes [] = Some []"
| "b64_bytes [w] = None"
| "b64_bytes [w, x] = Some [char_of (w * 4 + x div 16)]"
| "b64_bytes [w, x, y] = Some [char_of (w * 4 + x div 16), char_of (x mod 16 * 16 + y div 4)]"
| "b64_bytes (w # x # y # z # s) =
     map_option (\<lambda>t. char_of (w * 4 + x div 16) # char_of (x mod 16 * 16 + y div 4) # char_of (y mod 4 * 64 + z) # t)
       (b64_bytes s)"

definition b64_decode :: "string \<Rightarrow> string option" where
  "b64_decode s =
     (let ds = map b64_value (filter (\<lambda>c. c \<noteq> CHR 0x0A \<and> c \<noteq> CHR 0x0D) s) in
      if list_all (\<lambda>d. d \<noteq> None) ds then b64_bytes (map the ds) else None)"

lemma b64_value_digit: "n < 64 \<Longrightarrow> b64_value (b64_digit n) = Some n"
  by (auto simp: b64_value_def b64_digit_def Let_def)

lemma b64_digit_no_break: "n < 64 \<Longrightarrow> b64_digit n \<noteq> CHR 0x0A \<and> b64_digit n \<noteq> CHR 0x0D \<and> b64_digit n \<noteq> CHR ''.''"
proof -
  assume "n < 64"
  from b64_value_digit [OF this] show ?thesis by (auto simp: b64_value_def)
qed

text \<open>The digits of an encoding.\<close>

fun b64_digits :: "string \<Rightarrow> nat list" where
  "b64_digits [] = []"
| "b64_digits [a] = [code_of a div 4, code_of a mod 4 * 16]"
| "b64_digits [a, b] = [code_of a div 4, code_of a mod 4 * 16 + code_of b div 16, code_of b mod 16 * 4]"
| "b64_digits (a # b # c # s) =
     code_of a div 4 # (code_of a mod 4 * 16 + code_of b div 16) # (code_of b mod 16 * 4 + code_of c div 64) #
     code_of c mod 64 # b64_digits s"

lemma b64_encode_digits: "b64_encode s = map b64_digit (b64_digits s)"
  by (induction s rule: b64_encode.induct) auto

lemma byte_parts:
  "code_of (c :: char) div 4 < 64" "code_of c div 16 < 16" "code_of c div 64 < 4"
proof -
  have "code_of c < 256" by simp
  then show "code_of c div 4 < 64" "code_of c div 16 < 16" "code_of c div 64 < 4" by linarith+
qed

lemma digit_parts:
  "y < 16 \<Longrightarrow> x mod 4 * 16 + y < (64 :: nat)" "y < 4 \<Longrightarrow> x mod 16 * 4 + y < (64 :: nat)"
  "x mod 4 * 16 < (64 :: nat)" "x mod 16 * 4 < (64 :: nat)" "x mod 64 < (64 :: nat)"
proof -
  have "x mod 4 < 4" "x mod 16 < 16" by simp_all
  then show "y < 16 \<Longrightarrow> x mod 4 * 16 + y < (64 :: nat)" "y < 4 \<Longrightarrow> x mod 16 * 4 + y < (64 :: nat)"
    "x mod 4 * 16 < (64 :: nat)" "x mod 16 * 4 < (64 :: nat)" by linarith+
qed simp

lemma b64_digits_bound: "d \<in> set (b64_digits s) \<Longrightarrow> d < 64"
  by (induction s rule: b64_digits.induct) (auto simp only: b64_digits.simps set_simps intro: byte_parts digit_parts)

lemma b64_bytes_digits: "b64_bytes (b64_digits s) = Some s"
proof (induction s rule: b64_digits.induct)
  case (2 a)
  have "code_of a div 4 * 4 + code_of a mod 4 * 16 div 16 = code_of a" by simp
  then show ?case by (simp del: of_char_eq_iff)
next
  case (3 a b)
  from byte_parts(2) [of b] have "code_of a div 4 * 4 + (code_of a mod 4 * 16 + code_of b div 16) div 16 = code_of a"
    "(code_of a mod 4 * 16 + code_of b div 16) mod 16 * 16 + code_of b mod 16 * 4 div 4 = code_of b"
    by simp_all
  then show ?case by (simp only: b64_digits.simps b64_bytes.simps char_of_char)
next
  case (4 a b c s)
  from byte_parts(2) [of b] byte_parts(3) [of c] have "code_of a div 4 * 4 + (code_of a mod 4 * 16 + code_of b div 16) div 16 = code_of a"
    "(code_of a mod 4 * 16 + code_of b div 16) mod 16 * 16 + (code_of b mod 16 * 4 + code_of c div 64) div 4 = code_of b"
    "(code_of b mod 16 * 4 + code_of c div 64) mod 4 * 64 + code_of c mod 64 = code_of c"
    by simp_all
  with 4 show ?case by (simp only: b64_digits.simps b64_bytes.simps char_of_char option.map)
qed simp

lemma b64_roundtrip: "b64_decode (b64_encode s) = Some s"
proof -
  have "filter (\<lambda>c. c \<noteq> CHR 0x0A \<and> c \<noteq> CHR 0x0D) (b64_encode s) = b64_encode s"
    using b64_digit_no_break b64_digits_bound by (auto simp: b64_encode_digits filter_id_conv)
  moreover have "map b64_value (b64_encode s) = map Some (b64_digits s)"
    using b64_value_digit b64_digits_bound by (auto simp: b64_encode_digits)
  ultimately show ?thesis by (simp add: b64_decode_def Let_def list_all_iff b64_bytes_digits comp_def)
qed

lemma b64_no_dot: "CHR ''.'' \<notin> set (b64_encode s)"
  using b64_digit_no_break b64_digits_bound by (fastforce simp: b64_encode_digits)

section \<open>Challenges and tokens\<close>

definition captcha_max :: int where "captcha_max = 10"

text \<open>\<open>TTL\<close>, in seconds: 25 hours.\<close>

definition captcha_ttl :: int where "captcha_ttl = 25 * 60 * 60"

record challenge =
  ch_a :: int
  ch_b :: int
  ch_op :: string
  ch_question :: string

record captcha_payload =
  pl_a :: int
  pl_b :: int
  pl_op :: string
  pl_exp :: int

definition payload_json :: "captcha_payload \<Rightarrow> json" where
  "payload_json p = JObj [(''a'', JNum (pl_a p)), (''b'', JNum (pl_b p)), (''op'', JStr (pl_op p)), (''exp'', JNum (pl_exp p))]"

text \<open>\<open>json.Unmarshal\<close> into the payload: every field is set by the last key that matches it.\<close>

definition put_payload :: "json \<Rightarrow> captcha_payload option" where
  "put_payload j =
     (case (struct1 put_int ''a'' 0 j, struct1 put_int ''b'' 0 j, struct1 put_string ''op'' [] j, struct1 put_int ''exp'' 0 j) of
        (Some a, Some b, Some op, Some e) \<Rightarrow> Some \<lparr>pl_a = a, pl_b = b, pl_op = op, pl_exp = e\<rparr>
      | _ \<Rightarrow> None)"

definition sign_payload :: "(string \<Rightarrow> string) \<Rightarrow> captcha_payload \<Rightarrow> string" where
  "sign_payload mac p =
     (let body = json_print (payload_json p) in b64_encode body @ ''.'' @ b64_encode (mac body))"

definition verify_payload :: "(string \<Rightarrow> string) \<Rightarrow> int \<Rightarrow> string \<Rightarrow> captcha_payload option" where
  "verify_payload mac now token =
     (case cut_char (CHR ''.'') token of (body, sig, found) \<Rightarrow>
        if \<not> found then None
        else (case b64_decode body of
           None \<Rightarrow> None
         | Some text \<Rightarrow> (case b64_decode sig of
             None \<Rightarrow> None
           | Some want \<Rightarrow>
               if mac text \<noteq> want then None
               else (case unmarshal put_payload (Some (text_of text)) of
                  Inl _ \<Rightarrow> None
                | Inr p \<Rightarrow> if pl_exp p \<le> now then None else Some p))))"

text \<open>
  \<open>IssueChallenge\<close>: \<open>coin\<close>, \<open>r1\<close> and \<open>r2\<close> are the three draws; the code takes them modulo the bounds it
  passes to \<open>rand.IntN\<close>.
\<close>

definition issue_challenge :: "(string \<Rightarrow> string) \<Rightarrow> int \<Rightarrow> int \<Rightarrow> nat \<Rightarrow> nat \<Rightarrow> nat \<Rightarrow> challenge \<times> string" where
  "issue_challenge mac ttl now coin r1 r2 =
     (let plus = (coin mod 2 = 0);
          a = int (r1 mod 11);
          b = (if plus then int r2 mod (captcha_max - a + 1) else int r2 mod (a + 1));
          op = (if plus then ''+'' else ''-'')
      in (\<lparr>ch_a = a, ch_b = b, ch_op = op, ch_question = dec_int a @ '' '' @ op @ '' '' @ dec_int b @ '' =''\<rparr>,
          sign_payload mac \<lparr>pl_a = a, pl_b = b, pl_op = op, pl_exp = now + ttl\<rparr>))"

definition captcha_expected :: "(string \<Rightarrow> string) \<Rightarrow> int \<Rightarrow> string \<Rightarrow> int option" where
  "captcha_expected mac now token =
     (case verify_payload mac now token of
        None \<Rightarrow> None
      | Some p \<Rightarrow>
          if pl_a p < 0 \<or> captcha_max < pl_a p \<or> pl_b p < 0 \<or> captcha_max < pl_b p then None
          else if pl_op p \<noteq> ''+'' \<and> pl_op p \<noteq> ''-'' then None
          else let e = (if pl_op p = ''+'' then pl_a p + pl_b p else pl_a p - pl_b p)
               in if e < 0 \<or> captcha_max < e then None else Some e)"

definition captcha_verify :: "(string \<Rightarrow> string) \<Rightarrow> int \<Rightarrow> string \<Rightarrow> string \<Rightarrow> bool" where
  "captcha_verify mac now token answer =
     (case captcha_expected mac now token of
        None \<Rightarrow> False
      | Some e \<Rightarrow> (case parse_int64 (trim_space answer) of None \<Rightarrow> False | Some n \<Rightarrow> n = e))"

section \<open>Issuing and verifying\<close>

lemma put_payload_json:
  assumes "in_int64 (pl_a p)" "in_int64 (pl_b p)" "in_int64 (pl_exp p)"
  shows "put_payload (payload_json p) = Some p"
  using assms by (simp add: put_payload_def payload_json_def struct1_def field_match_def ascii_lower_def)

lemma verify_signed:
  assumes "in_int64 (pl_a p)" "in_int64 (pl_b p)" "in_int64 (pl_exp p)"
  shows "verify_payload mac now (sign_payload mac p) = (if pl_exp p \<le> now then None else Some p)"
proof -
  have "whole (payload_json p)" by (simp add: payload_json_def)
  moreover have "cut_char (CHR ''.'') (b64_encode x @ CHR ''.'' # y) = (b64_encode x, y, True)" for x y
    using b64_no_dot by (rule cut_char_found)
  ultimately show ?thesis
    using put_payload_json [OF assms]
    by (simp add: verify_payload_def sign_payload_def Let_def b64_roundtrip unmarshal_def text_of_print)
qed

lemma draw_bound: "0 \<le> k \<Longrightarrow> 0 \<le> n mod (k + 1) \<and> n mod (k + 1) \<le> (k :: int)"
  using pos_mod_bound [of "k + 1" n] by simp

lemma expected_issued:
  assumes "issue_challenge mac ttl issued coin r1 r2 = (c, token)" "in_int64 (issued + ttl)"
    and "answer_of = (if ch_op c = ''+'' then ch_a c + ch_b c else ch_a c - ch_b c)"
  shows "captcha_expected mac now token = (if issued + ttl \<le> now then None else Some answer_of) \<and>
    0 \<le> answer_of \<and> answer_of \<le> captcha_max \<and>
    ch_question c = dec_int (ch_a c) @ '' '' @ ch_op c @ '' '' @ dec_int (ch_b c) @ '' =''"
proof -
  define p where "p = \<lparr>pl_a = ch_a c, pl_b = ch_b c, pl_op = ch_op c, pl_exp = issued + ttl\<rparr>"
  let ?a = "int (r1 mod 11)"
  have f: "ch_a c = ?a \<and> ch_b c = (if coin mod 2 = 0 then int r2 mod (captcha_max - ?a + 1) else int r2 mod (?a + 1)) \<and>
      ch_op c = (if coin mod 2 = 0 then ''+'' else ''-'') \<and> token = sign_payload mac p \<and>
      ch_question c = dec_int (ch_a c) @ '' '' @ ch_op c @ '' '' @ dec_int (ch_b c) @ '' =''"
    using assms(1) unfolding issue_challenge_def Let_def p_def by (elim Pair_inject) (drule sym, drule sym, simp)
  then have a: "0 \<le> ch_a c" "ch_a c \<le> 10" and t: "token = sign_payload mac p"
    and q: "ch_question c = dec_int (ch_a c) @ '' '' @ ch_op c @ '' '' @ dec_int (ch_b c) @ '' =''"
    and op: "ch_op c = ''+'' \<or> ch_op c = ''-''"
    by (auto simp del: of_nat_mod)
  have b: "0 \<le> ch_b c" "ch_b c \<le> (if ch_op c = ''+'' then 10 - ch_a c else ch_a c)"
    using f a draw_bound [of "10 - ch_a c" "int r2"] draw_bound [of "ch_a c" "int r2"]
    by (simp_all add: captcha_max_def split: if_splits)
  then have e: "0 \<le> answer_of" "answer_of \<le> 10" and "ch_b c \<le> 10"
    using a assms(3) by (auto split: if_splits)
  moreover from this a b have "in_int64 (pl_a p)" "in_int64 (pl_b p)" "in_int64 (pl_exp p)"
    using assms(2) by (simp_all add: p_def in_int64_def)
  then have "captcha_expected mac now token = (if issued + ttl \<le> now then None else Some answer_of)"
    using a b op e \<open>ch_b c \<le> 10\<close> assms(3)
    by (auto simp: captcha_expected_def t verify_signed p_def captcha_max_def)
  ultimately show ?thesis
    using q by (auto simp: captcha_max_def)
qed

text \<open>
  C39: The challenge works without server state. Whatever the MAC and the random draws, the token a form
  was issued with verifies exactly the answers that read, after trimming, as the number the question asks for,
  as long as less than the lifetime has passed since it was issued; that number lies between 0 and 10, and from
  the expiry on no answer verifies.
\<close>

theorem captcha_roundtrip:
  assumes "issue_challenge mac ttl issued coin r1 r2 = (c, token)" "in_int64 (issued + ttl)"
    and "answer_of = (if ch_op c = ''+'' then ch_a c + ch_b c else ch_a c - ch_b c)"
  shows "(captcha_verify mac now token answer \<longleftrightarrow> now < issued + ttl \<and> parse_int64 (trim_space answer) = Some answer_of) \<and>
    0 \<le> answer_of \<and> answer_of \<le> captcha_max \<and>
    ch_question c = dec_int (ch_a c) @ '' '' @ ch_op c @ '' '' @ dec_int (ch_b c) @ '' =''"
  using expected_issued [OF assms] by (auto simp: captcha_verify_def split: option.splits)

theorem captcha_roundtrip_witness:
  "captcha_verify rev (1000 + captcha_ttl - 1) (snd (issue_challenge rev captcha_ttl 1000 1 7 4)) '' 3 '' \<and>
   \<not> captcha_verify rev (1000 + captcha_ttl) (snd (issue_challenge rev captcha_ttl 1000 1 7 4)) ''3''"
proof -
  obtain c token where c: "issue_challenge rev captcha_ttl 1000 1 7 4 = (c, token)" by fastforce
  then have "(if ch_op c = ''+'' then ch_a c + ch_b c else ch_a c - ch_b c) = 3"
    by (auto simp: issue_challenge_def Let_def)
  moreover have "in_int64 (1000 + captcha_ttl)" "parse_int64 (trim_space '' 3 '') = Some 3" by code_simp+
  ultimately show ?thesis
    using captcha_roundtrip [OF c, of 3 "1000 + captcha_ttl - 1" "'' 3 ''"] captcha_roundtrip [OF c, of 3 "1000 + captcha_ttl" "''3''"]
    unfolding c by simp
qed

end
