(* ===== verification/Paging.thy ===== *)
theory Paging
  imports Tables GoText
begin

text \<open>
  The paging the list pages share: the page number of the query (\<open>?page=\<close>), \<open>LIMIT\<close> and \<open>OFFSET\<close>, and the
  number of pages. The bound on page numbers is that of \<open>internal/httpd/articles_admin.go\<close>.
\<close>

definition max_admin_page_number :: int where "max_admin_page_number = (2 ^ 63 - 1) div 100"

text \<open>\<open>strconv.Atoi\<close> of the parameter; \<open>None\<close>: the page is a 404.\<close>

definition admin_page_param :: "string \<Rightarrow> int option" where
  "admin_page_param raw_value =
     (if raw_value = '''' then Some 1
      else (case parse_int64 raw_value of
              None \<Rightarrow> None
            | Some n \<Rightarrow> if n < 1 \<or> max_admin_page_number < n then None else Some n))"

definition page_of_rows :: "nat \<Rightarrow> int \<Rightarrow> 'r list \<Rightarrow> 'r list" where
  "page_of_rows limit offset rs = take limit (drop (nat offset) rs)"

definition page_offset :: "nat \<Rightarrow> int \<Rightarrow> int" where
  "page_offset per_page n = (n - 1) * int per_page"

definition page_count :: "nat \<Rightarrow> nat \<Rightarrow> nat" where
  "page_count per_page rows = (rows + per_page - 1) div per_page"

lemma concat_pages:
  assumes "0 < n"
  shows "concat (map (\<lambda>k. take n (drop (k * n) rs)) [0..<m]) = take (m * n) rs"
proof (induction m)
  case (Suc m)
  have "take (m * n + n) rs = take (m * n) rs @ take n (drop (m * n) rs)" by (rule take_add)
  with Suc show ?case by (simp add: add.commute)
qed simp

lemma page_count_enough:
  assumes "0 < n"
  shows "t \<le> page_count n t * n"
proof -
  have "t + n - 1 = page_count n t * n + (t + n - 1) mod n" unfolding page_count_def by simp
  moreover have "(t + n - 1) mod n \<le> n - 1" using assms by (simp add: Suc_leI less_Suc_eq_le [symmetric])
  ultimately show ?thesis using assms by linarith
qed

text \<open>
  Every row is on one page. For every page size, the pages 1 to \<open>page_count\<close> of a list, in this order,
  are the list: no row is lost and none is shown twice. Every page number the parameter admits is at least 1, and for page sizes up to
  100 its offset fits into 64 bits.
\<close>

theorem pages_partition:
  assumes "0 < per_page"
  shows "concat (map (\<lambda>k. page_of_rows per_page (page_offset per_page (int k + 1)) rs) [0..<page_count per_page (length rs)]) = rs \<and>
    (\<forall>raw_value n. admin_page_param raw_value = Some n \<longrightarrow> per_page \<le> 100 \<longrightarrow>
       0 \<le> page_offset per_page n \<and> page_offset per_page n < 2 ^ 63)"
proof
  let ?m = "page_count per_page (length rs)"
  have "page_of_rows per_page (page_offset per_page (int k + 1)) rs = take per_page (drop (k * per_page) rs)" for k
    by (simp add: page_of_rows_def page_offset_def nat_mult_distrib)
  then show "concat (map (\<lambda>k. page_of_rows per_page (page_offset per_page (int k + 1)) rs) [0..<?m]) = rs"
    using page_count_enough [OF assms, of "length rs"] by (simp add: concat_pages [OF assms])
  show "\<forall>raw_value n. admin_page_param raw_value = Some n \<longrightarrow> per_page \<le> 100 \<longrightarrow>
       0 \<le> page_offset per_page n \<and> page_offset per_page n < 2 ^ 63"
  proof (intro allI impI)
    fix raw_value n assume "admin_page_param raw_value = Some n" and p: "per_page \<le> 100"
    then have n: "1 \<le> n" "n \<le> max_admin_page_number"
      by (auto simp: admin_page_param_def max_admin_page_number_def split: if_splits option.splits)
    then have "(n - 1) * int per_page \<le> (max_admin_page_number - 1) * 100"
      using p by (intro mult_mono) auto
    also have "\<dots> < 2 ^ 63" by (simp add: max_admin_page_number_def)
    finally show "0 \<le> page_offset per_page n \<and> page_offset per_page n < 2 ^ 63"
      using n by (simp add: page_offset_def)
  qed
qed

theorem pages_partition_witness:
  "concat (map (\<lambda>k. page_of_rows 3 (page_offset 3 (int k + 1)) (replicate 7 True)) [0..<page_count 3 (length (replicate 7 True))]) =
     replicate 7 True \<and> page_count 3 7 = 3"
  using pages_partition [of 3 "replicate 7 True"] by (simp add: page_count_def)

end
