(* ===== verification/Comments.thy ===== *)
theory Comments
  imports CommentTree Captcha Paging
begin

text \<open>
  Comments as rows: the statements of \<open>internal/db/query/comments.sql.go\<close> with the constraints of the
  table (migrations 0001: two unique indexes on external comments, the parent with ON DELETE CASCADE), and
  the rest of \<open>internal/service/comments/comments.go\<close>: validation, the upsert of comments fetched from a
  platform, and the notification of a reply. \<open>parse\<close> is \<open>url.Parse\<close>, \<open>efold\<close> Go's case folding outside ASCII.
\<close>

section \<open>Statements\<close>

abbreviation on_comments :: "(comment list \<Rightarrow> comment list) \<Rightarrow> database \<Rightarrow> database" where
  "on_comments f d \<equiv> d\<lparr>comments := f (comments d)\<rparr>"

definition get_comment_by_id :: "int \<Rightarrow> comment db_act" where
  "get_comment_by_id i = query_row (\<lambda>d. by_id c_id i (comments d))"

definition get_commentable_article_by_id :: "int \<Rightarrow> article db_act" where
  "get_commentable_article_by_id i = query_row (\<lambda>d. by_id a_id i (articles d))"

definition get_commentable_article_by_slug :: "string \<Rightarrow> article db_act" where
  "get_commentable_article_by_slug slug = query_row (\<lambda>d. find (\<lambda>a. a_slug a = Some slug) (articles d))"

definition get_commentable_page_by_id :: "int \<Rightarrow> page db_act" where
  "get_commentable_page_by_id i = query_row (\<lambda>d. by_id p_id i (pages d))"

definition get_commentable_page_by_slug :: "string \<Rightarrow> page db_act" where
  "get_commentable_page_by_slug slug = query_row (\<lambda>d. find (\<lambda>p. p_slug p = Some slug) (pages d))"

text \<open>An equality with NULL on either side matches nothing.\<close>

definition sql_eq :: "'a option \<Rightarrow> 'a option \<Rightarrow> bool" where
  "sql_eq x y = (x \<noteq> None \<and> x = y)"

definition external_match :: "string option \<Rightarrow> int option \<Rightarrow> string option \<Rightarrow> string option \<Rightarrow> comment \<Rightarrow> bool" where
  "external_match ty i platform ext c =
     (sql_eq (c_commentable_type c) ty \<and> sql_eq (c_commentable_id c) i \<and>
      sql_eq (c_platform c) platform \<and> sql_eq (c_external_id c) ext)"

definition get_external_comment :: "string option \<Rightarrow> int option \<Rightarrow> string option \<Rightarrow> string option \<Rightarrow> comment db_act" where
  "get_external_comment ty i platform ext = query_row (\<lambda>d. find (external_match ty i platform ext) (comments d))"

text \<open>The two unique indexes, and the foreign keys (checked after the row is in the table).\<close>

definition same_external :: "comment \<Rightarrow> comment \<Rightarrow> bool" where
  "same_external c r = external_match (c_commentable_type c) (c_commentable_id c) (c_platform c) (c_external_id c) r"

definition same_article_external :: "comment \<Rightarrow> comment \<Rightarrow> bool" where
  "same_article_external c r =
     (sql_eq (c_article_id r) (c_article_id c) \<and> sql_eq (c_platform r) (c_platform c) \<and>
      sql_eq (c_external_id r) (c_external_id c))"

definition refers :: "('r \<Rightarrow> int) \<Rightarrow> int option \<Rightarrow> 'r list \<Rightarrow> bool" where
  "refers rid ref rs = (case ref of None \<Rightarrow> True | Some i \<Rightarrow> by_id rid i rs \<noteq> None)"

definition insert_comment :: "comment \<Rightarrow> database \<Rightarrow> err + database \<times> comment" where
  "insert_comment c d =
     (let (cs, c') = insert_row c_id (\<lambda>i r. r\<lparr>c_id := i\<rparr>) c (comments d) in
      if list_ex (same_article_external c) (comments d)
      then Inl (ErrUnique ''comments.article_id, comments.platform, comments.external_id'')
      else if list_ex (same_external c) (comments d)
      then Inl (ErrUnique ''comments.commentable_type, comments.commentable_id, comments.platform, comments.external_id'')
      else if \<not> refers a_id (c_article_id c) (articles d) \<or> \<not> refers c_id (c_parent_id c) cs then Inl fk_error
      else Inr (d\<lparr>comments := cs\<rparr>, c'))"

definition create_comment_row :: "comment \<Rightarrow> comment db_act" where
  "create_comment_row c = exec (insert_comment c)"

text \<open>
  \<open>DeleteComment\<close>: the row, and by ON DELETE CASCADE the rows below it. \<open>doomed\<close> follows the parent ids
  as many steps as there are rows.
\<close>

definition with_answers :: "comment list \<Rightarrow> int set \<Rightarrow> int set" where
  "with_answers cs ids = ids \<union> set (map c_id (filter (\<lambda>c. case c_parent_id c of None \<Rightarrow> False | Some p \<Rightarrow> p \<in> ids) cs))"

fun doomed :: "nat \<Rightarrow> comment list \<Rightarrow> int set \<Rightarrow> int set" where
  "doomed 0 cs ids = ids"
| "doomed (Suc n) cs ids = doomed n cs (with_answers cs ids)"

definition cascade :: "int \<Rightarrow> comment list \<Rightarrow> comment list" where
  "cascade i cs =
     (if by_id c_id i cs = None then cs
      else let ds = doomed (length cs) cs {i} in delete_where (\<lambda>c. c_id c \<in> ds) cs)"

definition delete_comment :: "int \<Rightarrow> unit db_act" where
  "delete_comment i = modify (on_comments (cascade i))"

definition update_comment_status :: "int \<Rightarrow> int \<Rightarrow> int \<Rightarrow> comment db_act" where
  "update_comment_status st now i =
     exec (\<lambda>d. let cs = update_where (\<lambda>c. c_id c = i) (\<lambda>c. c\<lparr>c_status := st, c_updated_at := now\<rparr>) (comments d) in
       case by_id c_id i cs of None \<Rightarrow> Inl ErrNoRows | Some c \<Rightarrow> Inr (d\<lparr>comments := cs\<rparr>, c))"

text \<open>The payload of a fetched comment, and the update of its columns; the status is not among them.\<close>

record external_data =
  xd_external_id :: string
  xd_author_name :: string
  xd_author_username :: string
  xd_author_avatar_url :: string
  xd_content :: string
  xd_url :: string
  xd_published_at :: int

definition null_text :: "string \<Rightarrow> string option" where
  "null_text s = (if s = '''' then None else Some s)"

definition published_of :: "external_data \<Rightarrow> int option" where
  "published_of x = (if xd_published_at x = 0 then None else Some (xd_published_at x))"

definition refetched :: "external_data \<Rightarrow> int \<Rightarrow> comment \<Rightarrow> comment" where
  "refetched x now c =
     c\<lparr>c_author_name := xd_author_name x, c_author_username := null_text (xd_author_username x),
       c_author_avatar_url := null_text (xd_author_avatar_url x), c_content := xd_content x,
       c_published_at := published_of x, c_url := null_text (xd_url x), c_updated_at := now\<rparr>"

definition update_external_comment :: "external_data \<Rightarrow> int \<Rightarrow> int \<Rightarrow> comment db_act" where
  "update_external_comment x now i =
     exec (\<lambda>d. let cs = update_where (\<lambda>c. c_id c = i) (refetched x now) (comments d) in
       case by_id c_id i cs of None \<Rightarrow> Inl ErrNoRows | Some c \<Rightarrow> Inr (d\<lparr>comments := cs\<rparr>, c))"

definition of_commentable :: "string option \<Rightarrow> int option \<Rightarrow> comment \<Rightarrow> bool" where
  "of_commentable ty i c = (sql_eq (c_commentable_type c) ty \<and> sql_eq (c_commentable_id c) i)"

definition list_comments_for_commentable :: "string option \<Rightarrow> int option \<Rightarrow> comment list db_act" where
  "list_comments_for_commentable ty i =
     query (\<lambda>d. sort_key c_published_at (filter (of_commentable ty i) (comments d)))"

text \<open>The admin lists: a filter of -1 keeps every status; rows by their date, then by id.\<close>

definition status_filter :: "int \<Rightarrow> comment \<Rightarrow> bool" where
  "status_filter st c = (st = - 1 \<or> c_status c = st)"

definition date_of :: "comment \<Rightarrow> int" where
  "date_of c = (case c_published_at c of Some t \<Rightarrow> t | None \<Rightarrow> c_created_at c)"

definition by_date :: "comment list \<Rightarrow> comment list" where
  "by_date cs = sort_key date_of (sort_key c_id cs)"

definition list_comments_date_asc :: "int \<Rightarrow> nat \<Rightarrow> int \<Rightarrow> comment list db_act" where
  "list_comments_date_asc st limit offset =
     query (\<lambda>d. page_of_rows limit offset (by_date (filter (status_filter st) (comments d))))"

definition list_comments_date_desc :: "int \<Rightarrow> nat \<Rightarrow> int \<Rightarrow> comment list db_act" where
  "list_comments_date_desc st limit offset =
     query (\<lambda>d. page_of_rows limit offset (rev (by_date (filter (status_filter st) (comments d)))))"

definition count_comments_filtered :: "int \<Rightarrow> nat db_act" where
  "count_comments_filtered st = query (\<lambda>d. count_where (status_filter st) (comments d))"

definition count_comments_by_status :: "int \<Rightarrow> nat db_act" where
  "count_comments_by_status st = query (\<lambda>d. count_where (\<lambda>c. c_status c = st) (comments d))"

section \<open>Validation\<close>

definition valid_http_url :: "(string \<Rightarrow> url_parts option) \<Rightarrow> string \<Rightarrow> bool" where
  "valid_http_url parse s =
     (case parse s of
        None \<Rightarrow> False
      | Some u \<Rightarrow> (u_scheme u = ''http'' \<or> u_scheme u = ''https'') \<and> u_host u \<noteq> '''')"

text \<open>\<open>^[^@\s]+@[^@\s]+\.[^@\s]+$\<close>: one at sign, no white space, and a dot inside the domain.\<close>

definition email_char :: "char \<Rightarrow> bool" where
  "email_char c = (c \<noteq> CHR ''@'' \<and> code_of c \<notin> {9, 10, 12, 13, 32})"

definition valid_comment_email :: "string \<Rightarrow> bool" where
  "valid_comment_email s =
     (case cut_char (CHR ''@'') s of (name, host, found) \<Rightarrow>
        found \<and> name \<noteq> [] \<and> list_all email_char name \<and> list_all email_char host \<and>
        CHR ''.'' \<in> set (butlast (tl host)))"

definition given :: "string option \<Rightarrow> bool" where
  "given s = (str_of s \<noteq> '''')"

definition validate_new :: "(string \<Rightarrow> url_parts option) \<Rightarrow> comment \<Rightarrow> comment option \<Rightarrow> string list" where
  "validate_new parse c parent =
     (if is_blank (c_author_name c) then [''Author name can't be blank''] else []) @
     (if is_blank (c_content c) then [''Content can't be blank''] else []) @
     (if given (c_author_url c) \<and> \<not> valid_http_url parse (str_of (c_author_url c)) then [''Author url must be a valid URL''] else []) @
     (if given (c_url c) \<and> \<not> valid_http_url parse (str_of (c_url c)) then [''Url must be a valid URL''] else []) @
     (if given (c_author_email c) \<and> \<not> valid_comment_email (str_of (c_author_email c))
      then [''Author email must be a valid email''] else []) @
     (if c_parent_id c = None then []
      else (case parent of
              None \<Rightarrow> [''Parent does not exist'']
            | Some p \<Rightarrow>
                if c_id p = c_id c then [''Parent cannot reference itself'']
                else if str_of (c_commentable_type p) \<noteq> str_of (c_commentable_type c) \<or>
                        int_of (c_commentable_id p) \<noteq> int_of (c_commentable_id c)
                then [''Parent must belong to the same '' @ str_of (c_commentable_type c)]
                else []))"

section \<open>Comments fetched from a platform\<close>

datatype upsert_result = UpsertUnchanged | UpsertCreated | UpsertUpdated

definition external_row :: "string \<Rightarrow> int \<Rightarrow> string \<Rightarrow> external_data \<Rightarrow> int \<Rightarrow> int \<Rightarrow> comment" where
  "external_row ty i platform x st now =
     \<lparr>c_id = 0, c_commentable_type = null_text ty, c_commentable_id = Some i, c_article_id = None,
      c_parent_id = None, c_author_name = xd_author_name x, c_author_email = None, c_author_url = None,
      c_author_username = null_text (xd_author_username x), c_author_avatar_url = null_text (xd_author_avatar_url x),
      c_content = xd_content x, c_status = st, c_platform = null_text platform,
      c_external_id = null_text (xd_external_id x), c_url = null_text (xd_url x),
      c_published_at = published_of x, c_created_at = now, c_updated_at = now\<rparr>"

definition same_content :: "external_data \<Rightarrow> comment \<Rightarrow> bool" where
  "same_content x c =
     (c_author_name c = xd_author_name x \<and> str_of (c_author_username c) = xd_author_username x \<and>
      str_of (c_author_avatar_url c) = xd_author_avatar_url x \<and> c_content c = xd_content x \<and>
      str_of (c_url c) = xd_url x \<and> c_published_at c = published_of x)"

definition upsert_external ::
  "int \<Rightarrow> string \<Rightarrow> int \<Rightarrow> string \<Rightarrow> external_data \<Rightarrow> int option \<Rightarrow> (comment \<times> upsert_result) db_act" where
  "upsert_external now ty i platform x status =
     bindE (attempt (get_external_comment (null_text ty) (Some i) (null_text platform) (null_text (xd_external_id x)))) (\<lambda>r.
       case r of
         Inl e \<Rightarrow>
           if error_is e ErrNoRows
           then bindE (wrapping ''create external comment''
                  (create_comment_row (external_row ty i platform x (case status of Some st \<Rightarrow> st | None \<Rightarrow> comment_pending) now)))
                  (\<lambda>c. ret (c, UpsertCreated))
           else raise (ErrWrap ''find external comment'' e)
       | Inr existing \<Rightarrow>
           if same_content x existing then ret (existing, UpsertUnchanged)
           else bindE (wrapping ''update external comment'' (update_external_comment x now (c_id existing)))
                  (\<lambda>c. ret (c, UpsertUpdated)))"

section \<open>Replies\<close>

definition reply_payload :: "int \<Rightarrow> json" where
  "reply_payload i = JObj [(''comment_id'', JNum i)]"

text \<open>\<open>EnqueueReplyNotification\<close>; the job's time and its row read the clock separately.\<close>

definition enqueue_reply_notification ::
  "(string \<Rightarrow> string \<Rightarrow> bool) \<Rightarrow> int \<Rightarrow> int \<Rightarrow> comment \<Rightarrow> bool db_act" where
  "enqueue_reply_notification efold run_at now c =
     (if c_status c \<noteq> comment_approved \<or> c_platform c \<noteq> None then ret False
      else (case c_parent_id c of
              None \<Rightarrow> ret False
            | Some p \<Rightarrow>
                bindE (attempt (get_comment_by_id p)) (\<lambda>r. case r of
                  Inl e \<Rightarrow> if error_is e ErrNoRows then ret False else raise (ErrWrap ''get parent comment'' e)
                | Inr parent \<Rightarrow>
                    if c_platform parent \<noteq> None \<or> is_blank (str_of (c_author_email parent)) then ret False
                    else if \<not> is_blank (str_of (c_author_email c)) \<and>
                            equal_fold efold (str_of (c_author_email c)) (str_of (c_author_email parent)) then ret False
                    else bindE (wrapping ''enqueue reply notification''
                                 (enqueue True now kind_comment_reply_notification (Some (reply_payload (c_id c))) run_at))
                           (\<lambda>_. ret True))))"

definition article_path :: "string \<Rightarrow> string \<Rightarrow> string" where
  "article_path scope slug =
     (let p = rev (dropWhile (\<lambda>c. c = CHR ''/'') (rev (dropWhile (\<lambda>c. c = CHR ''/'') scope))) in
      if p = [] then ''/'' @ slug else ''/'' @ p @ ''/'' @ slug)"

definition page_path :: "string \<Rightarrow> string" where
  "page_path slug = ''/pages/'' @ slug"

section \<open>The invariant of the table\<close>

text \<open>
  Ids are distinct and in order, every parent and every article a row refers to exists, and no two rows
  share the key of an external comment.
\<close>

definition comments_ok :: "database \<Rightarrow> bool" where
  "comments_ok d =
     (ids_ok c_id (comments d) \<and>
      (\<forall>c \<in> set (comments d). refers c_id (c_parent_id c) (comments d) \<and> refers a_id (c_article_id c) (articles d)) \<and>
      sorted_wrt (\<lambda>a b. \<not> same_external a b \<and> \<not> same_article_external a b) (comments d))"

inductive descends :: "comment list \<Rightarrow> int \<Rightarrow> comment \<Rightarrow> bool" for cs i where
  itself: "c \<in> set cs \<Longrightarrow> c_id c = i \<Longrightarrow> descends cs i c"
| answer: "descends cs i p \<Longrightarrow> c \<in> set cs \<Longrightarrow> c_parent_id c = Some (c_id p) \<Longrightarrow> descends cs i c"

lemma refers_iff: "refers rid ref rs \<longleftrightarrow> (\<forall>i. ref = Some i \<longrightarrow> i \<in> rid ` set rs)"
  by (auto simp: refers_def by_id_def find_None_iff split: option.splits)

lemma in_with_answers:
  "k \<in> with_answers cs ids \<longleftrightarrow> k \<in> ids \<or> (\<exists>c \<in> set cs. c_id c = k \<and> (\<exists>p \<in> ids. c_parent_id c = Some p))"
  by (auto simp: with_answers_def split: option.splits)

lemma with_answers_grows: "ids \<subseteq> with_answers cs ids"
  by (auto simp: with_answers_def)

lemma doomed_Suc: "doomed (Suc n) cs ids = with_answers cs (doomed n cs ids)"
  by (induction n arbitrary: ids) auto

lemma doomed_within: "ids \<subseteq> c_id ` set cs \<Longrightarrow> doomed n cs ids \<subseteq> c_id ` set cs"
proof (induction n)
  case (Suc n)
  then show ?case unfolding doomed_Suc by (auto simp: in_with_answers)
qed simp

text \<open>Every step adds an id until a step adds none.\<close>

lemma doomed_card:
  assumes "i \<in> c_id ` set cs"
  shows "with_answers cs (doomed n cs {i}) = doomed n cs {i} \<or> n < card (doomed n cs {i})"
proof (induction n)
  case (Suc n)
  let ?D = "doomed n cs {i}"
  have fin: "finite (with_answers cs ?D)"
    using doomed_within [of "{i}" cs "Suc n"] assms unfolding doomed_Suc by (auto intro: finite_subset)
  from Suc show ?case
  proof
    assume "n < card ?D"
    moreover have "with_answers cs ?D = ?D \<or> card ?D < card (with_answers cs ?D)"
      using with_answers_grows [of ?D cs] psubset_card_mono [OF fin, of ?D] by (metis psubsetI)
    ultimately show ?thesis unfolding doomed_Suc by (metis Suc_lessI less_trans_Suc)
  qed (simp add: doomed_Suc del: doomed.simps(2))
qed simp

lemma doomed_closed:
  assumes "i \<in> c_id ` set cs"
  shows "with_answers cs (doomed (length cs) cs {i}) = doomed (length cs) cs {i}"
proof -
  have "card (doomed (length cs) cs {i}) \<le> card (c_id ` set cs)"
    using doomed_within [of "{i}" cs] assms by (intro card_mono) auto
  also have "\<dots> \<le> length cs" by (metis card_image_le card_length finite_set le_trans)
  finally show ?thesis using doomed_card [OF assms, of "length cs"] by auto
qed

lemma doomed_descends: "k \<in> doomed n cs {i} \<Longrightarrow> i \<in> c_id ` set cs \<Longrightarrow> \<exists>c. descends cs i c \<and> c_id c = k"
proof (induction n arbitrary: k)
  case 0
  then show ?case by (auto intro: itself)
next
  case (Suc n)
  then show ?case unfolding doomed_Suc in_with_answers by (metis answer)
qed

lemma doomed_iff:
  assumes "i \<in> c_id ` set cs"
  shows "k \<in> doomed (length cs) cs {i} \<longleftrightarrow> (\<exists>c. descends cs i c \<and> c_id c = k)"
proof
  assume "\<exists>c. descends cs i c \<and> c_id c = k"
  then obtain c where "descends cs i c" "c_id c = k" by blast
  then show "k \<in> doomed (length cs) cs {i}"
  proof (induction arbitrary: k rule: descends.induct)
    case (itself c)
    have "i \<in> doomed n cs {i}" for n
      by (induction n) (auto simp: doomed_Suc in_with_answers simp del: doomed.simps(2))
    with itself show ?case by simp
  next
    case (answer p c)
    then have "k \<in> with_answers cs (doomed (length cs) cs {i})" by (auto simp: in_with_answers)
    then show ?case unfolding doomed_closed [OF assms] .
  qed
qed (rule doomed_descends [OF _ assms])

lemma descends_in: "descends cs i c \<Longrightarrow> c \<in> set cs"
  by (induction rule: descends.induct) auto

lemma cascade_filter:
  assumes "ids_ok c_id cs"
  shows "cascade i cs = filter (\<lambda>c. \<not> descends cs i c) cs"
proof (cases "by_id c_id i cs = None")
  case True
  then have "i \<notin> c_id ` set cs" by (simp add: comments_tab.by_id_None)
  then have "\<not> descends cs i c" for c
    by (rule contrapos_nn) (induction rule: descends.induct, auto)
  with True show ?thesis by (simp add: cascade_def)
next
  case False
  then have i: "i \<in> c_id ` set cs" by (simp add: comments_tab.by_id_None)
  have "c_id c \<in> doomed (length cs) cs {i} \<longleftrightarrow> descends cs i c" if "c \<in> set cs" for c
    using doomed_iff [OF i] that comments_tab.ids_ok_unique [OF assms] descends_in by blast
  with False show ?thesis by (auto simp: cascade_def Let_def delete_where_def intro: filter_cong)
qed

lemma sql_eq_commute: "sql_eq x y = sql_eq y x"
  by (auto simp: sql_eq_def)

lemma ext_symmetric: "same_external a b = same_external b a" "same_article_external a b = same_article_external b a"
  by (simp_all add: same_external_def same_article_external_def external_match_def sql_eq_commute)

lemma ext_id [simp]:
  "same_external a (c\<lparr>c_id := k\<rparr>) = same_external a c" "same_article_external a (c\<lparr>c_id := k\<rparr>) = same_article_external a c"
  by (simp_all add: same_external_def same_article_external_def external_match_def)

lemma insert_commentD:
  assumes "insert_comment c d = Inr (d', c')"
  shows "comments d' = comments d @ [c'] \<and> c' = c\<lparr>c_id := next_rowid (map c_id (comments d))\<rparr> \<and>
    articles d' = articles d \<and> list_all (\<lambda>r. \<not> same_external c r \<and> \<not> same_article_external c r) (comments d) \<and>
    refers a_id (c_article_id c) (articles d) \<and> refers c_id (c_parent_id c) (comments d')"
  using assms by (auto simp: insert_comment_def insert_row_def Let_def list_all_iff list_ex_iff split: if_splits)

lemma insert_comment_ok: "comments_ok d \<Longrightarrow> insert_comment c d = Inr (d', c') \<Longrightarrow> comments_ok d'"
proof -
  assume ok: "comments_ok d" and "insert_comment c d = Inr (d', c')"
  note i = insert_commentD [OF this(2)]
  have "ids_ok c_id (comments d')"
    using ok i comments_tab.ids_ok_insert [of "comments d" c] by (simp add: comments_ok_def insert_row_def Let_def)
  moreover have "refers c_id (c_parent_id r) (comments d')" if "r \<in> set (comments d)" for r
    using ok that i by (auto simp: comments_ok_def refers_iff)
  moreover have "sorted_wrt (\<lambda>a b. \<not> same_external a b \<and> \<not> same_article_external a b) (comments d')"
    using ok i ext_symmetric [of c] by (simp add: comments_ok_def sorted_wrt_append list_all_iff)
  ultimately show "comments_ok d'"
    using ok i by (auto simp: comments_ok_def)
qed

lemma comments_ok_update:
  assumes ok: "comments_ok d"
    and f: "\<And>c. c_id (f c) = c_id c \<and> c_parent_id (f c) = c_parent_id c \<and> c_article_id (f c) = c_article_id c \<and>
      c_platform (f c) = c_platform c \<and> c_external_id (f c) = c_external_id c \<and>
      c_commentable_type (f c) = c_commentable_type c \<and> c_commentable_id (f c) = c_commentable_id c"
  shows "comments_ok (on_comments (update_where p f) d)"
proof -
  let ?g = "\<lambda>c. if p c then f c else c"
  have ids: "c_id ` set (update_where p f (comments d)) = c_id ` set (comments d)"
  proof -
    have "map c_id (update_where p f (comments d)) = map c_id (comments d)" using f by (simp add: update_where_def)
    then show ?thesis by (metis list.set_map)
  qed
  have key: "same_external (?g a) (?g b) = same_external a b" "same_article_external (?g a) (?g b) = same_article_external a b" for a b
    using f by (simp_all add: same_external_def same_article_external_def external_match_def)
  have "ids_ok c_id (update_where p f (comments d))"
    using ok f by (intro comments_tab.ids_ok_update) (auto simp: comments_ok_def)
  moreover have "sorted_wrt (\<lambda>a b. \<not> same_external a b \<and> \<not> same_article_external a b) (update_where p f (comments d))"
    unfolding update_where_def sorted_wrt_map key using ok by (simp add: comments_ok_def)
  moreover have "refers c_id (c_parent_id c) (update_where p f (comments d)) \<and> refers a_id (c_article_id c) (articles d)"
    if "c \<in> set (update_where p f (comments d))" for c
  proof -
    from that obtain c0 where "c0 \<in> set (comments d)" and c0: "c = ?g c0" by (auto simp: update_where_def)
    moreover have "c_parent_id c = c_parent_id c0" "c_article_id c = c_article_id c0" unfolding c0 using f by simp_all
    ultimately show ?thesis using ok by (simp add: comments_ok_def refers_iff ids)
  qed
  ultimately show ?thesis by (simp add: comments_ok_def)
qed

lemma comments_ok_cascade: "comments_ok d \<Longrightarrow> comments_ok (on_comments (cascade i) d)"
proof -
  assume ok: "comments_ok d"
  let ?cs = "comments d"
  have ids: "ids_ok c_id ?cs" using ok by (simp add: comments_ok_def)
  have "refers c_id (c_parent_id c) (filter (\<lambda>c. \<not> descends ?cs i c) ?cs)" if "c \<in> set ?cs" "\<not> descends ?cs i c" for c
  proof (unfold refers_iff, intro allI impI)
    fix p assume p: "c_parent_id c = Some p"
    with ok that obtain r where "r \<in> set ?cs" "c_id r = p" by (auto simp: comments_ok_def refers_iff)
    with that p show "p \<in> c_id ` set (filter (\<lambda>c. \<not> descends ?cs i c) ?cs)" by (force intro: answer)
  qed
  moreover have "ids_ok c_id (filter (\<lambda>c. \<not> descends ?cs i c) ?cs)"
    using comments_tab.ids_ok_delete [OF ids] by (simp add: delete_where_def)
  ultimately show ?thesis
    using ok by (auto simp: comments_ok_def cascade_filter [OF ids] sorted_wrt_filter)
qed

lemma pres_job_frame:
  "(\<And>d rs. I (d\<lparr>job_runs := rs\<rparr>) = I d) \<Longrightarrow> pres I (enqueue wake now kind payload run_at)"
  unfolding enqueue_def enqueue_job_run_def
  by (intro pres_rules pres_exec) (auto simp: Let_def case_prod_beta)

lemma pres_create_comment [pres_rules]: "pres comments_ok (create_comment_row c)"
  unfolding create_comment_row_def by (rule pres_exec) (rule insert_comment_ok)

lemma pres_delete_comment [pres_rules]: "pres comments_ok (delete_comment i)"
  unfolding delete_comment_def by (rule pres_modify) (rule comments_ok_cascade)

lemma pres_update_comment_status [pres_rules]: "pres comments_ok (update_comment_status st now i)"
  unfolding update_comment_status_def
  by (rule pres_exec) (auto simp: Let_def split: option.splits intro!: comments_ok_update)

lemma pres_update_external [pres_rules]: "pres comments_ok (update_external_comment x now i)"
  unfolding update_external_comment_def
  by (rule pres_exec) (auto simp: Let_def refetched_def split: option.splits intro!: comments_ok_update)

lemma pres_upsert_external [pres_rules]: "pres comments_ok (upsert_external now ty i platform x status)"
  unfolding upsert_external_def get_external_comment_def by (intro pres_rules)

lemma pres_reply_notification [pres_rules]: "pres comments_ok (enqueue_reply_notification efold run_at now c)"
  unfolding enqueue_reply_notification_def get_comment_by_id_def
  by (intro pres_rules pres_job_frame) (simp add: comments_ok_def)


section \<open>Fetching again\<close>

lemma find_update_where:
  "(\<And>c. q (f c) = q c) \<Longrightarrow> find q (update_where p f cs) = map_option (\<lambda>c. if p c then f c else c) (find q cs)"
  by (induction cs) (auto simp: update_where_def)

lemma match_refetched [simp]: "external_match ty i platform ext (refetched x now c) = external_match ty i platform ext c"
  by (simp add: external_match_def refetched_def)

lemma null_text_str [simp]: "str_of (null_text s) = s"
  by (auto simp: null_text_def str_of_def)

lemma same_content_refetched [simp]: "same_content x (refetched x now c)"
  by (simp add: same_content_def refetched_def)

lemma same_content_row [simp]: "same_content x (external_row ty i platform x st now\<lparr>c_id := k\<rparr>)"
  by (simp add: same_content_def external_row_def)

lemma match_row:
  "ty \<noteq> '''' \<Longrightarrow> platform \<noteq> '''' \<Longrightarrow> xd_external_id x \<noteq> '''' \<Longrightarrow>
   external_match (null_text ty) (Some i) (null_text platform) (null_text (xd_external_id x))
     (external_row ty i platform x st now\<lparr>c_id := k\<rparr>)"
  by (simp add: external_match_def external_row_def sql_eq_def null_text_def)

lemma update_external_ok:
  "update_external_comment x now i w = (Inr c, w') \<Longrightarrow>
     wdb w' = on_comments (update_where (\<lambda>c. c_id c = i) (refetched x now)) (wdb w)"
  unfolding update_external_comment_def by (drule exec_ok) (auto simp: Let_def split: option.splits)

lemma create_comment_ok:
  "create_comment_row c w = (Inr c', w') \<Longrightarrow> insert_comment c (wdb w) = Inr (wdb w', c')"
  unfolding create_comment_row_def by (rule exec_ok)

text \<open>What a successful upsert has done to the table.\<close>

lemma upsert_external_ok:
  assumes run: "upsert_external now ty i platform x status w = (Inr (c, res), w1)"
    and key: "ty \<noteq> ''''" "platform \<noteq> ''''" "xd_external_id x \<noteq> ''''"
  defines "m \<equiv> external_match (null_text ty) (Some i) (null_text platform) (null_text (xd_external_id x))"
  shows "(\<exists>c1. find m (comments (wdb w1)) = Some c1 \<and> same_content x c1) \<and>
    map (\<lambda>c. (c_id c, c_status c)) (take (length (comments (wdb w))) (comments (wdb w1))) =
      map (\<lambda>c. (c_id c, c_status c)) (comments (wdb w))"
proof -
  obtain r wa where g: "get_external_comment (null_text ty) (Some i) (null_text platform) (null_text (xd_external_id x)) w = (r, wa)"
    by fastforce
  have keep: "wdb wa = wdb w"
    using g query_row_keeps unfolding get_external_comment_def by (metis snd_conv)
  show ?thesis
  proof (cases r)
    case (Inr e)
    then have f: "find m (comments (wdb w)) = Some e"
      using g query_row_ok unfolding get_external_comment_def m_def by fastforce
    show ?thesis
    proof (cases "same_content x e")
      case True
      with run g Inr keep f show ?thesis by (auto simp: upsert_external_def run_simps)
    next
      case False
      with run g Inr obtain c1 where "update_external_comment x now (c_id e) wa = (Inr c1, w1)"
        by (auto simp: upsert_external_def run_simps split: prod.splits sum.splits)
      from update_external_ok [OF this] have u:
        "comments (wdb w1) = update_where (\<lambda>c. c_id c = c_id e) (refetched x now) (comments (wdb w))"
        by (simp add: keep)
      have "find m (comments (wdb w1)) = Some (refetched x now e)"
        unfolding u m_def using f by (subst find_update_where) (simp_all add: m_def)
      moreover have "map (\<lambda>c. (c_id c, c_status c)) (comments (wdb w1)) = map (\<lambda>c. (c_id c, c_status c)) (comments (wdb w))"
        by (simp add: u update_where_def refetched_def comp_def)
      ultimately show ?thesis by (simp add: u)
    qed
  next
    case (Inl e)
    let ?row = "external_row ty i platform x (case status of Some st \<Rightarrow> st | None \<Rightarrow> comment_pending) now"
    from run g Inl have "create_comment_row ?row wa = (Inr c, w1)"
      by (auto simp: upsert_external_def run_simps split: if_splits prod.splits sum.splits)
    from insert_commentD [OF create_comment_ok [OF this]] keep
    have ins: "comments (wdb w1) = comments (wdb w) @ [?row\<lparr>c_id := next_rowid (map c_id (comments (wdb w)))\<rparr>]"
      and none: "\<forall>r \<in> set (comments (wdb w)). \<not> same_external ?row r" by (auto simp: list_all_iff)
    have "m r = same_external ?row r" for r
      by (simp add: m_def same_external_def external_row_def)
    with none have "find m (comments (wdb w)) = None" by (auto simp: find_None_iff)
    then have "find m (comments (wdb w1)) = Some (?row\<lparr>c_id := next_rowid (map c_id (comments (wdb w)))\<rparr>)"
      using match_row [OF key] by (simp add: ins find_snoc m_def)
    with ins show ?thesis by simp
  qed
qed

text \<open>
  C17: Fetching again is safe. A successful upsert of a fetched comment leaves the id and the status of
  every comment that was there before, so no moderation decision is overwritten, whatever statements failed
  on the way; and fetching the same data once more finds the row, writes nothing and reports it unchanged.
\<close>

theorem upsert_keeps_moderation:
  assumes "upsert_external now ty i platform x status w = (Inr (c, res), w1)"
    and "ty \<noteq> ''''" "platform \<noteq> ''''" "xd_external_id x \<noteq> ''''" "wfaults w1 = []"
  shows "map (\<lambda>c. (c_id c, c_status c)) (take (length (comments (wdb w))) (comments (wdb w1))) =
      map (\<lambda>c. (c_id c, c_status c)) (comments (wdb w)) \<and>
    (\<exists>c1. upsert_external later ty i platform x status' w1 = (Inr (c1, UpsertUnchanged), w1))"
  using upsert_external_ok [OF assms(1-4)] assms(5)
  by (auto simp: upsert_external_def get_external_comment_def run_simps)

definition fetched_reply :: external_data where
  "fetched_reply = \<lparr>xd_external_id = ''77'', xd_author_name = ''Ada'', xd_author_username = ''ada'', xd_author_avatar_url = [],
     xd_content = ''edited'', xd_url = ''https://m.example/77'', xd_published_at = 90\<rparr>"

definition fetched_db :: database where
  "fetched_db = empty_db\<lparr>comments :=
     [(external_row ''Article'' 3 ''mastodon'' (fetched_reply\<lparr>xd_content := ''first''\<rparr>) comment_rejected 50)\<lparr>c_id := 1\<rparr>]\<rparr>"

theorem upsert_keeps_moderation_witness:
  "\<exists>c w1. upsert_external 100 ''Article'' 3 ''mastodon'' fetched_reply (Some comment_approved) \<lparr>wdb = fetched_db, wfaults = []\<rparr> =
       (Inr (c, UpsertUpdated), w1) \<and>
     map c_status (comments (wdb w1)) = [comment_rejected] \<and>
     (\<exists>c1. upsert_external 200 ''Article'' 3 ''mastodon'' fetched_reply None w1 = (Inr (c1, UpsertUnchanged), w1))"
proof -
  let ?run = "upsert_external 100 ''Article'' 3 ''mastodon'' fetched_reply (Some comment_approved) \<lparr>wdb = fetched_db, wfaults = []\<rparr>"
  obtain r w1 where run: "?run = (r, w1)" by fastforce
  have "map_sum (\<lambda>e. ()) snd (fst ?run) = Inr UpsertUpdated" by code_simp
  then obtain c where r: "r = Inr (c, UpsertUpdated)" by (cases r) (auto simp: run)
  have "map c_status (comments (wdb (snd ?run))) = [comment_rejected]" "wfaults (snd ?run) = []" by code_simp+
  then show ?thesis
    using upsert_keeps_moderation [of 100 "''Article''" 3 "''mastodon''" fetched_reply "Some comment_approved"
        "\<lparr>wdb = fetched_db, wfaults = []\<rparr>" c UpsertUpdated w1 200 None] run r
    by (auto simp: fetched_reply_def)
qed

end
