(* ===== verification/CommentPages.thy ===== *)
theory CommentPages
  imports Comments
begin

text \<open>
  The endpoints on comments: the public form of \<open>internal/httpd/comments.go\<close> and the moderation pages of
  \<open>internal/httpd/comments_admin.go\<close>. A form is the function \<open>fv\<close> from field names to values; the answers
  of the settings cache (\<open>scope\<close>, the article route prefix, and \<open>site\<close>, the settings row) are arguments, and so
  is \<open>clk\<close>, the clock at the successive places the code reads it.
\<close>

section \<open>Submitting a comment\<close>

definition err_commentable_not_found :: err where
  "err_commentable_not_found = ErrText ''commentable not found''"

record commentable_target =
  tg_type :: string
  tg_id :: int
  tg_redirect :: string

definition resolve_commentable :: "string \<Rightarrow> (string \<Rightarrow> string) \<Rightarrow> commentable_target db_act" where
  "resolve_commentable scope fv =
     (if fv ''article_id'' \<noteq> '''' then
        bindE (attempt (get_commentable_article_by_slug (fv ''article_id''))) (\<lambda>r. case r of
          Inl e \<Rightarrow> raise (if error_is e ErrNoRows then err_commentable_not_found else e)
        | Inr a \<Rightarrow>
            if \<not> accepts_comments (a_status a) (a_comment a) then raise err_commentable_not_found
            else ret \<lparr>tg_type = ''Article'', tg_id = a_id a, tg_redirect = article_path scope (fv ''article_id'')\<rparr>)
      else if fv ''page_id'' \<noteq> '''' then
        bindE (attempt (get_commentable_page_by_slug (fv ''page_id''))) (\<lambda>r. case r of
          Inl e \<Rightarrow> raise (if error_is e ErrNoRows then err_commentable_not_found else e)
        | Inr p \<Rightarrow>
            if \<not> accepts_comments (p_status p) (p_comment p) then raise err_commentable_not_found
            else ret \<lparr>tg_type = ''Page'', tg_id = p_id p, tg_redirect = page_path (fv ''page_id'')\<rparr>)
      else raise err_commentable_not_found)"

text \<open>Where the visitor is sent, and with which message; an error of the action is the 500 page.\<close>

datatype comment_problem = ChallengeExpired | ChallengeWrong | InvalidComment "string list" | NotSaved
datatype comment_reply = NoTarget | Back string comment_problem | Posted string

definition submitted_comment :: "(string \<Rightarrow> string) \<Rightarrow> commentable_target \<Rightarrow> int \<Rightarrow> comment" where
  "submitted_comment fv target now =
     \<lparr>c_id = 0, c_commentable_type = Some (tg_type target), c_commentable_id = Some (tg_id target),
      c_article_id = None, c_parent_id = None, c_author_name = fv ''comment[author_name]'',
      c_author_email = null_text (fv ''comment[author_email]''), c_author_url = null_text (fv ''comment[author_url]''),
      c_author_username = None, c_author_avatar_url = None, c_content = fv ''comment[content]'',
      c_status = comment_pending, c_platform = None, c_external_id = None, c_url = None,
      c_published_at = Some now, c_created_at = now, c_updated_at = now\<rparr>"

text \<open>The parent named by the form: none for a value that is not a positive number.\<close>

definition submitted_parent :: "string \<Rightarrow> (int option \<times> comment option) db_act" where
  "submitted_parent raw_value =
     (case parse_int64 (trim_space raw_value) of
        None \<Rightarrow> ret (None, None)
      | Some p \<Rightarrow>
          if p \<le> 0 then ret (None, None)
          else bindE (attempt (get_comment_by_id p)) (\<lambda>r. case r of
                 Inr c \<Rightarrow> ret (Some p, Some c)
               | Inl e \<Rightarrow> if error_is e ErrNoRows then ret (Some p, None) else raise e))"

definition create_comment ::
  "(string \<Rightarrow> url_parts option) \<Rightarrow> (string \<Rightarrow> string) \<Rightarrow> string \<Rightarrow> (nat \<Rightarrow> int) \<Rightarrow> (string \<Rightarrow> string) \<Rightarrow> comment_reply db_act" where
  "create_comment parse mac scope clk fv =
     bindE (attempt (resolve_commentable scope fv)) (\<lambda>r. case r of
       Inl e \<Rightarrow> if error_is e err_commentable_not_found then ret NoTarget else raise e
     | Inr target \<Rightarrow>
         if captcha_expected mac (clk 0) (fv ''captcha[token]'') = None then ret (Back (tg_redirect target) ChallengeExpired)
         else if \<not> captcha_verify mac (clk 1) (fv ''captcha[token]'') (fv ''captcha[answer]'')
         then ret (Back (tg_redirect target) ChallengeWrong)
         else bindE (submitted_parent (fv ''comment[parent_id]'')) (\<lambda>(p, parent).
           let c = (submitted_comment fv target (clk 2))\<lparr>c_parent_id := p\<rparr>; msgs = validate_new parse c parent in
           if msgs \<noteq> [] then ret (Back (tg_redirect target) (InvalidComment msgs))
           else bindE (attempt (create_comment_row c)) (\<lambda>r. case r of
                  Inl _ \<Rightarrow> ret (Back (tg_redirect target) NotSaved)
                | Inr _ \<Rightarrow> ret (Posted (tg_redirect target)))))"

section \<open>Moderation\<close>

datatype moderation_reply = BadForm | Page404 | Page500 | Notice string | Alert string

definition parse_comment_status_filter :: "string \<Rightarrow> int option" where
  "parse_comment_status_filter name =
     (if name = ''pending'' then Some comment_pending else if name = ''approved'' then Some comment_approved
      else if name = ''rejected'' then Some comment_rejected else None)"

definition notify_reply_approved ::
  "(string \<Rightarrow> string \<Rightarrow> bool) \<Rightarrow> int \<Rightarrow> int \<Rightarrow> comment \<Rightarrow> comment \<Rightarrow> unit db_act" where
  "notify_reply_approved efold run_at now before after =
     (if c_status before = comment_approved then ret ()
      else bindE (attempt (enqueue_reply_notification efold run_at now after)) (\<lambda>_. ret ()))"

definition moderate_comment ::
  "(string \<Rightarrow> string \<Rightarrow> bool) \<Rightarrow> (nat \<Rightarrow> int) \<Rightarrow> int \<Rightarrow> string \<Rightarrow> moderation_reply db_act" where
  "moderate_comment efold clk st raw_id =
     bindE (attempt (get_comment_by_id (parsed_int64 raw_id))) (\<lambda>r. case r of
       Inl e \<Rightarrow> ret (if error_is e ErrNoRows then Page404 else Page500)
     | Inr c \<Rightarrow>
         bindE (attempt (update_comment_status st (clk 0) (c_id c))) (\<lambda>r. case r of
           Inl _ \<Rightarrow> ret (Alert (''Failed to '' @ (if st = comment_rejected then ''reject'' else ''approve'') @ '' comment.''))
         | Inr updated \<Rightarrow>
             bindE (notify_reply_approved efold (clk 1) (clk 2) c updated) (\<lambda>_.
             ret (Notice (if st = comment_approved then ''Comment approved successfully.'' else ''Comment rejected.'')))))"

definition comment_ids_from_form :: "string list \<Rightarrow> int list" where
  "comment_ids_from_form vs = filter (\<lambda>i. 0 < i) (List.map_filter parse_int64 vs)"

text \<open>One id of a batch: whether it counts. A failure is logged and the loop goes on.\<close>

definition moderate_one ::
  "(string \<Rightarrow> string \<Rightarrow> bool) \<Rightarrow> (nat \<Rightarrow> int) \<Rightarrow> int \<Rightarrow> int \<Rightarrow> bool db_act" where
  "moderate_one efold clk st i =
     bindE (attempt (get_comment_by_id i)) (\<lambda>r. case r of
       Inl _ \<Rightarrow> ret False
     | Inr c \<Rightarrow>
         bindE (attempt (update_comment_status st (clk 0) (c_id c))) (\<lambda>r. case r of
           Inl _ \<Rightarrow> ret False
         | Inr updated \<Rightarrow> bindE (notify_reply_approved efold (clk 1) (clk 2) c updated) (\<lambda>_. ret True)))"

definition destroy_one :: "int \<Rightarrow> bool db_act" where
  "destroy_one i =
     bindE (attempt (get_comment_by_id i)) (\<lambda>r. case r of
       Inl _ \<Rightarrow> ret False
     | Inr _ \<Rightarrow> bindE (attempt (delete_comment i)) (\<lambda>r. case r of Inl _ \<Rightarrow> ret False | Inr _ \<Rightarrow> ret True))"

fun count_successes :: "(nat \<Rightarrow> int \<Rightarrow> bool db_act) \<Rightarrow> nat \<Rightarrow> int list \<Rightarrow> nat db_act" where
  "count_successes f k [] = ret 0"
| "count_successes f k (i # ids) =
     bindE (f k i) (\<lambda>b. bindE (count_successes f (k + 1) ids) (\<lambda>n. ret (if b then n + 1 else n)))"

definition batch_moderate_comments ::
  "(string \<Rightarrow> string \<Rightarrow> bool) \<Rightarrow> (nat \<Rightarrow> int) \<Rightarrow> int \<Rightarrow> string list \<Rightarrow> moderation_reply db_act" where
  "batch_moderate_comments efold clk st vs =
     bindE (count_successes (\<lambda>k. moderate_one efold (\<lambda>j. clk (3 * k + j)) st) 0 (comment_ids_from_form vs)) (\<lambda>n.
     ret (Notice (''Successfully '' @ (if st = comment_rejected then ''rejected'' else ''approved'') @ '' '' @
                  dec_nat n @ '' comment(s).'')))"

definition batch_destroy_comments :: "string list \<Rightarrow> moderation_reply db_act" where
  "batch_destroy_comments vs =
     bindE (count_successes (\<lambda>k. destroy_one) 0 (comment_ids_from_form vs)) (\<lambda>n.
     ret (Notice (''Successfully deleted '' @ dec_nat n @ '' comment(s).'')))"

section \<open>Replying\<close>

definition reply_author_url :: "string \<Rightarrow> string" where
  "reply_author_url raw_value =
     (let u = trim_space raw_value; v = trim_suffix u ''/'' in
      if u = '''' then ''''
      else if \<not> has_prefix v ''http://'' \<and> \<not> has_prefix v ''https://'' then ''https://'' @ v else v)"

definition commentable_exists :: "comment \<Rightarrow> bool db_act" where
  "commentable_exists c =
     (if str_of (c_commentable_type c) = ''Article'' \<or> str_of (c_commentable_type c) = ''Page'' then
        bindE (attempt (if str_of (c_commentable_type c) = ''Article''
                        then bindE (get_commentable_article_by_id (int_of (c_commentable_id c))) (\<lambda>_. ret ())
                        else bindE (get_commentable_page_by_id (int_of (c_commentable_id c))) (\<lambda>_. ret ()))) (\<lambda>r. case r of
          Inl e \<Rightarrow> if error_is e ErrNoRows then ret False else raise e
        | Inr _ \<Rightarrow> ret True)
      else ret False)"

definition admin_reply_comment_row :: "(string \<Rightarrow> string) \<Rightarrow> setting \<Rightarrow> string \<Rightarrow> comment \<Rightarrow> int \<Rightarrow> comment" where
  "admin_reply_comment_row fv se author c now =
     \<lparr>c_id = 0, c_commentable_type = c_commentable_type c, c_commentable_id = c_commentable_id c,
      c_article_id = None, c_parent_id = Some (c_id c), c_author_name = author, c_author_email = None,
      c_author_url = null_text (reply_author_url (str_of (se_url se))), c_author_username = None,
      c_author_avatar_url = None, c_content = fv ''comment[content]'', c_status = comment_approved,
      c_platform = None, c_external_id = None, c_url = None, c_published_at = Some now, c_created_at = now,
      c_updated_at = now\<rparr>"

definition admin_reply_comment ::
  "(string \<Rightarrow> url_parts option) \<Rightarrow> (string \<Rightarrow> string \<Rightarrow> bool) \<Rightarrow> (nat \<Rightarrow> int) \<Rightarrow> err + setting \<Rightarrow> string \<Rightarrow> (string \<Rightarrow> string) \<Rightarrow>
   moderation_reply db_act" where
  "admin_reply_comment parse efold clk site raw_id fv =
     bindE (attempt (get_comment_by_id (parsed_int64 raw_id))) (\<lambda>r. case r of
       Inl e \<Rightarrow> ret (if error_is e ErrNoRows then Page404 else Page500)
     | Inr c \<Rightarrow>
         if c_platform c \<noteq> None then ret (Alert ''Cannot reply to external comments.'')
         else if c_status c = comment_rejected then ret (Alert ''Cannot reply to rejected comments.'')
         else if c_commentable_type c = None \<or> c_commentable_id c = None then ret (Alert ''Commentable not found.'')
         else bindE (attempt (commentable_exists c)) (\<lambda>r. case r of
           Inl _ \<Rightarrow> ret Page500
         | Inr False \<Rightarrow> ret (Alert ''Commentable not found.'')
         | Inr True \<Rightarrow> (case site of
             Inl _ \<Rightarrow> ret Page500
           | Inr se \<Rightarrow>
               let author = trim_space (str_of (se_author se)) in
               if author = '''' then ret (Alert ''Please set the site author name in Settings before replying.'')
               else let row = admin_reply_comment_row fv se author c (clk 0); msgs = validate_new parse row (Some c) in
                 if msgs \<noteq> [] then ret (Alert (''Failed to reply: '' @ join_with '', '' msgs))
                 else bindE (attempt (create_comment_row row)) (\<lambda>r. case r of
                        Inl _ \<Rightarrow> ret Page500
                      | Inr created \<Rightarrow>
                          bindE (attempt (enqueue_reply_notification efold (clk 1) (clk 2) created)) (\<lambda>_.
                          ret (Notice ''Reply posted successfully.''))))))"

section \<open>What a submission can do\<close>

lemma keeps_db: "m w = (r, w') \<Longrightarrow> (\<And>d0. pres (\<lambda>d. d = d0) m) \<Longrightarrow> wdb w' = wdb w"
  unfolding pres_def by (metis snd_conv)

lemma pres_lookups [pres_rules]:
  "pres I (get_comment_by_id i)" "pres I (get_commentable_article_by_slug s)" "pres I (get_commentable_page_by_slug s)"
  "pres I (get_commentable_article_by_id i)" "pres I (get_commentable_page_by_id i)"
  unfolding get_comment_by_id_def get_commentable_article_by_slug_def get_commentable_page_by_slug_def
    get_commentable_article_by_id_def get_commentable_page_by_id_def by (rule pres_query_row)+

lemma resolve_keeps: "resolve_commentable scope fv w = (r, w') \<Longrightarrow> wdb w' = wdb w"
  by (erule keeps_db)
    (simp add: resolve_commentable_def, intro conjI impI pres_rules)

lemma submitted_parent_keeps: "submitted_parent v w = (r, w') \<Longrightarrow> wdb w' = wdb w"
  by (erule keeps_db) (simp add: submitted_parent_def, intro pres_rules)

text \<open>A target that takes comments.\<close>

definition open_target :: "database \<Rightarrow> (string \<Rightarrow> string) \<Rightarrow> string \<Rightarrow> int \<Rightarrow> bool" where
  "open_target d fv ty i =
     ((ty = ''Article'' \<and> (\<exists>a \<in> set (articles d). a_id a = i \<and> a_slug a = Some (fv ''article_id'') \<and> accepts_comments (a_status a) (a_comment a))) \<or>
      (ty = ''Page'' \<and> (\<exists>p \<in> set (pages d). p_id p = i \<and> p_slug p = Some (fv ''page_id'') \<and> accepts_comments (p_status p) (p_comment p))))"

lemma resolve_ok:
  assumes "resolve_commentable scope fv w = (Inr t, w')"
  shows "open_target (wdb w) fv (tg_type t) (tg_id t)"
proof (cases "fv ''article_id'' \<noteq> ''''")
  case True
  obtain r w1 where g: "get_commentable_article_by_slug (fv ''article_id'') w = (r, w1)" by fastforce
  with assms True obtain a where "r = Inr a" "accepts_comments (a_status a) (a_comment a)"
    "tg_type t = ''Article''" "tg_id t = a_id a"
    by (cases r) (auto simp: resolve_commentable_def run_simps split: if_splits)
  with g show ?thesis
    by (auto simp: open_target_def get_commentable_article_by_slug_def dest!: query_row_ok find_SomeD)
next
  case False
  obtain r w1 where g: "get_commentable_page_by_slug (fv ''page_id'') w = (r, w1)" by fastforce
  with assms False obtain p where "r = Inr p" "accepts_comments (p_status p) (p_comment p)"
    "tg_type t = ''Page''" "tg_id t = p_id p"
    by (cases r) (auto simp: resolve_commentable_def run_simps split: if_splits)
  with g show ?thesis
    by (auto simp: open_target_def get_commentable_page_by_slug_def dest!: query_row_ok find_SomeD)
qed

lemma submitted_parent_ok:
  assumes "submitted_parent v w = (Inr (p, parent), w')"
  shows "parent = None \<or> (\<exists>c \<in> set (comments (wdb w)). parent = Some c \<and> p = Some (c_id c))"
proof (cases "parse_int64 (trim_space v)")
  case (Some i)
  show ?thesis
  proof (cases "i \<le> 0")
    case False
    obtain r w1 where g: "get_comment_by_id i w = (r, w1)" by fastforce
    then show ?thesis
      using assms Some False
      by (cases r) (auto simp: submitted_parent_def run_simps get_comment_by_id_def split: if_splits
          dest!: query_row_ok comments_tab.by_id_Some)
  qed (use assms Some in \<open>auto simp: submitted_parent_def run_simps\<close>)
qed (use assms in \<open>auto simp: submitted_parent_def run_simps\<close>)

lemma create_row_error_keeps: "create_comment_row c w = (Inl e, w') \<Longrightarrow> wdb w' = wdb w"
  unfolding create_comment_row_def by (rule exec_error_keeps)

lemma insert_comment_only: "insert_comment c d = Inr (d', c') \<Longrightarrow> d' = d\<lparr>comments := comments d @ [c']\<rparr>"
  by (auto simp: insert_comment_def insert_row_def Let_def split: if_splits)

text \<open>What a posted comment looks like.\<close>

definition acceptable :: "database \<Rightarrow> (string \<Rightarrow> string) \<Rightarrow> comment \<Rightarrow> bool" where
  "acceptable d fv c =
     (c_status c = comment_pending \<and> c_platform c = None \<and> c_author_name c = fv ''comment[author_name]'' \<and>
      c_content c = fv ''comment[content]'' \<and> \<not> is_blank (c_author_name c) \<and> \<not> is_blank (c_content c) \<and>
      (\<exists>ty i. c_commentable_type c = Some ty \<and> c_commentable_id c = Some i \<and> open_target d fv ty i) \<and>
      (\<forall>p. c_parent_id c = Some p \<longrightarrow>
         (\<exists>q \<in> set (comments d). c_id q = p \<and> c_commentable_type q = c_commentable_type c \<and>
            int_of (c_commentable_id q) = int_of (c_commentable_id c))))"

lemma acceptable_valid:
  assumes "validate_new parse (submitted_comment fv t now\<lparr>c_parent_id := p\<rparr>) parent = []"
    and "parent = None \<or> (\<exists>c \<in> set (comments d). parent = Some c \<and> p = Some (c_id c))"
    and "open_target d fv (tg_type t) (tg_id t)"
  shows "acceptable d fv (submitted_comment fv t now\<lparr>c_parent_id := p, c_id := k\<rparr>)"
proof -
  have ty: "tg_type t \<noteq> ''''" using assms(3) by (auto simp: open_target_def)
  have "\<exists>q \<in> set (comments d). c_id q = i \<and> c_commentable_type q = Some (tg_type t) \<and> int_of (c_commentable_id q) = tg_id t"
    if "p = Some i" for i
  proof -
    from assms(1) that obtain q where q: "parent = Some q" "str_of (c_commentable_type q) = tg_type t"
      "int_of (c_commentable_id q) = tg_id t"
      by (auto simp: validate_new_def submitted_comment_def split: option.splits if_splits)
    with ty have "c_commentable_type q = Some (tg_type t)" by (cases "c_commentable_type q") (auto simp: str_of_def)
    with q assms(2) that show ?thesis by auto
  qed
  then show ?thesis
    using assms(1,3)
    by (auto simp: acceptable_def validate_new_def submitted_comment_def split: if_splits)
qed

text \<open>
  Nobody publishes a comment by posting it. Whatever the form holds and whatever statement
  fails, the endpoint either leaves the database as it was, or answers that the comment was posted and has
  added one row: pending, local, with a name and a text, on an article or page that takes comments, and, when it
  answers another comment, one of the same article or page. A row is only added when the challenge was answered.
\<close>

theorem submitted_comment_pending:
  assumes "create_comment parse mac scope clk fv w = (r, w')"
  shows "wdb w' = wdb w \<and> (\<forall>path. r \<noteq> Inr (Posted path)) \<or>
    (\<exists>path c. r = Inr (Posted path) \<and> wdb w' = (wdb w)\<lparr>comments := comments (wdb w) @ [c]\<rparr> \<and>
       acceptable (wdb w) fv c \<and> captcha_verify mac (clk 1) (fv ''captcha[token]'') (fv ''captcha[answer]''))"
proof -
  obtain rt w1 where t: "resolve_commentable scope fv w = (rt, w1)" by fastforce
  note k1 = resolve_keeps [OF t]
  show ?thesis
  proof (cases "\<exists>target. rt = Inr target \<and> captcha_expected mac (clk 0) (fv ''captcha[token]'') \<noteq> None \<and>
      captcha_verify mac (clk 1) (fv ''captcha[token]'') (fv ''captcha[answer]'')")
    case False
    with assms t k1 show ?thesis
      by (cases rt) (auto simp: create_comment_def run_simps split: if_splits)
  next
    case True
    then obtain target where rt: "rt = Inr target" and cap: "captcha_expected mac (clk 0) (fv ''captcha[token]'') \<noteq> None"
      "captcha_verify mac (clk 1) (fv ''captcha[token]'') (fv ''captcha[answer]'')" by blast
    obtain rp w2 where p: "submitted_parent (fv ''comment[parent_id]'') w1 = (rp, w2)" by fastforce
    note k2 = submitted_parent_keeps [OF p]
    show ?thesis
    proof (cases rp)
      case (Inl e)
      with assms t rt cap p k1 k2 show ?thesis by (auto simp: create_comment_def run_simps)
    next
      case (Inr pp)
      obtain pid parent where pp: "pp = (pid, parent)" by fastforce
      let ?c = "(submitted_comment fv target (clk 2))\<lparr>c_parent_id := pid\<rparr>"
      obtain rc w3 where c: "create_comment_row ?c w2 = (rc, w3)" by fastforce
      show ?thesis
      proof (cases "validate_new parse ?c parent = [] \<and> (\<exists>c'. rc = Inr c')")
        case False
        with assms t rt cap p Inr pp c k1 k2 create_row_error_keeps [of ?c w2 _ w3] show ?thesis
          by (cases rc) (auto simp: create_comment_def run_simps Let_def split: if_splits)
      next
        case True
        then obtain c' where rc: "rc = Inr c'" by blast
        have ins: "insert_comment ?c (wdb w) = Inr (wdb w3, c')"
          using create_comment_ok [OF c [unfolded rc]] by (simp add: k1 k2)
        have "acceptable (wdb w) fv (?c\<lparr>c_id := next_rowid (map c_id (comments (wdb w)))\<rparr>)"
        proof (rule acceptable_valid)
          show "validate_new parse ?c parent = []" using True by blast
          show "parent = None \<or> (\<exists>c \<in> set (comments (wdb w)). parent = Some c \<and> pid = Some (c_id c))"
            using submitted_parent_ok [OF p [unfolded Inr pp]] by (simp add: k1)
          show "open_target (wdb w) fv (tg_type target) (tg_id target)" by (rule resolve_ok [OF t [unfolded rt]])
        qed
        with insert_commentD [OF ins] insert_comment_only [OF ins] have "wdb w3 = (wdb w)\<lparr>comments := comments (wdb w) @ [c']\<rparr>"
          "acceptable (wdb w) fv c'" by auto
        moreover have "r = Inr (Posted (tg_redirect target))" "w' = w3"
          using assms t rt cap p Inr pp c rc True by (auto simp: create_comment_def run_simps Let_def)
        ultimately show ?thesis using cap by blast
      qed
    qed
  qed
qed

definition open_article :: article where
  "open_article = scheduled_example\<lparr>a_id := 4, a_slug := Some ''hello'', a_status := status_publish, a_comment := 1\<rparr>"

definition discussed_db :: database where
  "discussed_db = empty_db\<lparr>articles := [open_article],
     comments := [(sample_comment 1 None 1 None (Some 50))\<lparr>c_commentable_id := Some 4, c_author_email := Some ''a@b.example''\<rparr>]\<rparr>"

definition posted_token :: string where
  "posted_token = snd (issue_challenge rev captcha_ttl 1000 1 7 4)"

definition posted_form :: "string \<Rightarrow> string" where
  "posted_form name =
     (if name = ''article_id'' then ''hello'' else if name = ''captcha[token]'' then posted_token
      else if name = ''captcha[answer]'' then ''3'' else if name = ''comment[author_name]'' then ''Ada''
      else if name = ''comment[content]'' then ''First!'' else if name = ''comment[parent_id]'' then '' 1 '' else [])"

theorem submitted_comment_pending_witness:
  "\<exists>w' c. create_comment (\<lambda>_. None) rev ''blog'' (\<lambda>_. 2000) posted_form \<lparr>wdb = discussed_db, wfaults = []\<rparr> =
       (Inr (Posted ''/blog/hello''), w') \<and> comments (wdb w') = comments discussed_db @ [c] \<and> c_status c = comment_pending"
proof -
  let ?run = "create_comment (\<lambda>_. None) rev ''blog'' (\<lambda>_. 2000) posted_form \<lparr>wdb = discussed_db, wfaults = []\<rparr>"
  obtain ch token where token: "issue_challenge rev captcha_ttl 1000 1 7 4 = (ch, token)" by fastforce
  then have "(if ch_op ch = ''+'' then ch_a ch + ch_b ch else ch_a ch - ch_b ch) = 3" by (auto simp: issue_challenge_def Let_def)
  then have cap: "captcha_expected rev 2000 posted_token = Some 3"
    unfolding posted_token_def token snd_conv
    using expected_issued [OF token, of 3 2000] by (simp add: in_int64_def captcha_ttl_def)
  have "parse_int64 (trim_space '' 1 '') = Some 1" "parse_int64 (trim_space ''3'') = Some 3"
    "\<not> is_blank ''Ada''" "\<not> is_blank ''First!''" "article_path ''blog'' ''hello'' = ''/blog/hello''"
    "refers c_id (Some 1) (comments discussed_db @ [x]) = True" for x
    by code_simp+
  then have "fst ?run = Inr (Posted ''/blog/hello'')"
    using cap
    by (simp add: create_comment_def resolve_commentable_def get_commentable_article_by_slug_def run_simps posted_form_def
        str_of_def discussed_db_def open_article_def scheduled_example_def accepts_comments_def captcha_verify_def
        submitted_parent_def get_comment_by_id_def by_id_def sample_comment_def validate_new_def submitted_comment_def
        null_text_def given_def create_comment_row_def insert_comment_def insert_row_def Let_def refers_def
        same_external_def same_article_external_def external_match_def sql_eq_def next_rowid_def)
  then have run: "?run = (Inr (Posted ''/blog/hello''), snd ?run)" by (metis prod.collapse)
  from submitted_comment_pending [OF run] show ?thesis using run by (auto simp: acceptable_def)
qed

section \<open>What moderation does\<close>

text \<open>When the approval of a comment is announced to the author of the comment it answers.\<close>

definition announces :: "(string \<Rightarrow> string \<Rightarrow> bool) \<Rightarrow> comment list \<Rightarrow> comment \<Rightarrow> bool" where
  "announces efold cs c =
     (c_platform c = None \<and>
      (case c_parent_id c of
         None \<Rightarrow> False
       | Some p \<Rightarrow> (case by_id c_id p cs of
           None \<Rightarrow> False
         | Some parent \<Rightarrow>
             c_platform parent = None \<and> \<not> is_blank (str_of (c_author_email parent)) \<and>
             \<not> (\<not> is_blank (str_of (c_author_email c)) \<and>
                equal_fold efold (str_of (c_author_email c)) (str_of (c_author_email parent))))))"

lemma enqueue_reply_run:
  assumes "wfaults w = []"
  shows "snd (enqueue_reply_notification efold run_at now c w) =
    (if c_status c = comment_approved \<and> announces efold (comments (wdb w)) c
     then w\<lparr>wdb := (wdb w)\<lparr>job_runs := queue_job kind_comment_reply_notification (reply_payload (c_id c)) run_at now (job_runs (wdb w))\<rparr>\<rparr>
     else w)"
  using assms
  by (auto simp: enqueue_reply_notification_def get_comment_by_id_def announces_def run_simps split: option.splits)

lemma update_status_run:
  assumes "wfaults w = []" "by_id c_id i (comments (wdb w)) = Some c"
  shows "update_comment_status st now i w =
    (Inr (c\<lparr>c_status := st, c_updated_at := now\<rparr>),
     w\<lparr>wdb := (wdb w)\<lparr>comments := update_where (\<lambda>c. c_id c = i) (\<lambda>c. c\<lparr>c_status := st, c_updated_at := now\<rparr>) (comments (wdb w))\<rparr>\<rparr>)"
proof -
  have "by_id c_id i (update_where (\<lambda>c. c_id c = i) (\<lambda>c. c\<lparr>c_status := st, c_updated_at := now\<rparr>) (comments (wdb w))) =
      Some (c\<lparr>c_status := st, c_updated_at := now\<rparr>)"
    using assms(2) comments_tab.by_id_Some [OF assms(2)] by (subst comments_tab.by_id_update) simp_all
  with assms(1) show ?thesis by (simp add: update_comment_status_def run_simps Let_def)
qed

text \<open>The announcement does not depend on the statuses.\<close>

lemma announces_update:
  "announces efold (update_where p (\<lambda>c. c\<lparr>c_status := st, c_updated_at := now\<rparr>) cs) (c\<lparr>c_status := st', c_updated_at := now'\<rparr>) =
   announces efold cs c"
  by (simp add: announces_def comments_tab.by_id_update split: option.splits)

text \<open>
  Approving and rejecting. When no statement fails, moderating a comment that exists sets its
  status and its update time and changes no other comment; a job for the reply notification is queued exactly
  when the comment becomes approved by this request, is local, and answers a local comment whose author left an address
  that is not the answering author's own. For an id without a comment nothing changes and the page is a 404.
\<close>

theorem moderate_comment_effect:
  assumes "wfaults w = []"
  shows "moderate_comment efold clk st raw_id w =
    (case by_id c_id (parsed_int64 raw_id) (comments (wdb w)) of
       None \<Rightarrow> (Inr Page404, w)
     | Some c \<Rightarrow>
         (Inr (Notice (if st = comment_approved then ''Comment approved successfully.'' else ''Comment rejected.'')),
          w\<lparr>wdb := (wdb w)\<lparr>comments := update_where (\<lambda>x. c_id x = c_id c) (\<lambda>x. x\<lparr>c_status := st, c_updated_at := clk 0\<rparr>) (comments (wdb w)),
                job_runs := (if c_status c \<noteq> comment_approved \<and> st = comment_approved \<and> announces efold (comments (wdb w)) c
                             then queue_job kind_comment_reply_notification (reply_payload (c_id c)) (clk 1) (clk 2) (job_runs (wdb w))
                             else job_runs (wdb w))\<rparr>\<rparr>))"
proof (cases "by_id c_id (parsed_int64 raw_id) (comments (wdb w))")
  case None
  with assms show ?thesis by (simp add: moderate_comment_def get_comment_by_id_def run_simps)
next
  case (Some c)
  then have i: "c_id c = parsed_int64 raw_id" using comments_tab.by_id_Some by blast
  with Some have "by_id c_id (c_id c) (comments (wdb w)) = Some c" by simp
  note u = update_status_run [OF assms this]
  from Some assms show ?thesis
    by (simp add: moderate_comment_def get_comment_by_id_def run_simps u notify_reply_approved_def
        enqueue_reply_run announces_update)
qed

theorem moderate_comment_effect_witness:
  "\<exists>w'. moderate_comment (=) (\<lambda>_. 70) comment_approved ''2''
      \<lparr>wdb = discussed_db\<lparr>comments := comments discussed_db @ [(sample_comment 2 (Some 1) 0 None None)\<lparr>c_commentable_id := Some 4\<rparr>]\<rparr>, wfaults = []\<rparr> =
       (Inr (Notice ''Comment approved successfully.''), w') \<and>
     map c_status (comments (wdb w')) = [1, 1] \<and> map jr_kind (job_runs (wdb w')) = [kind_comment_reply_notification]"
proof -
  let ?w = "\<lparr>wdb = discussed_db\<lparr>comments := comments discussed_db @ [(sample_comment 2 (Some 1) 0 None None)\<lparr>c_commentable_id := Some 4\<rparr>]\<rparr>, wfaults = []\<rparr>"
  let ?c = "(sample_comment 2 (Some 1) 0 None None)\<lparr>c_commentable_id := Some 4\<rparr>"
  have "parsed_int64 ''2'' = 2" "\<not> is_blank ''a@b.example''" "is_blank []" by code_simp+
  then have "by_id c_id (parsed_int64 ''2'') (comments (wdb ?w)) = Some ?c" "announces (=) (comments (wdb ?w)) ?c"
    by (simp_all add: by_id_def discussed_db_def sample_comment_def announces_def str_of_def)
  with moderate_comment_effect [of ?w "(=)" "\<lambda>_. 70" comment_approved "''2''"] show ?thesis
    by (simp add: comment_approved_def queue_job_def add_job_simps new_job_def discussed_db_def update_where_def
        sample_comment_def empty_db_def)
qed

lemma destroy_one_run:
  assumes "wfaults w = []"
  shows "destroy_one i w = (Inr (by_id c_id i (comments (wdb w)) \<noteq> None), w\<lparr>wdb := on_comments (cascade i) (wdb w)\<rparr>)"
  using assms
  by (cases "by_id c_id i (comments (wdb w))")
    (auto simp: destroy_one_def get_comment_by_id_def delete_comment_def run_simps cascade_def)

lemma descends_mono: "descends cs j c \<Longrightarrow> set cs \<subseteq> set ds \<Longrightarrow> descends ds j c"
  by (induction rule: descends.induct) (auto intro: itself answer)

lemma descends_rest:
  "descends cs j c \<Longrightarrow> \<not> descends cs i c \<Longrightarrow> descends (filter (\<lambda>c. \<not> descends cs i c) cs) j c"
proof (induction rule: descends.induct)
  case (itself c)
  then show ?case by (intro descends.itself) simp_all
next
  case (answer p c)
  have "\<not> descends cs i p"
  proof
    assume "descends cs i p"
    then have "descends cs i c" using answer.hyps(2,3) by (rule descends.answer)
    with answer.prems show False by simp
  qed
  then have "descends (filter (\<lambda>c. \<not> descends cs i c) cs) j p" by (rule answer.IH)
  then show ?case by (rule descends.answer) (use answer.hyps(2,3) answer.prems in simp_all)
qed

lemma cascade_rest:
  assumes "ids_ok c_id cs" "c \<in> set (cascade i cs)"
  shows "descends (cascade i cs) j c \<longleftrightarrow> descends cs j c"
proof
  note f = cascade_filter [OF assms(1), of i]
  show "descends (cascade i cs) j c \<Longrightarrow> descends cs j c"
    unfolding f by (erule descends_mono) simp
  assume "descends cs j c"
  moreover have "\<not> descends cs i c" using assms(2) by (simp add: f)
  ultimately show "descends (cascade i cs) j c" unfolding f by (rule descends_rest)
qed

lemma destroy_batch_run:
  assumes "wfaults w = []" "comments_ok (wdb w)"
  shows "\<exists>n. n \<le> length ids \<and> count_successes (\<lambda>k. destroy_one) k ids w =
    (Inr n, w\<lparr>wdb := (wdb w)\<lparr>comments := filter (\<lambda>c. \<not> (\<exists>i \<in> set ids. descends (comments (wdb w)) i c)) (comments (wdb w))\<rparr>\<rparr>)"
  using assms
proof (induction ids arbitrary: w k)
  case Nil
  then show ?case by (simp add: run_simps)
next
  case (Cons i ids)
  let ?cs = "comments (wdb w)" and ?w = "w\<lparr>wdb := on_comments (cascade i) (wdb w)\<rparr>"
  have ids: "ids_ok c_id ?cs" using Cons.prems by (simp add: comments_ok_def)
  have "comments_ok (wdb ?w)" "wfaults ?w = []" using comments_ok_cascade [OF Cons.prems(2)] Cons.prems(1) by simp_all
  from Cons.IH [OF this(2,1), of "k + 1"] obtain n where n: "n \<le> length ids" "count_successes (\<lambda>k. destroy_one) (k + 1) ids ?w =
      (Inr n, ?w\<lparr>wdb := (wdb ?w)\<lparr>comments := filter (\<lambda>c. \<not> (\<exists>i \<in> set ids. descends (comments (wdb ?w)) i c)) (comments (wdb ?w))\<rparr>\<rparr>)"
    by blast
  have "filter (\<lambda>c. \<not> (\<exists>j \<in> set ids. descends (cascade i ?cs) j c)) (cascade i ?cs) =
      filter (\<lambda>c. \<not> (\<exists>j \<in> set ids. descends ?cs j c)) (cascade i ?cs)"
    using cascade_rest [OF ids] by (intro filter_cong) auto
  also have "\<dots> = filter (\<lambda>c. \<not> (\<exists>j \<in> set (i # ids). descends ?cs j c)) ?cs"
    by (auto simp: cascade_filter [OF ids] intro: filter_cong)
  finally have f: "filter (\<lambda>c. \<not> (\<exists>j \<in> set ids. descends (cascade i ?cs) j c)) (cascade i ?cs) = \<dots>" .
  have "count_successes (\<lambda>k. destroy_one) k (i # ids) w =
    (Inr (if by_id c_id i ?cs \<noteq> None then n + 1 else n),
      w\<lparr>wdb := (wdb w)\<lparr>comments := filter (\<lambda>c. \<not> (\<exists>j \<in> set (i # ids). descends ?cs j c)) ?cs\<rparr>\<rparr>)"
    using n(2) f by (simp add: run_simps destroy_one_run [OF Cons.prems(1)])
  moreover have "(if by_id c_id i ?cs \<noteq> None then n + 1 else n) \<le> length (i # ids)" using n(1) by simp
  ultimately show ?case by blast
qed

text \<open>
  Deleting a batch. From a consistent table, when no statement fails, exactly the comments named by the
  form and everything that answers them at any depth are gone, and the table is consistent again; values that are
  not positive numbers and ids without a comment are passed over.
\<close>

theorem batch_destroy_effect:
  assumes "wfaults w = []" "comments_ok (wdb w)"
  shows "\<exists>n w'. batch_destroy_comments vs w = (Inr (Notice (''Successfully deleted '' @ dec_nat n @ '' comment(s).'')), w') \<and>
    comments (wdb w') = filter (\<lambda>c. \<not> (\<exists>i \<in> set (comment_ids_from_form vs). descends (comments (wdb w)) i c)) (comments (wdb w)) \<and>
    comments_ok (wdb w') \<and> n \<le> length vs"
proof -
  obtain n where n: "n \<le> length (comment_ids_from_form vs)" "count_successes (\<lambda>k. destroy_one) 0 (comment_ids_from_form vs) w =
      (Inr n, w\<lparr>wdb := (wdb w)\<lparr>comments := filter (\<lambda>c. \<not> (\<exists>i \<in> set (comment_ids_from_form vs). descends (comments (wdb w)) i c)) (comments (wdb w))\<rparr>\<rparr>)"
    using destroy_batch_run [OF assms] by blast
  have "length (comment_ids_from_form vs) \<le> length vs"
    by (auto simp: comment_ids_from_form_def List.map_filter_def intro: le_trans [OF length_filter_le])
  moreover have "pres comments_ok (batch_destroy_comments vs)"
  proof -
    have "pres comments_ok (count_successes (\<lambda>k. destroy_one) k ids)" for k ids
      by (induction ids arbitrary: k) (auto simp: destroy_one_def intro!: pres_rules)
    then show ?thesis by (auto simp: batch_destroy_comments_def intro!: pres_rules)
  qed
  then have "comments_ok (wdb (snd (batch_destroy_comments vs w)))" using assms(2) by (simp add: pres_def)
  ultimately show ?thesis
    using n by (intro exI [of _ n] exI [of _ "snd (batch_destroy_comments vs w)"])
      (simp add: batch_destroy_comments_def run_simps)
qed

theorem batch_destroy_effect_witness:
  "\<exists>n w'. batch_destroy_comments [''x'', ''9'', ''2''] \<lparr>wdb = empty_db\<lparr>comments :=
       [sample_comment 1 None 1 None None, sample_comment 2 (Some 1) 1 None None, sample_comment 3 (Some 2) 1 None None]\<rparr>, wfaults = []\<rparr> =
     (Inr (Notice (''Successfully deleted '' @ dec_nat n @ '' comment(s).'')), w') \<and> map c_id (comments (wdb w')) = [1]"
proof -
  let ?cs = "[sample_comment 1 None 1 None None, sample_comment 2 (Some 1) 1 None None, sample_comment 3 (Some 2) 1 None None]"
  let ?w = "\<lparr>wdb = empty_db\<lparr>comments := ?cs\<rparr>, wfaults = []\<rparr> :: dbworld"
  have ok: "comments_ok (wdb ?w)"
    by (simp add: comments_ok_def ids_ok_def sample_comment_def refers_def by_id_def same_external_def
        same_article_external_def external_match_def sql_eq_def)
  have "comment_ids_from_form [''x'', ''9'', ''2''] = [9, 2]" by code_simp
  moreover have "map c_id (cascade 2 (cascade 9 ?cs)) = [1]" by code_simp
  moreover have "ids_ok c_id ?cs" "ids_ok c_id (cascade 9 ?cs)" using ok comments_ok_cascade [OF ok, of 9] by (simp_all add: comments_ok_def)
  then have "filter (\<lambda>c. \<not> (\<exists>i \<in> set [9, 2]. descends ?cs i c)) ?cs = cascade 2 (cascade 9 ?cs)"
    using cascade_rest [of ?cs _ 9 2] by (auto simp: cascade_filter simp del: filter.simps intro!: filter_cong)
  ultimately show ?thesis
    using batch_destroy_effect [of ?w "[''x'', ''9'', ''2'']"] ok by (fastforce simp del: filter.simps)
qed

section \<open>The moderation list\<close>

definition title_or_slug :: "string option \<Rightarrow> string option \<Rightarrow> string" where
  "title_or_slug title slug = (if str_of title \<noteq> '''' then str_of title else str_of slug)"

text \<open>\<open>displayCommentable\<close>: lookups that fail leave the title and the link empty.\<close>

definition article_link :: "string \<Rightarrow> int \<Rightarrow> (string \<times> string) db_act" where
  "article_link scope i =
     bindE (attempt (get_commentable_article_by_id i)) (\<lambda>r. case r of
       Inl _ \<Rightarrow> ret ('''', '''')
     | Inr a \<Rightarrow> ret (title_or_slug (a_title a) (a_slug a), article_path scope (str_of (a_slug a))))"

definition page_link :: "int \<Rightarrow> (string \<times> string) db_act" where
  "page_link i =
     bindE (attempt (get_commentable_page_by_id i)) (\<lambda>r. case r of
       Inl _ \<Rightarrow> ret ('''', '''')
     | Inr p \<Rightarrow> ret (title_or_slug (p_title p) (p_slug p), page_path (str_of (p_slug p))))"

definition display_commentable :: "string \<Rightarrow> comment \<Rightarrow> (string \<times> string) db_act" where
  "display_commentable scope c =
     bindE (if (c_commentable_type c = None \<or> c_commentable_id c = None) \<and> c_parent_id c \<noteq> None
            then bindE (attempt (get_comment_by_id (int_of (c_parent_id c)))) (\<lambda>r. case r of
                   Inr p \<Rightarrow> ret (c_commentable_type p, c_commentable_id p)
                 | Inl _ \<Rightarrow> ret (c_commentable_type c, c_commentable_id c))
            else ret (c_commentable_type c, c_commentable_id c)) (\<lambda>(ty, i).
       case (ty, i) of
         (Some t, Some k) \<Rightarrow>
           if t = ''Article'' then article_link scope k
           else if t = ''Page'' then page_link k else ret ('''', '''')
       | _ \<Rightarrow> (case c_article_id c of Some a \<Rightarrow> article_link scope a | None \<Rightarrow> ret ('''', '''')))"

fun with_links :: "string \<Rightarrow> comment list \<Rightarrow> (comment \<times> string \<times> string) list db_act" where
  "with_links scope [] = ret []"
| "with_links scope (c # cs) =
     bindE (display_commentable scope c) (\<lambda>l. bindE (with_links scope cs) (\<lambda>ls. ret ((c, l) # ls)))"

definition comments_per_page :: nat where "comments_per_page = 30"

text \<open>\<open>None\<close>: the page is a 404; a failing statement is the 500 page.\<close>

record comment_listing =
  cl_status :: string
  cl_rows :: "(comment \<times> string \<times> string) list"
  cl_dir :: string
  cl_page :: int
  cl_pages :: nat

definition comments_index ::
  "string \<Rightarrow> err + setting \<Rightarrow> (string \<Rightarrow> string) \<Rightarrow> comment_listing option db_act" where
  "comments_index scope site fv =
     (let st = parse_comment_status_filter (fv ''status'');
          value = (case st of Some s \<Rightarrow> s | None \<Rightarrow> - 1);
          dir = (if fv ''dir'' = ''asc'' then ''asc'' else ''desc'') in
      case admin_page_param (fv ''page'') of
        None \<Rightarrow> ret None
      | Some page \<Rightarrow>
          bindE (count_comments_filtered value) (\<lambda>found.
          bindE (if dir = ''asc'' then list_comments_date_asc value comments_per_page (page_offset comments_per_page page)
                 else list_comments_date_desc value comments_per_page (page_offset comments_per_page page)) (\<lambda>cs.
          (case site of Inl e \<Rightarrow> raise e | Inr _ \<Rightarrow>
             bindE (with_links scope cs) (\<lambda>rows.
             ret (Some \<lparr>cl_status = (if st = None then ''all'' else fv ''status''), cl_rows = rows, cl_dir = dir,
               cl_page = page, cl_pages = page_count comments_per_page found\<rparr>))))))"

end
