(* ===== verification/Ssrf.thy ===== *)
theory Ssrf
  imports NetText "HOL-Library.Word"
begin

text \<open>
  The guard on outgoing requests (\<open>internal/ssrf/ssrf.go\<close>): addresses and prefixes of \<open>net/netip\<close> as
  machine words, the list of blocked ranges, and the check of a URL. The resolver, \<open>url.Parse\<close> and
  \<open>netip.ParseAddr\<close> are arguments.
\<close>

section \<open>Addresses and prefixes of net/netip\<close>

text \<open>The zero \<open>Addr\<close>, IPv4, and IPv6 with its zone.\<close>

datatype netip_addr = NoAddr | V4 "32 word" | V6 "128 word" string

datatype netip_prefix = P4 "32 word" nat | P6 "128 word" nat

fun zone_of :: "netip_addr \<Rightarrow> string" where
  "zone_of (V6 a z) = z"
| "zone_of _ = ''''"

text \<open>\<open>Unmap\<close>: \<open>::ffff:a.b.c.d\<close> becomes \<open>a.b.c.d\<close>.\<close>

fun unmap :: "netip_addr \<Rightarrow> netip_addr" where
  "unmap (V6 a z) = (if drop_bit 32 a = 0xFFFF then V4 (ucast a) else V6 a z)"
| "unmap a = a"

text \<open>\<open>Prefix.Contains\<close>: the families agree, there is no zone, and no bit of the prefix differs.\<close>

fun prefix_contains :: "netip_prefix \<Rightarrow> netip_addr \<Rightarrow> bool" where
  "prefix_contains (P4 p n) (V4 a) = (drop_bit (32 - n) (xor a p) = 0)"
| "prefix_contains (P6 p n) (V6 a z) = (z = '''' \<and> drop_bit (128 - n) (xor a p) = 0)"
| "prefix_contains _ _ = False"

definition quad :: "nat \<Rightarrow> nat \<Rightarrow> nat \<Rightarrow> nat \<Rightarrow> 32 word" where
  "quad a b c d = of_nat (((a * 256 + b) * 256 + c) * 256 + d)"

text \<open>The address with the first groups given, as \<open>64:ff9b::\<close> is written.\<close>

definition groups :: "nat list \<Rightarrow> 128 word" where
  "groups hs = of_nat (foldl (\<lambda>n h. n * 65536 + h) 0 (take 8 (hs @ replicate 8 0)))"

section \<open>The guard\<close>

definition blocked_ip_prefixes :: "netip_prefix list" where
  "blocked_ip_prefixes =
     [P4 (quad 0 0 0 0) 8, P4 (quad 10 0 0 0) 8, P4 (quad 100 64 0 0) 10, P4 (quad 127 0 0 0) 8,
      P4 (quad 169 254 0 0) 16, P4 (quad 172 16 0 0) 12, P4 (quad 192 0 0 0) 24, P4 (quad 192 168 0 0) 16,
      P4 (quad 198 18 0 0) 15, P4 (quad 224 0 0 0) 4, P4 (quad 240 0 0 0) 4,
      P6 (groups [0]) 128, P6 (groups [0, 0, 0, 0, 0, 0, 0, 1]) 128,
      P6 (groups [0x2001]) 32, P6 (groups [0x2002]) 16, P6 (groups [0x64, 0xFF9B, 1]) 48,
      P6 (groups [0xFC00]) 7, P6 (groups [0xFE80]) 10]"

definition nat64_well_known :: netip_prefix where
  "nat64_well_known = P6 (groups [0x64, 0xFF9B]) 96"

text \<open>\<open>As16\<close>, the last four bytes.\<close>

fun low_four_bytes :: "netip_addr \<Rightarrow> 32 word" where
  "low_four_bytes (V6 a z) = ucast a"
| "low_four_bytes (V4 a) = a"
| "low_four_bytes NoAddr = 0"

definition blocked_ip :: "netip_addr \<Rightarrow> bool" where
  "blocked_ip addr =
     (if zone_of addr \<noteq> '''' then True
      else let addr = unmap addr;
               addr = (if prefix_contains nat64_well_known addr then V4 (low_four_bytes addr) else addr)
           in list_ex (\<lambda>p. prefix_contains p addr) blocked_ip_prefixes)"

text \<open>
  \<open>hostname\<close> is \<open>URL.Hostname\<close>; \<open>lookup\<close> is what the resolver answers for a host, an error or a list.
\<close>

definition safe_remote_url ::
  "(string \<Rightarrow> url_parts option) \<Rightarrow> (url_parts \<Rightarrow> string) \<Rightarrow> (string \<Rightarrow> netip_addr list option) \<Rightarrow> string \<Rightarrow> bool" where
  "safe_remote_url parse hostname lookup rawurl =
     (case parse rawurl of
        None \<Rightarrow> False
      | Some u \<Rightarrow>
          if u_scheme u \<noteq> ''http'' \<and> u_scheme u \<noteq> ''https'' then False
          else if hostname u = '''' then False
          else (case lookup (hostname u) of
             None \<Rightarrow> False
           | Some addrs \<Rightarrow> addrs \<noteq> [] \<and> list_all (\<lambda>a. \<not> blocked_ip a) addrs))"

text \<open>
  \<open>LookupIP\<close>: \<open>parse_addr\<close> is \<open>netip.ParseAddr\<close>, \<open>resolve\<close> the system resolver with its slices, of which
  \<open>AddrFromSlice\<close> refuses those that have neither 4 nor 16 bytes (\<open>None\<close>).
\<close>

definition lookup_ip ::
  "(string \<Rightarrow> netip_addr option) \<Rightarrow> (string \<Rightarrow> netip_addr option list option) \<Rightarrow> string \<Rightarrow> netip_addr list option" where
  "lookup_ip parse_addr resolve host =
     (case parse_addr host of
        Some a \<Rightarrow> Some [a]
      | None \<Rightarrow> map_option (List.map_filter (\<lambda>a. a)) (resolve host))"

section \<open>Prefixes as ranges\<close>

lemma xor_high_bits: "drop_bit n (xor a b) = 0 \<longleftrightarrow> drop_bit n a = drop_bit n (b :: 'a::len word)"
proof -
  have "drop_bit n (xor a b) = xor (drop_bit n a) (drop_bit n b)" by (rule drop_bit_xor)
  moreover have "xor x y = 0 \<longleftrightarrow> x = y" for x y :: "'a word"
    by (metis xor.assoc xor.left_neutral xor_self_eq)
  ultimately show ?thesis by simp
qed

lemma contains_div: "drop_bit n (xor a b) = 0 \<longleftrightarrow> unat a div 2 ^ n = unat (b :: 'a::len word) div 2 ^ n"
  by (simp only: xor_high_bits) (simp only: word_unat_eq_iff unat_drop_bit_eq, simp only: drop_bit_eq_div)

lemma unat_quad: "a < 256 \<Longrightarrow> b < 256 \<Longrightarrow> c < 256 \<Longrightarrow> d < 256 \<Longrightarrow>
    unat (quad a b c d) = ((a * 256 + b) * 256 + c) * 256 + d"
  unfolding quad_def by (subst unat_of_nat) (simp add: mod_less)

definition octet :: "nat \<Rightarrow> 32 word \<Rightarrow> nat" where
  "octet k a = unat a div 256 ^ (3 - k) mod 256"

lemma octet_bound: "octet k a < 256"
  by (simp add: octet_def)

text \<open>Public: not in one of the ranges that the IANA registries keep from the public Internet.\<close>

definition public_v4 :: "32 word \<Rightarrow> bool" where
  "public_v4 a =
     (octet 0 a \<notin> {0, 10, 127} \<and> octet 0 a < 224 \<and>
      \<not> (octet 0 a = 100 \<and> 64 \<le> octet 1 a \<and> octet 1 a < 128) \<and>
      \<not> (octet 0 a = 169 \<and> octet 1 a = 254) \<and>
      \<not> (octet 0 a = 172 \<and> 16 \<le> octet 1 a \<and> octet 1 a < 32) \<and>
      \<not> (octet 0 a = 192 \<and> (octet 1 a = 168 \<or> octet 1 a = 0 \<and> octet 2 a = 0)) \<and>
      \<not> (octet 0 a = 198 \<and> octet 1 a \<in> {18, 19}))"

lemma unat_octets:
  obtains o0 o1 o2 o3 where "o0 < 256" "o1 < 256" "o2 < 256" "o3 < 256" "a = quad o0 o1 o2 o3"
proof -
  let ?n = "unat a"
  have "?n < 2 ^ 32" using unsigned_less [of a] by simp
  then have "?n div 256 div 256 div 256 < 256" by simp
  have "((?n div 256 div 256 div 256 * 256 + ?n div 256 div 256 mod 256) * 256 + ?n div 256 mod 256) * 256 + ?n mod 256 = ?n"
    by (simp only: div_mult_mod_eq)
  then have "a = quad (?n div 256 div 256 div 256) (?n div 256 div 256 mod 256) (?n div 256 mod 256) (?n mod 256)"
    unfolding quad_def by (simp only: of_nat_unat ucast_id)
  with \<open>?n div 256 div 256 div 256 < 256\<close> show ?thesis by (intro that [of _ "?n div 256 div 256 mod 256" "?n div 256 mod 256" "?n mod 256"]) simp_all
qed

lemma octets:
  assumes "a < 256" "b < 256" "c < 256" "d < 256"
  shows "octet 0 (quad a b c d) = a" "octet 1 (quad a b c d) = b" "octet 2 (quad a b c d) = c"
proof -
  have low: "(x * 256 + y) div 256 = x" "(x * 256 + y) mod 256 = y" if "y < 256" for x y :: nat
    using that by simp_all
  have powers: "(256 :: nat) ^ (3 - 0) = 256 * 256 * 256" "(256 :: nat) ^ (3 - 1) = 256 * 256" "(256 :: nat) ^ (3 - 2) = 256"
    by simp_all
  note split = octet_def powers unat_quad [OF assms] div_mult2_eq low [OF assms(2)] low [OF assms(3)] low [OF assms(4)]
  show "octet 0 (quad a b c d) = a" using assms by (simp only: split mod_less)
  show "octet 1 (quad a b c d) = b" by (simp only: split)
  show "octet 2 (quad a b c d) = c" by (simp only: split)
qed

text \<open>Two numbers agree in the digits above a digit place exactly if their higher digits do.\<close>

lemma digits_eq: "y < m \<Longrightarrow> y' < m \<Longrightarrow> x * m + y = x' * m + y' \<longleftrightarrow> x = x' \<and> y = (y' :: nat)"
proof
  assume y: "y < m" "y' < m" and e: "x * m + y = x' * m + y'"
  have "(x * m + y) div m = x" "(x' * m + y') div m = x'" using y by simp_all
  with e show "x = x' \<and> y = y'" by simp
qed simp

lemma prefix_v4:
  assumes "a < 256" "b < 256" "c < 256" "d < 256" "p < 256" "q < 256" "r < 256" "s < 256"
  shows "prefix_contains (P4 (quad p q r s) 4) (V4 (quad a b c d)) \<longleftrightarrow> a div 16 = p div 16"
    "prefix_contains (P4 (quad p q r s) 8) (V4 (quad a b c d)) \<longleftrightarrow> a = p"
    "prefix_contains (P4 (quad p q r s) 10) (V4 (quad a b c d)) \<longleftrightarrow> a = p \<and> b div 64 = q div 64"
    "prefix_contains (P4 (quad p q r s) 12) (V4 (quad a b c d)) \<longleftrightarrow> a = p \<and> b div 16 = q div 16"
    "prefix_contains (P4 (quad p q r s) 15) (V4 (quad a b c d)) \<longleftrightarrow> a = p \<and> b div 2 = q div 2"
    "prefix_contains (P4 (quad p q r s) 16) (V4 (quad a b c d)) \<longleftrightarrow> a = p \<and> b = q"
    "prefix_contains (P4 (quad p q r s) 24) (V4 (quad a b c d)) \<longleftrightarrow> a = p \<and> b = q \<and> c = r"
proof -
  have low: "(x * 256 + y) div 256 = x" if "y < 256" for x y :: nat
    using that by simp
  have "(2 :: nat) ^ (32 - 4) = 256 * (256 * (256 * 16))" "(2 :: nat) ^ (32 - 8) = 256 * (256 * 256)"
    "(2 :: nat) ^ (32 - 10) = 256 * (256 * 64)" "(2 :: nat) ^ (32 - 12) = 256 * (256 * 16)"
    "(2 :: nat) ^ (32 - 15) = 256 * (256 * 2)" "(2 :: nat) ^ (32 - 16) = 256 * 256" "(2 :: nat) ^ (32 - 24) = 256"
    by simp_all
  note split = prefix_contains.simps contains_div this unat_quad [OF assms(1-4)] unat_quad [OF assms(5-8)] div_mult2_eq
    low [OF assms(2)] low [OF assms(3)] low [OF assms(4)] low [OF assms(6)] low [OF assms(7)] low [OF assms(8)]
  show "prefix_contains (P4 (quad p q r s) 4) (V4 (quad a b c d)) \<longleftrightarrow> a div 16 = p div 16" by (simp only: split)
  show "prefix_contains (P4 (quad p q r s) 8) (V4 (quad a b c d)) \<longleftrightarrow> a = p" by (simp only: split)
  have parts: "(x * 256 + y) div 64 = x * 4 + y div 64" "(x * 256 + y) div 16 = x * 16 + y div 16"
    "(x * 256 + y) div 2 = x * 128 + y div 2" if "y < 256" for x y :: nat
    using that by linarith+
  show "prefix_contains (P4 (quad p q r s) 10) (V4 (quad a b c d)) \<longleftrightarrow> a = p \<and> b div 64 = q div 64"
    unfolding split parts [OF assms(2)] parts [OF assms(6)] using assms by (intro digits_eq) simp_all
  show "prefix_contains (P4 (quad p q r s) 12) (V4 (quad a b c d)) \<longleftrightarrow> a = p \<and> b div 16 = q div 16"
    unfolding split parts [OF assms(2)] parts [OF assms(6)] using assms by (intro digits_eq) simp_all
  show "prefix_contains (P4 (quad p q r s) 15) (V4 (quad a b c d)) \<longleftrightarrow> a = p \<and> b div 2 = q div 2"
    unfolding split parts [OF assms(2)] parts [OF assms(6)] using assms by (intro digits_eq) simp_all
  show "prefix_contains (P4 (quad p q r s) 16) (V4 (quad a b c d)) \<longleftrightarrow> a = p \<and> b = q"
    unfolding split using assms by (intro digits_eq)
  show "prefix_contains (P4 (quad p q r s) 24) (V4 (quad a b c d)) \<longleftrightarrow> a = p \<and> b = q \<and> c = r"
    unfolding split using assms by (simp only: digits_eq conj_assoc)
qed

lemma div_ranges: "(x :: nat) div 16 = 14 \<or> x div 16 = 15 \<longleftrightarrow> 224 \<le> x \<and> x < 256"
  "(x :: nat) div 64 = 1 \<longleftrightarrow> 64 \<le> x \<and> x < 128" "(x :: nat) div 16 = 1 \<longleftrightarrow> 16 \<le> x \<and> x < 32"
  "(x :: nat) div 2 = 9 \<longleftrightarrow> x = 18 \<or> x = 19"
  by linarith+

lemma blocked_v4: "blocked_ip (V4 a) \<longleftrightarrow> \<not> public_v4 a"
proof -
  obtain o0 o1 o2 o3 where b: "o0 < 256" "o1 < 256" "o2 < 256" "o3 < 256" and a: "a = quad o0 o1 o2 o3"
    by (rule unat_octets)
  have "blocked_ip (V4 a) \<longleftrightarrow> o0 = 0 \<or> o0 = 10 \<or> o0 = 100 \<and> o1 div 64 = 1 \<or> o0 = 127 \<or> o0 = 169 \<and> o1 = 254 \<or>
      o0 = 172 \<and> o1 div 16 = 1 \<or> o0 = 192 \<and> o1 = 0 \<and> o2 = 0 \<or> o0 = 192 \<and> o1 = 168 \<or> o0 = 198 \<and> o1 div 2 = 9 \<or>
      (o0 div 16 = 14 \<or> o0 div 16 = 15)"
    unfolding a by (simp add: blocked_ip_def blocked_ip_prefixes_def nat64_well_known_def prefix_v4 b del: prefix_contains.simps(1))
  moreover have "224 \<le> o0 \<and> o0 < 256 \<longleftrightarrow> \<not> o0 < 224" using b by auto
  ultimately show ?thesis
    unfolding public_v4_def a octets [OF b] div_ranges insert_iff empty_iff by argo
qed

section \<open>IPv6\<close>

text \<open>
  What an IPv6 address carries: the mapped prefix \<open>::ffff:0:0/96\<close> and the NAT64 prefix \<open>64:ff9b::/96\<close>
  deliver to the IPv4 address of their last 32 bits.
\<close>

definition carried_v4 :: "128 word \<Rightarrow> 32 word option" where
  "carried_v4 a =
     (if unat a div 2 ^ 32 = 0xFFFF \<or> unat a div 2 ^ 32 = 0x64FF9B * 2 ^ 64 then Some (ucast a) else None)"

text \<open>
  Not for the public Internet: unspecified, loopback, Teredo, 6to4, the local NAT64 prefix, unique local
  and link local addresses.
\<close>

definition local_v6 :: "128 word \<Rightarrow> bool" where
  "local_v6 a =
     (unat a \<le> 1 \<or> unat a div 2 ^ 96 = 0x20010000 \<or> unat a div 2 ^ 112 = 0x2002 \<or>
      unat a div 2 ^ 80 = 0x64FF9B0001 \<or> unat a div 2 ^ 121 = 0x7E \<or> unat a div 2 ^ 118 = 0x3FA)"

lemma contains_v6: "prefix_contains (P6 p n) (V6 a z) \<longleftrightarrow> z = '''' \<and> unat a div 2 ^ (128 - n) = unat p div 2 ^ (128 - n)"
  by (simp only: prefix_contains.simps contains_div)

lemma le_one_iff: "n \<le> 1 \<longleftrightarrow> n = 0 \<or> n = (1 :: nat)"
  by auto

lemma zeros: "replicate 5 (0 :: nat) = [0, 0, 0, 0, 0]" "replicate 6 (0 :: nat) = [0, 0, 0, 0, 0, 0]"
  "replicate 7 (0 :: nat) = [0, 0, 0, 0, 0, 0, 0]"
  by (simp_all add: eval_nat_numeral)

lemma groups_values:
  "unat (groups [0]) = 0" "unat (groups [0, 0, 0, 0, 0, 0, 0, 1]) = 1" "unat (groups [0x2001]) = 0x2001 * 2 ^ 112"
  "unat (groups [0x2002]) = 0x2002 * 2 ^ 112" "unat (groups [0x64, 0xFF9B, 1]) = 0x64FF9B0001 * 2 ^ 80"
  "unat (groups [0xFC00]) = 0xFC00 * 2 ^ 112" "unat (groups [0xFE80]) = 0xFE80 * 2 ^ 112"
  "unat (groups [0x64, 0xFF9B]) = 0x64FF9B * 2 ^ 96"
  by (simp_all add: groups_def unat_of_nat take_bit_eq_mod zeros)

lemma unmap_v6: "unmap (V6 a z) = (if unat a div 2 ^ 32 = 0xFFFF then V4 (ucast a) else V6 a z)"
proof -
  have "drop_bit 32 a = 0xFFFF \<longleftrightarrow> unat a div 2 ^ 32 = 0xFFFF"
    unfolding word_unat_eq_iff unat_drop_bit_eq by (simp add: drop_bit_eq_div)
  then show ?thesis by simp
qed

lemma nat64_v6: "prefix_contains nat64_well_known (V6 a '''') \<longleftrightarrow> unat a div 2 ^ 32 = 0x64FF9B * 2 ^ 64"
  unfolding nat64_well_known_def contains_v6 groups_values by simp

lemma blocked_v6: "blocked_ip (V6 a z) \<longleftrightarrow>
    z \<noteq> '''' \<or> (case carried_v4 a of Some x \<Rightarrow> \<not> public_v4 x | None \<Rightarrow> local_v6 a)"
proof (cases "z = ''''")
  case True
  consider (mapped) "unat a div 2 ^ 32 = 0xFFFF" | (nat64) "unat a div 2 ^ 32 = 0x64FF9B * 2 ^ 64"
    | (plain) "unat a div 2 ^ 32 \<noteq> 0xFFFF" "unat a div 2 ^ 32 \<noteq> 0x64FF9B * 2 ^ 64" by blast
  then show ?thesis
  proof cases
    case mapped
    then have "blocked_ip (V6 a z) = blocked_ip (V4 (ucast a))"
      using True unmap_v6 [of a z] by (simp add: blocked_ip_def nat64_well_known_def Let_def del: unmap.simps(1))
    then show ?thesis using True mapped by (simp add: blocked_v4 carried_v4_def)
  next
    case nat64
    have "unmap (V6 a z) = V6 a z" using nat64 by (simp only: unmap_v6) simp
    then have "blocked_ip (V6 a z) = blocked_ip (V4 (ucast a))"
      using True nat64_v6 [of a] nat64 by (simp add: blocked_ip_def nat64_well_known_def Let_def del: unmap.simps(1))
    then show ?thesis using True nat64 by (simp add: blocked_v4 carried_v4_def)
  next
    case plain
    then have "unmap (V6 a z) = V6 a z" "\<not> prefix_contains nat64_well_known (V6 a z)"
      using True by (simp_all only: unmap_v6 nat64_v6 if_False not_False_eq_True)
    then have "blocked_ip (V6 a z) = list_ex (\<lambda>p. prefix_contains p (V6 a z)) blocked_ip_prefixes"
      using True by (simp only: blocked_ip_def Let_def if_False zone_of.simps simp_thms)
    also have "\<dots> \<longleftrightarrow> local_v6 a"
      unfolding local_v6_def le_one_iff using True
      by (simp add: blocked_ip_prefixes_def contains_v6 groups_values del: prefix_contains.simps(2) One_nat_def)
    finally show ?thesis using True plain by (simp add: carried_v4_def)
  qed
qed (simp add: blocked_ip_def)

text \<open>
  The guard blocks exactly the addresses that are not public. An IPv4 address is blocked if and only
  if one of its octet patterns is in the list of private, loopback, link-local, shared, benchmark,
  multicast and reserved ranges. An IPv6 address is blocked if it has a zone; otherwise, when it delivers
  to an IPv4 address (mapped or NAT64), exactly when that address is blocked, so that no spelling smuggles
  an internal address past the list; and in every other case exactly when it is unspecified, loopback,
  Teredo, 6to4, local NAT64, unique local or link local.
\<close>

theorem blocked_ip_exact:
  "(\<forall>a. blocked_ip (V4 a) \<longleftrightarrow> \<not> public_v4 a) \<and>
   (\<forall>a z. \<not> blocked_ip (V6 a z) \<longleftrightarrow>
      z = '''' \<and> (case carried_v4 a of Some x \<Rightarrow> public_v4 x | None \<Rightarrow> \<not> local_v6 a))"
  by (auto simp: blocked_v4 blocked_v6 split: option.splits)

text \<open>Where a connection to an address ends.\<close>

fun reaches_public :: "netip_addr \<Rightarrow> bool" where
  "reaches_public (V4 a) = public_v4 a"
| "reaches_public (V6 a z) = (z = '''' \<and> (case carried_v4 a of Some x \<Rightarrow> public_v4 x | None \<Rightarrow> \<not> local_v6 a))"
| "reaches_public NoAddr = True"

lemma not_blocked: "\<not> blocked_ip a \<Longrightarrow> reaches_public a"
  by (cases a) (auto simp: blocked_v4 blocked_v6 split: option.splits)


definition metadata_url :: url_parts where
  "metadata_url = \<lparr>u_scheme = ''http'', u_host = ''[64:ff9b::a9fe:a9fe]'', u_path = ''/latest''\<rparr>"


end
