(* ===== verification/SiteSettings.thy ===== *)
theory SiteSettings
  imports Schema GoText
begin

text \<open>
  The singleton settings row and its cache (\<open>internal/settings/settings.go\<close>, the statements of
  \<open>auth.sql.go\<close> and \<open>settings.sql.go\<close>). Clocks are nanoseconds since the epoch, \<open>unix\<close> cuts them to
  seconds. \<open>Get\<close> holds the mutex of the cache from its first to its last statement while \<open>Update\<close> takes
  it only to invalidate; \<open>cache_step\<close> interleaves them.
\<close>

section \<open>Statements\<close>

definition unix :: "int \<Rightarrow> int" where "unix t = t div 10 ^ 9"

definition new_setting :: "int \<Rightarrow> int \<Rightarrow> setting" where
  "new_setting created updated =
     \<lparr>se_id = 1, se_title = None, se_description = None, se_author = None, se_url = None,
      se_time_zone = ''UTC'', se_head_code = None, se_custom_css = None, se_tool_code = None, se_giscus = None,
      se_social_links = None, se_setup_completed = 0, se_created_at = created, se_updated_at = updated,
      se_article_route_prefix = None, se_feed_all_articles = 0\<rparr>"

definition ensured :: "int \<Rightarrow> int \<Rightarrow> database \<Rightarrow> database" where
  "ensured created updated d =
     (case settings d of None \<Rightarrow> d\<lparr>settings := Some (new_setting created updated)\<rparr> | Some _ \<Rightarrow> d)"

definition ensure_settings :: "int \<Rightarrow> int \<Rightarrow> unit db_act" where
  "ensure_settings created updated = modify (ensured created updated)"

definition get_settings :: "setting db_act" where
  "get_settings = query_row settings"

record settings_params =
  up_title :: "string option"
  up_description :: "string option"
  up_author :: "string option"
  up_url :: "string option"
  up_time_zone :: string
  up_head_code :: "string option"
  up_custom_css :: "string option"
  up_tool_code :: "string option"
  up_giscus :: "string option"
  up_social_links :: "string option"
  up_article_route_prefix :: "string option"
  up_feed_all_articles :: int
  up_updated_at :: int

definition write_settings :: "settings_params \<Rightarrow> setting \<Rightarrow> setting" where
  "write_settings p s =
     s\<lparr>se_title := up_title p, se_description := up_description p, se_author := up_author p, se_url := up_url p,
       se_time_zone := up_time_zone p, se_head_code := up_head_code p, se_custom_css := up_custom_css p,
       se_tool_code := up_tool_code p, se_giscus := up_giscus p, se_social_links := up_social_links p,
       se_article_route_prefix := up_article_route_prefix p, se_feed_all_articles := up_feed_all_articles p,
       se_updated_at := up_updated_at p\<rparr>"

definition update_settings :: "settings_params \<Rightarrow> unit db_act" where
  "update_settings p = modify (\<lambda>d. d\<lparr>settings := map_option (write_settings p) (settings d)\<rparr>)"

record setup_params =
  cs_title :: "string option"
  cs_description :: "string option"
  cs_author :: "string option"
  cs_url :: "string option"
  cs_time_zone :: string
  cs_updated_at :: int

definition write_setup :: "setup_params \<Rightarrow> setting \<Rightarrow> setting" where
  "write_setup p s =
     s\<lparr>se_title := cs_title p, se_description := cs_description p, se_author := cs_author p, se_url := cs_url p,
       se_time_zone := cs_time_zone p, se_setup_completed := 1, se_updated_at := cs_updated_at p\<rparr>"

definition complete_setup_row :: "setup_params \<Rightarrow> unit db_act" where
  "complete_setup_row p = modify (\<lambda>d. d\<lparr>settings := map_option (write_setup p) (settings d)\<rparr>)"

section \<open>The cache\<close>

text \<open>\<open>ttl\<close>: five minutes.\<close>

definition settings_ttl :: int where "settings_ttl = 5 * 60 * 10 ^ 9"

record settings_cache =
  sc_cached :: setting
  sc_loaded_at :: int
  sc_valid :: bool

definition cache_hit :: "int \<Rightarrow> settings_cache \<Rightarrow> bool" where
  "cache_hit now c = (sc_valid c \<and> now - sc_loaded_at c < settings_ttl)"

definition cache_store :: "setting \<Rightarrow> int \<Rightarrow> settings_cache \<Rightarrow> settings_cache" where
  "cache_store row now c = c\<lparr>sc_cached := row, sc_loaded_at := now, sc_valid := True\<rparr>"

definition invalidate :: "settings_cache \<Rightarrow> settings_cache" where
  "invalidate c = c\<lparr>sc_valid := False\<rparr>"

text \<open>\<open>Get\<close>: on an error the cache is as it was. \<open>clk\<close> gives the clock at each of the three reads.\<close>

definition cache_get :: "(nat \<Rightarrow> int) \<Rightarrow> settings_cache \<Rightarrow> (setting \<times> settings_cache) db_act" where
  "cache_get clk c =
     (if cache_hit (clk 0) c then ret (sc_cached c, c)
      else bindE (wrapping ''settings: ensure row'' (ensure_settings (unix (clk 1)) (unix (clk 1)))) (\<lambda>_.
           bindE (wrapping ''settings: load row'' get_settings) (\<lambda>row.
           ret (row, cache_store row (clk 2) c))))"

definition cache_update :: "int \<Rightarrow> settings_params \<Rightarrow> settings_cache \<Rightarrow> settings_cache db_act" where
  "cache_update now p c =
     bindE (wrapping ''settings: ensure row'' (ensure_settings (unix now) (unix now))) (\<lambda>_.
     bindE (wrapping ''settings: update row'' (update_settings p)) (\<lambda>_.
     ret (invalidate c)))"

text \<open>\<open>strings.Trim(s, "/")\<close>\<close>

definition trim_slashes :: "string \<Rightarrow> string" where
  "trim_slashes s = rev (dropWhile (\<lambda>c. c = CHR ''/'') (rev (dropWhile (\<lambda>c. c = CHR ''/'') s)))"

definition route_prefix :: "string \<Rightarrow> string db_act" where
  "route_prefix env =
     bindE (attempt get_settings) (\<lambda>r. case r of
       Inr row \<Rightarrow>
         (let p = trim_slashes (str_of (se_article_route_prefix row)) in
          ret (if p \<noteq> '''' then p else trim_slashes env))
     | Inl _ \<Rightarrow> ret (trim_slashes env))"

section \<open>What an update leaves\<close>

lemma settings_of_ensured [simp]: "settings (ensured a b d) = Some (case settings d of None \<Rightarrow> new_setting a b | Some s \<Rightarrow> s)"
  by (simp add: ensured_def split: option.splits)

text \<open>A successful update has written the row and dropped the cached one.\<close>

lemma cache_update_ok:
  assumes "cache_update now p c w = (Inr c', w')"
  shows "c' = invalidate c \<and> wdb w' = (wdb w)\<lparr>settings := Some (write_settings p
           (case settings (wdb w) of None \<Rightarrow> new_setting (unix now) (unix now) | Some s \<Rightarrow> s))\<rparr>"
proof -
  from assms obtain w1 where "ensure_settings (unix now) (unix now) w = (Inr (), w1)" "update_settings p w1 = (Inr (), w')"
    and c: "c' = invalidate c"
    by (auto simp: cache_update_def wrapping_ok ret_def elim!: bindE_ok)
  then have "wdb w1 = ensured (unix now) (unix now) (wdb w)"
    "wdb w' = (wdb w1)\<lparr>settings := map_option (write_settings p) (settings (wdb w1))\<rparr>"
    by (simp_all add: ensure_settings_def update_settings_def modify_ok)
  with c show ?thesis by (simp add: ensured_def split: option.splits)
qed

lemma cache_get_miss:
  assumes "\<not> cache_hit (clk 0) c" "cache_get clk c w = (Inr (row, c'), w')"
  shows "settings (wdb w') = Some row \<and> wdb w' = ensured (unix (clk 1)) (unix (clk 1)) (wdb w) \<and>
    c' = cache_store row (clk 2) c"
proof -
  from assms obtain w1 where "ensure_settings (unix (clk 1)) (unix (clk 1)) w = (Inr (), w1)"
    and g: "get_settings w1 = (Inr row, w')" and c: "c' = cache_store row (clk 2) c"
    by (auto simp: cache_get_def wrapping_ok ret_def elim!: bindE_ok)
  then have "wdb w1 = ensured (unix (clk 1)) (unix (clk 1)) (wdb w)"
    by (simp add: ensure_settings_def modify_ok)
  moreover from g have "settings (wdb w1) = Some row" "wdb w' = wdb w1"
    by (auto simp: get_settings_def dest: query_row_ok)
  ultimately show ?thesis using c by simp
qed

section \<open>The cache under concurrency\<close>

text \<open>
  Requests are numbered. A reader has taken the mutex, then has read the row; a writer (\<open>Update\<close>, or the
  setup that bypasses it) has changed the row and has yet to invalidate.
\<close>

datatype cache_phase = Outside | Locked | HasRow setting | Wrote

record cache_sys =
  sys_db :: database
  sys_cache :: settings_cache
  sys_holder :: "nat option"
  sys_phase :: "nat \<Rightarrow> cache_phase"

inductive cache_step :: "cache_sys \<Rightarrow> cache_sys \<Rightarrow> bool" where
  lock: "sys_phase s p = Outside \<Longrightarrow> sys_holder s = None \<Longrightarrow> \<not> cache_hit now (sys_cache s) \<Longrightarrow>
    cache_step s (s\<lparr>sys_holder := Some p, sys_phase := (sys_phase s)(p := Locked)\<rparr>)"
| read: "sys_phase s p = Locked \<Longrightarrow> settings (ensured t t (sys_db s)) = Some row \<Longrightarrow>
    cache_step s (s\<lparr>sys_db := ensured t t (sys_db s), sys_phase := (sys_phase s)(p := HasRow row)\<rparr>)"
| give_up: "sys_phase s p = Locked \<Longrightarrow> (d = sys_db s \<or> d = ensured t t (sys_db s)) \<Longrightarrow>
    cache_step s (s\<lparr>sys_db := d, sys_holder := None, sys_phase := (sys_phase s)(p := Outside)\<rparr>)"
| store: "sys_phase s p = HasRow row \<Longrightarrow>
    cache_step s (s\<lparr>sys_cache := cache_store row now (sys_cache s), sys_holder := None, sys_phase := (sys_phase s)(p := Outside)\<rparr>)"
| ensure: "sys_phase s p = Outside \<Longrightarrow> cache_step s (s\<lparr>sys_db := ensured t t (sys_db s)\<rparr>)"
| overwrite: "sys_phase s p = Outside \<Longrightarrow> u = write_settings x \<or> u = write_setup y \<Longrightarrow>
    cache_step s (s\<lparr>sys_db := (sys_db s)\<lparr>settings := map_option u (settings (sys_db s))\<rparr>,
                    sys_phase := (sys_phase s)(p := Wrote)\<rparr>)"
| drop_row: "sys_phase s p = Wrote \<Longrightarrow> sys_holder s = None \<Longrightarrow>
    cache_step s (s\<lparr>sys_cache := invalidate (sys_cache s), sys_phase := (sys_phase s)(p := Outside)\<rparr>)"

definition cache_start :: "cache_sys \<Rightarrow> bool" where
  "cache_start s \<longleftrightarrow> \<not> sc_valid (sys_cache s) \<and> sys_holder s = None \<and> sys_phase s = (\<lambda>_. Outside)"

text \<open>
  Only one reader is inside, and a row that is cached, or read and about to be cached, is the row of the
  database unless a writer has yet to invalidate.
\<close>

fun inside :: "cache_phase \<Rightarrow> bool" where
  "inside Locked = True"
| "inside (HasRow row) = True"
| "inside _ = False"

definition cache_inv :: "cache_sys \<Rightarrow> bool" where
  "cache_inv s \<longleftrightarrow>
     (\<forall>p. inside (sys_phase s p) \<longleftrightarrow> sys_holder s = Some p) \<and>
     (Wrote \<in> range (sys_phase s) \<or>
      (sc_valid (sys_cache s) \<longrightarrow> settings (sys_db s) = Some (sc_cached (sys_cache s))) \<and>
      (\<forall>p row. sys_phase s p = HasRow row \<longrightarrow> settings (sys_db s) = Some row))"

lemma ensured_keeps: "settings d = Some row \<Longrightarrow> ensured t t d = d"
  by (simp add: ensured_def)

lemma cache_inv_start: "cache_start s \<Longrightarrow> cache_inv s"
  by (simp add: cache_start_def cache_inv_def)

lemma wrote_elsewhere: "f p \<noteq> Wrote \<Longrightarrow> x \<noteq> Wrote \<Longrightarrow> Wrote \<in> range (f(p := x)) \<longleftrightarrow> Wrote \<in> range f"
  by (auto simp: image_iff) (metis fun_upd_other)+

text \<open>A reader inside has the mutex for itself.\<close>

lemma only_inside:
  assumes "cache_inv s" "inside (sys_phase s p)"
  shows "sys_holder s = Some p" "q \<noteq> p \<Longrightarrow> \<not> inside (sys_phase s q)" "q \<noteq> p \<Longrightarrow> sys_phase s q \<noteq> HasRow row"
proof -
  show h: "sys_holder s = Some p" using assms by (simp add: cache_inv_def)
  show n: "\<not> inside (sys_phase s q)" if "q \<noteq> p" using assms(1) h that by (simp add: cache_inv_def)
  show "sys_phase s q \<noteq> HasRow row" if "q \<noteq> p" using n [OF that] by auto
qed

lemma cache_step_inv:
  assumes "cache_step s s'" "cache_inv s"
  shows "cache_inv s'"
  using assms
proof cases
  case (lock p now)
  with assms(2) show ?thesis by (simp add: cache_inv_def wrote_elsewhere) auto
next
  case (read p t row)
  note alone = only_inside [OF assms(2), of p]
  with read assms(2) show ?thesis by (simp add: cache_inv_def wrote_elsewhere) (auto simp: ensured_keeps)
next
  case (give_up p d t)
  note alone = only_inside [OF assms(2), of p]
  with give_up assms(2) show ?thesis by (simp add: cache_inv_def wrote_elsewhere) (auto simp: ensured_keeps)
next
  case (store p row now)
  note alone = only_inside [OF assms(2), of p]
  with store assms(2) show ?thesis by (simp add: cache_inv_def wrote_elsewhere cache_store_def) auto
next
  case (ensure p t)
  with assms(2) show ?thesis by (auto simp: cache_inv_def ensured_keeps)
next
  case (overwrite p u x y)
  then have "\<not> inside (sys_phase s p)" by simp
  then have "sys_holder s \<noteq> Some p" using assms(2) unfolding cache_inv_def by metis
  with overwrite assms(2) show ?thesis by (auto simp: cache_inv_def)
next
  case (drop_row p)
  then have "sys_phase s q \<noteq> HasRow row" for q row using assms(2) by (metis cache_inv_def inside.simps(2) option.distinct(1))
  with drop_row assms(2) show ?thesis by (auto simp: cache_inv_def invalidate_def)
qed

lemma cache_reachable_inv:
  assumes "cache_start s0" "cache_step\<^sup>*\<^sup>* s0 s"
  shows "cache_inv s"
  using assms(2) by (induction rule: rtranclp_induct) (use assms(1) cache_inv_start cache_step_inv in blast)+

text \<open>
  C18: The cache is transparent. Whatever readers and writers were interleaved before, once no writer
  stands between its UPDATE and its invalidation, a \<open>Get\<close> that no other reader disturbs and whose
  statements succeed returns exactly the row of the database (the fresh default row when there is none),
  be it from the cache or not, and leaves every existing row alone. In particular no reader can bring back a row
  it had read before an update that has returned since.
\<close>

theorem settings_cache_transparent:
  assumes "cache_start s0" "cache_step\<^sup>*\<^sup>* s0 s" "\<forall>p. sys_phase s p \<noteq> Wrote"
    and "cache_get clk (sys_cache s) \<lparr>wdb = sys_db s, wfaults = fs\<rparr> = (Inr (row, c), w)"
  shows "row = (case settings (sys_db s) of Some r \<Rightarrow> r | None \<Rightarrow> new_setting (unix (clk 1)) (unix (clk 1))) \<and>
    wdb w = (case settings (sys_db s) of Some r \<Rightarrow> sys_db s | None \<Rightarrow> (sys_db s)\<lparr>settings := Some row\<rparr>)"
proof (cases "cache_hit (clk 0) (sys_cache s)")
  case True
  have "Wrote \<notin> range (sys_phase s)" using assms(3) by (metis rangeE)
  with True assms(4) cache_reachable_inv [OF assms(1,2)] show ?thesis
    by (auto simp: cache_get_def ret_def cache_hit_def cache_inv_def)
next
  case False
  from cache_get_miss [OF this assms(4)] show ?thesis
    by (auto simp: ensured_def split: option.splits)
qed

definition race_row :: setting where "race_row = new_setting 0 0"

definition race_params :: settings_params where
  "race_params = \<lparr>up_title = Some ''New'', up_description = None, up_author = None, up_url = None, up_time_zone = ''UTC'',
     up_head_code = None, up_custom_css = None, up_tool_code = None, up_giscus = None, up_social_links = None,
     up_article_route_prefix = None, up_feed_all_articles = 0, up_updated_at = 7\<rparr>"

definition race_start :: cache_sys where
  "race_start = \<lparr>sys_db = empty_db\<lparr>settings := Some race_row\<rparr>, sys_cache = \<lparr>sc_cached = race_row, sc_loaded_at = 0, sc_valid = False\<rparr>,
     sys_holder = None, sys_phase = (\<lambda>_. Outside)\<rparr>"

definition race_end :: cache_sys where
  "race_end = race_start\<lparr>sys_db := empty_db\<lparr>settings := Some (write_settings race_params race_row)\<rparr>,
     sys_cache := \<lparr>sc_cached = race_row, sc_loaded_at = 5, sc_valid = False\<rparr>\<rparr>"

text \<open>Request 1 has read the row, request 2 updates it, request 1 stores the old row, request 2 invalidates.\<close>

lemma race_run: "cache_step\<^sup>*\<^sup>* race_start race_end"
proof -
  let ?w = "write_settings race_params"
  define s1 where "s1 = race_start\<lparr>sys_holder := Some 1, sys_phase := (\<lambda>_. Outside)(1 := Locked)\<rparr>"
  define s2 where "s2 = s1\<lparr>sys_phase := (\<lambda>_. Outside)(1 := HasRow race_row)\<rparr>"
  define s3 where "s3 = s2\<lparr>sys_db := empty_db\<lparr>settings := Some (?w race_row)\<rparr>, sys_phase := (\<lambda>_. Outside)(1 := HasRow race_row, 2 := Wrote)\<rparr>"
  define s4 where "s4 = s3\<lparr>sys_cache := \<lparr>sc_cached = race_row, sc_loaded_at = 5, sc_valid = True\<rparr>, sys_holder := None,
    sys_phase := (\<lambda>_. Outside)(1 := Outside, 2 := Wrote)\<rparr>"
  note defs = s1_def s2_def s3_def s4_def race_start_def race_end_def
  have "cache_step race_start s1"
    using cache_step.lock [of race_start 1 0] by (simp add: defs cache_hit_def)
  moreover have "cache_step s1 s2"
    using cache_step.read [of s1 1 0 race_row] by (simp add: defs ensured_def)
  moreover have "cache_step s2 s3"
    using cache_step.overwrite [of s2 2 ?w race_params] by (simp add: defs)
  moreover have "cache_step s3 s4"
    using cache_step.store [of s3 1 race_row 5] by (simp add: defs cache_store_def fun_upd_twist)
  moreover have "cache_step s4 race_end"
    using cache_step.drop_row [of s4 2] by (simp add: defs invalidate_def fun_upd_idem)
  ultimately show ?thesis by (meson converse_rtranclp_into_rtranclp rtranclp.rtrancl_refl)
qed

theorem settings_cache_transparent_witness:
  "\<exists>row c w. cache_get (\<lambda>_. 9) (sys_cache race_end) \<lparr>wdb = sys_db race_end, wfaults = []\<rparr> = (Inr (row, c), w) \<and>
     se_title row = Some ''New''"
proof -
  let ?r = "write_settings race_params race_row" and ?w = "\<lparr>wdb = sys_db race_end, wfaults = []\<rparr>"
  have run: "cache_get (\<lambda>_. 9) (sys_cache race_end) ?w = (Inr (?r, cache_store ?r 9 (sys_cache race_end)), ?w)"
    by (simp add: race_end_def race_start_def cache_get_def cache_hit_def run_simps ensure_settings_def get_settings_def ensured_def)
  have "cache_start race_start" "\<forall>p. sys_phase race_end p \<noteq> Wrote"
    by (simp_all add: race_start_def race_end_def cache_start_def)
  from settings_cache_transparent [OF this(1) race_run this(2) run] run show ?thesis
    by (auto simp: race_end_def write_settings_def race_params_def)
qed

text \<open>A read after an update returns the submitted columns; the others are those of the row before.\<close>

lemma update_then_get:
  assumes "cache_update now p c w = (Inr c', w')" "cache_get clk c' w' = (Inr (row, c''), w'')"
  shows "row = write_settings p (case settings (wdb w) of None \<Rightarrow> new_setting (unix now) (unix now) | Some s \<Rightarrow> s)"
proof -
  from cache_update_ok [OF assms(1)] have c: "\<not> cache_hit (clk 0) c'"
    and d: "settings (wdb w') = Some (write_settings p (case settings (wdb w) of None \<Rightarrow> new_setting (unix now) (unix now) | Some s \<Rightarrow> s))"
    by (simp_all add: cache_hit_def invalidate_def)
  note m = cache_get_miss [OF c assms(2)]
  from m have "settings (wdb w'') = Some row" by (rule conjunct1)
  moreover from m d have "wdb w'' = wdb w'" by (simp add: ensured_def)
  ultimately show ?thesis using d by (metis option.inject)
qed

end
