(* ===== verification/Accounts.thy ===== *)
theory Accounts
  imports SiteSettings Tags NetText
begin

text \<open>
  Users, sessions and the first setup: the statements of \<open>internal/db/query/auth.sql.go\<close>, the handlers of
  \<open>internal/httpd/auth.go\<close> and \<open>setup.go\<close>, and the middleware of \<open>middleware.go\<close>. Clocks are nanoseconds.
  bcrypt is two arguments: \<open>cmp digest password\<close> is whether the comparison succeeds, \<open>hash password\<close> what
  \<open>GenerateFromPassword\<close> returns. The token of a new session is \<open>tok\<close>, 32 random bytes as hex.
\<close>

interpretation users_tab: row_table u_id "\<lambda>i r. r\<lparr>u_id := i\<rparr>"
  by unfold_locales simp

interpretation sessions_tab: row_table ss_id "\<lambda>i r. r\<lparr>ss_id := i\<rparr>"
  by unfold_locales simp

section \<open>Statements\<close>

definition count_users :: "nat db_act" where
  "count_users = query (\<lambda>d. length (users d))"

definition create_user :: "string \<Rightarrow> string \<Rightarrow> int \<Rightarrow> int \<Rightarrow> user db_act" where
  "create_user name digest created updated =
     exec (\<lambda>d. if list_ex (\<lambda>u. u_user_name u = name) (users d) then Inl (ErrUnique ''users.user_name'')
               else (case insert_row u_id (\<lambda>i r. r\<lparr>u_id := i\<rparr>)
                       \<lparr>u_id = 0, u_user_name = name, u_password_digest = digest, u_created_at = created, u_updated_at = updated\<rparr>
                       (users d) of (us, u) \<Rightarrow> Inr (d\<lparr>users := us\<rparr>, u)))"

definition get_user_by_id :: "int \<Rightarrow> user db_act" where
  "get_user_by_id i = query_row (\<lambda>d. by_id u_id i (users d))"

definition get_user_by_user_name :: "string \<Rightarrow> user db_act" where
  "get_user_by_user_name name = query_row (\<lambda>d. find (\<lambda>u. u_user_name u = name) (users d))"

definition update_user :: "string \<Rightarrow> string \<Rightarrow> int \<Rightarrow> int \<Rightarrow> unit db_act" where
  "update_user name digest now i =
     exec (\<lambda>d. if list_ex (\<lambda>u. u_id u = i) (users d) \<and> list_ex (\<lambda>u. u_id u \<noteq> i \<and> u_user_name u = name) (users d)
               then Inl (ErrUnique ''users.user_name'')
               else Inr (d\<lparr>users := update_where (\<lambda>u. u_id u = i)
                             (\<lambda>u. u\<lparr>u_user_name := name, u_password_digest := digest, u_updated_at := now\<rparr>) (users d)\<rparr>, ()))"

definition create_session :: "string \<Rightarrow> int \<Rightarrow> string option \<Rightarrow> string option \<Rightarrow> int \<Rightarrow> session db_act" where
  "create_session token uid ip agent now =
     exec (\<lambda>d. if list_ex (\<lambda>s. ss_token s = token) (sessions d) then Inl (ErrUnique ''sessions.token'')
               else if \<not> list_ex (\<lambda>u. u_id u = uid) (users d) then Inl fk_error
               else (case insert_row ss_id (\<lambda>i r. r\<lparr>ss_id := i\<rparr>)
                       \<lparr>ss_id = 0, ss_token = token, ss_user_id = uid, ss_ip_address = ip, ss_user_agent = agent,
                        ss_created_at = now, ss_updated_at = now\<rparr>
                       (sessions d) of (ss, s) \<Rightarrow> Inr (d\<lparr>sessions := ss\<rparr>, s)))"

definition get_session_by_token :: "string \<Rightarrow> session db_act" where
  "get_session_by_token token = query_row (\<lambda>d. find (\<lambda>s. ss_token s = token) (sessions d))"

definition delete_session_by_token :: "string \<Rightarrow> unit db_act" where
  "delete_session_by_token token =
     modify (\<lambda>d. d\<lparr>sessions := delete_where (\<lambda>s. ss_token s = token) (sessions d)\<rparr>)"

definition delete_other_sessions_for_user :: "int \<Rightarrow> string \<Rightarrow> unit db_act" where
  "delete_other_sessions_for_user uid token =
     modify (\<lambda>d. d\<lparr>sessions := delete_where (\<lambda>s. ss_user_id s = uid \<and> ss_token s \<noteq> token) (sessions d)\<rparr>)"

text \<open>\<open>:execrows\<close>: how many rows went.\<close>

definition delete_expired_sessions :: "int \<Rightarrow> nat db_act" where
  "delete_expired_sessions before =
     exec (\<lambda>d. Inr (d\<lparr>sessions := delete_where (\<lambda>s. ss_created_at s < before) (sessions d)\<rparr>,
                    count_where (\<lambda>s. ss_created_at s < before) (sessions d)))"

section \<open>Sessions\<close>

definition session_ttl :: int where "session_ttl = 30 * 24 * 60 * 60 * 10 ^ 9"

definition normalize_user_name :: "(string \<Rightarrow> string) \<Rightarrow> string \<Rightarrow> string" where
  "normalize_user_name uni name = to_lower uni (trim_space name)"

definition null_if_empty :: "string \<Rightarrow> string option" where
  "null_if_empty s = (if s = '''' then None else Some s)"

text \<open>The result is the value of the cookie.\<close>

definition start_session :: "err + string \<Rightarrow> int \<Rightarrow> string \<Rightarrow> string \<Rightarrow> user \<Rightarrow> string db_act" where
  "start_session tok now remote agent u =
     (case tok of
        Inl e \<Rightarrow> raise e
      | Inr token \<Rightarrow>
          let ip = (case split_host_port remote of None \<Rightarrow> remote | Some (host, port) \<Rightarrow> host) in
          bindE (create_session token (u_id u) (null_if_empty ip) (null_if_empty agent) (unix now)) (\<lambda>_. ret token))"

definition session_expired :: "int \<Rightarrow> session \<Rightarrow> bool db_act" where
  "session_expired now s =
     (if now - ss_created_at s * 10 ^ 9 \<le> session_ttl then ret False
      else bindE (attempt (delete_session_by_token (ss_token s))) (\<lambda>_. ret True))"

text \<open>\<open>RequireAuth\<close>: the user the request goes on with, \<open>None\<close> where it is sent to the login page.\<close>

definition require_auth :: "int \<Rightarrow> string option \<Rightarrow> user option db_act" where
  "require_auth now cookie =
     (case cookie of
        None \<Rightarrow> ret None
      | Some token \<Rightarrow>
          bindE (attempt (get_session_by_token token)) (\<lambda>r. case r of
            Inl _ \<Rightarrow> ret None
          | Inr s \<Rightarrow>
              bindE (session_expired now s) (\<lambda>expired.
              if expired then ret None
              else bindE (attempt (get_user_by_id (ss_user_id s))) (\<lambda>r. case r of
                Inl _ \<Rightarrow> ret None
              | Inr u \<Rightarrow> ret (Some u)))))"

section \<open>Login, logout, account\<close>

text \<open>The setup verdict of the process: whether setup is incomplete, and when that was found out.\<close>

type_synonym setup_cache = "(bool \<times> int) option"

definition invalidate_setup_cache :: "setup_cache \<Rightarrow> setup_cache" where
  "invalidate_setup_cache c = None"

datatype login_reply = BadCredentials | LoginError | LoggedIn string

definition login ::
  "(string \<Rightarrow> string) \<Rightarrow> (string \<Rightarrow> string \<Rightarrow> bool) \<Rightarrow> string \<Rightarrow> err + string \<Rightarrow> int \<Rightarrow> string \<Rightarrow> string \<Rightarrow> (string \<Rightarrow> string) \<Rightarrow>
   setup_cache \<Rightarrow> (login_reply \<times> setup_cache) db_act" where
  "login uni cmp dummy tok now remote agent fv c =
     bindE (attempt (get_user_by_user_name (normalize_user_name uni (fv ''user_name'')))) (\<lambda>r.
       let digest = (case r of Inl _ \<Rightarrow> dummy | Inr u \<Rightarrow> u_password_digest u);
           ok = cmp digest (fv ''password'')
       in case r of
            Inl _ \<Rightarrow> ret (BadCredentials, c)
          | Inr u \<Rightarrow>
              if \<not> ok then ret (BadCredentials, c)
              else bindE (attempt (start_session tok now remote agent u)) (\<lambda>r. case r of
                     Inl _ \<Rightarrow> ret (LoginError, c)
                   | Inr token \<Rightarrow> ret (LoggedIn token, invalidate_setup_cache c)))"

definition logout :: "string option \<Rightarrow> setup_cache \<Rightarrow> setup_cache db_act" where
  "logout cookie c =
     (case cookie of
        None \<Rightarrow> ret (invalidate_setup_cache c)
      | Some token \<Rightarrow> bindE (attempt (delete_session_by_token token)) (\<lambda>_. ret (invalidate_setup_cache c)))"

datatype account_reply = FormRejected string | ServerError | AccountUpdated

definition user_update ::
  "(string \<Rightarrow> string) \<Rightarrow> (string \<Rightarrow> string \<Rightarrow> bool) \<Rightarrow> (string \<Rightarrow> err + string) \<Rightarrow> int \<Rightarrow> string option \<Rightarrow> user \<Rightarrow> (string \<Rightarrow> string) \<Rightarrow>
   account_reply db_act" where
  "user_update uni cmp hash now cookie user fv =
     (let name = normalize_user_name uni (fv ''user_name''); password = fv ''password'' in
      if name = '''' then ret (FormRejected ''User name can't be blank.'')
      else if password \<noteq> '''' \<and> \<not> cmp (u_password_digest user) (fv ''current_password'')
      then ret (FormRejected ''Current password is incorrect.'')
      else if password \<noteq> '''' \<and> password \<noteq> fv ''password_confirmation''
      then ret (FormRejected ''Password confirmation doesn't match password.'')
      else if password \<noteq> '''' \<and> 72 < length password
      then ret (FormRejected ''Password is too long (maximum is 72 characters).'')
      else (case (if password = '''' then Inr (u_password_digest user) else hash password) of
        Inl _ \<Rightarrow> ret ServerError
      | Inr digest \<Rightarrow>
          bindE (attempt (update_user name digest (unix now) (u_id user))) (\<lambda>r. case r of
            Inl e \<Rightarrow> ret (if is_unique_violation e then FormRejected ''User name has already been taken.'' else ServerError)
          | Inr _ \<Rightarrow>
              (case cookie of
                 Some token \<Rightarrow>
                   if password = '''' then ret AccountUpdated
                   else bindE (attempt (delete_other_sessions_for_user (u_id user) token)) (\<lambda>_. ret AccountUpdated)
               | None \<Rightarrow> ret AccountUpdated))))"

section \<open>Setup\<close>

definition setup_cache_ttl :: int where "setup_cache_ttl = 5 * 60 * 10 ^ 9"

definition setup_cached :: "int \<Rightarrow> setup_cache \<Rightarrow> bool option" where
  "setup_cached now c =
     (case c of Some (b, t) \<Rightarrow> if now - t < setup_cache_ttl then Some b else None | None \<Rightarrow> None)"

text \<open>The clock is read for the cache, twice for the new row, and for the entry.\<close>

definition setup_incomplete :: "(nat \<Rightarrow> int) \<Rightarrow> setup_cache \<Rightarrow> (bool \<times> setup_cache) db_act" where
  "setup_incomplete clk c =
     (case setup_cached (clk 0) c of
        Some b \<Rightarrow> ret (b, c)
      | None \<Rightarrow>
          bindE (attempt count_users) (\<lambda>r. case r of
            Inl _ \<Rightarrow> ret (False, c)
          | Inr n \<Rightarrow>
              if n = 0 then ret (True, Some (True, clk 3))
              else bindE (attempt (ensure_settings (unix (clk 1)) (unix (clk 2)))) (\<lambda>r. case r of
                Inl _ \<Rightarrow> ret (False, c)
              | Inr _ \<Rightarrow>
                  bindE (attempt get_settings) (\<lambda>r. case r of
                    Inl e \<Rightarrow> if error_is e ErrNoRows then ret (True, Some (True, clk 3)) else ret (False, c)
                  | Inr s \<Rightarrow> ret (se_setup_completed s = 0, Some (se_setup_completed s = 0, clk 3))))))"

datatype setup_reply = SetupDoneBefore | SetupRejected string | SetupError | SetupCompleted

definition setup_errors :: "string \<Rightarrow> (string \<Rightarrow> string) \<Rightarrow> string option" where
  "setup_errors name fv =
     (if name = '''' then Some ''User name can't be blank.''
      else if fv ''password'' = '''' then Some ''Password can't be blank.''
      else if fv ''password'' \<noteq> fv ''password_confirmation'' then Some ''Password confirmation doesn't match password.''
      else if 72 < length (fv ''password'') then Some ''Password is too long (maximum is 72 characters).''
      else if fv ''title'' = '''' then Some ''Title can't be blank.''
      else if fv ''url'' = '''' then Some ''URL can't be blank.''
      else None)"

definition setup_form :: "(string \<Rightarrow> string) \<Rightarrow> int \<Rightarrow> setup_params" where
  "setup_form fv now =
     \<lparr>cs_title = null_if_empty (fv ''title''), cs_description = null_if_empty (fv ''description''),
      cs_author = null_if_empty (fv ''author''), cs_url = null_if_empty (fv ''url''),
      cs_time_zone = (if fv ''time_zone'' = '''' then ''UTC'' else fv ''time_zone''), cs_updated_at = now\<rparr>"

text \<open>The body of the transaction: whether it commits, and the reply.\<close>

definition setup_tx :: "int \<Rightarrow> string \<Rightarrow> string \<Rightarrow> (string \<Rightarrow> string) \<Rightarrow> (bool \<times> setup_reply) db_act" where
  "setup_tx now name digest fv =
     bindE count_users (\<lambda>n.
     bindE (attempt get_settings) (\<lambda>s.
       if 0 < n \<and> (case s of Inr row \<Rightarrow> se_setup_completed row \<noteq> 0 | Inl _ \<Rightarrow> False) then ret (False, SetupDoneBefore)
       else bindE (attempt (create_user name digest now now)) (\<lambda>r. case r of
         Inl e \<Rightarrow> if is_unique_violation e then ret (False, SetupRejected ''User name has already been taken.'') else raise e
       | Inr _ \<Rightarrow>
           bindE (ensure_settings now now) (\<lambda>_.
           bindE (complete_setup_row (setup_form fv now)) (\<lambda>_.
           ret (True, SetupCompleted))))))"

definition setup_create ::
  "(string \<Rightarrow> string) \<Rightarrow> (string \<Rightarrow> err + string) \<Rightarrow> (nat \<Rightarrow> int) \<Rightarrow> (string \<Rightarrow> string) \<Rightarrow> setup_cache \<Rightarrow> settings_cache \<Rightarrow>
   (setup_reply \<times> setup_cache \<times> settings_cache) db_act" where
  "setup_create uni hash clk fv c sc =
     bindE (setup_incomplete clk c) (\<lambda>(incomplete, c1).
       if \<not> incomplete then ret (SetupDoneBefore, c1, sc)
       else let name = normalize_user_name uni (fv ''user_name'') in
       (case setup_errors name fv of
          Some msg \<Rightarrow> ret (SetupRejected msg, c1, sc)
        | None \<Rightarrow> (case hash (fv ''password'') of
            Inl _ \<Rightarrow> ret (SetupError, c1, sc)
          | Inr digest \<Rightarrow>
              bindE (attempt (in_tx id id (setup_tx (unix (clk 4)) name digest fv))) (\<lambda>r. case r of
                Inl _ \<Rightarrow> ret (SetupError, c1, sc)
              | Inr SetupCompleted \<Rightarrow> ret (SetupCompleted, invalidate_setup_cache c1, invalidate sc)
              | Inr reply \<Rightarrow> ret (reply, c1, sc)))))"

section \<open>Middleware\<close>

definition setup_allowed_prefixes :: "string list" where
  "setup_allowed_prefixes = [''/setup'', ''/session'', ''/up'', ''/files'', ''/static'', ''/assets'']"

text \<open>Whether the request is sent to \<open>/setup\<close>.\<close>

definition setup_redirect :: "(nat \<Rightarrow> int) \<Rightarrow> string \<Rightarrow> setup_cache \<Rightarrow> (bool \<times> setup_cache) db_act" where
  "setup_redirect clk path c =
     (if list_ex (\<lambda>p. path = p \<or> has_prefix path (p @ ''/'')) setup_allowed_prefixes then ret (False, c)
      else setup_incomplete clk c)"

text \<open>Whether the request passes; the host of \<open>origin\<close> is read by \<open>url.Parse\<close>.\<close>

definition origin_check ::
  "(string \<Rightarrow> url_parts option) \<Rightarrow> (string \<Rightarrow> string \<Rightarrow> bool) \<Rightarrow> string \<Rightarrow> string \<Rightarrow> string \<Rightarrow> string \<Rightarrow> bool" where
  "origin_check parse efold meth origin fetch_site host =
     (if meth = ''GET'' \<or> meth = ''HEAD'' then True
      else if origin = '''' \<and> fetch_site = '''' then True
      else if origin \<noteq> '''' \<and> (case parse origin of None \<Rightarrow> True | Some u \<Rightarrow> \<not> equal_fold efold (u_host u) host) then False
      else fetch_site \<in> set ['''', ''same-origin'', ''same-site'', ''none''])"

text \<open>
  The path the router matches, when it is not the path of the request. The router is chi, so the context of
  the route is always there.
\<close>

definition strip_trailing_slash :: "string \<Rightarrow> string \<Rightarrow> string option" where
  "strip_trailing_slash path raw_path =
     (if 1 < length path \<and> last path = CHR ''/'' \<and> \<not> has_prefix path ''/archives/'' then
        (let route_path = (if raw_path = '''' then path else raw_path) in
         if has_suffix route_path ''/'' then Some (butlast route_path) else None)
      else None)"

section \<open>The invariant of users and sessions\<close>

definition accounts_ok :: "database \<Rightarrow> bool" where
  "accounts_ok d \<longleftrightarrow>
     ids_ok u_id (users d) \<and> ids_ok ss_id (sessions d) \<and> distinct (map u_user_name (users d)) \<and>
     distinct (map ss_token (sessions d)) \<and> (\<forall>s \<in> set (sessions d). ss_user_id s \<in> u_id ` set (users d))"

lemma find_key:
  "distinct (map f rs) \<Longrightarrow> find (\<lambda>r. f r = k) rs = Some r \<longleftrightarrow> r \<in> set rs \<and> f r = k"
  by (induction rs) (auto simp: image_iff)

lemma find_key_filter:
  "distinct (map f rs) \<Longrightarrow> find (\<lambda>r. f r = k) (filter q rs) =
     (case find (\<lambda>r. f r = k) rs of None \<Rightarrow> None | Some r \<Rightarrow> if q r then Some r else None)"
  by (induction rs) (auto split: option.splits simp: find_None_iff find_Some_iff)

text \<open>The session a token opens: its user and when it was started.\<close>

definition live :: "database \<Rightarrow> string \<Rightarrow> (int \<times> int) option" where
  "live d t = map_option (\<lambda>s. (ss_user_id s, ss_created_at s)) (find (\<lambda>s. ss_token s = t) (sessions d))"

lemma live_delete:
  "accounts_ok d \<Longrightarrow> live (d\<lparr>sessions := delete_where p (sessions d)\<rparr>) t =
     (case find (\<lambda>s. ss_token s = t) (sessions d) of None \<Rightarrow> None
      | Some s \<Rightarrow> if p s then None else Some (ss_user_id s, ss_created_at s))"
  by (auto simp: live_def accounts_ok_def delete_where_def find_key_filter split: option.splits)

subsection \<open>Preservation\<close>

lemma accounts_ok_sessions:
  "accounts_ok d \<Longrightarrow> accounts_ok (d\<lparr>sessions := delete_where p (sessions d)\<rparr>)"
  unfolding accounts_ok_def delete_where_def
  by (auto simp: distinct_map_filter intro: sessions_tab.ids_ok_delete [unfolded delete_where_def])

lemma pres_create_user [pres_rules]: "pres accounts_ok (create_user name digest a b)"
proof (unfold create_user_def, rule pres_exec)
  fix d d' x
  let ?u = "\<lparr>u_id = 0, u_user_name = name, u_password_digest = digest, u_created_at = a, u_updated_at = b\<rparr>"
  assume ok: "accounts_ok d" and "(if list_ex (\<lambda>u. u_user_name u = name) (users d) then Inl (ErrUnique ''users.user_name'')
     else (case insert_row u_id (\<lambda>i r. r\<lparr>u_id := i\<rparr>) ?u (users d) of (us, u) \<Rightarrow> Inr (d\<lparr>users := us\<rparr>, u))) = Inr (d', x)"
  then have n: "name \<notin> u_user_name ` set (users d)"
    and d': "d' = d\<lparr>users := fst (insert_row u_id (\<lambda>i r. r\<lparr>u_id := i\<rparr>) ?u (users d))\<rparr>"
    by (auto simp: list_ex_iff split: if_splits prod.splits)
  have "ids_ok u_id (users d')" using ok unfolding d' by (auto simp: accounts_ok_def intro: users_tab.ids_ok_insert)
  then show "accounts_ok d'" using ok n d' by (auto simp: accounts_ok_def insert_row_def Let_def)
qed

lemma pres_create_session [pres_rules]: "pres accounts_ok (create_session token uid ip agent now)"
proof (unfold create_session_def, rule pres_exec)
  fix d d' x
  let ?s = "\<lparr>ss_id = 0, ss_token = token, ss_user_id = uid, ss_ip_address = ip, ss_user_agent = agent,
                        ss_created_at = now, ss_updated_at = now\<rparr>"
  assume ok: "accounts_ok d" and "(if list_ex (\<lambda>s. ss_token s = token) (sessions d) then Inl (ErrUnique ''sessions.token'')
      else if \<not> list_ex (\<lambda>u. u_id u = uid) (users d) then Inl fk_error
      else (case insert_row ss_id (\<lambda>i r. r\<lparr>ss_id := i\<rparr>) ?s (sessions d) of (ss, s) \<Rightarrow> Inr (d\<lparr>sessions := ss\<rparr>, s))) = Inr (d', x)"
  then have n: "token \<notin> ss_token ` set (sessions d)" "uid \<in> u_id ` set (users d)"
    and d': "d' = d\<lparr>sessions := fst (insert_row ss_id (\<lambda>i r. r\<lparr>ss_id := i\<rparr>) ?s (sessions d))\<rparr>"
    by (auto simp: list_ex_iff split: if_splits prod.splits)
  have "ids_ok ss_id (sessions d')" using ok unfolding d' by (auto simp: accounts_ok_def intro: sessions_tab.ids_ok_insert)
  then show "accounts_ok d'" using ok n d' by (auto simp: accounts_ok_def insert_row_def Let_def)
qed

lemma pres_delete_sessions [pres_rules]:
  "pres accounts_ok (delete_session_by_token t)" "pres accounts_ok (delete_other_sessions_for_user i t)"
  "pres accounts_ok (delete_expired_sessions n)"
  unfolding delete_session_by_token_def delete_other_sessions_for_user_def delete_expired_sessions_def
  by (intro pres_modify pres_exec; auto intro: accounts_ok_sessions)+

lemma distinct_rename:
  "ids_ok u_id us \<Longrightarrow> distinct (map u_user_name us) \<Longrightarrow> \<not> (\<exists>u \<in> set us. u_id u \<noteq> i \<and> u_user_name u = name) \<Longrightarrow>
    distinct (map u_user_name (update_where (\<lambda>u. u_id u = i)
      (\<lambda>u. u\<lparr>u_user_name := name, u_password_digest := digest, u_updated_at := now\<rparr>) us))"
proof (induction us)
  case (Cons x us)
  then have "ids_ok u_id us" "u_id x \<notin> u_id ` set us" by (auto simp: ids_ok_def)
  with Cons show ?case by (auto simp: update_where_def image_iff)
qed simp

lemma pres_update_user [pres_rules]: "pres accounts_ok (update_user name digest now i)"
  unfolding update_user_def
proof (rule pres_exec)
  fix d d' :: database and x :: unit
  let ?us = "update_where (\<lambda>u. u_id u = i)
     (\<lambda>u. u\<lparr>u_user_name := name, u_password_digest := digest, u_updated_at := now\<rparr>) (users d)"
  assume ok: "accounts_ok d" and "(if list_ex (\<lambda>u. u_id u = i) (users d) \<and> list_ex (\<lambda>u. u_id u \<noteq> i \<and> u_user_name u = name) (users d)
     then Inl (ErrUnique ''users.user_name'') else Inr (d\<lparr>users := ?us\<rparr>, ())) = Inr (d', x)"
  then have d': "d' = d\<lparr>users := ?us\<rparr>" and n: "i \<in> u_id ` set (users d) \<longrightarrow> \<not> (\<exists>u \<in> set (users d). u_id u \<noteq> i \<and> u_user_name u = name)"
    by (auto simp: list_ex_iff split: if_splits)
  have ids: "ids_ok u_id ?us" using ok by (intro users_tab.ids_ok_update) (simp_all add: accounts_ok_def)
  have "distinct (map u_user_name ?us)"
  proof (cases "i \<in> u_id ` set (users d)")
    case True
    with n ok show ?thesis by (intro distinct_rename) (auto simp: accounts_ok_def)
  next
    case False
    then have "?us = users d" by (intro update_where_none) auto
    with ok show ?thesis by (simp add: accounts_ok_def)
  qed
  moreover have "map u_id ?us = map u_id (users d)" by (simp add: update_where_def)
  then have "u_id ` set ?us = u_id ` set (users d)" by (metis set_map)
  ultimately show "accounts_ok d'" using ok ids d' by (simp add: accounts_ok_def)
qed

lemma pres_settings_rows [pres_rules]:
  "pres accounts_ok (ensure_settings a b)" "pres accounts_ok (complete_setup_row p)" "pres accounts_ok get_settings"
  "pres accounts_ok count_users" "pres accounts_ok (get_user_by_id i)" "pres accounts_ok (get_user_by_user_name n)"
  "pres accounts_ok (get_session_by_token t)"
  unfolding ensure_settings_def complete_setup_row_def get_settings_def count_users_def get_user_by_id_def
    get_user_by_user_name_def get_session_by_token_def
  by (intro pres_rules pres_modify; auto simp: accounts_ok_def ensured_def split: option.splits)+

text \<open>Every operation of this theory keeps the invariant, whichever statements fail.\<close>

lemma pres_accounts:
  "pres accounts_ok (require_auth now cookie)" "pres accounts_ok (login uni cmp dummy tok now remote agent fv c)"
  "pres accounts_ok (logout cookie c)" "pres accounts_ok (user_update uni cmp hash now cookie user fv)"
  "pres accounts_ok (setup_incomplete clk c)" "pres accounts_ok (setup_create uni hash clk fv c sc)"
  unfolding require_auth_def login_def logout_def user_update_def setup_create_def setup_incomplete_def start_session_def
    session_expired_def setup_tx_def Let_def
  by (auto intro!: pres_rules split: setup_reply.splits)

section \<open>Who is let in\<close>

definition session_fresh :: "int \<Rightarrow> int \<Rightarrow> bool" where
  "session_fresh now created \<longleftrightarrow> now - created * 10 ^ 9 \<le> session_ttl"

text \<open>The specification: the user a cookie stands for.\<close>

definition admitted :: "int \<Rightarrow> database \<Rightarrow> string option \<Rightarrow> user option" where
  "admitted now d cookie =
     (case cookie of None \<Rightarrow> None
      | Some t \<Rightarrow> (case live d t of
          None \<Rightarrow> None
        | Some (uid, created) \<Rightarrow> if session_fresh now created then by_id u_id uid (users d) else None))"

lemma require_auth_user:
  assumes "require_auth now cookie w = (Inr (Some u), w')"
  shows "admitted now (wdb w) cookie = Some u \<and> wdb w' = wdb w"
proof -
  obtain t where t: "cookie = Some t"
    using assms by (cases cookie) (auto simp: require_auth_def ret_def)
  let ?k = "\<lambda>s. bindE (session_expired now s) (\<lambda>expired. if expired then ret None
               else bindE (attempt (get_user_by_id (ss_user_id s)))
                 (\<lambda>r. case r of Inl _ \<Rightarrow> ret None | Inr u \<Rightarrow> ret (Some u)))"
  obtain s w1 where s: "get_session_by_token t w = (Inr s, w1)" and w1: "?k s w1 = (Inr (Some u), w')"
  proof -
    from assms t have "bindE (attempt (get_session_by_token t)) (\<lambda>r. case r of Inl _ \<Rightarrow> ret None | Inr s \<Rightarrow> ?k s) w = (Inr (Some u), w')"
      by (simp add: require_auth_def)
    then obtain x w1 where x: "get_session_by_token t w = (x, w1)" "(case x of Inl _ \<Rightarrow> ret None | Inr s \<Rightarrow> ?k s) w1 = (Inr (Some u), w')"
      by (rule bind_attemptE)
    then obtain s where "x = Inr s" by (cases x) (auto simp: ret_def)
    with x show thesis by (intro that) simp_all
  qed
  from w1 have fresh: "session_fresh now (ss_created_at s)"
    by (auto simp: session_expired_def session_fresh_def run_simps split: if_splits sum.splits prod.splits)
  have "session_expired now s w1 = (Inr False, w1)"
    using fresh by (simp add: session_expired_def session_fresh_def ret_def)
  with w1 have "bindE (attempt (get_user_by_id (ss_user_id s))) (\<lambda>r. case r of Inl _ \<Rightarrow> ret None | Inr u \<Rightarrow> ret (Some u)) w1 = (Inr (Some u), w')"
    by (simp add: bindE_run)
  then have "get_user_by_id (ss_user_id s) w1 = (Inr u, w')"
    by (auto simp: ret_def elim!: bind_attemptE split: sum.splits)
  then have "by_id u_id (ss_user_id s) (users (wdb w1)) = Some u" "wdb w' = wdb w1"
    by (auto simp: get_user_by_id_def dest: query_row_ok)
  moreover from s have "find (\<lambda>s. ss_token s = t) (sessions (wdb w)) = Some s" "wdb w1 = wdb w"
    by (auto simp: get_session_by_token_def dest: query_row_ok)
  ultimately show ?thesis using fresh t by (simp add: admitted_def live_def)
qed

lemma require_auth_run:
  assumes "wfaults w = []"
  shows "fst (require_auth now cookie w) = Inr (admitted now (wdb w) cookie)"
  using assms
  by (auto simp: require_auth_def admitted_def live_def session_expired_def session_fresh_def get_session_by_token_def
      get_user_by_id_def delete_session_by_token_def run_simps split: option.splits)

text \<open>
  C19: Who is let in. Whatever fails, a request goes on as a user only if its cookie is the token of a stored
  session that is at most 30 days old and the user of that session exists; nothing is written then. When no
  statement fails this is exactly the condition, and a session that is too old is deleted as it is presented.
\<close>

theorem authentication_exact:
  "(require_auth now cookie w = (Inr (Some u), w') \<longrightarrow> admitted now (wdb w) cookie = Some u \<and> wdb w' = wdb w) \<and>
   (wfaults w = [] \<longrightarrow> fst (require_auth now cookie w) = Inr (admitted now (wdb w) cookie)) \<and>
   (wfaults w = [] \<longrightarrow> cookie = Some t \<longrightarrow> live (wdb w) t = Some (uid, created) \<longrightarrow> \<not> session_fresh now created \<longrightarrow>
      live (wdb (snd (require_auth now cookie w))) t = None)"
proof (intro conjI impI)
  assume w: "wfaults w = []" "cookie = Some t" "live (wdb w) t = Some (uid, created)" "\<not> session_fresh now created"
  then obtain s where s: "find (\<lambda>s. ss_token s = t) (sessions (wdb w)) = Some s" "ss_created_at s = created"
    by (auto simp: live_def)
  then have "ss_token s = t" by (auto dest: find_SomeD)
  with w s have "wdb (snd (require_auth now cookie w)) =
      (wdb w)\<lparr>sessions := delete_where (\<lambda>s. ss_token s = t) (sessions (wdb w))\<rparr>"
    by (simp add: require_auth_def session_expired_def session_fresh_def get_session_by_token_def
        delete_session_by_token_def run_simps)
  then show "live (wdb (snd (require_auth now cookie w))) t = None"
    by (simp add: live_def delete_where_def find_None_iff)
qed (use require_auth_user require_auth_run in blast)+

section \<open>What the operations do to the sessions\<close>

lemma login_ok:
  assumes "login uni cmp dummy tok now remote agent fv c w = (Inr (LoggedIn token, c'), w')"
  shows "\<exists>u \<in> set (users (wdb w)). u_user_name u = normalize_user_name uni (fv ''user_name'') \<and>
    cmp (u_password_digest u) (fv ''password'') \<and> tok = Inr token \<and> live (wdb w) token = None \<and>
    live (wdb w') = (live (wdb w))(token \<mapsto> (u_id u, unix now)) \<and> users (wdb w') = users (wdb w) \<and> c' = None"
proof -
  let ?n = "normalize_user_name uni (fv ''user_name'')"
  obtain u w1 where u: "get_user_by_user_name ?n w = (Inr u, w1)" and cmp: "cmp (u_password_digest u) (fv ''password'')"
    and w1: "start_session tok now remote agent u w1 = (Inr token, w')" and c: "c' = None"
    using assms
    by (auto simp: login_def ret_def Let_def invalidate_setup_cache_def elim!: bind_attemptE split: sum.splits if_splits)
  from u have f: "find (\<lambda>u. u_user_name u = ?n) (users (wdb w)) = Some u" "wdb w1 = wdb w"
    by (auto simp: get_user_by_user_name_def dest: query_row_ok)
  from w1 obtain ip s where tok: "tok = Inr token"
    and "create_session token (u_id u) ip (null_if_empty agent) (unix now) w1 = (Inr s, w')"
    by (auto simp: start_session_def raise_def ret_def Let_def split: sum.splits elim!: bindE_ok)
  from exec_ok [OF this(2) [unfolded create_session_def]] have "\<not> list_ex (\<lambda>s. ss_token s = token) (sessions (wdb w))"
    "wdb w' = (wdb w)\<lparr>sessions := sessions (wdb w) @ [s]\<rparr>" "ss_token s = token" "ss_user_id s = u_id u" "ss_created_at s = unix now"
    by (auto simp: f insert_row_def Let_def split: if_splits)
  moreover from this(1) have "find (\<lambda>s. ss_token s = token) (sessions (wdb w)) = None"
    by (auto simp: find_None_iff list_ex_iff)
  ultimately have "live (wdb w) token = None" "live (wdb w') = (live (wdb w))(token \<mapsto> (u_id u, unix now))" "users (wdb w') = users (wdb w)"
    by (auto simp: live_def find_snoc fun_eq_iff split: option.splits)
  with f(1) cmp tok c show ?thesis by (auto dest: find_SomeD)
qed

lemma logout_sessions:
  assumes "wfaults w = []" "accounts_ok (wdb w)"
  shows "live (wdb (snd (logout (Some t) c w))) = (live (wdb w))(t := None)"
proof
  fix s
  have "wdb (snd (logout (Some t) c w)) = (wdb w)\<lparr>sessions := delete_where (\<lambda>s. ss_token s = t) (sessions (wdb w))\<rparr>"
    using assms(1) by (simp add: logout_def delete_session_by_token_def run_simps)
  moreover have "ss_token x = s" if "find (\<lambda>x. ss_token x = s) (sessions (wdb w)) = Some x" for x
    using find_SomeD [OF that] by simp
  ultimately show "live (wdb (snd (logout (Some t) c w))) s = ((live (wdb w))(t := None)) s"
    by (simp only: live_delete [OF assms(2)]) (auto simp: live_def split: option.splits)
qed

text \<open>An account update in full: what the form must hold, and what is written.\<close>

lemma user_update_ok:
  assumes "user_update uni cmp hash now cookie user fv w = (Inr AccountUpdated, w')" "fv ''password'' \<noteq> ''''"
  obtains digest w1 where "cmp (u_password_digest user) (fv ''current_password'')" "fv ''password_confirmation'' = fv ''password''"
    "length (fv ''password'') \<le> 72" "hash (fv ''password'') = Inr digest"
    "update_user (normalize_user_name uni (fv ''user_name'')) digest (unix now) (u_id user) w = (Inr (), w1)"
    "(case cookie of Some t \<Rightarrow> snd (delete_other_sessions_for_user (u_id user) t w1) | None \<Rightarrow> w1) = w'"
proof -
  let ?n = "normalize_user_name uni (fv ''user_name'')"
  from assms have form: "cmp (u_password_digest user) (fv ''current_password'')" "fv ''password_confirmation'' = fv ''password''"
    "length (fv ''password'') \<le> 72"
    by (auto simp: user_update_def Let_def ret_def split: if_splits)
  moreover from assms obtain digest where d: "hash (fv ''password'') = Inr digest"
    by (cases "hash (fv ''password'')") (auto simp: user_update_def Let_def ret_def split: if_splits)
  moreover from assms form d have "bindE (attempt (update_user ?n digest (unix now) (u_id user))) (\<lambda>r. case r of
            Inl e \<Rightarrow> ret (if is_unique_violation e then FormRejected ''User name has already been taken.'' else ServerError)
          | Inr _ \<Rightarrow>
              (case cookie of
                 Some token \<Rightarrow> if fv ''password'' = '''' then ret AccountUpdated
                   else bindE (attempt (delete_other_sessions_for_user (u_id user) token)) (\<lambda>_. ret AccountUpdated)
               | None \<Rightarrow> ret AccountUpdated)) w = (Inr AccountUpdated, w')"
    by (auto simp: user_update_def Let_def ret_def split: if_splits)
  then obtain x w1 where x: "update_user ?n digest (unix now) (u_id user) w = (x, w1)"
    "(case x of Inl e \<Rightarrow> ret (if is_unique_violation e then FormRejected ''User name has already been taken.'' else ServerError)
          | Inr _ \<Rightarrow> (case cookie of
                 Some token \<Rightarrow> if fv ''password'' = '''' then ret AccountUpdated
                   else bindE (attempt (delete_other_sessions_for_user (u_id user) token)) (\<lambda>_. ret AccountUpdated)
               | None \<Rightarrow> ret AccountUpdated)) w1 = (Inr AccountUpdated, w')" by (rule bind_attemptE)
  then have "x = Inr ()" by (cases x) (auto simp: ret_def split: if_splits)
  moreover from this x have "(case cookie of Some t \<Rightarrow> snd (delete_other_sessions_for_user (u_id user) t w1) | None \<Rightarrow> w1) = w'"
    using assms(2) by (auto simp: ret_def elim!: bind_attemptE split: option.splits)
  ultimately show thesis using x(1) by (intro that) simp_all
qed

lemma update_user_ok:
  assumes "update_user name digest now i w = (Inr (), w1)"
  shows "wdb w1 = (wdb w)\<lparr>users := update_where (\<lambda>u. u_id u = i)
    (\<lambda>u. u\<lparr>u_user_name := name, u_password_digest := digest, u_updated_at := now\<rparr>) (users (wdb w))\<rparr>"
  using exec_ok [OF assms [unfolded update_user_def]] by (auto split: if_splits)


section \<open>Setup runs once\<close>

text \<open>What a completed setup has written: one more user, and the settings row of the form.\<close>

definition set_up :: "string \<Rightarrow> string \<Rightarrow> (string \<Rightarrow> string) \<Rightarrow> int \<Rightarrow> database \<Rightarrow> database \<Rightarrow> bool" where
  "set_up name digest fv now d d' \<longleftrightarrow>
     (\<exists>u. users d' = users d @ [u] \<and> u_user_name u = name \<and> u_password_digest u = digest) \<and>
     name \<notin> u_user_name ` set (users d) \<and>
     settings d' = Some (write_setup (setup_form fv now) (case settings d of None \<Rightarrow> new_setting now now | Some s \<Rightarrow> s))"

lemma setup_tx_commit:
  assumes "setup_tx now name digest fv w = (Inr (commit, r), w')"
  shows "commit = (r = SetupCompleted) \<and> (commit \<longrightarrow> set_up name digest fv now (wdb w) (wdb w'))"
proof -
  let ?after = "\<lambda>n s. if 0 < n \<and> (case s of Inr row \<Rightarrow> se_setup_completed row \<noteq> 0 | Inl _ \<Rightarrow> False) then ret (False, SetupDoneBefore)
       else bindE (attempt (create_user name digest now now)) (\<lambda>r. case r of
         Inl e \<Rightarrow> if is_unique_violation e then ret (False, SetupRejected ''User name has already been taken.'') else raise e
       | Inr _ \<Rightarrow> bindE (ensure_settings now now) (\<lambda>_. bindE (complete_setup_row (setup_form fv now)) (\<lambda>_. ret (True, SetupCompleted))))"
  obtain n w1 where n: "count_users w = (Inr n, w1)" and "bindE (attempt get_settings) (?after n) w1 = (Inr (commit, r), w')"
    using assms unfolding setup_tx_def by (rule bindE_ok)
  from this(2) obtain s w2 where s: "get_settings w1 = (s, w2)" and a: "?after n s w2 = (Inr (commit, r), w')"
    by (rule bind_attemptE)
  have w2: "wdb w2 = wdb w"
    using n s query_keeps [of "\<lambda>d. length (users d)" w] query_row_keeps [of settings w1] by (simp add: count_users_def get_settings_def)
  show ?thesis
  proof (cases "0 < n \<and> (case s of Inr row \<Rightarrow> se_setup_completed row \<noteq> 0 | Inl _ \<Rightarrow> False)")
    case True
    with a show ?thesis by (auto simp: ret_def)
  next
    case False
    from a [unfolded if_not_P [OF False]] obtain x w3 where x: "create_user name digest now now w2 = (x, w3)"
      and b: "(case x of Inl e \<Rightarrow> if is_unique_violation e then ret (False, SetupRejected ''User name has already been taken.'') else raise e
       | Inr _ \<Rightarrow> bindE (ensure_settings now now) (\<lambda>_. bindE (complete_setup_row (setup_form fv now)) (\<lambda>_. ret (True, SetupCompleted)))) w3
         = (Inr (commit, r), w')" by (rule bind_attemptE)
    show ?thesis
    proof (cases x)
      case (Inl e)
      with b show ?thesis by (auto simp: ret_def raise_def split: if_splits)
    next
      case (Inr u)
      with b obtain w4 where w4: "ensure_settings now now w3 = (Inr (), w4)" "complete_setup_row (setup_form fv now) w4 = (Inr (), w')"
        and c: "commit" "r = SetupCompleted" by (auto simp: ret_def elim!: bindE_ok)
      from exec_ok [OF x [unfolded Inr create_user_def]] w2 have "\<not> list_ex (\<lambda>u. u_user_name u = name) (users (wdb w))"
        "wdb w3 = (wdb w)\<lparr>users := users (wdb w) @ [u]\<rparr>" "u_user_name u = name" "u_password_digest u = digest"
        by (auto simp: insert_row_def Let_def split: if_splits)
      moreover from w4 have "wdb w4 = ensured now now (wdb w3)"
        "wdb w' = (wdb w4)\<lparr>settings := map_option (write_setup (setup_form fv now)) (settings (wdb w4))\<rparr>"
        by (simp_all add: ensure_settings_def complete_setup_row_def modify_ok)
      ultimately show ?thesis using c by (auto simp: set_up_def list_ex_iff ensured_def split: option.splits)
    qed
  qed
qed

lemma setup_errors_None: "setup_errors name fv = None \<Longrightarrow> fv ''password'' = fv ''password_confirmation'' \<and> fv ''title'' \<noteq> ''''"
  unfolding setup_errors_def by (simp split: if_splits)

lemma set_up_writes:
  "set_up name digest fv now d d' \<Longrightarrow> \<exists>u s. users d' = users d @ [u] \<and> u_user_name u = name \<and>
     u_user_name u \<notin> u_user_name ` set (users d) \<and> u_password_digest u = digest \<and>
     settings d' = Some s \<and> se_setup_completed s = 1 \<and> se_title s = null_if_empty (fv ''title'')"
  by (auto simp: set_up_def write_setup_def setup_form_def)

lemma setup_incomplete_users: "setup_incomplete clk c w = (r, w') \<Longrightarrow> users (wdb w') = users (wdb w)"
proof -
  have "pres (\<lambda>d. users d = users (wdb w)) (setup_incomplete clk c)"
    unfolding setup_incomplete_def count_users_def get_settings_def ensure_settings_def
    by (intro pres_rules pres_modify) (auto simp: ensured_def split: option.splits)
  from presD [OF this refl] show "setup_incomplete clk c w = (r, w') \<Longrightarrow> users (wdb w') = users (wdb w)" .
qed

lemma setup_create_cases:
  assumes "setup_create uni hash clk fv c sc w = (Inr (reply, c', sc'), w')"
  obtains (nothing) "reply \<noteq> SetupCompleted" "users (wdb w') = users (wdb w)"
  | (completed) digest d where "reply = SetupCompleted" "users d = users (wdb w)"
    "setup_errors (normalize_user_name uni (fv ''user_name'')) fv = None" "hash (fv ''password'') = Inr digest"
    "set_up (normalize_user_name uni (fv ''user_name'')) digest fv (unix (clk 4)) d (wdb w')" "c' = None" "sc' = invalidate sc"
proof -
  let ?n = "normalize_user_name uni (fv ''user_name'')"
  from assms obtain incomplete c1 w1 where i: "setup_incomplete clk c w = (Inr (incomplete, c1), w1)"
    by (auto simp: setup_create_def elim!: bindE_ok)
  note us = setup_incomplete_users [OF i]
  show thesis
  proof (cases "\<not> incomplete \<or> setup_errors ?n fv \<noteq> None \<or> (\<exists>e. hash (fv ''password'') = Inl e)")
    case True
    with assms i us have "reply \<noteq> SetupCompleted \<and> users (wdb w') = users (wdb w)"
      by (auto simp: setup_create_def bindE_run [of "setup_incomplete clk c"] ret_def Let_def split: option.splits if_splits)
    then show thesis by (elim conjE) (rule nothing)
  next
    case False
    then obtain digest where f: "incomplete" "setup_errors ?n fv = None" "hash (fv ''password'') = Inr digest"
      by (cases "hash (fv ''password'')") auto
    with assms i have "bindE (attempt (in_tx id id (setup_tx (unix (clk 4)) ?n digest fv))) (\<lambda>r. case r of
         Inl _ \<Rightarrow> ret (SetupError, c1, sc)
       | Inr SetupCompleted \<Rightarrow> ret (SetupCompleted, invalidate_setup_cache c1, invalidate sc)
       | Inr reply \<Rightarrow> ret (reply, c1, sc)) w1 = (Inr (reply, c', sc'), w')"
      by (simp add: setup_create_def bindE_run [of "setup_incomplete clk c"] Let_def)
    then obtain x w2 where x: "in_tx id id (setup_tx (unix (clk 4)) ?n digest fv) w1 = (x, w2)"
      and r: "(case x of Inl _ \<Rightarrow> ret (SetupError, c1, sc)
         | Inr SetupCompleted \<Rightarrow> ret (SetupCompleted, invalidate_setup_cache c1, invalidate sc)
         | Inr reply \<Rightarrow> ret (reply, c1, sc)) w2 = (Inr (reply, c', sc'), w')" by (rule bind_attemptE)
    show thesis
    proof (cases x)
      case (Inl e)
      with r us in_tx_error_keeps [OF x [unfolded Inl]] have "reply \<noteq> SetupCompleted \<and> users (wdb w') = users (wdb w)"
        by (auto simp: ret_def)
      then show thesis by (elim conjE) (rule nothing)
    next
      case (Inr y)
      from in_tx_ok [OF x [unfolded Inr]] obtain w3 commit w4 where t: "wdb w3 = wdb w1"
        "setup_tx (unix (clk 4)) ?n digest fv w3 = (Inr (commit, y), w4)" "wdb w2 = (if commit then wdb w4 else wdb w1)" .
      note e = setup_tx_commit [OF t(2)]
      show thesis
      proof (cases "y = SetupCompleted")
        case True
        with e t r Inr have "reply = SetupCompleted" "set_up ?n digest fv (unix (clk 4)) (wdb w1) (wdb w')" "c' = None" "sc' = invalidate sc"
          by (auto simp: ret_def invalidate_setup_cache_def)
        with f us show thesis by (intro completed [of "wdb w1" digest])
      next
        case False
        with e t r Inr us have "reply \<noteq> SetupCompleted \<and> users (wdb w') = users (wdb w)"
          by (auto simp: ret_def split: setup_reply.splits)
        then show thesis by (elim conjE) (rule nothing)
      qed
    qed
  qed
qed

lemma setup_tx_done:
  assumes "wfaults w = []" "users (wdb w) \<noteq> []" "settings (wdb w) = Some s" "se_setup_completed s \<noteq> 0"
  shows "setup_tx now name digest fv w = (Inr (False, SetupDoneBefore), w)"
  using assms by (simp add: setup_tx_def count_users_def get_settings_def run_simps)


section \<open>Where setup fails open\<close>

definition site_user :: user where
  "site_user = \<lparr>u_id = 1, u_user_name = ''admin'', u_password_digest = ''d'', u_created_at = 0, u_updated_at = 0\<rparr>"

definition site_row :: setting where
  "site_row = (new_setting 0 0)\<lparr>se_setup_completed := 1\<rparr>"

definition finished_site :: database where
  "finished_site = empty_db\<lparr>users := [site_user], settings := Some site_row\<rparr>"

definition setup_answers :: "string \<Rightarrow> string" where
  "setup_answers k =
     (if k = ''user_name'' then ''eve'' else if k = ''password'' \<or> k = ''password_confirmation'' then ''pw''
      else if k = ''title'' then ''T'' else if k = ''url'' then ''u'' else '''')"

lemma eve_name: "normalize_user_name id ''eve'' = ''eve''"
  by (simp add: normalize_user_name_def to_lower_def is_ascii_def sql_lower_def ascii_lower_def trim_space_plain plain_char_def)

lemma answers_ok: "setup_errors ''eve'' setup_answers = None"
  "setup_answers ''password'' = ''pw''" "normalize_user_name id (setup_answers ''user_name'') = ''eve''"
  by (simp_all add: setup_errors_def setup_answers_def eve_name)


section \<open>Examples\<close>

definition login_row :: "int \<Rightarrow> string \<Rightarrow> session" where
  "login_row i token = \<lparr>ss_id = i, ss_token = token, ss_user_id = 1, ss_ip_address = None, ss_user_agent = None,
     ss_created_at = 100, ss_updated_at = 100\<rparr>"

definition busy_site :: database where
  "busy_site = finished_site\<lparr>sessions := [login_row 1 ''here'', login_row 2 ''stolen'']\<rparr>"

lemma busy_site_ok: "accounts_ok busy_site"
  by (simp add: accounts_ok_def busy_site_def finished_site_def empty_db_def site_user_def login_row_def ids_ok_def)

lemma busy_live: "live busy_site ''here'' = Some (1, 100)" "live busy_site ''stolen'' = Some (1, 100)"
  by (simp_all add: live_def busy_site_def login_row_def)

lemma busy_user: "site_user \<in> set (users busy_site)" "by_id u_id 1 (users busy_site) = Some site_user"
  by (simp_all add: busy_site_def finished_site_def site_user_def by_id_def)

theorem authentication_exact_witness:
  "fst (require_auth (200 * 10 ^ 9) (Some ''here'') \<lparr>wdb = busy_site, wfaults = []\<rparr>) = Inr (Some site_user) \<and>
   live (wdb (snd (require_auth (3000000 * 10 ^ 9) (Some ''here'') \<lparr>wdb = busy_site, wfaults = []\<rparr>))) ''here'' = None"
proof
  let ?w = "\<lparr>wdb = busy_site, wfaults = []\<rparr>"
  have "fst (require_auth (200 * 10 ^ 9) (Some ''here'') ?w) = Inr (admitted (200 * 10 ^ 9) (wdb ?w) (Some ''here''))"
    using authentication_exact [of _ _ ?w] by simp
  then show "fst (require_auth (200 * 10 ^ 9) (Some ''here'') ?w) = Inr (Some site_user)"
    by (simp add: admitted_def busy_live busy_user session_fresh_def session_ttl_def)
  have old: "\<not> session_fresh (3000000 * 10 ^ 9) 100" by (simp add: session_fresh_def session_ttl_def)
  show "live (wdb (snd (require_auth (3000000 * 10 ^ 9) (Some ''here'') ?w))) ''here'' = None"
    using authentication_exact [of "3000000 * 10 ^ 9" "Some ''here''" ?w _ _ "''here''" 1 100] old
    by (simp add: busy_live del: power_numeral)
qed

definition change_form :: "string \<Rightarrow> string" where
  "change_form k = (if k = ''user_name'' then ''eve'' else ''pw'')"



end
