(* ===== verification/RateLimit.thy ===== *)
theory RateLimit
  imports Prelude NetText
begin

text \<open>
  The rate limiter of \<open>internal/httpd/ratelimit.go\<close>: one token bucket per client, swept when idle. The
  bucket is \<open>golang.org/x/time/rate\<close>, given as what \<open>NewLimiter\<close> returns (\<open>full\<close>) and what \<open>Allow\<close> does
  at a time (\<open>spend\<close>). \<open>Allow\<close> of the limiter is cut at its points of synchronisation: reading the clock,
  \<open>LoadOrStore\<close>, the stamp under the mutex, the sweep under the mutex, the spending. Any number of requests
  interleave at these points. Times are nanoseconds.
\<close>

section \<open>The limiter\<close>

text \<open>A visitor is a pointer: the key it was made for, and a serial number.\<close>

type_synonym visitor_ref = "string \<times> nat"

record 'l visitor =
  vs_limiter :: 'l
  vs_last_seen :: int

record 'l ip_limiter =
  il_visitors :: "string \<Rightarrow> visitor_ref option"
  il_store :: "visitor_ref \<Rightarrow> 'l visitor"
  il_next :: nat
  il_last_sweep :: int

definition sweep_every :: int where "sweep_every = 60 * 10 ^ 9"

text \<open>The time a whole burst takes to accrue is computed in floating point: an argument.\<close>

definition max_idle :: "int \<Rightarrow> int" where
  "max_idle refill = (if 10 * 60 * 10 ^ 9 < refill then refill else 10 * 60 * 10 ^ 9)"

definition new_ip_limiter :: "'l \<Rightarrow> int \<Rightarrow> 'l ip_limiter" where
  "new_ip_limiter full now =
     \<lparr>il_visitors = Map.empty, il_store = (\<lambda>_. \<lparr>vs_limiter = full, vs_last_seen = 0\<rparr>), il_next = 0, il_last_sweep = now\<rparr>"

definition load_or_store :: "'l \<Rightarrow> string \<Rightarrow> int \<Rightarrow> 'l ip_limiter \<Rightarrow> visitor_ref \<times> 'l ip_limiter" where
  "load_or_store full key now l =
     (let nv = (key, il_next l);
          l' = l\<lparr>il_next := Suc (il_next l), il_store := (il_store l)(nv := \<lparr>vs_limiter = full, vs_last_seen = now\<rparr>)\<rparr>
      in case il_visitors l key of
           Some v \<Rightarrow> (v, l')
         | None \<Rightarrow> (nv, l'\<lparr>il_visitors := (il_visitors l)(key \<mapsto> nv)\<rparr>))"

text \<open>Whether the stamped visitor is still the one of the map.\<close>

definition stamp_visitor :: "string \<Rightarrow> visitor_ref \<Rightarrow> int \<Rightarrow> 'l ip_limiter \<Rightarrow> bool \<times> 'l ip_limiter" where
  "stamp_visitor key v now l =
     (il_visitors l key = Some v,
      l\<lparr>il_store := (il_store l)(v := (il_store l v)\<lparr>vs_last_seen := now\<rparr>)\<rparr>)"

definition sweep :: "int \<Rightarrow> int \<Rightarrow> 'l ip_limiter \<Rightarrow> 'l ip_limiter" where
  "sweep refill now l =
     (if now - il_last_sweep l < sweep_every then l
      else l\<lparr>il_last_sweep := now,
             il_visitors := (\<lambda>k. case il_visitors l k of
                 None \<Rightarrow> None
               | Some v \<Rightarrow> if vs_last_seen (il_store l v) < now - max_idle refill then None else Some v)\<rparr>)"

definition spend_token :: "(int \<Rightarrow> 'l \<Rightarrow> bool \<times> 'l) \<Rightarrow> visitor_ref \<Rightarrow> int \<Rightarrow> 'l ip_limiter \<Rightarrow> bool \<times> 'l ip_limiter" where
  "spend_token spend v t l =
     (let r = spend t (vs_limiter (il_store l v)) in
      (fst r, l\<lparr>il_store := (il_store l)(v := (il_store l v)\<lparr>vs_limiter := snd r\<rparr>)\<rparr>))"

section \<open>Requests in flight\<close>

text \<open>Where a request is inside \<open>Allow\<close>; a request that finds its visitor swept enters again.\<close>

datatype request =
    Outside
  | Entered string
  | Began string int
  | Loaded string visitor_ref int
  | Stamped string visitor_ref int
  | Swept string visitor_ref int

fun started :: "request \<Rightarrow> int option" where
  "started (Began _ now) = Some now"
| "started (Loaded _ _ now) = Some now"
| "started (Stamped _ _ now) = Some now"
| "started (Swept _ _ now) = Some now"
| "started _ = None"

record 'l traffic =
  tr_clock :: int
  tr_limiter :: "'l ip_limiter"
  tr_requests :: "request list"
  tr_answers :: "(string \<times> int \<times> bool) list"

datatype action = Tick int | Enter nat string | ReadClock nat | LoadOrStore nat | Stamp nat | Sweep nat | Spend nat

text \<open>
  One action, \<open>None\<close> where it is not possible. \<open>pace\<close> bounds how long a request stays inside \<open>Allow\<close> once it
  has read the clock. The answers are recorded in the order of the spending.
\<close>

fun act_step :: "(int \<Rightarrow> 'l \<Rightarrow> bool \<times> 'l) \<Rightarrow> 'l \<Rightarrow> int \<Rightarrow> int \<Rightarrow> action \<Rightarrow> 'l traffic \<Rightarrow> 'l traffic option" where
  "act_step spend full refill pace (Tick t) s =
     (if tr_clock s \<le> t \<and> list_all (\<lambda>r. case started r of None \<Rightarrow> True | Some now \<Rightarrow> t \<le> now + pace) (tr_requests s)
      then Some (s\<lparr>tr_clock := t\<rparr>) else None)"
| "act_step spend full refill pace (Enter i key) s =
     (if i < length (tr_requests s) \<and> tr_requests s ! i = Outside
      then Some (s\<lparr>tr_requests := (tr_requests s)[i := Entered key]\<rparr>) else None)"
| "act_step spend full refill pace (ReadClock i) s =
     (if i < length (tr_requests s) then (case tr_requests s ! i of
        Entered key \<Rightarrow> Some (s\<lparr>tr_requests := (tr_requests s)[i := Began key (tr_clock s)]\<rparr>)
      | _ \<Rightarrow> None) else None)"
| "act_step spend full refill pace (LoadOrStore i) s =
     (if i < length (tr_requests s) then (case tr_requests s ! i of
        Began key now \<Rightarrow> (let r = load_or_store full key now (tr_limiter s) in
          Some (s\<lparr>tr_limiter := snd r, tr_requests := (tr_requests s)[i := Loaded key (fst r) now]\<rparr>))
      | _ \<Rightarrow> None) else None)"
| "act_step spend full refill pace (Stamp i) s =
     (if i < length (tr_requests s) then (case tr_requests s ! i of
        Loaded key v now \<Rightarrow> (let r = stamp_visitor key v now (tr_limiter s) in
          Some (s\<lparr>tr_limiter := snd r,
                  tr_requests := (tr_requests s)[i := if fst r then Stamped key v now else Entered key]\<rparr>))
      | _ \<Rightarrow> None) else None)"
| "act_step spend full refill pace (Sweep i) s =
     (if i < length (tr_requests s) then (case tr_requests s ! i of
        Stamped key v now \<Rightarrow>
          Some (s\<lparr>tr_limiter := sweep refill now (tr_limiter s), tr_requests := (tr_requests s)[i := Swept key v now]\<rparr>)
      | _ \<Rightarrow> None) else None)"
| "act_step spend full refill pace (Spend i) s =
     (if i < length (tr_requests s) then (case tr_requests s ! i of
        Swept key v now \<Rightarrow> (let r = spend_token spend v (tr_clock s) (tr_limiter s) in
          Some (s\<lparr>tr_limiter := snd r, tr_requests := (tr_requests s)[i := Outside],
                  tr_answers := tr_answers s @ [(key, tr_clock s, fst r)]\<rparr>))
      | _ \<Rightarrow> None) else None)"

fun act_run :: "(int \<Rightarrow> 'l \<Rightarrow> bool \<times> 'l) \<Rightarrow> 'l \<Rightarrow> int \<Rightarrow> int \<Rightarrow> action list \<Rightarrow> 'l traffic \<Rightarrow> 'l traffic option" where
  "act_run spend full refill pace [] s = Some s"
| "act_run spend full refill pace (a # as) s =
     (case act_step spend full refill pace a s of None \<Rightarrow> None | Some s' \<Rightarrow> act_run spend full refill pace as s')"

definition traffic_start :: "'l \<Rightarrow> int \<Rightarrow> nat \<Rightarrow> 'l traffic" where
  "traffic_start full t n =
     \<lparr>tr_clock = t, tr_limiter = new_ip_limiter full t, tr_requests = replicate n Outside, tr_answers = []\<rparr>"

section \<open>The specification: one bucket per key, never swept\<close>

fun bucket_after :: "(int \<Rightarrow> 'l \<Rightarrow> bool \<times> 'l) \<Rightarrow> 'l \<Rightarrow> int list \<Rightarrow> 'l" where
  "bucket_after spend l [] = l"
| "bucket_after spend l (t # ts) = bucket_after spend (snd (spend t l)) ts"

fun bucket_answers :: "(int \<Rightarrow> 'l \<Rightarrow> bool \<times> 'l) \<Rightarrow> 'l \<Rightarrow> int list \<Rightarrow> bool list" where
  "bucket_answers spend l [] = []"
| "bucket_answers spend l (t # ts) = fst (spend t l) # bucket_answers spend (snd (spend t l)) ts"

text \<open>Two buckets that answer alike from a time on.\<close>

definition alike :: "(int \<Rightarrow> 'l \<Rightarrow> bool \<times> 'l) \<Rightarrow> int \<Rightarrow> 'l \<Rightarrow> 'l \<Rightarrow> bool" where
  "alike spend t l l' \<longleftrightarrow>
     (\<forall>ts. sorted (t # ts) \<longrightarrow> bucket_answers spend l ts = bucket_answers spend l' ts)"

text \<open>What the documentation of the bucket promises: left alone for \<open>refill\<close>, it is full again.\<close>

definition refills :: "(int \<Rightarrow> 'l \<Rightarrow> bool \<times> 'l) \<Rightarrow> 'l \<Rightarrow> int \<Rightarrow> bool" where
  "refills spend full refill \<longleftrightarrow>
     (\<forall>us t. sorted us \<longrightarrow> list_all (\<lambda>u. u + refill \<le> t) us \<longrightarrow> alike spend t (bucket_after spend full us) full)"

definition of_key :: "string \<Rightarrow> (string \<times> int \<times> bool) list \<Rightarrow> (int \<times> bool) list" where
  "of_key key as = map snd (filter (\<lambda>a. fst a = key) as)"

section \<open>The key of a request\<close>

definition client_ip :: "string \<Rightarrow> string" where
  "client_ip remote_addr = (case split_host_port remote_addr of None \<Rightarrow> remote_addr | Some (ip, port) \<Rightarrow> ip)"

fun last_hop :: "string list \<Rightarrow> string option" where
  "last_hop [] = None"
| "last_hop (h # hs) = (if trim_space h \<noteq> '''' then Some (trim_space h) else last_hop hs)"

definition rate_limit_key :: "bool \<Rightarrow> string list \<Rightarrow> string \<Rightarrow> string" where
  "rate_limit_key trust forwarded remote_addr =
     (if trust then (case last_hop (rev (split_on CHR '','' (join_with '','' forwarded))) of
        Some ip \<Rightarrow> ip | None \<Rightarrow> client_ip remote_addr)
      else client_ip remote_addr)"

section \<open>The invariant of the traffic\<close>

lemma alike_refl [simp]: "alike spend t l l"
  by (simp add: alike_def)

lemma alike_sym: "alike spend t l l' \<Longrightarrow> alike spend t l' l"
  by (simp add: alike_def)

lemma alike_trans: "alike spend t a b \<Longrightarrow> alike spend t b c \<Longrightarrow> alike spend t a c"
  by (simp add: alike_def)

lemma alike_later: "alike spend t l l' \<Longrightarrow> t \<le> u \<Longrightarrow> alike spend u l l'"
  by (force simp: alike_def)

lemma alike_spend:
  assumes "alike spend t l l'" "t \<le> u"
  shows "fst (spend u l) = fst (spend u l')" "alike spend u (snd (spend u l)) (snd (spend u l'))"
proof -
  have eq: "bucket_answers spend l (u # ts) = bucket_answers spend l' (u # ts)" if "sorted (u # ts)" for ts
    using assms that unfolding alike_def by (auto dest!: spec [of _ "u # ts"]; fastforce)
  show "fst (spend u l) = fst (spend u l')" using eq [of "[]"] by simp
  show "alike spend u (snd (spend u l)) (snd (spend u l'))" using eq by (simp add: alike_def)
qed

lemma bucket_after_append [simp]: "bucket_after spend l (ts @ us) = bucket_after spend (bucket_after spend l ts) us"
  by (induction ts arbitrary: l) auto

lemma bucket_answers_append [simp]:
  "bucket_answers spend l (ts @ us) = bucket_answers spend l ts @ bucket_answers spend (bucket_after spend l ts) us"
  by (induction ts arbitrary: l) auto

lemma of_key_append [simp]: "of_key k (as @ bs) = of_key k as @ of_key k bs"
  "of_key k [] = []" "of_key k [(k', t, b)] = (if k' = k then [(t, b)] else [])"
  by (simp_all add: of_key_def)

definition times_of :: "string \<Rightarrow> 'l traffic \<Rightarrow> int list" where
  "times_of key s = map fst (of_key key (tr_answers s))"

definition bucket_of :: "(int \<Rightarrow> 'l \<Rightarrow> bool \<times> 'l) \<Rightarrow> 'l \<Rightarrow> string \<Rightarrow> 'l traffic \<Rightarrow> 'l" where
  "bucket_of spend full key s = bucket_after spend full (times_of key s)"

definition entry_ok ::
  "(int \<Rightarrow> 'l \<Rightarrow> bool \<times> 'l) \<Rightarrow> int \<Rightarrow> int \<Rightarrow> 'l ip_limiter \<Rightarrow> string \<Rightarrow> 'l \<Rightarrow> int list \<Rightarrow> visitor_ref \<Rightarrow> bool" where
  "entry_ok spend pace clock l key bucket ts v \<longleftrightarrow>
     fst v = key \<and> snd v < il_next l \<and> alike spend clock (vs_limiter (il_store l v)) bucket \<and>
     (\<forall>t\<in>set ts. t \<le> vs_last_seen (il_store l v) + 2 * pace)"

fun request_ok :: "int \<Rightarrow> int \<Rightarrow> 'l ip_limiter \<Rightarrow> request \<Rightarrow> bool" where
  "request_ok pace clock l (Began key now) = (now \<le> clock \<and> clock \<le> now + pace)"
| "request_ok pace clock l (Loaded key v now) = (now \<le> clock \<and> clock \<le> now + pace \<and> fst v = key \<and> snd v < il_next l)"
| "request_ok pace clock l (Stamped key v now) =
     (now \<le> clock \<and> clock \<le> now + pace \<and> fst v = key \<and> il_visitors l key = Some v \<and> now - pace \<le> vs_last_seen (il_store l v))"
| "request_ok pace clock l (Swept key v now) =
     (now \<le> clock \<and> clock \<le> now + pace \<and> fst v = key \<and> il_visitors l key = Some v \<and> now - pace \<le> vs_last_seen (il_store l v))"
| "request_ok pace clock l _ = True"

definition traffic_ok :: "(int \<Rightarrow> 'l \<Rightarrow> bool \<times> 'l) \<Rightarrow> 'l \<Rightarrow> int \<Rightarrow> 'l traffic \<Rightarrow> bool" where
  "traffic_ok spend full pace s \<longleftrightarrow>
     (\<forall>key. sorted (times_of key s) \<and> (\<forall>t\<in>set (times_of key s). t \<le> tr_clock s) \<and>
        map snd (of_key key (tr_answers s)) = bucket_answers spend full (times_of key s) \<and>
        (case il_visitors (tr_limiter s) key of
           None \<Rightarrow> alike spend (tr_clock s) full (bucket_of spend full key s)
         | Some v \<Rightarrow> entry_ok spend pace (tr_clock s) (tr_limiter s) key (bucket_of spend full key s) (times_of key s) v)) \<and>
     (\<forall>r\<in>set (tr_requests s). request_ok pace (tr_clock s) (tr_limiter s) r)"

lemma requests_updated:
  assumes "\<forall>r\<in>set rs. P r" "P x" shows "\<forall>r\<in>set (rs[i := x]). P r"
  using assms set_update_subset_insert [of rs i x] by auto

lemma trafficD:
  assumes "traffic_ok spend full pace s"
  shows "sorted (times_of key s)" "\<forall>t\<in>set (times_of key s). t \<le> tr_clock s"
    "map snd (of_key key (tr_answers s)) = bucket_answers spend full (times_of key s)"
    "il_visitors (tr_limiter s) key = None \<Longrightarrow> alike spend (tr_clock s) full (bucket_of spend full key s)"
    "il_visitors (tr_limiter s) key = Some v \<Longrightarrow>
       entry_ok spend pace (tr_clock s) (tr_limiter s) key (bucket_of spend full key s) (times_of key s) v"
    "\<forall>r\<in>set (tr_requests s). request_ok pace (tr_clock s) (tr_limiter s) r"
proof -
  note k = assms [unfolded traffic_ok_def, THEN conjunct1, rule_format, of key]
  show "sorted (times_of key s)" "\<forall>t\<in>set (times_of key s). t \<le> tr_clock s"
    "map snd (of_key key (tr_answers s)) = bucket_answers spend full (times_of key s)"
    using k by simp_all
  show "il_visitors (tr_limiter s) key = None \<Longrightarrow> alike spend (tr_clock s) full (bucket_of spend full key s)"
    "il_visitors (tr_limiter s) key = Some v \<Longrightarrow>
       entry_ok spend pace (tr_clock s) (tr_limiter s) key (bucket_of spend full key s) (times_of key s) v"
    using k by simp_all
  show "\<forall>r\<in>set (tr_requests s). request_ok pace (tr_clock s) (tr_limiter s) r"
    using assms by (simp add: traffic_ok_def)
qed

lemma traffic_okI:
  assumes "\<And>key. sorted (times_of key s)" "\<And>key. \<forall>t\<in>set (times_of key s). t \<le> tr_clock s"
    "\<And>key. map snd (of_key key (tr_answers s)) = bucket_answers spend full (times_of key s)"
    "\<And>key. il_visitors (tr_limiter s) key = None \<Longrightarrow> alike spend (tr_clock s) full (bucket_of spend full key s)"
    "\<And>key v. il_visitors (tr_limiter s) key = Some v \<Longrightarrow>
       entry_ok spend pace (tr_clock s) (tr_limiter s) key (bucket_of spend full key s) (times_of key s) v"
    "\<forall>r\<in>set (tr_requests s). request_ok pace (tr_clock s) (tr_limiter s) r"
  shows "traffic_ok spend full pace s"
  unfolding traffic_ok_def by (intro conjI allI, (rule assms)+) (auto intro: assms split: option.split, use assms(6) in blast)

lemma same_answers [simp]:
  "times_of key (s\<lparr>tr_limiter := l\<rparr>) = times_of key s"
  "times_of key (s\<lparr>tr_requests := rs\<rparr>) = times_of key s"
  "times_of key (s\<lparr>tr_clock := t\<rparr>) = times_of key s"
  "bucket_of spend full key (s\<lparr>tr_limiter := l\<rparr>) = bucket_of spend full key s"
  "bucket_of spend full key (s\<lparr>tr_requests := rs\<rparr>) = bucket_of spend full key s"
  "bucket_of spend full key (s\<lparr>tr_clock := t\<rparr>) = bucket_of spend full key s"
  by (simp_all add: times_of_def bucket_of_def)

text \<open>A step that leaves clock and answers alone keeps the invariant if it keeps entries and requests.\<close>

lemma quiet_step:
  assumes ok: "traffic_ok spend full pace s"
    and none: "\<And>key. il_visitors l key = None \<Longrightarrow> alike spend (tr_clock s) full (bucket_of spend full key s)"
    and some: "\<And>key v. il_visitors l key = Some v \<Longrightarrow>
       entry_ok spend pace (tr_clock s) l key (bucket_of spend full key s) (times_of key s) v"
    and others: "\<And>r. r \<in> set (tr_requests s) \<Longrightarrow> request_ok pace (tr_clock s) l r"
    and new: "request_ok pace (tr_clock s) l x"
  shows "traffic_ok spend full pace (s\<lparr>tr_limiter := l, tr_requests := (tr_requests s)[i := x]\<rparr>)"
proof -
  have "\<forall>r\<in>set ((tr_requests s)[i := x]). request_ok pace (tr_clock s) l r"
    using others new by (intro requests_updated) auto
  then show ?thesis
    using trafficD(1-3) [OF ok] none some by (intro traffic_okI) simp_all
qed

lemma nth_in_requests: "i < length rs \<Longrightarrow> rs ! i = r \<Longrightarrow> r \<in> set rs"
  by auto

lemma tick_ok:
  assumes ok: "traffic_ok spend full pace s" and t: "tr_clock s \<le> t"
    and pace: "list_all (\<lambda>r. case started r of None \<Rightarrow> True | Some now \<Rightarrow> t \<le> now + pace) (tr_requests s)"
  shows "traffic_ok spend full pace (s\<lparr>tr_clock := t\<rparr>)"
proof (rule traffic_okI)
  fix key v
  show "sorted (times_of key (s\<lparr>tr_clock := t\<rparr>))" using trafficD(1) [OF ok] by simp
  show "\<forall>u\<in>set (times_of key (s\<lparr>tr_clock := t\<rparr>)). u \<le> tr_clock (s\<lparr>tr_clock := t\<rparr>)"
    using trafficD(2) [OF ok, of key] t by force
  show "map snd (of_key key (tr_answers (s\<lparr>tr_clock := t\<rparr>))) = bucket_answers spend full (times_of key (s\<lparr>tr_clock := t\<rparr>))"
    using trafficD(3) [OF ok] by simp
  assume "il_visitors (tr_limiter (s\<lparr>tr_clock := t\<rparr>)) key = None"
  then show "alike spend (tr_clock (s\<lparr>tr_clock := t\<rparr>)) full (bucket_of spend full key (s\<lparr>tr_clock := t\<rparr>))"
    using trafficD(4) [OF ok] t by (auto intro: alike_later)
next
  fix key v
  assume "il_visitors (tr_limiter (s\<lparr>tr_clock := t\<rparr>)) key = Some v"
  then have "entry_ok spend pace (tr_clock s) (tr_limiter s) key (bucket_of spend full key s) (times_of key s) v"
    using trafficD(5) [OF ok] by simp
  then show "entry_ok spend pace (tr_clock (s\<lparr>tr_clock := t\<rparr>)) (tr_limiter (s\<lparr>tr_clock := t\<rparr>)) key
      (bucket_of spend full key (s\<lparr>tr_clock := t\<rparr>)) (times_of key (s\<lparr>tr_clock := t\<rparr>)) v"
    using t by (auto simp: entry_ok_def intro: alike_later)
next
  have "request_ok pace t (tr_limiter s) r" if "r \<in> set (tr_requests s)" for r
    using trafficD(6) [OF ok] that pace t by (cases r) (fastforce simp: list_all_iff)+
  then show "\<forall>r\<in>set (tr_requests (s\<lparr>tr_clock := t\<rparr>)). request_ok pace (tr_clock (s\<lparr>tr_clock := t\<rparr>)) (tr_limiter (s\<lparr>tr_clock := t\<rparr>)) r"
    by simp
qed

lemma same_limiter_step:
  assumes ok: "traffic_ok spend full pace s" and new: "request_ok pace (tr_clock s) (tr_limiter s) x"
  shows "traffic_ok spend full pace (s\<lparr>tr_requests := (tr_requests s)[i := x]\<rparr>)"
  using quiet_step [OF ok, of "tr_limiter s" x i] trafficD [OF ok] new by simp

lemma request_grows:
  assumes "request_ok pace clock l r" "il_next l \<le> il_next l'"
    "\<And>key v. il_visitors l key = Some v \<Longrightarrow> fst v = key \<Longrightarrow> il_visitors l' key = Some v \<and> il_store l' v = il_store l v"
  shows "request_ok pace clock l' r"
proof (cases r)
  case (Stamped key v now)
  then show ?thesis using assms(1) assms(3) [of key v] by simp
next
  case (Swept key v now)
  then show ?thesis using assms(1) assms(3) [of key v] by simp
qed (use assms(1,2) in simp_all)

lemma load_or_store_ok:
  assumes ok: "traffic_ok spend full pace s" and r: "Began key now \<in> set (tr_requests s)" and pace: "0 \<le> pace"
    and l: "load_or_store full key now (tr_limiter s) = (v, l)"
  shows "traffic_ok spend full pace (s\<lparr>tr_limiter := l, tr_requests := (tr_requests s)[i := Loaded key v now]\<rparr>)"
proof (rule quiet_step [OF ok])
  let ?l = "tr_limiter s" and ?nv = "(key, il_next (tr_limiter s))"
  have now: "now \<le> tr_clock s" "tr_clock s \<le> now + pace" using trafficD(6) [OF ok] r by auto
  have old: "entry_ok spend pace (tr_clock s) ?l k (bucket_of spend full k s) (times_of k s) u"
    if "il_visitors ?l k = Some u" for k u using trafficD(5) [OF ok that] .
  have keep: "il_store l u = il_store ?l u" if "il_visitors ?l k = Some u" for k u
    using old [OF that] l by (auto simp: load_or_store_def Let_def entry_ok_def split: option.splits)
  have nxt: "il_next l = Suc (il_next ?l)"
    using l by (auto simp: load_or_store_def Let_def split: option.splits)
  have vis: "il_visitors l k = (if k = key \<and> il_visitors ?l key = None then Some ?nv else il_visitors ?l k)" for k
    using l by (auto simp: load_or_store_def Let_def split: option.splits)
  have new: "il_store l ?nv = \<lparr>vs_limiter = full, vs_last_seen = now\<rparr>"
    using l by (auto simp: load_or_store_def Let_def split: option.splits)
  show "alike spend (tr_clock s) full (bucket_of spend full k s)" if "il_visitors l k = None" for k
    using that vis [of k] trafficD(4) [OF ok, of k] by (auto split: if_splits)
  show "entry_ok spend pace (tr_clock s) l k (bucket_of spend full k s) (times_of k s) u" if "il_visitors l k = Some u" for k u
  proof (cases "k = key \<and> il_visitors ?l key = None")
    case True
    then have u: "u = ?nv" using that vis [of k] by simp
    have "\<forall>t\<in>set (times_of key s). t \<le> now + 2 * pace" using trafficD(2) [OF ok, of key] now pace by force
    then show ?thesis using u True new nxt trafficD(4) [OF ok, of key] by (simp add: entry_ok_def)
  next
    case False
    then have "il_visitors ?l k = Some u" using that vis [of k] by (auto split: if_splits)
    then show ?thesis using old [of k u] keep [of k u] nxt by (simp add: entry_ok_def)
  qed
  show "request_ok pace (tr_clock s) l r" if "r \<in> set (tr_requests s)" for r
  proof (rule request_grows)
    show "request_ok pace (tr_clock s) ?l r" using trafficD(6) [OF ok] that by blast
    show "il_next ?l \<le> il_next l" by (simp add: nxt)
    show "il_visitors l k = Some u \<and> il_store l u = il_store ?l u" if "il_visitors ?l k = Some u" for k u
      using that vis [of k] keep [OF that] by (cases "k = key") auto
  qed
  have "fst v = key \<and> snd v < il_next l"
  proof (cases "il_visitors ?l key")
    case None then show ?thesis using l nxt by (auto simp: load_or_store_def Let_def)
  next
    case (Some u) then show ?thesis using l nxt old [OF Some] by (auto simp: load_or_store_def Let_def entry_ok_def)
  qed
  then show "request_ok pace (tr_clock s) l (Loaded key v now)" using now by simp
qed

lemma stamp_visitor_ok:
  assumes ok: "traffic_ok spend full pace s" and r: "Loaded key v now \<in> set (tr_requests s)" and pace: "0 \<le> pace"
    and l: "stamp_visitor key v now (tr_limiter s) = (b, l)"
  shows "traffic_ok spend full pace (s\<lparr>tr_limiter := l,
           tr_requests := (tr_requests s)[i := if b then Stamped key v now else Entered key]\<rparr>)"
proof (rule quiet_step [OF ok])
  let ?l = "tr_limiter s"
  have now: "now \<le> tr_clock s" "tr_clock s \<le> now + pace" "fst v = key" "snd v < il_next ?l"
    using trafficD(6) [OF ok] r by auto
  have vis: "il_visitors l = il_visitors ?l" and nxt: "il_next l = il_next ?l" and b: "b \<longleftrightarrow> il_visitors ?l key = Some v"
    and store: "il_store l u = (if u = v then (il_store ?l v)\<lparr>vs_last_seen := now\<rparr> else il_store ?l u)" for u
    using l by (auto simp: stamp_visitor_def)
  show "alike spend (tr_clock s) full (bucket_of spend full k s)" if "il_visitors l k = None" for k
    using that vis trafficD(4) [OF ok] by simp
  show "entry_ok spend pace (tr_clock s) l k (bucket_of spend full k s) (times_of k s) u" if "il_visitors l k = Some u" for k u
  proof -
    have old: "entry_ok spend pace (tr_clock s) ?l k (bucket_of spend full k s) (times_of k s) u"
      using that vis trafficD(5) [OF ok] by simp
    have "\<forall>t\<in>set (times_of k s). t \<le> now + 2 * pace" using trafficD(2) [OF ok, of k] now pace by force
    then show ?thesis using old store [of u] nxt by (cases "u = v") (simp_all add: entry_ok_def)
  qed
  show "request_ok pace (tr_clock s) l r" if "r \<in> set (tr_requests s)" for r
  proof -
    have old: "request_ok pace (tr_clock s) ?l r" using trafficD(6) [OF ok] that by blast
    then show ?thesis using now store vis nxt by (cases r) auto
  qed
  show "request_ok pace (tr_clock s) l (if b then Stamped key v now else Entered key)"
    using now pace b vis store [of v] by simp
qed

lemma sweep_ok:
  assumes ok: "traffic_ok spend full pace s" and r: "Stamped key v now \<in> set (tr_requests s)" and pace: "0 \<le> pace"
    and full: "refills spend full refill" and slack: "0 \<le> refill" "refill + 2 * pace \<le> max_idle refill"
  shows "traffic_ok spend full pace (s\<lparr>tr_limiter := sweep refill now (tr_limiter s),
           tr_requests := (tr_requests s)[i := Swept key v now]\<rparr>)"
proof (rule quiet_step [OF ok])
  let ?l = "tr_limiter s" and ?l' = "sweep refill now (tr_limiter s)"
  have me: "request_ok pace (tr_clock s) ?l (Stamped key v now)" using trafficD(6) [OF ok] r by blast
  then have now: "now \<le> tr_clock s" by simp
  have same: "il_store ?l' = il_store ?l" "il_next ?l' = il_next ?l" by (simp_all add: sweep_def)
  have kept: "il_visitors ?l' k = il_visitors ?l k \<or>
      il_visitors ?l' k = None \<and> (\<exists>u. il_visitors ?l k = Some u \<and> vs_last_seen (il_store ?l u) < now - max_idle refill)" for k
    by (auto simp: sweep_def split: option.splits)
  show "alike spend (tr_clock s) full (bucket_of spend full k s)" if none: "il_visitors ?l' k = None" for k
  proof (cases "il_visitors ?l k")
    case None
    then show ?thesis using trafficD(4) [OF ok] by simp
  next
    case (Some u)
    then have seen: "vs_last_seen (il_store ?l u) < now - max_idle refill" using kept [of k] none by auto
    have "\<forall>t\<in>set (times_of k s). t \<le> vs_last_seen (il_store ?l u) + 2 * pace"
      using trafficD(5) [OF ok Some] by (simp add: entry_ok_def)
    then have "list_all (\<lambda>t. t + refill \<le> tr_clock s) (times_of k s)"
      using seen slack now by (fastforce simp: list_all_iff)
    with full trafficD(1) [OF ok, of k] have "alike spend (tr_clock s) (bucket_of spend full k s) full"
      unfolding refills_def bucket_of_def by blast
    then show ?thesis by (rule alike_sym)
  qed
  show "entry_ok spend pace (tr_clock s) ?l' k (bucket_of spend full k s) (times_of k s) u" if "il_visitors ?l' k = Some u" for k u
  proof -
    have "il_visitors ?l k = Some u" using kept [of k] that by auto
    from trafficD(5) [OF ok this] show ?thesis by (simp add: entry_ok_def same)
  qed
  have stays: "il_visitors ?l' k = Some u"
    if "il_visitors ?l k = Some u" "now' - pace \<le> vs_last_seen (il_store ?l u)" "tr_clock s \<le> now' + pace" for k u now'
    using kept [of k] that now slack by auto
  show "request_ok pace (tr_clock s) ?l' r" if "r \<in> set (tr_requests s)" for r
  proof -
    have "request_ok pace (tr_clock s) ?l r" using trafficD(6) [OF ok] that by blast
    then show ?thesis by (cases r) (auto simp: same intro: stays)
  qed
  show "request_ok pace (tr_clock s) ?l' (Swept key v now)"
    using me by (auto simp: same intro: stays)
qed

lemma spend_ok:
  assumes ok: "traffic_ok spend full pace s" and r: "Swept key v now \<in> set (tr_requests s)" and pace: "0 \<le> pace"
    and l: "spend_token spend v (tr_clock s) (tr_limiter s) = (b, l)"
  shows "traffic_ok spend full pace (s\<lparr>tr_limiter := l, tr_requests := (tr_requests s)[i := Outside],
           tr_answers := tr_answers s @ [(key, tr_clock s, b)]\<rparr>)" (is "traffic_ok _ _ _ ?s")
proof -
  let ?l = "tr_limiter s" and ?t = "tr_clock s"
  have me: "now \<le> ?t" "?t \<le> now + pace" "fst v = key" "il_visitors ?l key = Some v" "now - pace \<le> vs_last_seen (il_store ?l v)"
    using trafficD(6) [OF ok] r by auto
  have mine: "entry_ok spend pace ?t ?l key (bucket_of spend full key s) (times_of key s) v"
    using trafficD(5) [OF ok me(4)] .
  have b: "b = fst (spend ?t (vs_limiter (il_store ?l v)))"
    and step: "il_visitors l = il_visitors ?l" "il_next l = il_next ?l"
    "\<And>u. il_store l u = (if u = v then (il_store ?l v)\<lparr>vs_limiter := snd (spend ?t (vs_limiter (il_store ?l v)))\<rparr> else il_store ?l u)"
    using l by (auto simp: spend_token_def Let_def)
  have times: "times_of k ?s = (if k = key then times_of k s @ [?t] else times_of k s)" for k
    by (simp add: times_of_def)
  have alike: "alike spend ?t (vs_limiter (il_store ?l v)) (bucket_of spend full key s)"
    using mine by (simp add: entry_ok_def)
  note both = alike_spend [OF alike order_refl]
  have bucket: "bucket_of spend full k ?s =
      (if k = key then snd (spend ?t (bucket_of spend full key s)) else bucket_of spend full k s)" for k
    by (simp add: bucket_of_def times)
  show ?thesis
  proof (rule traffic_okI)
    fix k
    show "sorted (times_of k ?s)" using trafficD(1,2) [OF ok, of k] by (auto simp: times sorted_append)
    show "\<forall>t\<in>set (times_of k ?s). t \<le> tr_clock ?s" using trafficD(2) [OF ok, of k] by (auto simp: times)
    show "map snd (of_key k (tr_answers ?s)) = bucket_answers spend full (times_of k ?s)"
      unfolding times using trafficD(3) [OF ok, of k] both(1) b by (simp add: bucket_of_def)
    show "alike spend (tr_clock ?s) full (bucket_of spend full k ?s)" if "il_visitors (tr_limiter ?s) k = None"
      using that me(4) trafficD(4) [OF ok, of k] by (auto simp: bucket step(1))
  next
    fix k u assume "il_visitors (tr_limiter ?s) k = Some u"
    then have u: "il_visitors ?l k = Some u" by (simp add: step(1))
    have old: "entry_ok spend pace ?t ?l k (bucket_of spend full k s) (times_of k s) u" using trafficD(5) [OF ok u] .
    show "entry_ok spend pace (tr_clock ?s) (tr_limiter ?s) k (bucket_of spend full k ?s) (times_of k ?s) u"
    proof (cases "k = key")
      case True
      then have "u = v" using u me(4) by simp
      then show ?thesis using True old both(2) me by (simp add: entry_ok_def bucket times step)
    next
      case False
      then have "u \<noteq> v" using old me(3) by (auto simp: entry_ok_def)
      then show ?thesis using False old by (simp add: entry_ok_def bucket times step)
    qed
  next
    have "request_ok pace ?t l r" if "r \<in> set (tr_requests s)" for r
    proof -
      have "request_ok pace ?t ?l r" using trafficD(6) [OF ok] that by blast
      then show ?thesis by (cases r) (auto simp: step)
    qed
    then show "\<forall>r\<in>set (tr_requests ?s). request_ok pace (tr_clock ?s) (tr_limiter ?s) r"
      using requests_updated [of "tr_requests s" "request_ok pace ?t l" Outside i] by simp
  qed
qed

lemma act_step_ok:
  assumes ok: "traffic_ok spend full pace s" and step: "act_step spend full refill pace a s = Some s'"
    and hyps: "refills spend full refill" "0 \<le> refill" "0 \<le> pace" "refill + 2 * pace \<le> max_idle refill"
  shows "traffic_ok spend full pace s'"
proof (cases a)
  case (Tick t)
  then show ?thesis using step tick_ok [OF ok] by (auto split: if_splits)
next
  case (Enter i key)
  then show ?thesis using step same_limiter_step [OF ok, of "Entered key" i] by (auto split: if_splits)
next
  case (ReadClock i)
  then show ?thesis using step hyps
    by (auto split: if_splits request.splits intro!: same_limiter_step [OF ok])
next
  case (LoadOrStore i)
  then show ?thesis using step load_or_store_ok [OF ok nth_in_requests hyps(3) surjective_pairing]
    by (auto split: if_splits request.splits simp: Let_def)
next
  case (Stamp i)
  then obtain key v now where i: "i < length (tr_requests s)" "tr_requests s ! i = Loaded key v now"
    using step by (auto split: if_splits request.splits)
  then show ?thesis using Stamp step stamp_visitor_ok [OF ok nth_in_requests [OF i] hyps(3) surjective_pairing, of i]
    by (simp add: Let_def del: if_distrib) blast?
next
  case (Sweep i)
  then show ?thesis using step sweep_ok [OF ok nth_in_requests hyps(3,1,2,4)]
    by (auto split: if_splits request.splits)
next
  case (Spend i)
  then show ?thesis using step spend_ok [OF ok nth_in_requests hyps(3) surjective_pairing]
    by (auto split: if_splits request.splits simp: Let_def)
qed

lemma act_run_ok:
  assumes "act_run spend full refill pace as s = Some s'" "traffic_ok spend full pace s"
    and "refills spend full refill" "0 \<le> refill" "0 \<le> pace" "refill + 2 * pace \<le> max_idle refill"
  shows "traffic_ok spend full pace s'"
  using assms(1,2)
proof (induction "as" arbitrary: s)
  case (Cons a "as")
  then show ?case using act_step_ok [OF Cons.prems(2) _ assms(3-6)] by (auto split: option.splits)
qed simp

lemma traffic_start_ok: "traffic_ok spend full pace (traffic_start full t n)"
  by (simp add: traffic_ok_def traffic_start_def new_ip_limiter_def times_of_def bucket_of_def)

text \<open>
  C23: The rate limiter is one token bucket per client that is never swept. Whatever requests interleave, the
  answers a key gets are those of a bucket of its own, started full, spent at the same times: the lazy sweep
  never hands out a second burst and never loses a spending, and no key spends from another's bucket. The
  bucket itself must be full again when it was left alone for \<open>refill\<close>, and twice the time a request stays
  inside \<open>Allow\<close> must fit between \<open>refill\<close> and \<open>maxIdle\<close>.
\<close>

theorem rate_limit_exact:
  assumes "refills spend full refill" "0 \<le> refill" "0 \<le> pace" "refill + 2 * pace \<le> max_idle refill"
    and "act_run spend full refill pace as (traffic_start full t n) = Some s"
  shows "map snd (of_key key (tr_answers s)) = bucket_answers spend full (map fst (of_key key (tr_answers s)))"
  using trafficD(3) [OF act_run_ok [OF assms(5) traffic_start_ok assms(1-4)], of key] by (simp add: times_of_def)

section \<open>Keys behind a proxy\<close>

lemma split_on_append:
  "split_on c (s @ c # t) = split_on c s @ split_on c t"
proof (induction s)
  case (Cons d s)
  then show ?case using split_on_nonempty [of c s] by (auto split: list.splits)
qed simp

lemma split_on_none: "c \<notin> set s \<Longrightarrow> split_on c s = [s]"
  by (induction s) auto

lemma join_with_snoc: "xs \<noteq> [] \<Longrightarrow> join_with sep (xs @ [x]) = join_with sep xs @ sep @ x"
  by (induction sep xs rule: join_with.induct) auto

lemma last_hop_blank: "list_all (\<lambda>h. trim_space h = '''') hs \<Longrightarrow> last_hop (hs @ rest) = last_hop rest"
  by (induction hs) auto

text \<open>
  The bucket belongs to the hop the proxy vouches for. Behind a trusted proxy that appends the peer it
  sees, as a new value of the header or after a comma in its last line, that peer is the key whatever the
  client has put into the header; without the trust flag the header does not matter at all.
\<close>

theorem rate_limit_key_of_proxy:
  assumes "CHR '','' \<notin> set peer" "trim_space peer = peer" "peer \<noteq> ''''"
  shows "rate_limit_key True (forged @ [peer]) addr = peer \<and>
    rate_limit_key True (forged @ [line @ '','' @ peer]) addr = peer \<and>
    rate_limit_key False forged addr = client_ip addr"
proof (intro conjI)
  have one: "last_hop (rev (split_on CHR '','' (s @ '','' @ peer))) = Some peer" for s
    using assms by (simp add: split_on_append split_on_none)
  show "rate_limit_key True (forged @ [peer]) addr = peer"
  proof (cases "forged = []")
    case True then show ?thesis using assms by (simp add: rate_limit_key_def split_on_none)
  next
    case False
    then show ?thesis using one [of "join_with '','' forged"] by (simp add: rate_limit_key_def join_with_snoc)
  qed
  show "rate_limit_key True (forged @ [line @ '','' @ peer]) addr = peer"
  proof (cases "forged = []")
    case True then show ?thesis using one [of line] by (simp add: rate_limit_key_def)
  next
    case False
    then show ?thesis using one [of "join_with '','' forged @ '','' @ line"] by (simp add: rate_limit_key_def join_with_snoc)
  qed
  show "rate_limit_key False forged addr = client_ip addr" by (simp add: rate_limit_key_def)
qed

section \<open>Examples\<close>

text \<open>A bucket of one token: it remembers when it is full again.\<close>

definition one_token :: "int \<Rightarrow> int option \<Rightarrow> bool \<times> int option" where
  "one_token t l = (case l of None \<Rightarrow> (True, Some (t + 60)) | Some u \<Rightarrow> if u \<le> t then (True, Some (t + 60)) else (False, l))"

lemma one_token_after:
  "list_all (\<lambda>u. u + 60 \<le> t) us \<Longrightarrow> (case l of None \<Rightarrow> True | Some v \<Rightarrow> v \<le> t) \<Longrightarrow>
     (case bucket_after one_token l us of None \<Rightarrow> True | Some v \<Rightarrow> v \<le> t)"
proof (induction us arbitrary: l)
  case (Cons u us)
  then have "case snd (one_token u l) of None \<Rightarrow> True | Some v \<Rightarrow> v \<le> t"
    by (auto simp: one_token_def split: option.splits)
  with Cons show ?case by simp
qed simp

lemma one_token_refills: "refills one_token None 60"
  unfolding refills_def
proof (intro allI impI)
  fix us :: "int list" and t assume "list_all (\<lambda>u. u + 60 \<le> t) us"
  from one_token_after [OF this, of None] have l: "case bucket_after one_token None us of None \<Rightarrow> True | Some v \<Rightarrow> v \<le> t"
    by simp
  show "alike one_token t (bucket_after one_token None us) None"
    unfolding alike_def
  proof (intro allI impI)
    fix ts assume "sorted (t # ts)"
    then show "bucket_answers one_token (bucket_after one_token None us) ts = bucket_answers one_token None ts"
      using l by (cases ts) (auto simp: one_token_def split: option.splits)
  qed
qed

definition busy_client :: "action list" where
  "busy_client = [Enter 0 ''a'', ReadClock 0, LoadOrStore 0, Enter 1 ''a'', ReadClock 1, Stamp 0, LoadOrStore 1, Stamp 1,
     Sweep 1, Spend 1, Sweep 0, Spend 0]"

theorem rate_limit_exact_witness:
  "\<exists>s. act_run one_token None 60 0 busy_client (traffic_start None 0 2) = Some s \<and>
     tr_answers s = [(''a'', 0, True), (''a'', 0, False)] \<and> bucket_answers one_token None [0, 0] = [True, False]"
proof -
  obtain s where s: "act_run one_token None 60 0 busy_client (traffic_start None 0 2) = Some s"
    "tr_answers s = [(''a'', 0, True), (''a'', 0, False)]"
    by (simp add: busy_client_def traffic_start_def new_ip_limiter_def load_or_store_def stamp_visitor_def sweep_def spend_token_def
      one_token_def sweep_every_def Let_def numeral_2_eq_2)
  from rate_limit_exact [OF one_token_refills _ _ _ s(1), of "''a''"]
  have "bucket_answers one_token None [0, 0] = [True, False]" by (simp add: max_idle_def s(2) of_key_def)
  with s show ?thesis by blast
qed

theorem rate_limit_key_of_proxy_witness:
  "rate_limit_key True ([''6.6.6.6, 7.7.7.7''] @ [''1.2.3.4'']) ''10.0.0.1:443'' = ''1.2.3.4''"
  using rate_limit_key_of_proxy [of "''1.2.3.4''" "[''6.6.6.6, 7.7.7.7'']" _ "''10.0.0.1:443''"]
  by (simp add: trim_space_plain plain_char_def)

end
