(* ===== verification/DueTimes.thy ===== *)
theory DueTimes
  imports Prelude
begin

text \<open>
  When the recurring tasks are due (\<open>internal/jobs/due.go\<close>), with the part of Go's calendar they use. Times
  are nanoseconds since the epoch; a day of the UTC calendar is its number since 1970-01-01, a month its
  number since January 1970.
\<close>

section \<open>The calendar\<close>

definition second_ns :: int where "second_ns = 10 ^ 9"
definition minute_ns :: int where "minute_ns = 60 * second_ns"
definition hour_ns :: int where "hour_ns = 60 * minute_ns"
definition day_ns :: int where "day_ns = 24 * hour_ns"

definition leap_year :: "int \<Rightarrow> bool" where
  "leap_year y \<longleftrightarrow> y mod 4 = 0 \<and> (y mod 100 \<noteq> 0 \<or> y mod 400 = 0)"

text \<open>The leap days before the first of January of year \<open>y\<close>, and the days from 1970 to that date.\<close>

definition leap_days :: "int \<Rightarrow> int" where
  "leap_days y = (y - 1) div 4 - (y - 1) div 100 + (y - 1) div 400"

definition year_start :: "int \<Rightarrow> int" where
  "year_start y = 365 * (y - 1970) + leap_days y - leap_days 1970"

definition days_before_month :: "int \<Rightarrow> int \<Rightarrow> int" where
  "days_before_month y m =
     [0, 31, 59, 90, 120, 151, 181, 212, 243, 273, 304, 334] ! nat m + (if 2 \<le> m \<and> leap_year y then 1 else 0)"

definition month_start :: "int \<Rightarrow> int" where
  "month_start k = year_start (1970 + k div 12) + days_before_month (1970 + k div 12) (k mod 12)"

lemma step_div: "0 < (d::int) \<Longrightarrow> y div d = (y - 1) div d + (if y mod d = 0 then 1 else 0)"
proof -
  assume d: "0 < d"
  define q r where "q = y div d" and "r = y mod d"
  have y: "y = q * d + r" "0 \<le> r" "r < d" using d by (simp_all add: q_def r_def)
  show ?thesis
  proof (cases "r = 0")
    case True
    then have "y - 1 = (q - 1) * d + (d - 1)" using y by (simp add: algebra_simps)
    then have "(y - 1) div d = q - 1" using d by (intro int_div_pos_eq [of _ _ _ "d - 1"]) (auto simp: algebra_simps)
    then show ?thesis using True by (simp add: q_def r_def)
  next
    case False
    then have "y - 1 = q * d + (r - 1)" "0 \<le> r - 1" "r - 1 < d" using y by simp_all
    then have "(y - 1) div d = q" using d by (intro int_div_pos_eq [of _ _ _ "r - 1"]) (auto simp: algebra_simps)
    then show ?thesis using False by (simp add: q_def r_def)
  qed
qed

lemma year_length: "year_start (y + 1) = year_start y + (if leap_year y then 366 else 365)"
proof -
  have "y mod 400 = 0 \<Longrightarrow> y mod 100 = 0" "y mod 100 = 0 \<Longrightarrow> y mod 4 = 0"
    using dvd_trans [of 100 400 y] dvd_trans [of 4 100 y] unfolding dvd_eq_mod_eq_0 by simp_all
  then have mods: "(if y mod 4 = 0 then 1 else 0) - (if y mod 100 = 0 then 1 else 0) + (if y mod 400 = 0 then 1 else 0) =
      (if leap_year y then 1 else (0::int))"
    by (cases "y mod 4 = 0"; cases "y mod 100 = 0"; cases "y mod 400 = 0") (simp_all add: leap_year_def)
  have sum: "a - b + c = (a' - b' + c') + (p - q + r)" if "a = a' + p" "b = b' + q" "c = c' + r" for a b c a' b' c' p q r :: int
    using that by simp
  have "leap_days (y + 1) = leap_days y + (if leap_year y then 1 else 0)"
    unfolding leap_days_def add_diff_cancel_right' mods [symmetric]
    by (rule sum) (rule step_div, simp)+
  then show ?thesis by (simp add: year_start_def)
qed

lemma month_cases:
  "0 \<le> (m::int) \<Longrightarrow> m < 11 \<Longrightarrow> m \<in> {0, 1, 2, 3, 4, 5, 6, 7, 8, 9, 10}"
  by (simp only: insert_iff empty_iff) presburger

lemma days_before_next:
  assumes "0 \<le> m" "m < 11"
  shows "days_before_month y m + 28 \<le> days_before_month y (m + 1) \<and> days_before_month y (m + 1) \<le> days_before_month y m + 31"
  using month_cases [OF assms] by (elim insertE emptyE) (simp_all add: days_before_month_def)

lemma next_month:
  "k mod 12 < 11 \<Longrightarrow> (k + 1) div 12 = k div 12 \<and> (k + 1) mod 12 = (k::int) mod 12 + 1"
  "k mod 12 = 11 \<Longrightarrow> (k + 1) div 12 = (k::int) div 12 + 1 \<and> (k + 1) mod 12 = 0"
proof -
  have k: "k + 1 = 12 * (k div 12) + (k mod 12 + 1)" "0 \<le> k mod 12" by simp_all
  show "k mod 12 < 11 \<Longrightarrow> (k + 1) div 12 = k div 12 \<and> (k + 1) mod 12 = (k::int) mod 12 + 1"
    using int_div_pos_eq [OF k(1)] int_mod_pos_eq [OF k(1)] k(2) by simp
  assume 11: "k mod 12 = 11"
  have "k + 1 = 12 * (k div 12) + (11 + 1)" using k(1) unfolding 11 .
  then have k': "k + 1 = 12 * (k div 12 + 1) + 0" by (simp only: distrib_left)
  then show "(k + 1) div 12 = (k::int) div 12 + 1 \<and> (k + 1) mod 12 = 0"
    using int_div_pos_eq [OF k'] int_mod_pos_eq [OF k'] by simp
qed

text \<open>A month has 28 to 31 days.\<close>

lemma month_length: "month_start k + 28 \<le> month_start (k + 1) \<and> month_start (k + 1) \<le> month_start k + 31"
proof (cases "k mod 12 = 11")
  case True
  then show ?thesis
    using next_month(2) [OF True] year_length [of "1970 + k div 12"]
    by (simp add: month_start_def days_before_month_def algebra_simps)
next
  case False
  then have less: "k mod 12 < 11" using pos_mod_bound [of 12 k] by linarith
  show ?thesis
    using next_month(1) [OF less] days_before_next [OF _ less, of "1970 + k div 12"] by (simp add: month_start_def)
qed

text \<open>The month of a day: from a lower estimate on.\<close>

function month_from :: "int \<Rightarrow> int \<Rightarrow> int" where
  "month_from n k = (if month_start (k + 1) \<le> n then month_from n (k + 1) else k)"
  by auto
termination month_from
proof (relation "measure (\<lambda>(n, k). nat (n - month_start k))")
  fix n k :: int assume "month_start (k + 1) \<le> n"
  then show "((n, k + 1), n, k) \<in> measure (\<lambda>(n, k). nat (n - month_start k))"
    using month_length [of k] by simp
qed simp

declare month_from.simps [simp del]

definition month_of :: "int \<Rightarrow> int" where
  "month_of n = month_from n (n * 12 div 367)"

text \<open>\<open>Time.AddDate(0, j, 0)\<close> in UTC: a day past the end of the month runs over into the next.\<close>

definition add_months :: "int \<Rightarrow> int \<Rightarrow> int" where
  "add_months t j =
     (let n = t div day_ns; k = month_of n in
      (month_start (k + j) + (n - month_start k)) * day_ns + t mod day_ns)"

section \<open>Fetching comments\<close>

definition comment_fetch_due :: "string \<Rightarrow> int option \<Rightarrow> int \<Rightarrow> bool" where
  "comment_fetch_due schedule last_fetch now =
     (case last_fetch of
        None \<Rightarrow> True
      | Some t \<Rightarrow>
          if schedule = ''daily'' then t < now - 24 * hour_ns
          else if schedule = ''weekly'' then t < now - 7 * 24 * hour_ns
          else if schedule = ''monthly'' then t < add_months now (- 1)
          else False)"

section \<open>Syncing from Twitter\<close>

definition twitter_sync_interval_schedules :: "string \<Rightarrow> int option" where
  "twitter_sync_interval_schedules s =
     (if s = ''every_15_minutes'' then Some (15 * minute_ns)
      else if s = ''hourly'' then Some hour_ns
      else if s = ''every_6_hours'' then Some (6 * hour_ns)
      else if s = ''weekly'' then Some (7 * 24 * hour_ns)
      else None)"

definition sync_interval :: "string \<Rightarrow> int" where
  "sync_interval schedule =
     (case twitter_sync_interval_schedules schedule of Some d \<Rightarrow> d | None \<Rightarrow> 15 * minute_ns)"

text \<open>
  A location of the time zone database: the local calendar day of an instant, and the instant of 08:00 of a
  local day. \<open>slot.AddDate(0, 0, j)\<close> is 08:00 of the day \<open>j\<close> days on.
\<close>

record location =
  lo_day :: "int \<Rightarrow> int"
  lo_eight :: "int \<Rightarrow> int"

definition utc :: location where
  "utc = \<lparr>lo_day = (\<lambda>t. t div day_ns), lo_eight = (\<lambda>n. n * day_ns + 8 * hour_ns)\<rparr>"

definition latest_daily_day :: "int \<Rightarrow> location \<Rightarrow> int" where
  "latest_daily_day now loc = (let n = lo_day loc now in if now < lo_eight loc n then n - 1 else n)"

definition latest_daily_slot :: "int \<Rightarrow> location \<Rightarrow> int" where
  "latest_daily_slot now loc = lo_eight loc (latest_daily_day now loc)"

definition twitter_sync_due :: "string \<Rightarrow> int option \<Rightarrow> int \<Rightarrow> location \<Rightarrow> bool" where
  "twitter_sync_due schedule last_synced now loc =
     (case last_synced of
        None \<Rightarrow> True
      | Some t \<Rightarrow>
          if schedule = ''daily'' then t < latest_daily_slot now loc
          else t < now - sync_interval schedule)"

definition tick :: int where "tick = 15 * minute_ns"

definition tick_after :: "int \<Rightarrow> int" where "tick_after t = t div tick * tick + tick"

definition next_twitter_sync_run :: "string \<Rightarrow> int option \<Rightarrow> int \<Rightarrow> location \<Rightarrow> int" where
  "next_twitter_sync_run schedule last_synced now loc =
     (if twitter_sync_due schedule last_synced now loc then tick_after now
      else if schedule = ''daily'' then lo_eight loc (latest_daily_day now loc + 1)
      else tick_after (case last_synced of None \<Rightarrow> 0 | Some t \<Rightarrow> t + sync_interval schedule))"

section \<open>Properties\<close>

lemma month_from_contains:
  "month_start k \<le> n \<Longrightarrow> month_start (month_from n k) \<le> n \<and> n < month_start (month_from n k + 1)"
proof (induction n k rule: month_from.induct)
  case (1 n k)
  then show ?case by (subst (1 2) month_from.simps) auto
qed

lemma add_months_bounds:
  "t - 31 * day_ns \<le> add_months t (- 1) \<and> add_months t (- 1) \<le> t - 28 * day_ns"
proof -
  define n k where "n = t div day_ns" and "k = month_of n"
  have day: "0 < day_ns" by (simp add: day_ns_def hour_ns_def minute_ns_def second_ns_def)
  have t: "t = n * day_ns + t mod day_ns" by (simp add: n_def)
  have len: "month_start (k - 1) + 28 \<le> month_start k" "month_start k \<le> month_start (k - 1) + 31"
    using month_length [of "k - 1"] by simp_all
  have "add_months t (- 1) = t - (month_start k - month_start (k - 1)) * day_ns"
    by (subst (2) t) (simp add: add_months_def Let_def n_def k_def algebra_simps)
  moreover have "28 * day_ns \<le> (month_start k - month_start (k - 1)) * day_ns"
    "(month_start k - month_start (k - 1)) * day_ns \<le> 31 * day_ns"
    using len day by (auto intro!: mult_right_mono)
  ultimately show ?thesis by linarith
qed

text \<open>
  How often comments are fetched. A platform that was never fetched is due; after a fetch it is not due
  before the schedule's shortest window has passed (1 day, 7 days, 28 days) and it is due once the longest
  has (1 day, 7 days, 31 days), whatever the calendar; a schedule the code does not know is never due again.
\<close>

theorem comment_fetch_window:
  "comment_fetch_due schedule None now \<and>
   (let window = (if schedule = ''daily'' then Some (day_ns, day_ns)
                  else if schedule = ''weekly'' then Some (7 * day_ns, 7 * day_ns)
                  else if schedule = ''monthly'' then Some (28 * day_ns, 31 * day_ns) else None) in
    case window of
      None \<Rightarrow> \<not> comment_fetch_due schedule (Some t) now
    | Some (short, long) \<Rightarrow>
        (now - t \<le> short \<longrightarrow> \<not> comment_fetch_due schedule (Some t) now) \<and>
        (long < now - t \<longrightarrow> comment_fetch_due schedule (Some t) now))"
  using add_months_bounds [of now] by (auto simp: comment_fetch_due_def Let_def day_ns_def)

theorem comment_fetch_window_witness:
  "\<not> comment_fetch_due ''monthly'' (Some 0) (28 * day_ns) \<and> comment_fetch_due ''monthly'' (Some 0) (31 * day_ns + 1) \<and>
   \<not> comment_fetch_due ''yearly'' (Some 0) (400 * day_ns)"
  using comment_fetch_window [of "''monthly''" "28 * day_ns" 0] comment_fetch_window [of "''monthly''" "31 * day_ns + 1" 0]
    comment_fetch_window [of "''yearly''" "400 * day_ns" 0]
  by (simp add: Let_def)

section \<open>The next sync\<close>

text \<open>
  What the time zone database promises: the days go on, 08:00 of the day before is past and that of the day
  after is to come, and all offsets are whole quarters of an hour.
\<close>

definition regular_location :: "location \<Rightarrow> bool" where
  "regular_location loc \<longleftrightarrow>
     (\<forall>n. lo_eight loc n < lo_eight loc (n + 1)) \<and> (\<forall>n. lo_eight loc n mod tick = 0) \<and>
     (\<forall>t. lo_eight loc (lo_day loc t - 1) \<le> t \<and> t < lo_eight loc (lo_day loc t + 1))"

lemma tick_pos: "0 < tick"
  by (simp add: tick_def minute_ns_def second_ns_def)

lemma tick_after_next: "tick_after t mod tick = 0" "t < tick_after t" "u mod tick = 0 \<Longrightarrow> t < u \<Longrightarrow> tick_after t \<le> u"
proof -
  show "tick_after t mod tick = 0" by (simp add: tick_after_def)
  have t: "t = t div tick * tick + t mod tick" "t mod tick < tick" using tick_pos by simp_all
  then show "t < tick_after t" unfolding tick_after_def by linarith
  assume u: "u mod tick = 0" "t < u"
  then obtain q where q: "u = q * tick" by (metis mult.commute mult_div_mod_eq add_0_right)
  have "t div tick * tick \<le> t" using t(1) pos_mod_sign [OF tick_pos, of t] by linarith
  then have "t div tick * tick < q * tick" using u(2) q by linarith
  then have "t div tick < q" using tick_pos by simp
  then have "(t div tick + 1) * tick \<le> q * tick" using tick_pos by (intro mult_right_mono) auto
  then show "tick_after t \<le> u" by (simp add: q tick_after_def algebra_simps)
qed

lemma eight_mono:
  assumes "regular_location loc" shows "m < n \<Longrightarrow> lo_eight loc m < lo_eight loc n"
proof (induction "nat (n - m)" arbitrary: n)
  case (Suc k)
  have step: "lo_eight loc (n - 1) < lo_eight loc n"
    using assms [unfolded regular_location_def, THEN conjunct1, rule_format, of "n - 1"] by simp
  show ?case
  proof (cases "m = n - 1")
    case False
    then have "lo_eight loc m < lo_eight loc (n - 1)" using Suc by (intro Suc.hyps) auto
    with step show ?thesis by simp
  qed (use step in simp)
qed simp

lemma eight_le: "regular_location loc \<Longrightarrow> m \<le> n \<Longrightarrow> lo_eight loc m \<le> lo_eight loc n"
  using eight_mono [of loc m n] by (cases "m = n") auto

lemma latest_day:
  assumes "regular_location loc"
  shows "lo_eight loc (latest_daily_day now loc) \<le> now" "now < lo_eight loc (latest_daily_day now loc + 1)"
proof -
  have "lo_eight loc (lo_day loc now - 1) \<le> now" "now < lo_eight loc (lo_day loc now + 1)"
    using assms by (auto simp: regular_location_def)
  then show "lo_eight loc (latest_daily_day now loc) \<le> now" "now < lo_eight loc (latest_daily_day now loc + 1)"
    by (auto simp: latest_daily_day_def Let_def)
qed

lemma latest_day_unique:
  assumes "regular_location loc" "lo_eight loc n \<le> now" "now < lo_eight loc (n + 1)"
  shows "latest_daily_day now loc = n"
proof (rule ccontr)
  assume "latest_daily_day now loc \<noteq> n"
  then consider "latest_daily_day now loc + 1 \<le> n" | "n + 1 \<le> latest_daily_day now loc" by linarith
  then show False
    using latest_day [OF assms(1), of now] eight_le [OF assms(1)] assms(2,3) by cases force+
qed

lemma next_run_daily:
  assumes loc: "regular_location loc" and nd: "\<not> twitter_sync_due ''daily'' (Some s) now loc" and past: "s \<le> now"
  defines "u \<equiv> lo_eight loc (latest_daily_day now loc + 1)"
  shows "u mod tick = 0" "now < u" "twitter_sync_due ''daily'' (Some s) u loc"
    "now < v \<Longrightarrow> v < u \<Longrightarrow> \<not> twitter_sync_due ''daily'' (Some s) v loc"
proof -
  let ?d = "latest_daily_day now loc"
  note day = latest_day [OF loc, of now]
  show "u mod tick = 0" using loc by (auto simp: u_def regular_location_def)
  show "now < u" using day by (simp add: u_def)
  have "latest_daily_day u loc = ?d + 1"
    using eight_mono [OF loc, of "?d + 1" "?d + 1 + 1"] by (intro latest_day_unique [OF loc]) (simp_all add: u_def)
  then show "twitter_sync_due ''daily'' (Some s) u loc"
    using past day by (simp add: twitter_sync_due_def latest_daily_slot_def)
  assume v: "now < v" "v < u"
  then have "latest_daily_day v loc = ?d" using day by (intro latest_day_unique [OF loc]) (simp_all add: u_def)
  then show "\<not> twitter_sync_due ''daily'' (Some s) v loc"
    using nd by (simp add: twitter_sync_due_def latest_daily_slot_def)
qed

lemma due_stays:
  assumes "regular_location loc" "twitter_sync_due schedule synced now loc" "now \<le> u"
  shows "twitter_sync_due schedule synced u loc"
proof (cases "schedule = ''daily''")
  case True
  have "latest_daily_day now loc \<le> latest_daily_day u loc"
  proof (rule ccontr)
    assume "\<not> latest_daily_day now loc \<le> latest_daily_day u loc"
    then have "lo_eight loc (latest_daily_day u loc + 1) \<le> lo_eight loc (latest_daily_day now loc)"
      by (intro eight_le [OF assms(1)]) simp
    then show False using latest_day [OF assms(1), of now] latest_day [OF assms(1), of u] assms(3) by linarith
  qed
  from eight_le [OF assms(1) this] show ?thesis
    using assms(2,3) True by (auto simp: twitter_sync_due_def latest_daily_slot_def split: option.splits)
qed (use assms in \<open>auto simp: twitter_sync_due_def split: option.splits\<close>)

text \<open>
  The time shown for the next sync is the time of the next sync. It is the first tick of the scheduler
  after now at which the schedule is due, for every interval and for the daily schedule in any regular zone:
  it is a tick, it lies ahead, the sync is due then, and at no tick before it.
\<close>

theorem next_sync_is_first_due_tick:
  assumes loc: "regular_location loc" and past: "\<forall>s. synced = Some s \<longrightarrow> s \<le> now"
    and u: "u = next_twitter_sync_run schedule synced now loc"
  shows "u mod tick = 0 \<and> now < u \<and> twitter_sync_due schedule synced u loc \<and>
    (\<forall>v. v mod tick = 0 \<and> now < v \<and> v < u \<longrightarrow> \<not> twitter_sync_due schedule synced v loc)"
proof (cases "twitter_sync_due schedule synced now loc")
  case True
  then have u': "u = tick_after now" by (simp add: u next_twitter_sync_run_def)
  have "\<not> v < u" if "v mod tick = 0" "now < v" for v using tick_after_next(3) [OF that] u' by simp
  with due_stays [OF loc True, of u] tick_after_next(1,2) [of now] u' show ?thesis by auto
next
  case False
  then obtain s where s: "synced = Some s" by (cases synced) (auto simp: twitter_sync_due_def)
  show ?thesis
  proof (cases "schedule = ''daily''")
    case True
    with False s have u': "u = lo_eight loc (latest_daily_day now loc + 1)" by (simp add: u next_twitter_sync_run_def)
    have nd: "\<not> twitter_sync_due ''daily'' (Some s) now loc" using False True s by simp
    have "s \<le> now" using past s by simp
    from next_run_daily [OF loc nd this] show ?thesis unfolding u' True s by blast
  next
    case interval: False
    then have u': "u = tick_after (s + sync_interval schedule)" using False s by (simp add: u next_twitter_sync_run_def)
    have due: "twitter_sync_due schedule synced v loc \<longleftrightarrow> s + sync_interval schedule < v" for v
      using interval s by (auto simp: twitter_sync_due_def)
    have nd: "now \<le> s + sync_interval schedule" using False due [of now] by simp
    have none: "\<not> twitter_sync_due schedule synced v loc" if "v mod tick = 0" "v < u" for v
      using tick_after_next(3) [OF that(1), of "s + sync_interval schedule"] that(2) u' due by force
    have "now < u" "twitter_sync_due schedule synced u loc"
      using tick_after_next(2) [of "s + sync_interval schedule"] nd due u' by auto
    with none tick_after_next(1) u' show ?thesis by auto
  qed
qed

lemma utc_regular: "regular_location utc"
proof -
  have "t div day_ns * day_ns \<le> t \<and> t < t div day_ns * day_ns + day_ns" for t
    by (simp add: day_ns_def hour_ns_def minute_ns_def second_ns_def) presburger
  then show ?thesis
    by (force simp: regular_location_def utc_def tick_def day_ns_def hour_ns_def minute_ns_def second_ns_def algebra_simps)
qed

theorem next_sync_is_first_due_tick_witness:
  "next_twitter_sync_run ''daily'' (Some (9 * hour_ns)) (10 * hour_ns) utc = 32 * hour_ns \<and>
   twitter_sync_due ''daily'' (Some (9 * hour_ns)) (32 * hour_ns) utc"
proof -
  have run: "next_twitter_sync_run ''daily'' (Some (9 * hour_ns)) (10 * hour_ns) utc = 32 * hour_ns"
    by (simp add: next_twitter_sync_run_def twitter_sync_due_def latest_daily_slot_def latest_daily_day_def utc_def Let_def
        day_ns_def hour_ns_def minute_ns_def second_ns_def)
  have "\<forall>s. Some (9 * hour_ns) = Some s \<longrightarrow> s \<le> 10 * hour_ns" by (simp add: hour_ns_def minute_ns_def second_ns_def)
  from next_sync_is_first_due_tick [OF utc_regular this run [symmetric]] run show ?thesis by simp
qed

end
