(* ===== verification/Scheduler.thy ===== *)
theory Scheduler
  imports DueTimes Accounts JobQueue
begin

text \<open>
  The recurring tasks (\<open>internal/jobs/scheduler.go\<close>), the key/value store they remember in
  (\<open>internal/kv/kv.go\<close>, \<open>kv.sql.go\<close>) and the startup sweep of \<open>data/imports\<close>
  (\<open>CleanupOrphanImportFiles\<close> of \<open>internal/jobs/cleanup.go\<close>). A directory is the list of its entries; what the
  operating system refuses is an argument. Clocks of tasks are nanoseconds, \<open>unix\<close> cuts them to seconds.
\<close>

section \<open>The key/value store\<close>

definition get_kv_value :: "string \<Rightarrow> string option db_act" where
  "get_kv_value key = query_row (\<lambda>d. map_option kv_value (find (\<lambda>r. kv_key r = key) (kv_rows d)))"

definition put_kv :: "string \<Rightarrow> string option \<Rightarrow> int \<Rightarrow> kv_row list \<Rightarrow> kv_row list" where
  "put_kv key v now rs =
     (if list_ex (\<lambda>r. kv_key r = key) rs
      then update_where (\<lambda>r. kv_key r = key) (\<lambda>r. r\<lparr>kv_value := v, kv_updated_at := now\<rparr>) rs
      else rs @ [\<lparr>kv_key = key, kv_value = v, kv_updated_at = now\<rparr>])"

definition set_kv_value :: "string \<Rightarrow> string option \<Rightarrow> int \<Rightarrow> unit db_act" where
  "set_kv_value key v now = modify (\<lambda>d. d\<lparr>kv_rows := put_kv key v now (kv_rows d)\<rparr>)"

definition kv_get :: "string \<Rightarrow> (string \<times> bool) db_act" where
  "kv_get key =
     bindE (attempt (get_kv_value key)) (\<lambda>r. case r of
       Inl e \<Rightarrow> if error_is e ErrNoRows then ret ('''', False) else raise e
     | Inr v \<Rightarrow> ret (str_of v, True))"

definition kv_set :: "int \<Rightarrow> string \<Rightarrow> string \<Rightarrow> unit db_act" where
  "kv_set now key v = set_kv_value key (Some v) now"

section \<open>Rows that have had their time\<close>

definition cleanup_finished_job_runs :: "int \<Rightarrow> unit db_act" where
  "cleanup_finished_job_runs now = bindE (delete_finished_job_runs (unix (now - 24 * hour_ns))) (\<lambda>_. ret ())"

definition sweep_sessions :: "int \<Rightarrow> unit db_act" where
  "sweep_sessions now = bindE (delete_expired_sessions (unix (now - 30 * day_ns))) (\<lambda>_. ret ())"

section \<open>Comment fetches\<close>

definition fetch_key :: "string \<Rightarrow> string" where
  "fetch_key platform = ''last_fetch_comments_'' @ platform"

definition platform_payload :: "string \<Rightarrow> json" where
  "platform_payload platform = JObj [(''platform'', JStr platform)]"

text \<open>A value that is no number counts as never fetched.\<close>

definition last_fetch :: "string \<times> bool \<Rightarrow> int option" where
  "last_fetch r = (if snd r then map_option (\<lambda>t. t * second_ns) (parse_int64 (fst r)) else None)"

fun fetch_loop :: "bool \<Rightarrow> (nat \<Rightarrow> int) \<Rightarrow> int \<Rightarrow> (string \<times> string) list \<Rightarrow> unit db_act" where
  "fetch_loop wake clk now [] = ret ()"
| "fetch_loop wake clk now ((platform, schedule) # fs) =
     bindE (kv_get (fetch_key platform)) (\<lambda>r.
       if \<not> comment_fetch_due schedule (last_fetch r) now then fetch_loop wake clk now fs
       else bindE (enqueue wake (unix (clk 1)) kind_fetch_social_comments (Some (platform_payload platform)) (unix now)) (\<lambda>_.
            bindE (kv_set (unix (clk 2)) (fetch_key platform) (dec_int (unix now))) (\<lambda>_.
            fetch_loop wake (\<lambda>n. clk (n + 2)) now fs)))"

definition enqueue_due_comment_fetches :: "bool \<Rightarrow> (nat \<Rightarrow> int) \<Rightarrow> unit db_act" where
  "enqueue_due_comment_fetches wake clk =
     bindE list_comment_fetchers (\<lambda>fs. fetch_loop wake clk (clk 0) fs)"

section \<open>The Twitter hook\<close>

definition site_location :: "(string \<Rightarrow> location option) \<Rightarrow> location db_act" where
  "site_location zones =
     bindE (attempt get_settings) (\<lambda>r. ret (case r of
       Inl _ \<Rightarrow> utc
     | Inr s \<Rightarrow> (case zones (se_time_zone s) of None \<Rightarrow> utc | Some loc \<Rightarrow> loc)))"

definition run_sync_twitter_hook :: "(string \<Rightarrow> location option) \<Rightarrow> int \<Rightarrow> unit db_act option \<Rightarrow> unit db_act" where
  "run_sync_twitter_hook zones now hook =
     bindE (attempt get_twitter_sync) (\<lambda>r. case r of
       Inl e \<Rightarrow> if error_is e ErrNoRows then ret () else raise e
     | Inr ts \<Rightarrow>
         if ts_enabled ts \<noteq> 1 then ret ()
         else bindE (site_location zones) (\<lambda>loc.
           if \<not> twitter_sync_due (ts_sync_schedule ts) (map_option (\<lambda>t. t * second_ns) (ts_last_synced_at ts)) now loc
           then ret ()
           else (case hook of None \<Rightarrow> ret () | Some h \<Rightarrow> h)))"

section \<open>Files of imports and exports\<close>

record dir_entry =
  de_name :: string
  de_dir :: bool
  de_mtime :: int

type_synonym dirs = "string \<Rightarrow> dir_entry list option"

text \<open>What reading a directory, inspecting and removing an entry fail with, by path.\<close>

record os_faults =
  of_read :: "string \<Rightarrow> err option"
  of_stat :: "string \<Rightarrow> err option"
  of_remove :: "string \<Rightarrow> err option"

definition path_join :: "string \<Rightarrow> string \<Rightarrow> string" where
  "path_join dir name = dir @ ''/'' @ name"

definition remove_entry :: "string \<Rightarrow> string \<Rightarrow> dirs \<Rightarrow> dirs" where
  "remove_entry dir name fs = fs(dir := map_option (filter (\<lambda>e. de_name e \<noteq> name)) (fs dir))"

definition first_of :: "err option \<Rightarrow> err \<Rightarrow> err option" where
  "first_of first e = (case first of None \<Rightarrow> Some e | Some x \<Rightarrow> Some x)"

text \<open>The paths active imports refer to, and whether one of them extracts.\<close>

definition payload_path :: "jtext option \<Rightarrow> string option" where
  "payload_path payload =
     (case payload of None \<Rightarrow> None
      | Some _ \<Rightarrow> (case unmarshal (struct1 put_string ''path'' '''') payload of
          Inl _ \<Rightarrow> None | Inr p \<Rightarrow> if p = '''' then None else Some p))"

definition active_import_paths :: "(string list \<times> bool) db_act" where
  "active_import_paths =
     bindE list_active_import_job_payloads (\<lambda>rows.
       ret (List.map_filter (\<lambda>r. payload_path (snd r)) rows, list_ex (\<lambda>r. fst r = kind_import_db) rows))"

definition owned_upload :: "string \<Rightarrow> bool" where
  "owned_upload name = (has_prefix name ''import_'' \<or> has_prefix name ''twitter_archive_'')"

text \<open>The entries \<open>cleanOldExports\<close> looks at: \<open>filepath.Ext\<close> is \<open>.zip\<close> when the name ends so.\<close>

definition sweepable :: "bool \<Rightarrow> dir_entry \<Rightarrow> bool" where
  "sweepable in_imports e =
     (if de_dir e then \<not> in_imports \<and> has_prefix (de_name e) ''export_''
      else has_suffix (de_name e) ''.zip'' \<and> (in_imports \<longrightarrow> owned_upload (de_name e)))"

definition sweep_entry ::
  "os_faults \<Rightarrow> string \<Rightarrow> bool \<Rightarrow> string list option \<Rightarrow> int \<Rightarrow> dir_entry \<Rightarrow> dirs \<times> err option \<Rightarrow> dirs \<times> err option" where
  "sweep_entry os dir in_imports protected cutoff e s =
     (let path = path_join dir (de_name e) in
      if \<not> sweepable in_imports e then s
      else case of_stat os path of
        Some x \<Rightarrow> (fst s, first_of (snd s) (ErrWrap (''stat '' @ path) x))
      | None \<Rightarrow>
          if \<not> de_mtime e < cutoff then s
          else if in_imports \<and> (case protected of None \<Rightarrow> True | Some ps \<Rightarrow> path \<in> set ps) then s
          else case of_remove os path of
            Some x \<Rightarrow> (fst s, first_of (snd s) (ErrWrap (''remove '' @ path) x))
          | None \<Rightarrow> (remove_entry dir (de_name e) (fst s), snd s))"

definition sweep_dir ::
  "os_faults \<Rightarrow> string \<Rightarrow> bool \<Rightarrow> string list option \<Rightarrow> int \<Rightarrow> dirs \<times> err option \<Rightarrow> dirs \<times> err option" where
  "sweep_dir os dir in_imports protected cutoff s =
     (case fst s dir of
        None \<Rightarrow> s
      | Some entries \<Rightarrow> (case of_read os dir of
          Some x \<Rightarrow> (fst s, first_of (snd s) (ErrWrap (''read '' @ dir) x))
        | None \<Rightarrow> fold (sweep_entry os dir in_imports protected cutoff) entries s))"

definition exports_dir :: "string \<Rightarrow> string" where "exports_dir data = path_join data ''exports''"
definition imports_dir :: "string \<Rightarrow> string" where "imports_dir data = path_join data ''imports''"

definition clean_old_exports :: "os_faults \<Rightarrow> string \<Rightarrow> (nat \<Rightarrow> int) \<Rightarrow> dirs \<Rightarrow> (dirs \<times> err option) db_act" where
  "clean_old_exports os data clk fs =
     bindE (attempt active_import_paths) (\<lambda>r.
       let cutoff = clk 0 - 7 * day_ns;
           protected = (case r of Inl _ \<Rightarrow> None | Inr (ps, _) \<Rightarrow> Some ps);
           start = (fs, case r of Inl e \<Rightarrow> Some (ErrWrap ''list active import paths'' e) | Inr _ \<Rightarrow> None);
           done1 = sweep_dir os (exports_dir data) False protected cutoff start;
           done2 = sweep_dir os (imports_dir data) True protected cutoff done1
       in bindE (attempt (delete_old_activity_logs (unix (clk 1 - 90 * day_ns)))) (\<lambda>r. case r of
            Inl e \<Rightarrow> ret (fst done2, Some e)
          | Inr _ \<Rightarrow> ret done2))"

section \<open>The startup sweep of imports\<close>

definition leftover :: "os_faults \<Rightarrow> string \<Rightarrow> int \<Rightarrow> dir_entry \<Rightarrow> bool" where
  "leftover os dir process_started e =
     ((if de_dir e then has_prefix (de_name e) ''extract_'' else owned_upload (de_name e)) \<and>
      of_stat os (path_join dir (de_name e)) = None \<and> de_mtime e < process_started)"

definition remove_leftover :: "os_faults \<Rightarrow> string \<Rightarrow> dir_entry \<Rightarrow> nat \<times> err option \<times> dirs \<Rightarrow> nat \<times> err option \<times> dirs" where
  "remove_leftover os dir e = (\<lambda>(n, first, fs).
     (case of_remove os (path_join dir (de_name e)) of
        Some x \<Rightarrow> (n, first_of first x, fs)
      | None \<Rightarrow> (Suc n, first, remove_entry dir (de_name e) fs)))"

text \<open>The three kinds in the order they are removed: half-written files, uploads, staging directories.\<close>

definition is_part :: "dir_entry \<Rightarrow> bool" where
  "is_part e = (\<not> de_dir e \<and> has_suffix (de_name e) ''.part'')"

definition cleanup_orphan_import_files :: "os_faults \<Rightarrow> string \<Rightarrow> int \<Rightarrow> dirs \<Rightarrow> (nat \<times> err option \<times> dirs) db_act" where
  "cleanup_orphan_import_files os data process_started fs =
     (let dir = imports_dir data in
      case fs dir of
        None \<Rightarrow> ret (0, None, fs)
      | Some entries \<Rightarrow>
          (case of_read os dir of
             Some x \<Rightarrow> raise x
           | None \<Rightarrow>
               let left = filter (leftover os dir process_started) entries;
                   temp = filter is_part left;
                   uploads = filter (\<lambda>e. \<not> de_dir e \<and> \<not> is_part e) left;
                   staging = filter de_dir left
               in if left = [] then ret (0, None, fs)
                  else bindE active_import_paths (\<lambda>(protected, importing).
                    ret (fold (remove_leftover os dir)
                      (temp @ filter (\<lambda>e. path_join dir (de_name e) \<notin> set protected) uploads @ (if importing then [] else staging))
                      (0, None, fs)))))"

section \<open>What the sweeps of files take\<close>

definition names_ok :: "dirs \<Rightarrow> bool" where
  "names_ok fs \<longleftrightarrow> (\<forall>dir es. fs dir = Some es \<longrightarrow> distinct (map de_name es))"

text \<open>An active import refers to the path.\<close>

definition import_job :: "job_run \<Rightarrow> bool" where
  "import_job r = (active r \<and> (jr_kind r = kind_import_db \<or> jr_kind r = kind_import_markdown))"

definition import_refers :: "database \<Rightarrow> string \<Rightarrow> bool" where
  "import_refers d p = list_ex (\<lambda>r. import_job r \<and> payload_path (jr_payload r) = Some p) (job_runs d)"

definition extracting :: "database \<Rightarrow> bool" where
  "extracting d = list_ex (\<lambda>r. import_job r \<and> jr_kind r = kind_import_db) (job_runs d)"

lemma active_import_paths_ok:
  assumes "active_import_paths w = (Inr (ps, b), w')"
  shows "(p \<in> set ps) = import_refers (wdb w) p" "b = extracting (wdb w)" "wdb w' = wdb w"
proof -
  obtain rows where q: "list_active_import_job_payloads w = (Inr rows, w')"
    and ps: "ps = List.map_filter (\<lambda>r. payload_path (snd r)) rows" "b = list_ex (\<lambda>r. fst r = kind_import_db) rows"
    using assms unfolding active_import_paths_def by (auto simp: ret_def elim: bindE_ok)
  note rows = query_ok [OF q [unfolded list_active_import_job_payloads_def]]
  show "wdb w' = wdb w" using rows by simp
  show "(p \<in> set ps) = import_refers (wdb w) p"
    using rows by (auto simp: ps in_map_filter import_refers_def import_job_def list_ex_iff)
  show "b = extracting (wdb w)"
    using rows by (auto simp: ps extracting_def import_job_def list_ex_iff)
qed

lemma active_import_paths_error: "active_import_paths w = (Inl e, w') \<Longrightarrow> wdb w' = wdb w"
proof -
  assume "active_import_paths w = (Inl e, w')"
  then have "list_active_import_job_payloads w = (Inl e, w')"
    unfolding active_import_paths_def by (intro bindE_calm_error [OF calm_ret])
  then have "w' = snd (list_active_import_job_payloads w)" by simp
  then show "wdb w' = wdb w" by (simp add: list_active_import_job_payloads_def query_keeps)
qed

lemma active_import_paths_listed:
  "active_import_paths w = (r, w') \<Longrightarrow> isl (fst (list_active_import_job_payloads w)) = isl r"
  by (auto simp: active_import_paths_def run_simps split: sum.splits prod.splits)

text \<open>Removing some entries of a directory one after the other.\<close>

lemma remove_named:
  "remove_entry dir n fs = fs(dir := map_option (filter (\<lambda>e. de_name e \<noteq> n)) (fs dir))"
  by (simp add: remove_entry_def)

definition minus_names :: "string \<Rightarrow> string set \<Rightarrow> dirs \<Rightarrow> dirs" where
  "minus_names dir ns fs = fs(dir := map_option (filter (\<lambda>e. de_name e \<notin> ns)) (fs dir))"

lemma minus_names_step:
  "remove_entry dir n (minus_names dir ns fs) = minus_names dir (insert n ns) fs"
  "minus_names dir {} fs = fs"
proof -
  show "remove_entry dir n (minus_names dir ns fs) = minus_names dir (insert n ns) fs"
    by (cases "fs dir") (auto simp: remove_entry_def minus_names_def intro!: filter_cong)
  show "minus_names dir {} fs = fs" by (cases "fs dir") (auto simp: minus_names_def)
qed

lemma minus_own_names:
  assumes "fs dir = Some es" "distinct (map de_name es)" "ns = de_name ` {e \<in> set es. P e}"
  shows "minus_names dir ns fs = fs(dir := Some (filter (\<lambda>e. \<not> P e) es))"
proof -
  have "de_name e \<in> ns \<longleftrightarrow> P e" if "e \<in> set es" for e
    using assms that by (auto simp: distinct_map inj_on_def)
  then have "filter (\<lambda>e. de_name e \<notin> ns) es = filter (\<lambda>e. \<not> P e) es" by (intro filter_cong) auto
  then show ?thesis using assms(1) by (simp add: minus_names_def)
qed

definition swept :: "os_faults \<Rightarrow> string \<Rightarrow> bool \<Rightarrow> (string \<Rightarrow> bool) \<Rightarrow> int \<Rightarrow> dir_entry \<Rightarrow> bool" where
  "swept os dir in_imports keep cutoff e \<longleftrightarrow>
     sweepable in_imports e \<and> de_mtime e < cutoff \<and> (in_imports \<longrightarrow> \<not> keep (path_join dir (de_name e))) \<and>
     of_stat os (path_join dir (de_name e)) = None \<and> of_remove os (path_join dir (de_name e)) = None"

lemma sweep_entry_removes:
  assumes "\<And>p. keep p = (case protected of None \<Rightarrow> True | Some ps \<Rightarrow> p \<in> set ps)"
  shows "fst (sweep_entry os dir imp protected cutoff e s) =
     (if swept os dir imp keep cutoff e then remove_entry dir (de_name e) (fst s) else fst s)"
  using assms by (auto simp: sweep_entry_def swept_def Let_def split: option.splits)

lemma fold_sweep_entries:
  assumes "\<And>p. keep p = (case protected of None \<Rightarrow> True | Some ps \<Rightarrow> p \<in> set ps)"
  shows "fst s = minus_names dir ns fs \<Longrightarrow> fst (fold (sweep_entry os dir imp protected cutoff) es s) =
     minus_names dir (ns \<union> de_name ` {e \<in> set es. swept os dir imp keep cutoff e}) fs"
proof (induction es arbitrary: s ns)
  case (Cons e es)
  have "fst (sweep_entry os dir imp protected cutoff e s) =
      minus_names dir (if swept os dir imp keep cutoff e then insert (de_name e) ns else ns) fs"
    using Cons.prems by (simp add: sweep_entry_removes [OF assms] minus_names_step)
  from Cons.IH [OF this] show ?case by (auto intro!: arg_cong [where f = "\<lambda>ns. minus_names dir ns fs"])
qed simp

definition remaining :: "os_faults \<Rightarrow> string \<Rightarrow> bool \<Rightarrow> (string \<Rightarrow> bool) \<Rightarrow> int \<Rightarrow> dir_entry list \<Rightarrow> dir_entry list" where
  "remaining os dir in_imports keep cutoff es =
     (if of_read os dir \<noteq> None then es else filter (\<lambda>e. \<not> swept os dir in_imports keep cutoff e) es)"

lemma sweep_dir_exact:
  assumes "names_ok (fst s)" "\<And>p. keep p = (case protected of None \<Rightarrow> True | Some ps \<Rightarrow> p \<in> set ps)"
  shows "fst (sweep_dir os dir imp protected cutoff s) = (fst s)(dir := map_option (remaining os dir imp keep cutoff) (fst s dir))"
proof (cases "fst s dir")
  case None then show ?thesis by (auto simp: sweep_dir_def)
next
  case (Some es)
  have "distinct (map de_name es)" using assms(1) Some by (simp add: names_ok_def)
  note own = minus_own_names [where P = "swept os dir imp keep cutoff" and fs = "fst s" and dir = dir and es = es, OF Some this refl]
  show ?thesis
  proof (cases "of_read os dir")
    case None
    then show ?thesis
      using fold_sweep_entries [OF assms(2), where s = s and ns = "{}" and fs = "fst s"] own Some
      by (simp add: sweep_dir_def remaining_def minus_names_step)
  next
    case (Some x)
    then show ?thesis using \<open>fst s dir = Some es\<close> by (auto simp: sweep_dir_def remaining_def)
  qed
qed

lemma remaining_exports: "remaining os dir False keep cutoff = remaining os dir False keep' cutoff"
  by (simp add: remaining_def swept_def fun_eq_iff)

lemma dirs_differ: "exports_dir data \<noteq> imports_dir data"
  by (simp add: exports_dir_def imports_dir_def path_join_def)

lemma names_ok_remaining: "names_ok fs \<Longrightarrow> names_ok (fs(dir := map_option (remaining os dir imp keep cutoff) (fs dir)))"
  by (auto simp: names_ok_def remaining_def distinct_map_filter)

lemma both_sweeps:
  assumes "names_ok fs" "\<And>p. keep p = (case protected of None \<Rightarrow> True | Some ps \<Rightarrow> p \<in> set ps)"
  shows "fst (sweep_dir os (imports_dir data) True protected cutoff (sweep_dir os (exports_dir data) False protected cutoff (fs, e))) =
    fs(exports_dir data := map_option (remaining os (exports_dir data) False (\<lambda>_. False) cutoff) (fs (exports_dir data)),
       imports_dir data := map_option (remaining os (imports_dir data) True keep cutoff) (fs (imports_dir data)))"
proof -
  have one: "fst (sweep_dir os (exports_dir data) False protected cutoff (fs, e)) =
      fs(exports_dir data := map_option (remaining os (exports_dir data) False (\<lambda>_. False) cutoff) (fs (exports_dir data)))"
    using sweep_dir_exact [where s = "(fs, e)" and imp = False, OF _ assms(2)] assms(1)
    by (simp add: remaining_exports [where keep = keep and keep' = "\<lambda>_. False"])
  show ?thesis
    by (subst sweep_dir_exact [OF _ assms(2)])
       (simp_all add: one names_ok_remaining assms(1) dirs_differ dirs_differ [symmetric])
qed

text \<open>
  What the nightly sweep deletes. Exactly the zips and the stale \<open>export_\<close> directories of the exports, and
  the job-owned zips of the imports, that are older than seven days and can be removed; no upload that a queued
  or running import refers to, and no upload at all when the active imports cannot be listed. Entries that
  cannot be inspected or removed do not stop the sweep, every other directory is left alone, and of the
  database at most the activity log older than ninety days goes, which it does whenever no error is reported.
\<close>

theorem clean_old_exports_exact:
  assumes "names_ok fs" "clean_old_exports os data clk fs w = (r, w')"
  shows "\<exists>fs' err. r = Inr (fs', err) \<and>
    fs' = fs(exports_dir data := map_option (remaining os (exports_dir data) False (\<lambda>_. False) (clk 0 - 7 * day_ns)) (fs (exports_dir data)),
             imports_dir data := map_option (remaining os (imports_dir data) True
               (\<lambda>p. \<not> isl (fst (list_active_import_job_payloads w)) \<longrightarrow> import_refers (wdb w) p) (clk 0 - 7 * day_ns)) (fs (imports_dir data))) \<and>
    (let pruned = (wdb w)\<lparr>activity_logs := delete_where (\<lambda>l. al_created_at l < unix (clk 1 - 90 * day_ns)) (activity_logs (wdb w))\<rparr> in
      wdb w' = pruned \<or> wdb w' = wdb w \<and> err \<noteq> None)"
proof -
  define r1 where "r1 = fst (active_import_paths w)"
  define w1 where "w1 = snd (active_import_paths w)"
  define protected where "protected = (case r1 of Inl _ \<Rightarrow> None | Inr (ps, _) \<Rightarrow> Some ps)"
  define e1 where "e1 = (case r1 of Inl e \<Rightarrow> Some (ErrWrap ''list active import paths'' e) | Inr _ \<Rightarrow> None)"
  define s where "s = sweep_dir os (imports_dir data) True protected (clk 0 - 7 * day_ns)
    (sweep_dir os (exports_dir data) False protected (clk 0 - 7 * day_ns) (fs, e1))"
  have act: "active_import_paths w = (r1, w1)" by (simp add: r1_def w1_def)
  have keep: "(\<not> isl (fst (list_active_import_job_payloads w)) \<longrightarrow> import_refers (wdb w) p) =
      (case protected of None \<Rightarrow> True | Some ps \<Rightarrow> p \<in> set ps)" for p
    using act active_import_paths_listed [OF act] active_import_paths_ok(1)
    by (cases r1) (auto simp: protected_def)
  have w1: "wdb w1 = wdb w"
    using active_import_paths_error [of w _ w1] active_import_paths_ok(3) [of w _ _ w1] act
    by (cases r1) auto
  have run: "clean_old_exports os data clk fs w =
      (case delete_old_activity_logs (unix (clk 1 - 90 * day_ns)) w1 of
         (Inl e, w2) \<Rightarrow> (Inr (fst s, Some e), w2) | (Inr _, w2) \<Rightarrow> (Inr s, w2))"
    by (simp add: clean_old_exports_def run_simps act Let_def s_def protected_def e1_def split: prod.splits sum.splits)
  note fs' = both_sweeps [where e = e1 and os = os and data = data and cutoff = "clk 0 - 7 * day_ns", OF assms(1) keep, folded s_def]
  show ?thesis
  proof (cases "delete_old_activity_logs (unix (clk 1 - 90 * day_ns)) w1")
    case (Pair d w2)
    show ?thesis
    proof (cases d)
      case (Inl e)
      have "wdb w2 = wdb w" using exec_error_keeps [OF Pair [unfolded Inl delete_old_activity_logs_def]] w1 by simp
      moreover have "r = Inr (fst s, Some e)" "w' = w2" using assms(2) run Pair Inl by auto
      ultimately show ?thesis using fs' by (auto simp: Let_def)
    next
      case (Inr n)
      have "wdb w2 = (wdb w)\<lparr>activity_logs := delete_where (\<lambda>l. al_created_at l < unix (clk 1 - 90 * day_ns)) (activity_logs (wdb w))\<rparr>"
        using exec_ok [OF Pair [unfolded Inr delete_old_activity_logs_def]] w1 by simp
      moreover have "r = Inr s" "w' = w2" using assms(2) run Pair Inr by auto
      ultimately show ?thesis using fs' by (cases s) (auto simp: Let_def)
    qed
  qed
qed

section \<open>What a fetch tick enqueues\<close>

definition stored :: "database \<Rightarrow> string \<Rightarrow> string \<times> bool" where
  "stored d key = (case find (\<lambda>r. kv_key r = key) (kv_rows d) of None \<Rightarrow> ([], False) | Some r \<Rightarrow> (str_of (kv_value r), True))"

lemma kv_get_keeps: "kv_get key w = (r, w') \<Longrightarrow> wdb w' = wdb w"
  by (rule presD [where I = "\<lambda>d. d = wdb w" and m = "kv_get key" and w = w])
     (auto simp: kv_get_def get_kv_value_def intro!: pres_rules)

lemma kv_get_stored: "wfaults w = [] \<Longrightarrow> kv_get key w = (Inr (stored (wdb w) key), w)"
  by (simp add: kv_get_def get_kv_value_def run_simps stored_def error_is.simps split: option.splits)

lemma find_kv_update:
  "(\<And>r. kv_key (f r) = kv_key r) \<Longrightarrow>
   find (\<lambda>r. kv_key r = k) (update_where (\<lambda>r. kv_key r = key) f rs) =
     (if k = key then map_option f else id) (find (\<lambda>r. kv_key r = k) rs)"
  by (induction rs) (auto simp: update_where_def)

lemma kv_set_stored:
  assumes "wdb w' = (wdb w)\<lparr>kv_rows := put_kv key (Some v) now (kv_rows (wdb w))\<rparr>"
  shows "stored (wdb w') k = (if k = key then (v, True) else stored (wdb w) k)"
proof (cases "list_ex (\<lambda>r. kv_key r = key) (kv_rows (wdb w))")
  case True
  then have "find (\<lambda>r. kv_key r = key) (kv_rows (wdb w)) \<noteq> None" by (auto simp: find_None_iff list_ex_iff)
  with True assms show ?thesis by (auto simp: stored_def put_kv_def find_kv_update)
next
  case False
  then have none: "find (\<lambda>r. kv_key r = key) (kv_rows (wdb w)) = None" by (auto simp: find_None_iff list_ex_iff)
  have "find P (rs @ [x]) = (case find P rs of None \<Rightarrow> if P x then Some x else None | Some y \<Rightarrow> Some y)"
    for P and x :: kv_row and rs by (induction rs) auto
  with False assms none show ?thesis by (auto simp: stored_def put_kv_def split: option.splits)
qed

definition fetch_jobs :: "int \<Rightarrow> string list \<Rightarrow> database \<Rightarrow> database \<Rightarrow> bool" where
  "fetch_jobs now ps d d' \<longleftrightarrow> (\<exists>js. job_runs d' = job_runs d @ js \<and>
     map (\<lambda>j. (jr_kind j, jr_payload j, jr_run_at j, jr_status j)) js =
       map (\<lambda>p. (kind_fetch_social_comments, Some (to_text (platform_payload p)), unix now, Queued)) ps)"

definition stamps :: "int \<Rightarrow> string list \<Rightarrow> database \<Rightarrow> database \<Rightarrow> bool" where
  "stamps now ps d d' \<longleftrightarrow>
     (\<forall>key. stored d' key = (if key \<in> fetch_key ` set ps then (dec_int (unix now), True) else stored d key))"

definition due_fetches :: "int \<Rightarrow> (string \<times> string) list \<Rightarrow> database \<Rightarrow> string list" where
  "due_fetches now fs d = map fst (filter (\<lambda>(p, s). comment_fetch_due s (last_fetch (stored d (fetch_key p))) now) fs)"

lemma fetch_key_inj [simp]: "fetch_key p = fetch_key q \<longleftrightarrow> p = q"
  by (simp add: fetch_key_def)

lemma fetch_enqueue:
  assumes "enqueue wake t kind_fetch_social_comments (Some (platform_payload p)) (unix now) w = (r, w')"
  shows "case r of Inl _ \<Rightarrow> wdb w' = wdb w | Inr _ \<Rightarrow> fetch_jobs now [p] (wdb w) (wdb w') \<and> kv_rows (wdb w') = kv_rows (wdb w)"
proof (cases r)
  case (Inl e)
  have "enqueue_job_run kind_fetch_social_comments (map_option to_text (Some (platform_payload p))) (unix now) t w = (Inl e, w')"
    using assms unfolding Inl enqueue_def by (intro bindE_calm_error [OF calm_ret])
  then show ?thesis using exec_error_keeps Inl by (auto simp: enqueue_job_run_def)
next
  case (Inr x)
  obtain i where "enqueue_job_run kind_fetch_social_comments (map_option to_text (Some (platform_payload p))) (unix now) t w = (Inr i, w')"
    using assms unfolding Inr enqueue_def by (auto simp: ret_def elim: bindE_ok)
  from exec_ok [OF this [unfolded enqueue_job_run_def], symmetric] show ?thesis
    by (auto simp: Inr fetch_jobs_def add_job_def insert_row_def new_job_def Let_def)
qed

lemma fetch_jobs_Nil: "fetch_jobs now [] d d' \<longleftrightarrow> job_runs d' = job_runs d"
  by (simp add: fetch_jobs_def)

lemma fetch_jobs_Cons:
  "fetch_jobs now [p] d d1 \<Longrightarrow> job_runs d2 = job_runs d1 \<Longrightarrow> fetch_jobs now ps d2 d' \<Longrightarrow> fetch_jobs now (p # ps) d d'"
  unfolding fetch_jobs_def by (elim exE conjE) (rule exI [where x = "js @ js'" for js js'], force)

definition fetched :: "(string \<times> string) list \<Rightarrow> int \<Rightarrow> bool \<Rightarrow> bool \<Rightarrow> database \<Rightarrow> database \<Rightarrow> bool" where
  "fetched fs now quiet success d d' \<longleftrightarrow> (\<exists>ps k. set ps \<subseteq> fst ` set fs \<and> k \<le> length ps \<and> length ps \<le> k + 1 \<and>
     (success \<longrightarrow> k = length ps) \<and> fetch_jobs now ps d d' \<and> stamps now (take k ps) d d' \<and>
     (quiet \<longrightarrow> success \<and> ps = due_fetches now fs d))"

lemma fetched_nothing: "job_runs d' = job_runs d \<Longrightarrow> kv_rows d' = kv_rows d \<Longrightarrow> fetched fs now False False d d'"
  unfolding fetched_def by (intro exI [where x = "[]"] exI [where x = 0]) (simp add: fetch_jobs_Nil stamps_def stored_def)

lemma fetched_unstamped:
  "fetch_jobs now [p] d d' \<Longrightarrow> kv_rows d' = kv_rows d \<Longrightarrow> fetched ((p, s) # fs) now False False d d'"
  unfolding fetched_def by (intro exI [where x = "[p]"] exI [where x = 0]) (simp add: stamps_def stored_def)

lemma fetched_skip:
  assumes "fetched fs now quiet success d d'" "quiet \<Longrightarrow> \<not> comment_fetch_due s (last_fetch (stored d (fetch_key p))) now"
  shows "fetched ((p, s) # fs) now quiet success d d'"
proof -
  obtain ps k where *: "set ps \<subseteq> fst ` set fs" "k \<le> length ps" "length ps \<le> k + 1" "success \<longrightarrow> k = length ps"
    "fetch_jobs now ps d d'" "stamps now (take k ps) d d'" "quiet \<longrightarrow> success \<and> ps = due_fetches now fs d"
    using assms(1) unfolding fetched_def by blast
  have "quiet \<longrightarrow> due_fetches now ((p, s) # fs) d = due_fetches now fs d" using assms(2) by (simp add: due_fetches_def)
  with * show ?thesis unfolding fetched_def by (intro exI [where x = ps] exI [where x = k]) auto
qed

lemma stamps_Cons:
  assumes "\<And>k. stored d2 k = (if k = fetch_key p then (dec_int (unix now), True) else stored d k)" "stamps now ps d2 d'"
  shows "stamps now (p # ps) d d'"
  using assms by (auto simp: stamps_def)

lemma fetched_Cons:
  assumes "fetched fs now quiet success d2 d'" "p \<notin> fst ` set fs"
    "fetch_jobs now [p] d d1" "job_runs d2 = job_runs d1"
    "\<And>k. stored d2 k = (if k = fetch_key p then (dec_int (unix now), True) else stored d k)"
    "quiet \<Longrightarrow> comment_fetch_due s (last_fetch (stored d (fetch_key p))) now"
  shows "fetched ((p, s) # fs) now quiet success d d'"
proof -
  obtain ps k where *: "set ps \<subseteq> fst ` set fs" "k \<le> length ps" "length ps \<le> k + 1" "success \<longrightarrow> k = length ps"
    "fetch_jobs now ps d2 d'" "stamps now (take k ps) d2 d'" "quiet \<longrightarrow> success \<and> ps = due_fetches now fs d2"
    using assms(1) unfolding fetched_def by blast
  have "filter (\<lambda>(p, s). comment_fetch_due s (last_fetch (stored d2 (fetch_key p))) now) fs =
      filter (\<lambda>(p, s). comment_fetch_due s (last_fetch (stored d (fetch_key p))) now) fs"
    using assms(2,5) by (intro filter_cong) force+
  then have "quiet \<longrightarrow> p # ps = due_fetches now ((p, s) # fs) d" using *(7) assms(6) by (simp add: due_fetches_def)
  with * fetch_jobs_Cons [OF assms(3,4) *(5)] stamps_Cons [OF assms(5) *(6)] show ?thesis
    unfolding fetched_def by (intro exI [where x = "p # ps"] exI [where x = "Suc k"]) auto
qed

lemma fetched_quieter: "fetched fs now q success d d' \<Longrightarrow> (q' \<Longrightarrow> q) \<Longrightarrow> fetched fs now q' success d d'"
  unfolding fetched_def by blast

lemma kv_set_cases:
  assumes "kv_set t key v w = (r, w')"
  shows "case r of Inl _ \<Rightarrow> wdb w' = wdb w \<and> wfaults w \<noteq> []
    | Inr _ \<Rightarrow> job_runs (wdb w') = job_runs (wdb w) \<and> (\<forall>k. stored (wdb w') k = (if k = key then (v, True) else stored (wdb w) k))"
proof (cases r)
  case (Inl e)
  have "wdb w' = wdb w" using modify_error_keeps assms by (auto simp: Inl kv_set_def set_kv_value_def)
  moreover have "wfaults w \<noteq> []" using assms by (auto simp: Inl kv_set_def set_kv_value_def run_simps)
  ultimately show ?thesis by (simp add: Inl)
next
  case (Inr x)
  from modify_ok [OF assms [unfolded Inr kv_set_def set_kv_value_def]]
  have "wdb w' = (wdb w)\<lparr>kv_rows := put_kv key (Some v) t (kv_rows (wdb w))\<rparr>" .
  with kv_set_stored [OF this] show ?thesis by (simp add: Inr)
qed

lemma enqueue_quiet: "wfaults w = [] \<Longrightarrow> enqueue wake t kind payload run_at w = (q, w') \<Longrightarrow> wfaults w' = [] \<and> (\<exists>i. q = Inr i)"
  by (auto simp: enqueue_def enqueue_job_run_def run_simps Let_def split: prod.splits)

lemma kv_set_quiet: "wfaults w = [] \<Longrightarrow> kv_set t key v w = (r, w') \<Longrightarrow> wfaults w' = []"
  by (auto simp: kv_set_def set_kv_value_def run_simps)

lemma fetch_loop_outcome:
  assumes "distinct (map fst fs)" "fetch_loop wake clk now fs w = (r, w')"
  shows "fetched fs now (wfaults w = []) (r = Inr ()) (wdb w) (wdb w')"
  using assms
proof (induction wake clk now fs arbitrary: w rule: fetch_loop.induct)
  case (1 wake clk now)
  then show ?case
    by (auto simp: run_simps fetched_def fetch_jobs_Nil stamps_def due_fetches_def intro!: exI [where x = "[]"])
next
  case (2 wake clk now platform schedule fs)
  let ?d = "wdb w"
  obtain g w1 where g: "kv_get (fetch_key platform) w = (g, w1)" by (cases "kv_get (fetch_key platform) w")
  have w1: "wdb w1 = wdb w" using kv_get_keeps [OF g] .
  have quiet: "g = Inr (stored (wdb w) (fetch_key platform)) \<and> w1 = w" if "wfaults w = []"
    using kv_get_stored [OF that, of "fetch_key platform"] g by simp
  show ?case
  proof (cases g)
    case (Inl e)
    then have "r = Inl e" "w' = w1" "wfaults w \<noteq> []" using 2(4) g quiet by (auto simp: bindE_run)
    then show ?thesis using fetched_nothing [of ?d ?d] w1 by simp
  next
    case (Inr x)
    show ?thesis
    proof (cases "comment_fetch_due schedule (last_fetch x) now")
      case False
      then have "fetch_loop wake clk now fs w1 = (r, w')" using 2(4) g Inr by (simp add: bindE_run)
      from 2(1) [OF False _ this] have "fetched fs now (wfaults w1 = []) (r = Inr ()) ?d (wdb w')"
        using 2(3) w1 by simp
      from fetched_quieter [OF this] have "fetched fs now (wfaults w = []) (r = Inr ()) ?d (wdb w')"
        using quiet by blast
      then show ?thesis by (rule fetched_skip) (use False quiet Inr in auto)
    next
      case True
      obtain q w2 where q: "enqueue wake (unix (clk 1)) kind_fetch_social_comments (Some (platform_payload platform)) (unix now) w1 = (q, w2)"
        by (cases "enqueue wake (unix (clk 1)) kind_fetch_social_comments (Some (platform_payload platform)) (unix now) w1")
      have enq: "case q of Inl _ \<Rightarrow> wdb w2 = ?d | Inr _ \<Rightarrow> fetch_jobs now [platform] ?d (wdb w2) \<and> kv_rows (wdb w2) = kv_rows ?d"
        using fetch_enqueue [OF q] unfolding w1 .
      have quiet2: "wfaults w2 = [] \<and> (\<exists>i. q = Inr i)" if "wfaults w = []"
        using enqueue_quiet [OF _ q] quiet [OF that] that by simp
      show ?thesis
      proof (cases q)
        case (Inl e)
        then have "r = Inl e" "w' = w2" using 2(4) g \<open>g = Inr x\<close> True q by (auto simp: bindE_run)
        moreover have "wfaults w \<noteq> []" using quiet2 Inl by auto
        ultimately show ?thesis using fetched_nothing [of ?d ?d] enq Inl by simp
      next
        case (Inr i)
        obtain z w3 where z: "kv_set (unix (clk 2)) (fetch_key platform) (dec_int (unix now)) w2 = (z, w3)"
          by (cases "kv_set (unix (clk 2)) (fetch_key platform) (dec_int (unix now)) w2")
        note set = kv_set_cases [OF z]
        show ?thesis
        proof (cases z)
          case (Inl e)
          then have "r = Inl e" "w' = w3" using 2(4) g \<open>g = Inr x\<close> True q \<open>q = Inr i\<close> z by (auto simp: bindE_run)
          moreover have "wfaults w \<noteq> []" using set quiet2 Inl by auto
          ultimately show ?thesis
            using fetched_unstamped [of now platform ?d "wdb w2"] enq set Inl \<open>q = Inr i\<close> by simp
        next
          case (Inr u)
          have rest: "fetch_loop wake (\<lambda>n. clk (n + 2)) now fs w3 = (r, w')"
            using 2(4) g \<open>g = Inr x\<close> True q \<open>q = Inr i\<close> z Inr by (simp add: bindE_run)
          have "fetched fs now (wfaults w3 = []) (r = Inr ()) (wdb w3) (wdb w')"
            using 2(2) [OF _ _ rest] True 2(3) by simp
          from fetched_quieter [OF this] have "fetched fs now (wfaults w = []) (r = Inr ()) (wdb w3) (wdb w')"
            using quiet2 kv_set_quiet [OF _ z] by blast
          then show ?thesis
          proof (rule fetched_Cons)
            show "fetch_jobs now [platform] ?d (wdb w2)" using enq \<open>q = Inr i\<close> by simp
            show "job_runs (wdb w3) = job_runs (wdb w2)" using set Inr by simp
            show "stored (wdb w3) k = (if k = fetch_key platform then (dec_int (unix now), True) else stored ?d k)" for k
              using set enq Inr \<open>q = Inr i\<close> by (simp add: stored_def)
            show "platform \<notin> fst ` set fs" using 2(3) by simp
            show "comment_fetch_due schedule (last_fetch (stored ?d (fetch_key platform))) now" if "wfaults w = []"
              using True quiet [OF that] \<open>g = Inr x\<close> by simp
          qed
        qed
      qed
    qed
  qed
qed

text \<open>
  The hourly comment fetch. Whatever the database does, the tick enqueues one fetch for each of some platforms
  in order, and stamps these platforms and no others, except that a stamp which fails ends the tick with its
  platform enqueued and not stamped, so the next tick fetches it again: no platform is stamped without a fetch.
  On a database that answers, the platforms are exactly the enabled ones whose schedule is due since their last
  stamp, and the tick succeeds.
\<close>

theorem fetch_tick_outcome:
  assumes "distinct (map cp_platform (crossposts (wdb w)))" "enqueue_due_comment_fetches wake clk w = (r, w')"
  shows "\<exists>ps k fs. k \<le> length ps \<and> length ps \<le> k + 1 \<and> (r = Inr () \<longrightarrow> k = length ps) \<and>
    fetch_jobs (clk 0) ps (wdb w) (wdb w') \<and> stamps (clk 0) (take k ps) (wdb w) (wdb w') \<and>
    (wfaults w = [] \<longrightarrow> list_comment_fetchers w = (Inr fs, w) \<and> r = Inr () \<and> ps = due_fetches (clk 0) fs (wdb w))"
proof (cases "list_comment_fetchers w")
  case (Pair q w1)
  then have "w1 = snd (list_comment_fetchers w)" by simp
  then have w1: "wdb w1 = wdb w" by (simp add: list_comment_fetchers_def query_keeps)
  show ?thesis
  proof (cases q)
    case (Inl e)
    then have "r = Inl e" "w' = w1" using assms(2) Pair by (auto simp: enqueue_due_comment_fetches_def bindE_run)
    moreover have "wfaults w \<noteq> []" using Pair Inl by (auto simp: list_comment_fetchers_def run_simps)
    ultimately show ?thesis using w1
      by (intro exI [where x = "[]"] exI [where x = 0]) (simp add: fetch_jobs_Nil stamps_def)
  next
    case (Inr fs)
    have fs: "fs = map (\<lambda>c. (cp_platform c, str_of (cp_comment_fetch_schedule c)))
       (filter (\<lambda>c. cp_enabled c = 1 \<and> cp_auto_fetch_comments c = 1 \<and>
         cp_comment_fetch_schedule c \<noteq> None \<and> cp_comment_fetch_schedule c \<noteq> Some []) (crossposts (wdb w)))"
      using query_ok [OF Pair [unfolded Inr list_comment_fetchers_def]] by simp
    have "distinct (map fst fs)" using distinct_map_filter [OF assms(1)] by (simp add: fs comp_def)
    moreover have "fetch_loop wake clk (clk 0) fs w1 = (r, w')"
      using assms(2) Pair Inr by (simp add: enqueue_due_comment_fetches_def bindE_run)
    ultimately have "fetched fs (clk 0) (wfaults w1 = []) (r = Inr ()) (wdb w1) (wdb w')"
      by (rule fetch_loop_outcome)
    moreover have "w1 = w" if "wfaults w = []" using Pair that by (simp add: list_comment_fetchers_def query_run)
    ultimately obtain ps k where "k \<le> length ps" "length ps \<le> k + 1" "r = Inr () \<longrightarrow> k = length ps"
        "fetch_jobs (clk 0) ps (wdb w) (wdb w')" "stamps (clk 0) (take k ps) (wdb w) (wdb w')"
        "wfaults w = [] \<longrightarrow> w1 = w \<and> r = Inr () \<and> ps = due_fetches (clk 0) fs (wdb w)"
      unfolding fetched_def w1 by auto
    with Pair Inr show ?thesis by (intro exI [where x = ps] exI [where x = k] exI [where x = fs]) auto
  qed
qed

section \<open>What the startup sweep takes\<close>

lemma remove_leftover_step:
  "remove_leftover os dir e (n, first, fs) = (case of_remove os (path_join dir (de_name e)) of
     Some x \<Rightarrow> (n, first_of first x, fs) | None \<Rightarrow> (Suc n, first, remove_entry dir (de_name e) fs))"
  by (simp add: remove_leftover_def)

lemma fold_leftovers:
  "fold (remove_leftover os dir) es (n, first, minus_names dir ns fs) = (n', first', fs') \<Longrightarrow>
   n' = n + length (filter (\<lambda>e. of_remove os (path_join dir (de_name e)) = None) es) \<and>
   fs' = minus_names dir (ns \<union> de_name ` {e \<in> set es. of_remove os (path_join dir (de_name e)) = None}) fs"
proof (induction es arbitrary: n first ns)
  case (Cons e es)
  show ?case
  proof (cases "of_remove os (path_join dir (de_name e))")
    case None
    then have "fold (remove_leftover os dir) es (Suc n, first, minus_names dir (insert (de_name e) ns) fs) = (n', first', fs')"
      using Cons.prems by (simp add: remove_leftover_step minus_names_step)
    from Cons.IH [OF this] None show ?thesis by (auto intro!: arg_cong [where f = "\<lambda>ns. minus_names dir ns fs"])
  next
    case (Some x)
    then have "fold (remove_leftover os dir) es (n, first_of first x, minus_names dir ns fs) = (n', first', fs')"
      using Cons.prems by (simp add: remove_leftover_step)
    from Cons.IH [OF this] Some show ?thesis by (auto intro!: arg_cong [where f = "\<lambda>ns. minus_names dir ns fs"])
  qed
qed simp

definition orphaned :: "database \<Rightarrow> os_faults \<Rightarrow> string \<Rightarrow> int \<Rightarrow> dir_entry \<Rightarrow> bool" where
  "orphaned d os dir process_started e \<longleftrightarrow>
     leftover os dir process_started e \<and> of_remove os (path_join dir (de_name e)) = None \<and>
     (if de_dir e then \<not> extracting d else is_part e \<or> \<not> import_refers d (path_join dir (de_name e)))"

lemma length_filter3:
  "(\<And>e. G e = (A e \<or> B e \<or> C e)) \<Longrightarrow> (\<And>e. \<not> (A e \<and> B e)) \<Longrightarrow> (\<And>e. \<not> (A e \<and> C e)) \<Longrightarrow> (\<And>e. \<not> (B e \<and> C e)) \<Longrightarrow>
   length (filter G es) = length (filter A es) + length (filter B es) + length (filter C es)"
  by (induction es) auto

text \<open>
  The startup sweep of the imports directory deletes exactly the job-owned entries from before this process
  started that no queued or running import can still use: every half-written \<open>.part\<close> file, the uploads no active import
  refers to, and the staging directories unless an import that extracts is active. It counts what it deleted,
  touches no other directory and no row, and when the active imports cannot be listed it deletes nothing.
\<close>

theorem import_sweep_exact:
  assumes "names_ok fs" "cleanup_orphan_import_files os data started fs w = (r, w')"
  shows "wdb w' = wdb w \<and>
    (\<forall>n err fs'. r = Inr (n, err, fs') \<longrightarrow> (let dir = imports_dir data; gone = orphaned (wdb w) os dir started in
       if fs dir = None then fs' = fs \<and> n = 0 \<and> err = None
       else of_read os dir = None \<and> fs' = fs(dir := Some (filter (\<lambda>e. \<not> gone e) (the (fs dir)))) \<and>
            n = length (filter gone (the (fs dir)))))"
proof (cases "fs (imports_dir data)")
  case None
  then show ?thesis using assms(2) by (auto simp: cleanup_orphan_import_files_def ret_run Let_def)
next
  case (Some es)
  let ?dir = "imports_dir data"
  define left where "left = filter (leftover os ?dir started) es"
  show ?thesis
  proof (cases "of_read os ?dir")
    case (Some x)
    then show ?thesis using assms(2) \<open>fs ?dir = Some es\<close> by (auto simp: cleanup_orphan_import_files_def raise_run)
  next
    case None
    show ?thesis
    proof (cases "left = []")
      case True
      then have "filter (orphaned (wdb w) os ?dir started) es = []"
        by (auto simp: left_def orphaned_def filter_empty_conv)
      moreover have "filter (\<lambda>e. \<not> orphaned (wdb w) os ?dir started e) es = es"
        using True by (auto simp: left_def orphaned_def filter_empty_conv filter_id_conv)
      moreover have "r = Inr (0, None, fs)" "w' = w"
        using True None assms(2) \<open>fs ?dir = Some es\<close> by (auto simp: cleanup_orphan_import_files_def Let_def left_def ret_run)
      ultimately show ?thesis using None \<open>fs ?dir = Some es\<close> by (auto simp: Let_def)
    next
      case False
      let ?go = "\<lambda>(protected, importing). ret (fold (remove_leftover os ?dir)
        (filter is_part left @ filter (\<lambda>e. path_join ?dir (de_name e) \<notin> set protected) (filter (\<lambda>e. \<not> de_dir e \<and> \<not> is_part e) left) @
         (if importing then [] else filter de_dir left)) (0, None, fs))"
      have run: "bindE active_import_paths ?go w = (r, w')"
        using assms(2) None False \<open>fs ?dir = Some es\<close> 
        unfolding cleanup_orphan_import_files_def Let_def left_def by simp
      show ?thesis
      proof (cases "active_import_paths w")
        case (Pair q w1)
        show ?thesis
        proof (cases q)
          case (Inl e)
          then have "r = Inl e" "w' = w1" using run Pair by (simp_all add: bindE_run)
          then show ?thesis using active_import_paths_error [OF Pair [unfolded Inl]] by simp
        next
          case (Inr pi)
          obtain ps b where pi: "pi = (ps, b)" by (cases pi)
          note act = active_import_paths_ok [OF Pair [unfolded Inr pi]]
          let ?todo = "filter is_part left @ filter (\<lambda>e. path_join ?dir (de_name e) \<notin> set ps) (filter (\<lambda>e. \<not> de_dir e \<and> \<not> is_part e) left) @
             (if b then [] else filter de_dir left)"
          let ?rm = "\<lambda>e. of_remove os (path_join ?dir (de_name e)) = None"
          let ?gone = "orphaned (wdb w) os ?dir started"
          obtain n err fs' where res: "fold (remove_leftover os ?dir) ?todo (0, None, fs) = (n, err, fs')"
            by (cases "fold (remove_leftover os ?dir) ?todo (0, None, fs)")
          have r: "r = Inr (n, err, fs')" "w' = w1"
            using run Pair res by (simp_all add: bindE_run Inr pi ret_run del: fold_append)
          have gone: "{e \<in> set ?todo. ?rm e} = {e \<in> set es. ?gone e}"
            using act by (auto simp: left_def orphaned_def is_part_def)
          have num: "length (filter ?rm ?todo) = length (filter ?gone es)"
          proof -
            let ?A = "\<lambda>e. leftover os ?dir started e \<and> is_part e \<and> ?rm e"
            let ?B = "\<lambda>e. leftover os ?dir started e \<and> \<not> de_dir e \<and> \<not> is_part e \<and> path_join ?dir (de_name e) \<notin> set ps \<and> ?rm e"
            let ?C = "\<lambda>e. leftover os ?dir started e \<and> de_dir e \<and> \<not> b \<and> ?rm e"
            have "length (filter ?gone es) = length (filter ?A es) + length (filter ?B es) + length (filter ?C es)"
              by (rule length_filter3) (use act in \<open>auto simp: orphaned_def is_part_def\<close>)
            moreover have "filter ?rm (if b then [] else filter de_dir left) = filter ?C es" by (simp add: left_def conj_ac)
            ultimately show ?thesis by (simp add: left_def conj_ac)
          qed
          from fold_leftovers [of os ?dir ?todo 0 None "{}" fs n err fs'] res
          have "n = length (filter ?rm ?todo) \<and> fs' = minus_names ?dir (de_name ` {e \<in> set ?todo. ?rm e}) fs"
            by (simp add: minus_names_step del: fold_append)
          moreover have "minus_names ?dir (de_name ` {e \<in> set es. ?gone e}) fs = fs(?dir := Some (filter (\<lambda>e. \<not> ?gone e) es))"
            by (rule minus_own_names) (use assms(1) \<open>fs ?dir = Some es\<close> in \<open>auto simp: names_ok_def\<close>)
          ultimately have "n = length (filter ?gone es)" "fs' = fs(?dir := Some (filter (\<lambda>e. \<not> ?gone e) es))"
            using gone num by simp_all
          then show ?thesis using r act(3) None \<open>fs ?dir = Some es\<close> by (auto simp: Let_def)
        qed
      qed
    qed
  qed
qed

text \<open>A directory with an old upload in use, a stale one, and a fresh one.\<close>

definition import_files :: dirs where
  "import_files = (\<lambda>dir. if dir = ''d/imports'' then Some [\<lparr>de_name = ''import_1.zip'', de_dir = False, de_mtime = 0\<rparr>,
     \<lparr>de_name = ''import_2.zip'', de_dir = False, de_mtime = 0\<rparr>, \<lparr>de_name = ''import_3.zip'', de_dir = False, de_mtime = 10 * day_ns\<rparr>] else None)"

definition import_site :: "database world" where
  "import_site = \<lparr>wdb = empty_db\<lparr>job_runs := [\<lparr>jr_id = 1, jr_kind = kind_import_db,
     jr_payload = Some (to_text (JObj [(''path'', JStr ''d/imports/import_1.zip'')])), jr_run_at = 0, jr_status = Queued,
     jr_attempts = 0, jr_last_error = None, jr_created_at = 0, jr_updated_at = 0\<rparr>]\<rparr>, wfaults = []\<rparr>"

definition calm_fs :: os_faults where
  "calm_fs = \<lparr>of_read = \<lambda>_. None, of_stat = \<lambda>_. None, of_remove = \<lambda>_. None\<rparr>"

lemma import_files_ok: "names_ok import_files"
  by (auto simp: names_ok_def import_files_def)

lemma import_site_quiet: "wfaults import_site = []"
  by (simp add: import_site_def)

lemma import_site_refers: "import_refers (wdb import_site) p \<longleftrightarrow> p = ''d/imports/import_1.zip''"
  by (auto simp: import_refers_def import_site_def import_job_def payload_path_def active_def unmarshal_string_field)

lemma import_files_left:
  "import_files ''d/imports'' = Some [\<lparr>de_name = ''import_1.zip'', de_dir = False, de_mtime = 0\<rparr>,
     \<lparr>de_name = ''import_2.zip'', de_dir = False, de_mtime = 0\<rparr>, \<lparr>de_name = ''import_3.zip'', de_dir = False, de_mtime = 10 * day_ns\<rparr>]"
  "exports_dir ''d'' = ''d/exports''" "imports_dir ''d'' = ''d/imports''"
  by (simp_all add: import_files_def exports_dir_def imports_dir_def path_join_def)

lemma entry_names:
  "owned_upload ''import_1.zip'' \<and> owned_upload ''import_2.zip'' \<and> owned_upload ''import_3.zip''"
  "has_suffix ''import_1.zip'' ''.zip'' \<and> has_suffix ''import_2.zip'' ''.zip'' \<and> has_suffix ''import_3.zip'' ''.zip''"
  "\<not> has_suffix ''import_1.zip'' ''.part'' \<and> \<not> has_suffix ''import_2.zip'' ''.part'' \<and> \<not> has_suffix ''import_3.zip'' ''.part''"
  by code_simp+

theorem clean_old_exports_exact_witness:
  "\<exists>fs' err. fst (clean_old_exports calm_fs ''d'' (\<lambda>_. 8 * day_ns) import_files import_site) = Inr (fs', err) \<and>
    map de_name (the (fs' ''d/imports'')) = [''import_1.zip'', ''import_3.zip'']"
proof -
  let ?keep = "\<lambda>p. \<not> isl (fst (list_active_import_job_payloads import_site)) \<longrightarrow> import_refers (wdb import_site) p"
  have "?keep p \<longleftrightarrow> p = ''d/imports/import_1.zip''" for p
    by (simp add: list_active_import_job_payloads_def query_run import_site_refers import_site_quiet)
  then have "map de_name (remaining calm_fs ''d/imports'' True ?keep day_ns (the (import_files ''d/imports''))) = [''import_1.zip'', ''import_3.zip'']"
    by (simp add: remaining_def calm_fs_def import_files_left swept_def sweepable_def entry_names path_join_def day_ns_def hour_ns_def minute_ns_def second_ns_def)
  with clean_old_exports_exact [OF import_files_ok prod.collapse [symmetric], of calm_fs "''d''" "\<lambda>_. 8 * day_ns" import_site]
  show ?thesis by (auto simp: import_files_left)
qed

lemma import_sweep_runs: "wfaults w = [] \<Longrightarrow> \<not> isl (fst (cleanup_orphan_import_files calm_fs data started fs w))"
  by (simp add: cleanup_orphan_import_files_def calm_fs_def ret_run bindE_run active_import_paths_def
      list_active_import_job_payloads_def query_run Let_def split: option.split)

theorem import_sweep_exact_witness:
  "\<exists>err fs'. fst (cleanup_orphan_import_files calm_fs ''d'' day_ns import_files import_site) = Inr (1, err, fs') \<and>
    map de_name (the (fs' ''d/imports'')) = [''import_1.zip'', ''import_3.zip'']"
proof -
  obtain n err fs' where run: "fst (cleanup_orphan_import_files calm_fs ''d'' day_ns import_files import_site) = Inr (n, err, fs')"
    using import_sweep_runs [OF import_site_quiet, of "''d''" day_ns import_files] by (metis isl_def old.sum.exhaust prod_cases3)
  have "orphaned (wdb import_site) calm_fs ''d/imports'' day_ns e \<longleftrightarrow> e = \<lparr>de_name = ''import_2.zip'', de_dir = False, de_mtime = 0\<rparr>"
    if "e \<in> set (the (import_files ''d/imports''))" for e
    using that by (auto simp: import_files_left orphaned_def leftover_def calm_fs_def entry_names is_part_def import_site_refers
        path_join_def day_ns_def hour_ns_def minute_ns_def second_ns_def)
  then have "filter (orphaned (wdb import_site) calm_fs ''d/imports'' day_ns) (the (import_files ''d/imports'')) =
      [\<lparr>de_name = ''import_2.zip'', de_dir = False, de_mtime = 0\<rparr>]"
    "map de_name (filter (\<lambda>e. \<not> orphaned (wdb import_site) calm_fs ''d/imports'' day_ns e) (the (import_files ''d/imports''))) =
      [''import_1.zip'', ''import_3.zip'']"
    by (simp_all add: import_files_left)
  with run import_sweep_exact [OF import_files_ok prod.collapse [symmetric], of calm_fs "''d''" day_ns import_site]
  show ?thesis by (auto simp: import_files_left Let_def)
qed

text \<open>Two platforms, one fetched today.\<close>

definition fetcher :: "string \<Rightarrow> crosspost" where
  "fetcher platform = \<lparr>cp_id = 1, cp_platform = platform, cp_enabled = 1, cp_api_key = None, cp_api_key_secret = None,
     cp_access_token = None, cp_access_token_secret = None, cp_client_id = None, cp_client_key = None, cp_client_secret = None,
     cp_app_password = None, cp_refresh_token = None, cp_token_expires_at = None, cp_server_url = None, cp_username = None,
     cp_max_characters = None, cp_auto_fetch_comments = 1, cp_comment_fetch_schedule = Some ''daily'', cp_settings = None,
     cp_created_at = 0, cp_updated_at = 0\<rparr>"

definition fetch_site :: "database world" where
  "fetch_site = \<lparr>wdb = empty_db\<lparr>crossposts := [fetcher ''bluesky'', fetcher ''mastodon''],
     kv_rows := [\<lparr>kv_key = fetch_key ''bluesky'', kv_value = Some (dec_int 7), kv_updated_at = 0\<rparr>]\<rparr>, wfaults = []\<rparr>"

theorem fetch_tick_outcome_witness:
  "\<exists>w'. enqueue_due_comment_fetches True (\<lambda>_. day_ns) fetch_site = (Inr (), w') \<and>
    fetch_jobs day_ns [''mastodon''] (wdb fetch_site) (wdb w') \<and> stamps day_ns [''mastodon''] (wdb fetch_site) (wdb w')"
proof -
  have "parse_int64 (dec_int 7) = Some 7" by (simp add: parse_dec_int in_int64_def)
  then have due: "due_fetches day_ns [(''bluesky'', ''daily''), (''mastodon'', ''daily'')] (wdb fetch_site) = [''mastodon'']"
    by (simp add: due_fetches_def stored_def fetch_site_def fetcher_def last_fetch_def comment_fetch_due_def day_ns_def hour_ns_def minute_ns_def second_ns_def)
  have fs: "list_comment_fetchers fetch_site = (Inr [(''bluesky'', ''daily''), (''mastodon'', ''daily'')], fetch_site)"
    by (simp add: list_comment_fetchers_def query_run fetch_site_def fetcher_def)
  have "distinct (map cp_platform (crossposts (wdb fetch_site)))" by (simp add: fetch_site_def fetcher_def)
  then obtain ps k fs where *: "fst (enqueue_due_comment_fetches True (\<lambda>_. day_ns) fetch_site) = Inr () \<longrightarrow> k = length ps"
    "fetch_jobs day_ns ps (wdb fetch_site) (wdb (snd (enqueue_due_comment_fetches True (\<lambda>_. day_ns) fetch_site)))"
    "stamps day_ns (take k ps) (wdb fetch_site) (wdb (snd (enqueue_due_comment_fetches True (\<lambda>_. day_ns) fetch_site)))"
    "wfaults fetch_site = [] \<longrightarrow> list_comment_fetchers fetch_site = (Inr fs, fetch_site) \<and>
       fst (enqueue_due_comment_fetches True (\<lambda>_. day_ns) fetch_site) = Inr () \<and> ps = due_fetches day_ns fs (wdb fetch_site)"
    using fetch_tick_outcome [OF _ prod.collapse [symmetric], of fetch_site True "\<lambda>_. day_ns"] by blast
  have "wfaults fetch_site = []" by (simp add: fetch_site_def)
  with * due fs have "fst (enqueue_due_comment_fetches True (\<lambda>_. day_ns) fetch_site) = Inr ()" "ps = [''mastodon'']" "k = 1"
    by simp_all
  with * show ?thesis by (intro exI [where x = "snd (enqueue_due_comment_fetches True (\<lambda>_. day_ns) fetch_site)"]) (simp add: prod_eq_iff)
qed

end
