(* ===== verification/Files.thy ===== *)
theory Files
  imports Articles Comments Activity
begin

text \<open>
  Stored files: the rows of \<open>files\<close>, \<open>attachments\<close> and \<open>static_files\<close> with their foreign keys
  (\<open>files.sql.go\<close>, \<open>static_files.sql.go\<close>), the blobs on disk, the media service
  (\<open>internal/service/media/media.go\<close>) and the static files of the admin
  (\<open>internal/httpd/static_files_admin.go\<close>). The blobs are a map from key to content; what the operating
  system refuses is an argument. Decoding and encoding of images, MD5 and the random keys are parameters.
\<close>

interpretation files_tab: row_table f_id "\<lambda>i r. r\<lparr>f_id := i\<rparr>"
  by unfold_locales simp

interpretation attachments_tab: row_table att_id "\<lambda>i r. r\<lparr>att_id := i\<rparr>"
  by unfold_locales simp

interpretation static_files_tab: row_table sf_id "\<lambda>i r. r\<lparr>sf_id := i\<rparr>"
  by unfold_locales simp

section \<open>Statements on files and attachments\<close>

definition attached :: "int \<Rightarrow> database \<Rightarrow> bool" where
  "attached i d = list_ex (\<lambda>a. att_file_id a = i) (attachments d)"

definition published_static :: "int \<Rightarrow> database \<Rightarrow> bool" where
  "published_static i d = list_ex (\<lambda>s. sf_file_id s = i) (static_files d)"

definition count_attachments_for_file :: "int \<Rightarrow> nat db_act" where
  "count_attachments_for_file i = query (\<lambda>d. count_where (\<lambda>a. att_file_id a = i) (attachments d))"

definition count_static_files_for_file :: "int \<Rightarrow> nat db_act" where
  "count_static_files_for_file i = query (\<lambda>d. count_where (\<lambda>s. sf_file_id s = i) (static_files d))"

text \<open>
  \<open>x LIKE '%/files/' || key || '%'\<close>: keys are alphanumeric, so the pattern is a substring, compared without
  the case of ASCII letters; NULL matches nothing.
\<close>

definition mentions :: "string \<Rightarrow> string option \<Rightarrow> bool" where
  "mentions key x = (case x of None \<Rightarrow> False | Some s \<Rightarrow> str_contains (sql_lower s) (sql_lower (''/files/'' @ key)))"

definition content_references :: "string \<Rightarrow> database \<Rightarrow> nat" where
  "content_references key d =
     count_where (\<lambda>a. mentions key (a_content_html a) \<or> mentions key (a_meta_image a)) (articles d) +
     count_where (\<lambda>p. mentions key (p_content_html p)) (pages d) +
     count_where (\<lambda>c. mentions key (Some (c_content c))) (comments d) +
     (case settings d of None \<Rightarrow> 0 | Some s \<Rightarrow>
        if mentions key (se_head_code s) \<or> mentions key (se_custom_css s) \<or> mentions key (se_tool_code s) \<or>
           mentions key (se_social_links s) then 1 else 0) +
     count_where (\<lambda>r. mentions key (Some (r_replacement r))) (redirects d)"

definition count_file_key_content_references :: "string \<Rightarrow> nat db_act" where
  "count_file_key_content_references key = query (content_references key)"

text \<open>\<open>INSERT OR IGNORE\<close> skips a repeated link; the foreign key still counts.\<close>

definition create_attachment :: "int \<Rightarrow> string \<Rightarrow> int \<Rightarrow> string \<Rightarrow> int \<Rightarrow> unit db_act" where
  "create_attachment file_id ty rid name now =
     exec (\<lambda>d. if list_ex (\<lambda>a. att_record_type a = ty \<and> att_record_id a = rid \<and> att_name a = name \<and> att_file_id a = file_id)
                    (attachments d) then Inr (d, ())
               else if by_id f_id file_id (files d) = None then Inl fk_error
               else Inr (d\<lparr>attachments := fst (insert_row att_id (\<lambda>i r. r\<lparr>att_id := i\<rparr>)
                      \<lparr>att_id = 0, att_file_id = file_id, att_record_type = ty, att_record_id = rid, att_name = name,
                       att_created_at = now\<rparr> (attachments d))\<rparr>, ()))"

definition create_file :: "file_row \<Rightarrow> file_row db_act" where
  "create_file f =
     exec (\<lambda>d. if list_ex (\<lambda>g. f_key g = f_key f) (files d) then Inl (ErrUnique ''files.key'')
               else (case insert_row f_id (\<lambda>i r. r\<lparr>f_id := i\<rparr>) f (files d) of (fs, f') \<Rightarrow>
                 if \<not> refers f_id (f_variant_of f) fs then Inl fk_error else Inr (d\<lparr>files := fs\<rparr>, f')))"

definition delete_attachments_for_record :: "string \<Rightarrow> int \<Rightarrow> unit db_act" where
  "delete_attachments_for_record ty i =
     modify (\<lambda>d. d\<lparr>attachments := delete_where (\<lambda>a. att_record_type a = ty \<and> att_record_id a = i) (attachments d)\<rparr>)"

definition variant_row :: "int \<Rightarrow> file_row \<Rightarrow> bool" where
  "variant_row i f = (f_variant_of f = Some i)"

definition delete_file :: "int \<Rightarrow> unit db_act" where
  "delete_file i =
     exec (\<lambda>d. let fs = delete_where (\<lambda>f. f_id f = i) (files d) in
       if list_ex (\<lambda>f. f_id f = i) (files d) \<and> (attached i d \<or> published_static i d \<or> list_ex (variant_row i) fs)
       then Inl fk_error else Inr (d\<lparr>files := fs\<rparr>, ()))"

definition get_file_by_id :: "int \<Rightarrow> file_row db_act" where
  "get_file_by_id i = query_row (\<lambda>d. by_id f_id i (files d))"

definition get_file_by_key :: "string \<Rightarrow> file_row db_act" where
  "get_file_by_key key = query_row (\<lambda>d. find (\<lambda>f. f_key f = key) (files d))"

text \<open>The joins drop the rows whose file is missing, which the foreign keys exclude.\<close>

definition list_attachment_files_for_record :: "string \<Rightarrow> int \<Rightarrow> file_row list db_act" where
  "list_attachment_files_for_record ty i =
     query (\<lambda>d. List.map_filter (\<lambda>a. by_id f_id (att_file_id a) (files d))
       (filter (\<lambda>a. att_record_type a = ty \<and> att_record_id a = i) (attachments d)))"

definition list_attachments_for_file :: "int \<Rightarrow> attachment list db_act" where
  "list_attachments_for_file i = query (\<lambda>d. filter (\<lambda>a. att_file_id a = i) (attachments d))"

definition list_file_variants :: "int \<Rightarrow> file_row list db_act" where
  "list_file_variants i = query (\<lambda>d. filter (variant_row i) (files d))"

definition orphan_candidate :: "int \<Rightarrow> database \<Rightarrow> file_row \<Rightarrow> bool" where
  "orphan_candidate cutoff d f =
     (f_created_at f < cutoff \<and> f_variant_of f = None \<and> \<not> attached (f_id f) d \<and> \<not> published_static (f_id f) d \<and>
      \<not> list_ex (\<lambda>v. variant_row (f_id f) v \<and> attached (f_id v) d) (files d) \<and>
      \<not> list_ex (\<lambda>v. variant_row (f_id f) v \<and> published_static (f_id v) d) (files d))"

definition list_orphan_file_candidates :: "int \<Rightarrow> file_row list db_act" where
  "list_orphan_file_candidates cutoff = query (\<lambda>d. filter (orphan_candidate cutoff d) (files d))"

section \<open>Statements on static files\<close>

definition create_static_file :: "string \<Rightarrow> string option \<Rightarrow> int \<Rightarrow> int \<Rightarrow> int \<Rightarrow> static_file db_act" where
  "create_static_file name descr file_id created updated =
     exec (\<lambda>d. if list_ex (\<lambda>s. sf_filename s = name) (static_files d) then Inl (ErrUnique ''static_files.filename'')
               else if by_id f_id file_id (files d) = None then Inl fk_error
               else (case insert_row sf_id (\<lambda>i r. r\<lparr>sf_id := i\<rparr>)
                       \<lparr>sf_id = 0, sf_filename = name, sf_description = descr, sf_file_id = file_id,
                        sf_created_at = created, sf_updated_at = updated\<rparr> (static_files d) of
                     (ss, s) \<Rightarrow> Inr (d\<lparr>static_files := ss\<rparr>, s)))"

text \<open>\<open>DELETE \<dots> RETURNING file_id\<close>.\<close>

definition delete_static_file :: "int \<Rightarrow> int db_act" where
  "delete_static_file i =
     exec (\<lambda>d. case by_id sf_id i (static_files d) of None \<Rightarrow> Inl ErrNoRows
       | Some s \<Rightarrow> Inr (d\<lparr>static_files := delete_where (\<lambda>s. sf_id s = i) (static_files d)\<rparr>, sf_file_id s))"

definition get_static_file_by_filename :: "string \<Rightarrow> static_file db_act" where
  "get_static_file_by_filename name = query_row (\<lambda>d. find (\<lambda>s. sf_filename s = name) (static_files d))"

definition get_static_file_by_id :: "int \<Rightarrow> static_file db_act" where
  "get_static_file_by_id i = query_row (\<lambda>d. by_id sf_id i (static_files d))"

definition get_file_for_static_filename :: "string \<Rightarrow> file_row db_act" where
  "get_file_for_static_filename name =
     query_row (\<lambda>d. case find (\<lambda>s. sf_filename s = name) (static_files d) of
       None \<Rightarrow> None | Some s \<Rightarrow> by_id f_id (sf_file_id s) (files d))"

definition list_static_files :: "(static_file \<times> file_row) list db_act" where
  "list_static_files =
     query (\<lambda>d. List.map_filter (\<lambda>s. map_option (Pair s) (by_id f_id (sf_file_id s) (files d)))
       (sort_key (\<lambda>s. - sf_created_at s) (static_files d)))"

text \<open>The update checks that the row still points at the file the caller has read.\<close>

definition update_static_file :: "string option \<Rightarrow> int \<Rightarrow> int \<Rightarrow> int \<Rightarrow> int \<Rightarrow> nat db_act" where
  "update_static_file descr file_id now i expected =
     exec (\<lambda>d. let p = (\<lambda>s. sf_id s = i \<and> sf_file_id s = expected) in
       if list_ex p (static_files d) \<and> by_id f_id file_id (files d) = None then Inl fk_error
       else Inr (d\<lparr>static_files := update_where p
                    (\<lambda>s. s\<lparr>sf_description := descr, sf_file_id := file_id, sf_updated_at := now\<rparr>) (static_files d)\<rparr>,
                 count_where p (static_files d)))"

section \<open>Blobs\<close>

type_synonym blobs = "string \<Rightarrow> string option"

text \<open>
  What the surroundings do: creating a directory, writing or removing the blob of a key may fail (a missing
  blob is no failure); \<open>me_variant\<close> decodes, fits and encodes an image, \<open>None\<close> where it is no image the code
  makes a variant of.
\<close>

record media_env =
  me_keys :: "nat \<Rightarrow> err + string"
  me_mkdir :: "string \<Rightarrow> err option"
  me_write :: "string \<Rightarrow> err option"
  me_rm :: "string \<Rightarrow> err option"
  me_detect :: "string \<Rightarrow> string"
  me_checksum :: "string \<Rightarrow> string"
  me_variant :: "string \<Rightarrow> err + string option"

definition is_key_char :: "char \<Rightarrow> bool" where
  "is_key_char c = (let n = code_of c in 48 \<le> n \<and> n \<le> 57 \<or> 97 \<le> n \<and> n \<le> 122 \<or> 65 \<le> n \<and> n \<le> 90)"

definition valid_key :: "string \<Rightarrow> bool" where
  "valid_key key = (4 \<le> length key \<and> length key \<le> 64 \<and> list_all is_key_char key)"

definition path_for :: "string \<Rightarrow> string \<Rightarrow> string" where
  "path_for data_dir key = data_dir @ ''/files/'' @ take 2 key @ ''/'' @ take 2 (drop 2 key) @ ''/'' @ key"

definition remove_blob :: "media_env \<Rightarrow> string \<Rightarrow> blobs \<Rightarrow> blobs" where
  "remove_blob env key bs = (case me_rm env key of None \<Rightarrow> bs(key := None) | Some _ \<Rightarrow> bs)"

text \<open>A write that fails leaves nothing behind.\<close>

definition write_file :: "media_env \<Rightarrow> string \<Rightarrow> string \<Rightarrow> blobs \<Rightarrow> (err + unit) \<times> blobs" where
  "write_file env key data bs =
     (case me_mkdir env key of
        Some e \<Rightarrow> (Inl (ErrWrap ''media: create dir'' e), bs)
      | None \<Rightarrow> (case me_write env key of
          Some e \<Rightarrow> (Inl (ErrWrap ''media: write file'' e), bs(key := None))
        | None \<Rightarrow> (Inr (), bs(key \<mapsto> data))))"

definition file_for :: "media_env \<Rightarrow> string \<Rightarrow> string \<Rightarrow> string \<Rightarrow> string option \<Rightarrow> int option \<Rightarrow> int \<Rightarrow> file_row" where
  "file_for env key data name ct orig now =
     \<lparr>f_id = 0, f_key = key, f_filename = name, f_content_type = ct, f_byte_size = int (length data),
      f_checksum = Some (me_checksum env data), f_variant_of = orig, f_created_at = now\<rparr>"

text \<open>Writes the blob, inserts the row, and removes the blob again when the row cannot be inserted.\<close>

definition put_file :: "media_env \<Rightarrow> string \<Rightarrow> string \<Rightarrow> string \<Rightarrow> file_row \<Rightarrow> blobs \<Rightarrow> ((err + file_row) \<times> blobs) db_act" where
  "put_file env msg key data row bs =
     (case write_file env key data bs of
        (Inl e, bs1) \<Rightarrow> ret (Inl e, bs1)
      | (Inr _, bs1) \<Rightarrow>
          bindE (attempt (create_file row)) (\<lambda>r. case r of
            Inl e \<Rightarrow> ret (Inl (ErrWrap msg e), remove_blob env key bs1)
          | Inr f \<Rightarrow> ret (Inr f, bs1)))"

definition store_variant :: "media_env \<Rightarrow> int \<Rightarrow> string \<Rightarrow> file_row \<Rightarrow> blobs \<Rightarrow> ((err + unit) \<times> blobs) db_act" where
  "store_variant env now data orig bs =
     (let ct = str_of (f_content_type orig) in
      if \<not> has_prefix ct ''image/'' \<or> ct = ''image/gif'' then ret (Inr (), bs)
      else case me_variant env data of
        Inl e \<Rightarrow> ret (Inl (ErrWrap ''encode variant'' e), bs)
      | Inr None \<Rightarrow> ret (Inr (), bs)
      | Inr (Some small) \<Rightarrow>
          if length data \<le> length small then ret (Inr (), bs)
          else case me_keys env 1 of
            Inl e \<Rightarrow> ret (Inl e, bs)
          | Inr key \<Rightarrow>
              bindE (put_file env ''insert variant row'' key small
                  (file_for env key small (f_filename orig) (f_content_type orig) (Some (f_id orig)) now) bs) (\<lambda>(r, bs1).
                ret (case r of Inl e \<Rightarrow> Inl e | Inr _ \<Rightarrow> Inr (), bs1)))"

text \<open>\<open>Store\<close>: the upload is read before; a failed variant never fails the upload.\<close>

definition store :: "media_env \<Rightarrow> (nat \<Rightarrow> int) \<Rightarrow> string \<Rightarrow> string \<Rightarrow> string \<Rightarrow> blobs \<Rightarrow> ((err + file_row) \<times> blobs) db_act" where
  "store env clk data name content_type bs =
     (let ct = (if content_type = '''' then me_detect env data else content_type) in
      case me_keys env 0 of
        Inl e \<Rightarrow> ret (Inl e, bs)
      | Inr key \<Rightarrow>
          bindE (put_file env ''media: insert file row'' key data
              (file_for env key data name (if ct = '''' then None else Some ct) None (clk 0)) bs) (\<lambda>(r, bs1).
            case r of
              Inl e \<Rightarrow> ret (Inl e, bs1)
            | Inr f \<Rightarrow> bindE (store_variant env (clk 1) data f bs1) (\<lambda>(_, bs2). ret (Inr f, bs2))))"

definition attach :: "int \<Rightarrow> int \<Rightarrow> string \<Rightarrow> int \<Rightarrow> string \<Rightarrow> unit db_act" where
  "attach now file_id ty rid name = create_attachment file_id ty rid name now"

text \<open>Deleting one row with its blob; the blob stays when the row does.\<close>

definition purge_one :: "media_env \<Rightarrow> file_row \<Rightarrow> blobs \<Rightarrow> blobs db_act" where
  "purge_one env f bs =
     bindE (attempt (delete_file (f_id f))) (\<lambda>r. case r of
       Inl _ \<Rightarrow> ret bs | Inr _ \<Rightarrow> ret (remove_blob env (f_key f) bs))"

fun purge_all :: "(file_row \<Rightarrow> blobs \<Rightarrow> blobs db_act) \<Rightarrow> file_row list \<Rightarrow> blobs \<Rightarrow> blobs db_act" where
  "purge_all rm [] bs = ret bs"
| "purge_all rm (f # fs) bs = bindE (rm f bs) (purge_all rm fs)"

definition purge :: "media_env \<Rightarrow> file_row \<Rightarrow> blobs \<Rightarrow> blobs db_act" where
  "purge env f bs =
     bindE (attempt (list_file_variants (f_id f))) (\<lambda>r.
       purge_all (purge_one env) ((case r of Inl _ \<Rightarrow> [] | Inr vs \<Rightarrow> vs) @ [f]) bs)"

section \<open>Static files of the admin\<close>

definition file_linked :: "int \<Rightarrow> bool db_act" where
  "file_linked i =
     bindE (count_attachments_for_file i) (\<lambda>a.
     bindE (count_static_files_for_file i) (\<lambda>s. ret (0 < a + s)))"

definition remove_stored_file :: "media_env \<Rightarrow> file_row \<Rightarrow> blobs \<Rightarrow> blobs db_act" where
  "remove_stored_file env f bs =
     bindE (attempt (delete_file (f_id f))) (\<lambda>r. case r of
       Inl _ \<Rightarrow> ret bs
     | Inr _ \<Rightarrow> ret (if valid_key (f_key f) then remove_blob env (f_key f) bs else bs))"

fun any_linked :: "file_row list \<Rightarrow> bool db_act" where
  "any_linked [] = ret False"
| "any_linked (v # vs) = bindE (file_linked (f_id v)) (\<lambda>b. if b then ret True else any_linked vs)"

text \<open>A statement that fails while the references are counted ends the purge.\<close>

definition purge_stored_file :: "media_env \<Rightarrow> file_row \<Rightarrow> blobs \<Rightarrow> blobs db_act" where
  "purge_stored_file env f bs =
     bindE (attempt (bindE (file_linked (f_id f)) (\<lambda>linked.
         if linked then ret None
         else bindE (list_file_variants (f_id f)) (\<lambda>vs.
              bindE (any_linked vs) (\<lambda>b. ret (if b then None else Some vs)))))) (\<lambda>r. case r of
       Inr (Some vs) \<Rightarrow> purge_all (remove_stored_file env) (vs @ [f]) bs
     | _ \<Rightarrow> ret bs)"

definition bad_name_char :: "char \<Rightarrow> bool" where
  "bad_name_char c = (c = CHR ''/'' \<or> code_of c = 92 \<or> c = CHR '' '' \<or> code_of c = 35 \<or> c = CHR ''?'' \<or> code_of c = 37 \<or>
     code_of c < 32 \<or> code_of c = 127)"

definition static_filename_error :: "string \<Rightarrow> string option" where
  "static_filename_error name =
     (if trim_space name = '''' then Some ''Filename can't be blank''
      else if list_all (\<lambda>c. c = CHR ''.'') name then Some ''Filename must not be only dots''
      else if list_ex bad_name_char name
        then Some (''Filename must not contain slashes, spaces, ?, '' @ [CHR 0x23] @ '', % or control characters'')
      else None)"

datatype upload_reply = UploadInvalid string | UploadConflict | UploadError | UploadCreated | UploadReplaced

definition log_static :: "(string \<Rightarrow> string) \<Rightarrow> int \<Rightarrow> string \<Rightarrow> string \<Rightarrow> string \<Rightarrow> string option \<Rightarrow> unit db_act" where
  "log_static uni now level action name errors =
     log_activity uni now None level action ''static_file''
       (''filename='' @ activity_quote name @ (case errors of None \<Rightarrow> '''' | Some e \<Rightarrow> '' errors='' @ activity_quote e))"

text \<open>The clock: 0 and 1 for the stored rows, 2 for the static file, 3 for the log.\<close>

definition add_static_file ::
  "media_env \<Rightarrow> (string \<Rightarrow> string) \<Rightarrow> (nat \<Rightarrow> int) \<Rightarrow> string \<Rightarrow> string option \<Rightarrow> file_row \<Rightarrow> blobs \<Rightarrow> (upload_reply \<times> blobs) db_act" where
  "add_static_file env uni clk name descr f bs =
     bindE (attempt (create_static_file name descr (f_id f) (clk 2) (clk 2))) (\<lambda>r. case r of
       Inl e \<Rightarrow>
         bindE (purge_stored_file env f bs) (\<lambda>bs1.
           if is_unique_violation e
           then bindE (log_static uni (clk 3) ''error'' ''failed'' name (Some ''concurrent upload''))
                  (\<lambda>_. ret (UploadConflict, bs1))
           else ret (UploadError, bs1))
     | Inr _ \<Rightarrow> bindE (log_static uni (clk 3) ''info'' ''created'' name None) (\<lambda>_. ret (UploadCreated, bs)))"

definition replace_static_file ::
  "media_env \<Rightarrow> (string \<Rightarrow> string) \<Rightarrow> (nat \<Rightarrow> int) \<Rightarrow> string \<Rightarrow> string option \<Rightarrow> file_row \<Rightarrow> static_file \<Rightarrow> blobs \<Rightarrow>
   (upload_reply \<times> blobs) db_act" where
  "replace_static_file env uni clk name descr f s bs =
     bindE (attempt (get_file_for_static_filename name)) (\<lambda>old.
     bindE (attempt (update_static_file descr (f_id f) (clk 2) (sf_id s) (sf_file_id s))) (\<lambda>r. case r of
       Inl _ \<Rightarrow> bindE (purge_stored_file env f bs) (\<lambda>bs1. ret (UploadError, bs1))
     | Inr n \<Rightarrow>
         if n = 0
         then bindE (purge_stored_file env f bs) (\<lambda>bs1.
              bindE (log_static uni (clk 3) ''error'' ''failed'' name (Some ''concurrent overwrite''))
                (\<lambda>_. ret (UploadConflict, bs1)))
         else bindE (case old of Inl _ \<Rightarrow> ret bs | Inr g \<Rightarrow> purge_stored_file env g bs) (\<lambda>bs1.
              bindE (log_static uni (clk 3) ''info'' ''updated'' name None) (\<lambda>_. ret (UploadReplaced, bs1)))))"

definition upload_static_file ::
  "media_env \<Rightarrow> (string \<Rightarrow> string) \<Rightarrow> (nat \<Rightarrow> int) \<Rightarrow> string \<Rightarrow> string \<Rightarrow> string \<Rightarrow> string \<Rightarrow> blobs \<Rightarrow> (upload_reply \<times> blobs) db_act" where
  "upload_static_file env uni clk name content_type data description bs =
     (case static_filename_error name of
        Some msg \<Rightarrow> bindE (log_static uni (clk 3) ''error'' ''failed'' name (Some msg)) (\<lambda>_. ret (UploadInvalid msg, bs))
      | None \<Rightarrow>
          bindE (store env clk data name content_type bs) (\<lambda>(stored, bs1). case stored of
            Inl _ \<Rightarrow> ret (UploadError, bs1)
          | Inr f \<Rightarrow>
              bindE (attempt (get_static_file_by_filename name)) (\<lambda>existing. case existing of
                Inl e \<Rightarrow>
                  if error_is e ErrNoRows then add_static_file env uni clk name (null_string description) f bs1
                  else bindE (purge_stored_file env f bs1) (\<lambda>bs2. ret (UploadError, bs2))
              | Inr s \<Rightarrow> replace_static_file env uni clk name (null_string description) f s bs1)))"

datatype destroy_reply = DestroyMissing | DestroyError | DestroyFailed | DestroyDone

definition destroy_static_file ::
  "media_env \<Rightarrow> (string \<Rightarrow> string) \<Rightarrow> int \<Rightarrow> int \<Rightarrow> blobs \<Rightarrow> (destroy_reply \<times> blobs) db_act" where
  "destroy_static_file env uni now i bs =
     bindE (attempt (get_static_file_by_id i)) (\<lambda>r. case r of
       Inl e \<Rightarrow> ret (if error_is e ErrNoRows then DestroyMissing else DestroyError, bs)
     | Inr s \<Rightarrow>
         bindE (attempt (delete_static_file i)) (\<lambda>r. case r of
           Inl e \<Rightarrow>
             if error_is e ErrNoRows then ret (DestroyDone, bs)
             else bindE (log_static uni now ''error'' ''failed'' (sf_filename s) None) (\<lambda>_. ret (DestroyFailed, bs))
         | Inr file_id \<Rightarrow>
             bindE (attempt (get_file_by_id file_id)) (\<lambda>r.
             bindE (case r of Inl _ \<Rightarrow> ret bs | Inr f \<Rightarrow> purge_stored_file env f bs) (\<lambda>bs1.
             bindE (log_static uni now ''info'' ''deleted'' (sf_filename s) None) (\<lambda>_. ret (DestroyDone, bs1))))))"

text \<open>\<open>GET /static/*\<close>: where the visitor is sent.\<close>

definition serve_static_file :: "string \<Rightarrow> string option db_act" where
  "serve_static_file name =
     bindE (attempt (get_file_for_static_filename name)) (\<lambda>r. case r of
       Inl _ \<Rightarrow> ret None | Inr f \<Rightarrow> ret (Some (''/files/'' @ f_key f)))"

section \<open>Rows and blobs\<close>

text \<open>
  The keys of the tables, and every blob in place: an attachment, a static file and a variant point at a row,
  and behind every row there is a blob.
\<close>

definition files_ok :: "database \<Rightarrow> bool" where
  "files_ok d \<longleftrightarrow>
     ids_ok f_id (files d) \<and> distinct (map f_key (files d)) \<and>
     ids_ok sf_id (static_files d) \<and> distinct (map sf_filename (static_files d)) \<and>
     (\<forall>a\<in>set (attachments d). att_file_id a \<in> f_id ` set (files d)) \<and>
     (\<forall>s\<in>set (static_files d). sf_file_id s \<in> f_id ` set (files d)) \<and>
     (\<forall>f\<in>set (files d). refers f_id (f_variant_of f) (files d))"

definition backed :: "blobs \<Rightarrow> database \<Rightarrow> bool" where
  "backed bs d \<longleftrightarrow> (\<forall>f\<in>set (files d). bs (f_key f) \<noteq> None)"

definition in_place :: "blobs \<Rightarrow> database \<Rightarrow> bool" where
  "in_place bs d \<longleftrightarrow> files_ok d \<and> backed bs d"

text \<open>A row that was read: whoever has its key now has its id.\<close>

definition known :: "file_row \<Rightarrow> database \<Rightarrow> bool" where
  "known f d \<longleftrightarrow> (\<forall>g\<in>set (files d). f_key g = f_key f \<longrightarrow> f_id g = f_id f)"

lemma files_ok_frame [simp]:
  "files_ok (d\<lparr>articles := x1\<rparr>) = files_ok d" "files_ok (d\<lparr>article_tags := x2\<rparr>) = files_ok d"
  "files_ok (d\<lparr>social_posts := x3\<rparr>) = files_ok d" "files_ok (d\<lparr>comments := x4\<rparr>) = files_ok d"
  "files_ok (d\<lparr>job_runs := x5\<rparr>) = files_ok d" "files_ok (d\<lparr>activity_logs := x6\<rparr>) = files_ok d"
  by (simp_all add: files_ok_def)

lemma backed_frame [simp]:
  "backed bs (d\<lparr>job_runs := x5\<rparr>) = backed bs d" "backed bs (d\<lparr>activity_logs := x6\<rparr>) = backed bs d"
  by (simp_all add: backed_def)

lemma in_place_logs [simp]: "in_place bs (d\<lparr>activity_logs := ls\<rparr>) = in_place bs d"
  by (simp add: in_place_def)

lemma known_self: "files_ok d \<Longrightarrow> f \<in> set (files d) \<Longrightarrow> known f d"
  unfolding files_ok_def known_def by (metis distinct_map inj_onD)

lemma refers_in: "refers rid r rs \<longleftrightarrow> (case r of None \<Rightarrow> True | Some i \<Rightarrow> i \<in> rid ` set rs)"
  by (auto simp: refers_def by_id_def find_None_iff split: option.split)

lemma calm_log [calm_rules]: "calm (log_static uni now l a n e)"
  unfolding calm_def log_static_def log_activity_def using log_row_never_fails by blast

text \<open>A deletion that goes through leaves no row with the key of a known row.\<close>

lemma delete_file_ok:
  assumes ok: "in_place bs d" and "(let fs = delete_where (\<lambda>f. f_id f = i) (files d) in
       if list_ex (\<lambda>f. f_id f = i) (files d) \<and> (attached i d \<or> published_static i d \<or> list_ex (variant_row i) fs)
       then Inl fk_error else Inr (d\<lparr>files := fs\<rparr>, ())) = Inr (d', x)"
  shows "in_place bs d'" "files d' = delete_where (\<lambda>f. f_id f = i) (files d)" "d' = d\<lparr>files := files d'\<rparr>"
proof -
  let ?fs = "delete_where (\<lambda>f. f_id f = i) (files d)"
  from assms(2) have d': "d' = d\<lparr>files := ?fs\<rparr>"
    and free: "list_ex (\<lambda>f. f_id f = i) (files d) \<Longrightarrow> \<not> attached i d \<and> \<not> published_static i d \<and> \<not> list_ex (variant_row i) ?fs"
    by (auto simp: Let_def split: if_splits)
  then show "files d' = ?fs" "d' = d\<lparr>files := files d'\<rparr>" by simp_all
  have free': "\<not> attached i d \<and> \<not> published_static i d \<and> \<not> list_ex (variant_row i) ?fs" if "i \<in> f_id ` set (files d)"
    using that free by (auto simp: list_ex_iff)
  have ids: "f_id ` set ?fs = f_id ` set (files d) - {i}" by auto
  have "ids_ok f_id ?fs \<and> distinct (map f_key ?fs)"
  proof
    show "ids_ok f_id ?fs" using ok by (intro files_tab.ids_ok_delete) (simp add: in_place_def files_ok_def)
    have "distinct (map f_key (files d))" using ok by (simp add: in_place_def files_ok_def)
    then show "distinct (map f_key ?fs)" unfolding delete_where_def by (rule distinct_map_filter)
  qed
  moreover have "att_file_id a \<noteq> i" if "a \<in> set (attachments d)" for a
    using ok that free' by (auto simp: in_place_def files_ok_def attached_def list_ex_iff)
  moreover have "sf_file_id s \<noteq> i" if "s \<in> set (static_files d)" for s
    using ok that free' by (auto simp: in_place_def files_ok_def published_static_def list_ex_iff)
  moreover have "refers f_id (f_variant_of f) ?fs" if "f \<in> set ?fs" for f
  proof -
    have "refers f_id (f_variant_of f) (files d)" using ok that by (auto simp: in_place_def files_ok_def)
    moreover have "f_variant_of f \<noteq> Some i"
      using that free' calculation by (auto simp: list_ex_iff variant_row_def refers_in)
    ultimately show ?thesis by (auto simp: refers_in split: option.splits)
  qed
  ultimately have "files_ok d'"
    using ok unfolding files_ok_def in_place_def d' by (simp add: ids) blast
  moreover have "backed bs d'" using ok by (auto simp: in_place_def backed_def d')
  ultimately show "in_place bs d'" by (simp add: in_place_def)
qed

lemma known_subset: "known f d \<Longrightarrow> set (files d') \<subseteq> set (files d) \<Longrightarrow> known f d'"
  by (auto simp: known_def)

lemma in_place_less:
  assumes "in_place bs d" "\<And>g. g \<in> set (files d) \<Longrightarrow> f_key g \<noteq> key"
  shows "in_place (remove_blob env key bs) d" "in_place (bs(key := v)) d"
  using assms by (auto simp: in_place_def backed_def remove_blob_def split: option.splits)

lemma ensures_purge_step:
  assumes "\<And>bs. f bs = bs \<or> f bs = remove_blob env (f_key x) bs"
  shows "ensures (\<lambda>d. in_place bs d \<and> known x d \<and> (\<forall>g\<in>set fs. known g d))
    (bindE (attempt (delete_file (f_id x))) (\<lambda>r. case r of Inl _ \<Rightarrow> ret bs | Inr _ \<Rightarrow> ret (f bs)))
    (\<lambda>bs' d. in_place bs' d \<and> (\<forall>g\<in>set fs. known g d))"
proof (rule ensures_bindE)
  let ?R = "\<lambda>r d. in_place bs d \<and> (\<forall>g\<in>set fs. known g d) \<and>
    (r \<noteq> Inl () \<longrightarrow> True) \<and> (\<forall>u. r = Inr u \<longrightarrow> (\<forall>g\<in>set (files d). f_key g \<noteq> f_key x))"
  show "ensures (\<lambda>d. in_place bs d \<and> known x d \<and> (\<forall>g\<in>set fs. known g d)) (attempt (delete_file (f_id x)))
    (\<lambda>r d. in_place bs d \<and> (\<forall>g\<in>set fs. known g d) \<and> (\<forall>u. r = Inr u \<longrightarrow> (\<forall>g\<in>set (files d). f_key g \<noteq> f_key x)))"
    unfolding delete_file_def
  proof (rule ensures_attempt_exec)
    fix d d' u
    assume P: "in_place bs d \<and> known x d \<and> (\<forall>g\<in>set fs. known g d)"
      and "(let fs = delete_where (\<lambda>f. f_id f = f_id x) (files d) in
       if list_ex (\<lambda>f. f_id f = f_id x) (files d) \<and> (attached (f_id x) d \<or> published_static (f_id x) d \<or> list_ex (variant_row (f_id x)) fs)
       then Inl fk_error else Inr (d\<lparr>files := fs\<rparr>, ())) = Inr (d', u)"
    note del = delete_file_ok [OF P [THEN conjunct1] this(2)]
    have "set (files d') \<subseteq> set (files d)" by (auto simp: del(2))
    then show "in_place bs d' \<and> (\<forall>g\<in>set fs. known g d') \<and> (\<forall>v. Inr u = Inr v \<longrightarrow> (\<forall>g\<in>set (files d'). f_key g \<noteq> f_key x))"
      using P del(1) by (auto simp: del(2) known_def)
  qed auto
next
  fix r
  show "ensures (\<lambda>d. in_place bs d \<and> (\<forall>g\<in>set fs. known g d) \<and> (\<forall>u. r = Inr u \<longrightarrow> (\<forall>g\<in>set (files d). f_key g \<noteq> f_key x)))
    (case r of Inl _ \<Rightarrow> ret bs | Inr _ \<Rightarrow> ret (f bs)) (\<lambda>bs' d. in_place bs' d \<and> (\<forall>g\<in>set fs. known g d))"
    using assms [of bs] by (cases r) (auto intro!: ensures_ret in_place_less(1))
qed

lemma ensures_purge_all:
  assumes "\<And>x bs fs. ensures (\<lambda>d. in_place bs d \<and> known x d \<and> (\<forall>g\<in>set fs. known g d)) (rm x bs)
    (\<lambda>bs' d. in_place bs' d \<and> (\<forall>g\<in>set fs. known g d))"
  shows "ensures (\<lambda>d. in_place bs d \<and> (\<forall>g\<in>set fs. known g d)) (purge_all rm fs bs) in_place"
proof (induction fs arbitrary: bs)
  case Nil then show ?case by (simp add: ensures_ret)
next
  case (Cons f fs)
  show ?case
    unfolding purge_all.simps
    by (rule ensures_bindE [OF ensures_weaken [OF assms [of bs f fs]] Cons.IH]) simp_all
qed

lemma in_place_known: "in_place bs d \<Longrightarrow> f \<in> set (files d) \<Longrightarrow> known f d"
  by (simp add: in_place_def known_self)

lemma purge_one_in_place:
  "ensures (\<lambda>d. in_place bs d \<and> known x d \<and> (\<forall>g\<in>set fs. known g d)) (purge_one env x bs)
     (\<lambda>bs' d. in_place bs' d \<and> (\<forall>g\<in>set fs. known g d))"
  "ensures (\<lambda>d. in_place bs d \<and> known x d \<and> (\<forall>g\<in>set fs. known g d)) (remove_stored_file env x bs)
     (\<lambda>bs' d. in_place bs' d \<and> (\<forall>g\<in>set fs. known g d))"
  unfolding purge_one_def remove_stored_file_def
  by (rule ensures_purge_step [where env = env and f = "remove_blob env (f_key x)"], simp)
    (rule ensures_purge_step [where env = env and f = "\<lambda>bs. if valid_key (f_key x) then remove_blob env (f_key x) bs else bs"], simp)

lemma purge_in_place:
  "ensures (\<lambda>d. in_place bs d \<and> known f d) (purge env f bs) in_place"
  unfolding purge_def
proof (rule ensures_bindE)
  show "ensures (\<lambda>d. in_place bs d \<and> known f d) (attempt (list_file_variants (f_id f)))
    (\<lambda>r d. in_place bs d \<and> known f d \<and> (\<forall>vs. r = Inr vs \<longrightarrow> (\<forall>v\<in>set vs. known v d)))"
    unfolding list_file_variants_def query_def
    by (rule ensures_attempt_exec) (auto intro: in_place_known)
  fix r
  show "ensures (\<lambda>d. in_place bs d \<and> known f d \<and> (\<forall>vs. r = Inr vs \<longrightarrow> (\<forall>v\<in>set vs. known v d)))
    (purge_all (purge_one env) ((case r of Inl _ \<Rightarrow> [] | Inr vs \<Rightarrow> vs) @ [f]) bs) in_place"
    by (rule ensures_weaken [OF ensures_purge_all [OF purge_one_in_place(1)]]) (auto split: sum.splits)
qed

lemma pres_file_reads [pres_rules]:
  "pres I (count_attachments_for_file i)" "pres I (count_static_files_for_file i)" "pres I (list_file_variants i)"
  "pres I (count_file_key_content_references key)" "pres I (get_static_file_by_filename name)"
  "pres I (get_file_for_static_filename name)" "pres I (get_static_file_by_id i)" "pres I (get_file_by_id i)"
  unfolding count_attachments_for_file_def count_static_files_for_file_def list_file_variants_def
    count_file_key_content_references_def get_static_file_by_filename_def get_file_for_static_filename_def
    get_static_file_by_id_def get_file_by_id_def
  by (rule pres_rules)+

lemma pres_file_checks [pres_rules]:
  "pres I (file_linked i)" "pres I (any_linked vs)"
proof -
  show linked: "pres I (file_linked i)" for i unfolding file_linked_def by (intro pres_rules)
  show "pres I (any_linked vs)" by (induction vs) (auto intro!: pres_rules linked)
qed

lemma purge_stored_in_place:
  "ensures (\<lambda>d. in_place bs d \<and> known f d) (purge_stored_file env f bs) in_place"
  unfolding purge_stored_file_def
proof (rule ensures_bindE, rule ensures_attempt_reads)
  let ?P = "\<lambda>d. in_place bs d \<and> known f d"
  let ?Q = "\<lambda>x d. \<forall>vs. x = Some vs \<longrightarrow> (\<forall>v\<in>set vs. known v d)"
  show "pres ?P (bindE (file_linked (f_id f)) (\<lambda>linked. if linked then ret None
      else bindE (list_file_variants (f_id f)) (\<lambda>vs. bindE (any_linked vs) (\<lambda>b. ret (if b then None else Some vs)))))"
    by (intro pres_rules)
  have vs: "ensures ?P (list_file_variants (f_id f)) (\<lambda>vs d. ?P d \<and> (\<forall>v\<in>set vs. known v d))"
    unfolding list_file_variants_def by (rule ensures_query) (auto intro: in_place_known)
  have any: "ensures (\<lambda>d. ?P d \<and> (\<forall>v\<in>set vs. known v d)) (any_linked vs) (\<lambda>_ d. ?P d \<and> (\<forall>v\<in>set vs. known v d))" for vs
    by (rule ensures_pres) (rule pres_file_checks)
  have fin: "ensures (\<lambda>d. ?P d \<and> (\<forall>v\<in>set vs. known v d)) (ret (if b then None else Some vs)) ?Q" for vs b
    by (rule ensures_ret) auto
  show "ensures ?P (bindE (file_linked (f_id f)) (\<lambda>linked. if linked then ret None
      else bindE (list_file_variants (f_id f)) (\<lambda>vs. bindE (any_linked vs) (\<lambda>b. ret (if b then None else Some vs))))) ?Q"
    by (rule ensures_bindE [OF ensures_pres [OF pres_file_checks(1)]], rule ensures_if, rule ensures_ret, simp)
      (rule ensures_bindE [OF vs ensures_bindE [OF any fin]])
  fix r
  show "ensures (\<lambda>d. ?P d \<and> (\<forall>x. r = Inr x \<longrightarrow> ?Q x d))
    (case r of Inl e \<Rightarrow> ret bs | Inr None \<Rightarrow> ret bs | Inr (Some vs) \<Rightarrow> purge_all (remove_stored_file env) (vs @ [f]) bs) in_place"
  proof (cases "\<exists>vs. r = Inr (Some vs)")
    case True
    then obtain vs where r: "r = Inr (Some vs)" by blast
    show ?thesis unfolding r by (simp, rule ensures_weaken [OF ensures_purge_all [OF purge_one_in_place(2)]]) auto
  next
    case False
    then show ?thesis by (auto split: sum.split option.split intro!: ensures_ret)
  qed
qed

section \<open>Storing\<close>

text \<open>Random keys: no row has one, and the two of an upload differ.\<close>

definition fresh_keys :: "media_env \<Rightarrow> nat set \<Rightarrow> database \<Rightarrow> bool" where
  "fresh_keys env ns d \<longleftrightarrow>
     (\<forall>n\<in>ns. \<forall>key. me_keys env n = Inr key \<longrightarrow> key \<notin> f_key ` set (files d)) \<and>
     (\<forall>m\<in>ns. \<forall>n\<in>ns. \<forall>key. me_keys env m = Inr key \<longrightarrow> me_keys env n = Inr key \<longrightarrow> m = n)"

lemma create_file_ok:
  assumes ok: "files_ok d" and "(if list_ex (\<lambda>g. f_key g = f_key f) (files d) then Inl (ErrUnique ''files.key'')
      else (case insert_row f_id (\<lambda>i r. r\<lparr>f_id := i\<rparr>) f (files d) of (fs, f') \<Rightarrow>
        if \<not> refers f_id (f_variant_of f) fs then Inl fk_error else Inr (d\<lparr>files := fs\<rparr>, f'))) = Inr (d', f')"
  shows "files_ok d'" "files d' = files d @ [f']" "f_key f' = f_key f" "f_content_type f' = f_content_type f"
    "static_files d' = static_files d"
proof -
  from assms(2) have new: "\<forall>g\<in>set (files d). f_key g \<noteq> f_key f"
    and fs: "files d @ [f'] = fst (insert_row f_id (\<lambda>i r. r\<lparr>f_id := i\<rparr>) f (files d))"
    and ref: "refers f_id (f_variant_of f) (files d @ [f'])"
    and d': "d' = d\<lparr>files := files d @ [f']\<rparr>" and f': "f' = f\<lparr>f_id := next_rowid (map f_id (files d))\<rparr>"
    by (auto simp: list_ex_iff insert_row_def Let_def split: if_splits)
  show "files d' = files d @ [f']" "f_key f' = f_key f" "f_content_type f' = f_content_type f" "static_files d' = static_files d"
    by (simp_all add: d' f')
  have "ids_ok f_id (files d @ [f'])" unfolding fs using ok by (intro files_tab.ids_ok_insert) (simp add: files_ok_def)
  moreover have "distinct (map f_key (files d @ [f']))" using ok new by (auto simp: files_ok_def f')
  moreover have "refers f_id (f_variant_of g) (files d @ [f'])" if "g \<in> set (files d @ [f'])" for g
    using that ok ref by (auto simp: files_ok_def refers_in f' split: option.splits)
  ultimately show "files_ok d'" using ok by (auto simp: files_ok_def d')
qed

lemma put_file_in_place:
  assumes row: "f_key row = key" and key: "key \<notin> X"
  shows "ensures (\<lambda>d. in_place bs d \<and> f_key ` set (files d) \<inter> insert key X = {} \<and> Y \<subseteq> set (files d)) (put_file env msg key data row bs)
    (\<lambda>(r, bs') d. in_place bs' d \<and> f_key ` set (files d) \<inter> X = {} \<and> Y \<subseteq> set (files d) \<and> (\<forall>f. r = Inr f \<longrightarrow> f \<in> set (files d)))"
proof -
  let ?P = "\<lambda>bs d. in_place bs d \<and> f_key ` set (files d) \<inter> insert key X = {} \<and> Y \<subseteq> set (files d)"
  have upd: "in_place (bs(key := v)) d" if "?P bs d" for d v
    using that by (intro in_place_less(2)) auto
  show ?thesis
  proof (cases "write_file env key data bs")
    case (Pair r bs1)
    show ?thesis
    proof (cases r)
      case (Inl e)
      then have "bs1 = bs \<or> bs1 = bs(key := None)" using Pair by (auto simp: write_file_def split: option.splits)
      then show ?thesis using Pair Inl upd by (auto simp: put_file_def intro!: ensures_ret)
    next
      case (Inr u)
      then have bs1: "bs1 = bs(key \<mapsto> data)" using Pair by (auto simp: write_file_def split: option.splits)
      show ?thesis
        unfolding put_file_def Pair Inr prod.case sum.case
      proof (rule ensures_bindE, unfold create_file_def, rule ensures_attempt_exec)
        let ?R = "\<lambda>r d. case r of Inl (e::err) \<Rightarrow> in_place bs1 d \<and> f_key ` set (files d) \<inter> insert key X = {} \<and> Y \<subseteq> set (files d)
          | Inr f \<Rightarrow> in_place bs1 d \<and> f_key ` set (files d) \<inter> X = {} \<and> Y \<subseteq> set (files d) \<and> f \<in> set (files d)"
        show "?R (Inl e) d" if "?P bs d" for d e using that upd [OF that] by (simp add: bs1)
        show "?R (Inr f) d'" if P: "?P bs d"
          and "(if list_ex (\<lambda>g. f_key g = f_key row) (files d) then Inl (ErrUnique ''files.key'')
            else (case insert_row f_id (\<lambda>i r. r\<lparr>f_id := i\<rparr>) row (files d) of (fs, f') \<Rightarrow>
              if \<not> refers f_id (f_variant_of row) fs then Inl fk_error else Inr (d\<lparr>files := fs\<rparr>, f'))) = Inr (d', f)" for d d' f
        proof -
          have "files_ok d" using P by (simp add: in_place_def)
          note new = create_file_ok [OF this that(2)]
          have "backed bs1 d'" using P by (auto simp: in_place_def backed_def new(2,3) bs1 row)
          then show ?thesis using P new(1) key by (auto simp: in_place_def new(2,3) row)
        qed
        show "ensures (?R r) (case r of Inl e \<Rightarrow> ret (Inl (ErrWrap msg e), remove_blob env key bs1) | Inr f \<Rightarrow> ret (Inr f, bs1))
          (\<lambda>(r, bs') d. in_place bs' d \<and> f_key ` set (files d) \<inter> X = {} \<and> Y \<subseteq> set (files d) \<and> (\<forall>f. r = Inr f \<longrightarrow> f \<in> set (files d)))" for r
          by (cases r) (auto intro!: ensures_ret in_place_less(1))
      qed
    qed
  qed
qed

lemma store_variant_in_place:
  "ensures (\<lambda>d. in_place bs d \<and> f \<in> set (files d) \<and> (\<forall>key. me_keys env 1 = Inr key \<longrightarrow> key \<notin> f_key ` set (files d)))
     (store_variant env now data f bs) (\<lambda>(r, bs') d. in_place bs' d \<and> f \<in> set (files d))"
  unfolding store_variant_def Let_def
proof (intro ensures_if)
  let ?P = "\<lambda>d. in_place bs d \<and> f \<in> set (files d) \<and> (\<forall>key. me_keys env 1 = Inr key \<longrightarrow> key \<notin> f_key ` set (files d))"
  have skip: "ensures ?P (ret (r, bs)) (\<lambda>(r, bs') d. in_place bs' d \<and> f \<in> set (files d))" for r :: "err + unit" by (rule ensures_ret) simp
  show "ensures ?P (ret (Inr () :: err + unit, bs)) (\<lambda>(r, bs') d. in_place bs' d \<and> f \<in> set (files d))" by (rule skip)
  have put: "ensures ?P (bindE (put_file env msg key small (file_for env key small nm ct orig now) bs) (\<lambda>(r, bs1).
      ret (case r of Inl e \<Rightarrow> Inl e | Inr _ \<Rightarrow> Inr (), bs1))) (\<lambda>(r, bs') d. in_place bs' d \<and> f \<in> set (files d))"
    if "me_keys env 1 = Inr key" for key msg small nm ct orig
  proof (rule ensures_bindE [OF ensures_weaken [OF put_file_in_place [where X = "{}" and Y = "{f}"]]])
    show "f_key (file_for env key small nm ct orig now) = key" by (simp add: file_for_def)
    show "in_place bs d \<and> f_key ` set (files d) \<inter> {key} = {} \<and> {f} \<subseteq> set (files d)" if "?P d" for d using that \<open>me_keys env 1 = Inr key\<close> by auto
    show "(\<lambda>(r, bs') d. in_place bs' d \<and> f \<in> set (files d)) x d" if "(case x of (r, bs') \<Rightarrow> \<lambda>d. in_place bs' d \<and> f_key ` set (files d) \<inter> {} = {} \<and> {f} \<subseteq> set (files d) \<and>
      (\<forall>f. r = Inr f \<longrightarrow> f \<in> set (files d))) d" for x d
      using that by (cases x) simp
    show "ensures ((\<lambda>(r, bs') d. in_place bs' d \<and> f \<in> set (files d)) x) (case x of (r, bs1) \<Rightarrow> ret (case r of Inl e \<Rightarrow> Inl e | Inr _ \<Rightarrow> Inr (), bs1))
      (\<lambda>(r, bs') d. in_place bs' d \<and> f \<in> set (files d))" for x
      by (cases x) (auto intro!: ensures_ret)
  qed simp
  show "ensures ?P (case me_variant env data of Inl e \<Rightarrow> ret (Inl (ErrWrap ''encode variant'' e), bs)
      | Inr None \<Rightarrow> ret (Inr (), bs)
      | Inr (Some small) \<Rightarrow> if length data \<le> length small then ret (Inr (), bs)
          else case me_keys env 1 of Inl e \<Rightarrow> ret (Inl e, bs)
          | Inr key \<Rightarrow> bindE (put_file env ''insert variant row'' key small
                  (file_for env key small (f_filename f) (f_content_type f) (Some (f_id f)) now) bs) (\<lambda>(r, bs1).
                ret (case r of Inl e \<Rightarrow> Inl e | Inr _ \<Rightarrow> Inr (), bs1))) (\<lambda>(r, bs') d. in_place bs' d \<and> f \<in> set (files d))"
    using put skip by (auto split: sum.split option.split)
qed

lemma store_in_place:
  "ensures (\<lambda>d. in_place bs d \<and> fresh_keys env {0, 1} d) (store env clk data name ct bs)
     (\<lambda>(r, bs') d. in_place bs' d \<and> (\<forall>f. r = Inr f \<longrightarrow> known f d))"
proof -
  let ?P = "\<lambda>d. in_place bs d \<and> fresh_keys env {0, 1} d"
  let ?Q = "\<lambda>(r :: err + file_row, bs') d. in_place bs' d \<and> (\<forall>f. r = Inr f \<longrightarrow> known f d)"
  define X where "X = {key. me_keys env 1 = Inr key}"
  show ?thesis
  proof (cases "me_keys env 0")
    case (Inl e)
    then show ?thesis by (auto simp: store_def Let_def intro!: ensures_ret)
  next
    case (Inr key)
    let ?row = "file_for env key data name (if (if ct = '''' then me_detect env data else ct) = '''' then None
      else Some (if ct = '''' then me_detect env data else ct)) None (clk 0)"
    have keys: "f_key ` set (files d) \<inter> insert key X = {}" if "fresh_keys env {0, 1} d" for d
      using that Inr by (auto simp: fresh_keys_def X_def)
    have "ensures ?P (put_file env msg key data ?row bs) (\<lambda>(r, bs') d. in_place bs' d \<and> f_key ` set (files d) \<inter> X = {} \<and>
        (\<forall>f. r = Inr f \<longrightarrow> f \<in> set (files d)))" if "key \<notin> X" for msg
      using keys that by (intro ensures_weaken [OF put_file_in_place [where X = X and Y = "{}"]]) (auto simp: file_for_def)
    moreover have "ensures ?P m R" if "key \<in> X" for m :: "((err + file_row) \<times> blobs) db_act" and R
      using that Inr by (auto simp: ensures_def fresh_keys_def X_def)
    ultimately have put: "ensures ?P (put_file env msg key data ?row bs) (\<lambda>(r, bs') d. in_place bs' d \<and>
        f_key ` set (files d) \<inter> X = {} \<and> (\<forall>f. r = Inr f \<longrightarrow> f \<in> set (files d)))" for msg by blast
    have variant: "ensures (\<lambda>d. in_place bs1 d \<and> f_key ` set (files d) \<inter> X = {} \<and> f \<in> set (files d))
      (bindE (store_variant env (clk 1) data f bs1) (\<lambda>(_, bs2). ret (Inr f, bs2))) ?Q" for f bs1
    proof (rule ensures_bindE [OF ensures_weaken [OF store_variant_in_place]])
      show "in_place bs1 d \<and> f \<in> set (files d) \<and> (\<forall>key. me_keys env 1 = Inr key \<longrightarrow> key \<notin> f_key ` set (files d))"
        if "in_place bs1 d \<and> f_key ` set (files d) \<inter> X = {} \<and> f \<in> set (files d)" for d
        using that by (auto simp: X_def)
      show "(case x of (r, bs') \<Rightarrow> \<lambda>d. in_place bs' d \<and> f \<in> set (files d)) d"
        if "(case x of (r, bs') \<Rightarrow> \<lambda>d. in_place bs' d \<and> f \<in> set (files d)) d" for x d by (rule that)
      show "ensures (case x of (r, bs') \<Rightarrow> \<lambda>d. in_place bs' d \<and> f \<in> set (files d)) (case x of (_, bs2) \<Rightarrow> ret (Inr f, bs2)) ?Q" for x
        by (cases x) (auto intro!: ensures_ret in_place_known)
    qed
    show ?thesis
      unfolding store_def Let_def Inr sum.case
    proof (rule ensures_bindE [OF put])
      fix x :: "(err + file_row) \<times> blobs"
      obtain r bs1 where x: "x = (r, bs1)" by (cases x)
      show "ensures (case x of (r, bs') \<Rightarrow> \<lambda>d. in_place bs' d \<and> f_key ` set (files d) \<inter> X = {} \<and> (\<forall>f. r = Inr f \<longrightarrow> f \<in> set (files d)))
        (case x of (Inl e, bs1) \<Rightarrow> ret (Inl e, bs1)
         | (Inr f, bs1) \<Rightarrow> bindE (store_variant env (clk 1) data f bs1) (\<lambda>(_, bs2). ret (Inr f, bs2))) ?Q"
      proof (cases r)
        case (Inl e) then show ?thesis unfolding x by (auto intro!: ensures_ret)
      next
        case (Inr f)
        show ?thesis unfolding x Inr prod.case sum.case
          by (rule ensures_weaken [OF variant]) auto
      qed
    qed
  qed
qed

section \<open>Uploads and deletions of the admin\<close>

definition with_blobs :: "'a \<times> blobs \<Rightarrow> database \<Rightarrow> bool" where
  "with_blobs x d = in_place (snd x) d"

lemma ret_with_blobs: "(\<And>d. P d \<Longrightarrow> in_place bs d) \<Longrightarrow> ensures P (ret (x, bs)) with_blobs"
  by (rule ensures_ret) (simp add: with_blobs_def)

lemma log_then:
  assumes "\<And>d. P d \<Longrightarrow> in_place bs d"
  shows "ensures P (bindE (log_static uni now l a n e) (\<lambda>_. ret (x, bs))) with_blobs"
  unfolding log_static_def log_activity_def
  by (rule ensures_weaken [OF ensures_bindE [OF ensures_log_row [of "in_place bs"] ret_with_blobs] assms]) auto

lemma purge_then:
  assumes "\<And>bs'. ensures (in_place bs') (k bs') with_blobs"
  shows "ensures (\<lambda>d. in_place bs d \<and> known f d) (bindE (purge_stored_file env f bs) k) with_blobs"
  by (rule ensures_bindE [OF purge_stored_in_place assms])

lemma pres_create_static: "pres (\<lambda>d. in_place bs d \<and> known f d) (create_static_file name descr i c u)"
  unfolding create_static_file_def
proof (rule pres_exec)
  fix d d' x
  assume ok: "in_place bs d \<and> known f d" and
    "(if list_ex (\<lambda>s. sf_filename s = name) (static_files d) then Inl (ErrUnique ''static_files.filename'')
      else if by_id f_id i (files d) = None then Inl fk_error
      else (case insert_row sf_id (\<lambda>i r. r\<lparr>sf_id := i\<rparr>) \<lparr>sf_id = 0, sf_filename = name, sf_description = descr, sf_file_id = i,
          sf_created_at = c, sf_updated_at = u\<rparr> (static_files d) of
        (ss, s) \<Rightarrow> Inr (d\<lparr>static_files := ss\<rparr>, s))) = Inr (d', x)"
  then obtain s where new: "\<forall>s\<in>set (static_files d). sf_filename s \<noteq> name" "i \<in> f_id ` set (files d)"
    and ss: "static_files d @ [s] = fst (insert_row sf_id (\<lambda>i r. r\<lparr>sf_id := i\<rparr>) \<lparr>sf_id = 0, sf_filename = name,
      sf_description = descr, sf_file_id = i, sf_created_at = c, sf_updated_at = u\<rparr> (static_files d))"
    and d': "d' = d\<lparr>static_files := static_files d @ [s]\<rparr>" and s: "sf_filename s = name" "sf_file_id s = i"
    by (auto simp: list_ex_iff insert_row_def Let_def files_tab.by_id_None split: if_splits)
  have "ids_ok sf_id (static_files d @ [s])"
    unfolding ss using ok by (intro static_files_tab.ids_ok_insert) (simp add: in_place_def files_ok_def)
  moreover have "distinct (map sf_filename (static_files d @ [s]))"
    using ok new s by (auto simp: in_place_def files_ok_def)
  ultimately show "in_place bs d' \<and> known f d'"
    using ok new s unfolding in_place_def files_ok_def backed_def known_def d' by simp
qed

lemma pres_update_static: "pres (\<lambda>d. in_place bs d \<and> known f d \<and> known g d) (update_static_file descr i now sid expected)"
  unfolding update_static_file_def
proof (rule pres_exec)
  fix d d' x
  let ?p = "\<lambda>s. sf_id s = sid \<and> sf_file_id s = expected" and ?u = "\<lambda>s. s\<lparr>sf_description := descr, sf_file_id := i, sf_updated_at := now\<rparr>"
  assume ok: "in_place bs d \<and> known f d \<and> known g d"
    and "(let p = ?p in if list_ex p (static_files d) \<and> by_id f_id i (files d) = None then Inl fk_error
      else Inr (d\<lparr>static_files := update_where p ?u (static_files d)\<rparr>, count_where p (static_files d))) = Inr (d', x)"
  then have d': "d' = d\<lparr>static_files := update_where ?p ?u (static_files d)\<rparr>"
    and i: "s \<in> set (static_files d) \<Longrightarrow> ?p s \<Longrightarrow> i \<in> f_id ` set (files d)" for s
    by (auto simp: Let_def list_ex_iff files_tab.by_id_None split: if_splits)
  have "ids_ok sf_id (static_files d')"
    using ok unfolding d' by (simp, intro static_files_tab.ids_ok_update) (auto simp: in_place_def files_ok_def)
  moreover have "map sf_filename (static_files d') = map sf_filename (static_files d)"
    by (simp add: d' update_where_def)
  moreover have "sf_file_id s \<in> f_id ` set (files d)" if "s \<in> set (static_files d')" for s
    using that i ok by (auto simp: d' set_update_where in_place_def files_ok_def)
  ultimately show "in_place bs d' \<and> known f d' \<and> known g d'"
    using ok unfolding in_place_def files_ok_def backed_def known_def by (simp add: d')
qed

lemma pres_delete_static: "pres (in_place bs) (delete_static_file i)"
  unfolding delete_static_file_def
proof (rule pres_exec)
  fix d d' :: database and x
  let ?ss = "delete_where (\<lambda>s. sf_id s = i) (static_files d)"
  assume ok: "in_place bs d" and "(case by_id sf_id i (static_files d) of None \<Rightarrow> Inl ErrNoRows
       | Some s \<Rightarrow> Inr (d\<lparr>static_files := ?ss\<rparr>, sf_file_id s)) = Inr (d', x)"
  then have d': "d' = d\<lparr>static_files := ?ss\<rparr>" by (auto split: option.splits)
  have "ids_ok sf_id ?ss" using ok by (intro static_files_tab.ids_ok_delete) (simp add: in_place_def files_ok_def)
  moreover have "distinct (map sf_filename ?ss)"
    unfolding delete_where_def by (rule distinct_map_filter) (use ok in \<open>simp add: in_place_def files_ok_def\<close>)
  ultimately show "in_place bs d'" using ok by (simp add: in_place_def files_ok_def backed_def d')
qed

lemma find_by_id_in: "by_id f_id i (files d) = Some f \<Longrightarrow> in_place bs d \<Longrightarrow> known f d"
  by (blast dest: files_tab.by_id_Some intro: in_place_known)

lemma purge_then_error: "ensures (\<lambda>d. in_place bs d \<and> known f d) (bindE (purge_stored_file env f bs) (\<lambda>bs1. ret (UploadError, bs1))) with_blobs"
  by (rule purge_then) (rule ret_with_blobs)

lemma purge_then_conflict:
  "ensures (\<lambda>d. in_place bs d \<and> known f d) (bindE (purge_stored_file env f bs) (\<lambda>bs1. bindE (log_static uni now l a n e)
      (\<lambda>_. ret (UploadConflict, bs1)))) with_blobs"
  by (rule purge_then) (rule log_then)

lemma add_static_in_place:
  "ensures (\<lambda>d. in_place bs d \<and> known f d) (add_static_file env uni clk name descr f bs) with_blobs"
  unfolding add_static_file_def
  by (rule ensures_bindE [OF ensures_pres_attempt [OF pres_create_static]],
      rule ensures_case_sum [where P = "\<lambda>_ d. in_place bs d \<and> known f d"])
    (rule purge_then, rule ensures_if, (rule log_then, assumption | rule ret_with_blobs, assumption | rule log_then, simp)+)

lemma replace_static_in_place:
  "ensures (\<lambda>d. in_place bs d \<and> known f d) (replace_static_file env uni clk name descr f s bs) with_blobs"
  unfolding replace_static_file_def
proof (rule ensures_bindE)
  let ?P = "\<lambda>d. in_place bs d \<and> known f d"
  show "ensures ?P (attempt (get_file_for_static_filename name)) (\<lambda>old d. ?P d \<and> (\<forall>g. old = Inr g \<longrightarrow> known g d))"
    by (rule ensures_attempt_reads [OF pres_file_reads(6)])
      (auto simp: get_file_for_static_filename_def split: option.splits intro!: ensures_query_row intro: find_by_id_in)
  fix old
  define g where "g = (case old of Inl (_::err) \<Rightarrow> f | Inr g \<Rightarrow> g)"
  let ?R = "\<lambda>d. in_place bs d \<and> known f d \<and> known g d"
  have last: "ensures ?R (case old of Inl _ \<Rightarrow> ret bs | Inr g \<Rightarrow> purge_stored_file env g bs) in_place"
    by (cases old) (auto simp: g_def intro: ensures_ret ensures_weaken [OF purge_stored_in_place])
  have weak: "ensures ?R m with_blobs" if "ensures ?P m with_blobs" for m :: "(upload_reply \<times> blobs) db_act"
    using that by (rule ensures_weaken) simp_all
  have all: "ensures ?R (bindE (attempt (update_static_file descr (f_id f) (clk 2) (sf_id s) (sf_file_id s))) (\<lambda>r. case r of
       Inl _ \<Rightarrow> bindE (purge_stored_file env f bs) (\<lambda>bs1. ret (UploadError, bs1))
     | Inr n \<Rightarrow> if n = 0 then bindE (purge_stored_file env f bs) (\<lambda>bs1.
              bindE (log_static uni (clk 3) ''error'' ''failed'' name (Some ''concurrent overwrite'')) (\<lambda>_. ret (UploadConflict, bs1)))
         else bindE (case old of Inl _ \<Rightarrow> ret bs | Inr g \<Rightarrow> purge_stored_file env g bs) (\<lambda>bs1.
              bindE (log_static uni (clk 3) ''info'' ''updated'' name None) (\<lambda>_. ret (UploadReplaced, bs1))))) with_blobs" (is "ensures _ ?m _")
    by (rule ensures_bindE [OF ensures_pres_attempt [OF pres_update_static]], rule ensures_case_sum [where P = "\<lambda>_. ?R"],
        rule weak [OF purge_then_error], rule ensures_if, rule weak [OF purge_then_conflict], rule ensures_bindE [OF last log_then])
  then show "ensures (\<lambda>d. ?P d \<and> (\<forall>g. old = Inr g \<longrightarrow> known g d)) ?m with_blobs"
    by (rule ensures_weaken) (auto simp: g_def split: sum.split)
qed

lemma upload_in_place:
  "ensures (\<lambda>d. in_place bs d \<and> fresh_keys env {0, 1} d) (upload_static_file env uni clk name ct data descr bs) with_blobs"
proof (cases "static_filename_error name")
  case (Some msg)
  then show ?thesis by (auto simp: upload_static_file_def intro!: log_then)
next
  case None
  have ok: "ensures (\<lambda>d. in_place bs1 d \<and> known f d) (bindE (attempt (get_static_file_by_filename name)) (\<lambda>existing. case existing of
        Inl e \<Rightarrow> if error_is e ErrNoRows then add_static_file env uni clk name (null_string descr) f bs1
          else bindE (purge_stored_file env f bs1) (\<lambda>bs2. ret (UploadError, bs2))
      | Inr s \<Rightarrow> replace_static_file env uni clk name (null_string descr) f s bs1)) with_blobs" for f bs1
    by (rule ensures_bindE [OF ensures_pres_attempt [OF pres_file_reads(5)]],
        rule ensures_case_sum [where P = "\<lambda>_ d. in_place bs1 d \<and> known f d"], rule ensures_if,
        rule add_static_in_place, rule purge_then_error, rule replace_static_in_place)
  show ?thesis
    unfolding upload_static_file_def None option.case
    by (rule ensures_bindE [OF store_in_place])
      (auto split: sum.split intro: ret_with_blobs ensures_weaken [OF ok])
qed

lemma destroy_static_in_place:
  "ensures (in_place bs) (destroy_static_file env uni now i bs) with_blobs"
proof -
  have gone: "ensures (in_place bs) (bindE (attempt (get_file_by_id file_id)) (\<lambda>r.
      bindE (case r of Inl _ \<Rightarrow> ret bs | Inr f \<Rightarrow> purge_stored_file env f bs) (\<lambda>bs1.
      bindE (log_static uni now ''info'' ''deleted'' name None) (\<lambda>_. ret (DestroyDone, bs1))))) with_blobs" for file_id name
  proof (rule ensures_bindE)
    show "ensures (in_place bs) (attempt (get_file_by_id file_id)) (\<lambda>r d. in_place bs d \<and> (\<forall>f. r = Inr f \<longrightarrow> known f d))"
      by (rule ensures_attempt_reads [OF pres_file_reads(8)])
        (auto simp: get_file_by_id_def intro!: ensures_query_row intro: find_by_id_in)
    fix r
    have purged: "ensures (\<lambda>d. in_place bs d \<and> (\<forall>f. r = Inr f \<longrightarrow> known f d))
        (case r of Inl (_::err) \<Rightarrow> ret bs | Inr f \<Rightarrow> purge_stored_file env f bs) in_place"
      by (cases r) (auto intro: ensures_ret ensures_weaken [OF purge_stored_in_place])
    show "ensures (\<lambda>d. in_place bs d \<and> (\<forall>f. r = Inr f \<longrightarrow> known f d))
      (bindE (case r of Inl _ \<Rightarrow> ret bs | Inr f \<Rightarrow> purge_stored_file env f bs) (\<lambda>bs1.
       bindE (log_static uni now ''info'' ''deleted'' name None) (\<lambda>_. ret (DestroyDone, bs1)))) with_blobs"
      by (rule ensures_bindE [OF purged log_then])
  qed
  show ?thesis
    unfolding destroy_static_file_def
    by (rule ensures_bindE [OF ensures_pres_attempt [OF pres_file_reads(7)]], rule ensures_case_sum [where P = "\<lambda>_. in_place bs"],
        rule ret_with_blobs, assumption,
        rule ensures_bindE [OF ensures_pres_attempt [OF pres_delete_static]], rule ensures_case_sum [where P = "\<lambda>_. in_place bs"],
        rule ensures_if, rule ret_with_blobs, assumption, rule log_then, assumption, rule gone)
qed



section \<open>Examples\<close>

definition picture :: "int \<Rightarrow> string \<Rightarrow> file_row" where
  "picture i key = \<lparr>f_id = i, f_key = key, f_filename = ''p.png'', f_content_type = Some ''image/png'', f_byte_size = 1,
     f_checksum = None, f_variant_of = None, f_created_at = 0\<rparr>"

definition post :: article where
  "post = \<lparr>a_id = 1, a_title = None, a_slug = Some ''a'', a_content_html = Some ''/files/bbbb'', a_content_type = ''html'',
     a_description = None, a_excerpt = None, a_meta_description = None, a_meta_title = None, a_meta_image = None,
     a_source_author = None, a_source_url = None, a_source_content = None, a_status = 1, a_comment = 0, a_scheduled_at = None,
     a_scheduled_platforms = to_text (JArr []), a_scheduled_newsletter = 0, a_created_at = 0, a_updated_at = 0,
     a_content_markdown = None\<rparr>"

definition gallery :: database where
  "gallery = empty_db\<lparr>files := [picture 1 ''aaaa'', picture 2 ''bbbb''], articles := [post],
     attachments := [\<lparr>att_id = 1, att_file_id = 1, att_record_type = ''Article'', att_record_id = 1, att_name = ''f'', att_created_at = 0\<rparr>]\<rparr>"

definition disk :: blobs where
  "disk = [''aaaa'' \<mapsto> ''1'', ''bbbb'' \<mapsto> ''2'']"

definition calm_os :: media_env where
  "calm_os = \<lparr>me_keys = (\<lambda>n. Inr (if n = 0 then ''cccc'' else ''dddd'')), me_mkdir = (\<lambda>_. None), me_write = (\<lambda>_. None), me_rm = (\<lambda>_. None),
     me_detect = (\<lambda>_. ''text/plain''), me_checksum = id, me_variant = (\<lambda>_. Inr None)\<rparr>"

lemma gallery_in_place: "in_place disk gallery"
  by (simp add: in_place_def files_ok_def backed_def gallery_def empty_db_def picture_def disk_def ids_ok_def refers_def)



end
