(* ===== verification/FileSweeps.thy ===== *)
theory FileSweeps
  imports Files
begin

text \<open>
  What deletes files: the destruction of an article (\<open>Destroy\<close> of \<open>internal/service/articles/articles.go\<close>)
  and the startup sweep \<open>ReapOrphanFiles\<close> of \<open>internal/jobs/cleanup.go\<close>. The archive tree that goes with
  an article is not modelled.
\<close>

section \<open>Statements that delete an article\<close>

text \<open>The comments of an article in both of its columns, with the answers below them.\<close>

definition comment_of_article :: "int \<Rightarrow> comment \<Rightarrow> bool" where
  "comment_of_article i c =
     (c_commentable_type c = Some ''Article'' \<and> c_commentable_id c = Some i \<or> c_article_id c = Some i)"

definition delete_comments_for_article :: "int \<Rightarrow> unit db_act" where
  "delete_comments_for_article i =
     modify (\<lambda>d. let cs = comments d; ds = doomed (length cs) cs (c_id ` set (filter (comment_of_article i) cs)) in
       d\<lparr>comments := delete_where (\<lambda>c. c_id c \<in> ds) cs\<rparr>)"

definition delete_social_media_posts_by_article_id :: "int \<Rightarrow> unit db_act" where
  "delete_social_media_posts_by_article_id i =
     modify (\<lambda>d. d\<lparr>social_posts := delete_where (\<lambda>x. sp_article_id x = i) (social_posts d)\<rparr>)"

definition delete_article :: "int \<Rightarrow> unit db_act" where
  "delete_article i =
     exec (\<lambda>d. if by_id a_id i (articles d) \<noteq> None \<and>
         (list_ex (\<lambda>c. c_article_id c = Some i) (comments d) \<or> list_ex (\<lambda>x. at_article_id x = i) (article_tags d) \<or>
          list_ex (\<lambda>x. sp_article_id x = i) (social_posts d))
       then Inl fk_error else Inr (d\<lparr>articles := delete_where (\<lambda>a. a_id a = i) (articles d)\<rparr>, ()))"

section \<open>Destroying an article\<close>

definition file_referenced :: "int \<Rightarrow> string \<Rightarrow> bool db_act" where
  "file_referenced i key =
     bindE (count_attachments_for_file i) (\<lambda>a.
     bindE (count_static_files_for_file i) (\<lambda>s.
     bindE (count_file_key_content_references key) (\<lambda>c. ret (0 < a + s + c))))"

fun any_referenced :: "file_row list \<Rightarrow> bool db_act" where
  "any_referenced [] = ret False"
| "any_referenced (v # vs) =
     bindE (file_referenced (f_id v) (f_key v)) (\<lambda>b. if b then ret True else any_referenced vs)"

text \<open>The files of the article one by one; the result collects the rows deleted.\<close>

fun sweep_attached :: "file_row list \<Rightarrow> file_row list \<Rightarrow> file_row list db_act" where
  "sweep_attached [] gone = ret gone"
| "sweep_attached (f # fs) gone =
     bindE (file_referenced (f_id f) (f_key f)) (\<lambda>b.
       if b then sweep_attached fs gone
       else bindE (list_file_variants (f_id f)) (\<lambda>vs.
            bindE (any_referenced vs) (\<lambda>shared.
              if shared then sweep_attached fs gone
              else bindE (each (\<lambda>v. delete_file (f_id v)) vs) (\<lambda>_.
                   bindE (delete_file (f_id f)) (\<lambda>_. sweep_attached fs (gone @ vs @ [f]))))))"

definition destroy_article_tx :: "int \<Rightarrow> file_row list db_act" where
  "destroy_article_tx i =
     bindE (delete_comments_for_article i) (\<lambda>_.
     bindE (delete_article_tags_by_article_id i) (\<lambda>_.
     bindE (delete_social_media_posts_by_article_id i) (\<lambda>_.
     bindE (delete_article i) (\<lambda>_.
     bindE (list_attachment_files_for_record ''Article'' i) (\<lambda>fs.
     bindE (delete_attachments_for_record ''Article'' i) (\<lambda>_.
     bindE (sweep_attached fs []) (\<lambda>gone.
     bindE (cancel_queued_publish_jobs i) (\<lambda>_. ret gone))))))))"

text \<open>The blobs go after the commit.\<close>

definition unlink :: "media_env \<Rightarrow> file_row \<Rightarrow> blobs \<Rightarrow> blobs" where
  "unlink env f bs = (if valid_key (f_key f) then remove_blob env (f_key f) bs else bs)"

definition destroy_article :: "media_env \<Rightarrow> int \<Rightarrow> blobs \<Rightarrow> blobs db_act" where
  "destroy_article env i bs =
     bindE (tx (destroy_article_tx i)) (\<lambda>gone. ret (fold (unlink env) gone bs))"

section \<open>The startup sweep of files\<close>

definition first_error :: "err option \<Rightarrow> err \<Rightarrow> err option" where
  "first_error first e = (case first of None \<Rightarrow> Some e | Some x \<Rightarrow> Some x)"

definition reap_one :: "media_env \<Rightarrow> file_row \<Rightarrow> nat \<times> err option \<times> blobs \<Rightarrow> (nat \<times> err option \<times> blobs) db_act" where
  "reap_one env f = (\<lambda>(n, first, bs).
     bindE (attempt (delete_file (f_id f))) (\<lambda>r. case r of
       Inl e \<Rightarrow> ret (n, first_error first e, bs)
     | Inr _ \<Rightarrow>
         if \<not> valid_key (f_key f) then ret (Suc n, first, bs)
         else (case me_rm env (f_key f) of
             None \<Rightarrow> ret (Suc n, first, bs(f_key f := None))
           | Some e \<Rightarrow> ret (Suc n, first_error first e, bs))))"

fun reap_all :: "media_env \<Rightarrow> file_row list \<Rightarrow> nat \<times> err option \<times> blobs \<Rightarrow> (nat \<times> err option \<times> blobs) db_act" where
  "reap_all env [] s = ret s"
| "reap_all env (f # fs) s = bindE (reap_one env f s) (reap_all env fs)"

text \<open>Whether a variant is mentioned, or could not be checked; with the error.\<close>

fun variants_kept :: "file_row list \<Rightarrow> err option \<Rightarrow> (bool \<times> err option) db_act" where
  "variants_kept [] first = ret (False, first)"
| "variants_kept (v # vs) first =
     bindE (attempt (count_file_key_content_references (f_key v))) (\<lambda>r. case r of
       Inl e \<Rightarrow> ret (True, first_error first e)
     | Inr n \<Rightarrow> if 0 < n then ret (True, first) else variants_kept vs first)"

definition reap_candidate :: "media_env \<Rightarrow> file_row \<Rightarrow> nat \<times> err option \<times> blobs \<Rightarrow> (nat \<times> err option \<times> blobs) db_act" where
  "reap_candidate env c = (\<lambda>(n, first, bs).
     bindE (attempt (count_file_key_content_references (f_key c))) (\<lambda>r. case r of
       Inl e \<Rightarrow> ret (n, first_error first e, bs)
     | Inr refs \<Rightarrow>
         if 0 < refs then ret (n, first, bs)
         else bindE (attempt (list_file_variants (f_id c))) (\<lambda>r. case r of
           Inl e \<Rightarrow> ret (n, first_error first e, bs)
         | Inr vs \<Rightarrow>
             bindE (variants_kept vs first) (\<lambda>(keep, first').
               if keep then ret (n, first', bs) else reap_all env (vs @ [c]) (n, first', bs)))))"

fun reap_loop :: "media_env \<Rightarrow> file_row list \<Rightarrow> nat \<times> err option \<times> blobs \<Rightarrow> (nat \<times> err option \<times> blobs) db_act" where
  "reap_loop env [] s = ret s"
| "reap_loop env (c # cs) s = bindE (reap_candidate env c s) (reap_loop env cs)"

definition reap_orphan_files :: "media_env \<Rightarrow> int \<Rightarrow> blobs \<Rightarrow> (nat \<times> err option \<times> blobs) db_act" where
  "reap_orphan_files env process_started bs =
     bindE (list_orphan_file_candidates (process_started - 24 * 60 * 60)) (\<lambda>cs. reap_loop env cs (0, None, bs))"

section \<open>What a sweep takes away\<close>

text \<open>Only file rows are gone, and only rows of the kind \<open>P\<close>.\<close>

definition files_gone :: "database \<Rightarrow> (file_row \<Rightarrow> bool) \<Rightarrow> database \<Rightarrow> bool" where
  "files_gone d0 P d \<longleftrightarrow> d = d0\<lparr>files := files d\<rparr> \<and> set (files d) \<subseteq> set (files d0) \<and>
     (\<forall>f\<in>set (files d0). f \<in> set (files d) \<or> P f)"

lemma files_gone_refl: "files_gone d P d"
  by (simp add: files_gone_def)

lemma same_references [simp]:
  "content_references key (d\<lparr>files := fs\<rparr>) = content_references key d"
  "attached i (d\<lparr>files := fs\<rparr>) = attached i d" "published_static i (d\<lparr>files := fs\<rparr>) = published_static i d"
  by (simp_all add: content_references_def attached_def published_static_def)

lemma gone_references:
  assumes "files_gone d0 P d"
  shows "content_references key d = content_references key d0" "attached i d = attached i d0"
    "published_static i d = published_static i d0"
proof -
  from assms have "d = d0\<lparr>files := files d\<rparr>" by (simp add: files_gone_def)
  then show "content_references key d = content_references key d0" "attached i d = attached i d0"
    "published_static i d = published_static i d0"
    by (metis same_references)+
qed

lemma delete_file_gone:
  assumes ok0: "files_ok d0" and g: "g \<in> set (files d0)" "P g" and Y: "\<forall>y\<in>Y. f_id y \<noteq> f_id g"
  shows "ensures (\<lambda>d. in_place bs d \<and> files_gone d0 P d \<and> Y \<subseteq> set (files d)) (attempt (delete_file (f_id g)))
    (\<lambda>r d. in_place bs d \<and> files_gone d0 P d \<and> Y \<subseteq> set (files d) \<and>
      (\<forall>u. r = Inr u \<longrightarrow> (\<forall>h\<in>set (files d). f_key h \<noteq> f_key g)))"
  unfolding delete_file_def
proof (rule ensures_attempt_exec)
  fix d d' u
  assume pre: "in_place bs d \<and> files_gone d0 P d \<and> Y \<subseteq> set (files d)"
    and "(let fs = delete_where (\<lambda>f. f_id f = f_id g) (files d) in
       if list_ex (\<lambda>f. f_id f = f_id g) (files d) \<and> (attached (f_id g) d \<or> published_static (f_id g) d \<or> list_ex (variant_row (f_id g)) fs)
       then Inl fk_error else Inr (d\<lparr>files := fs\<rparr>, ())) = Inr (d', u)"
  note del = delete_file_ok [OF pre [THEN conjunct1] this(2)]
  have sub: "set (files d) \<subseteq> set (files d0)" and d: "d = d0\<lparr>files := files d\<rparr>" using pre by (simp_all add: files_gone_def)
  have same_id: "h = g" if "h \<in> set (files d0)" "f_id h = f_id g" for h
    using ok0 g that files_tab.ids_ok_unique [of "files d0"] by (auto simp: files_ok_def)
  have same_key: "h = g" if "h \<in> set (files d0)" "f_key h = f_key g" for h
    using ok0 g that by (auto simp: files_ok_def distinct_map inj_on_def)
  have set': "set (files d') = set (files d) - {g}"
    using sub same_id by (auto simp: del(2))
  have "d' = d0\<lparr>files := files d'\<rparr>" by (subst del(3), subst d) simp
  then have "files_gone d0 P d'" using pre g set' by (auto simp: files_gone_def)
  moreover have "f_key h \<noteq> f_key g" if "h \<in> set (files d')" for h
    using that same_key [of h] sub set' by auto
  ultimately show "in_place bs d' \<and> files_gone d0 P d' \<and> Y \<subseteq> set (files d') \<and>
      (\<forall>v. Inr u = Inr v \<longrightarrow> (\<forall>h\<in>set (files d'). f_key h \<noteq> f_key g))"
    using del(1) pre Y set' by auto
qed auto

definition sweep_inv :: "database \<Rightarrow> (file_row \<Rightarrow> bool) \<Rightarrow> file_row set \<Rightarrow> nat \<times> err option \<times> blobs \<Rightarrow> database \<Rightarrow> bool" where
  "sweep_inv d0 P Y s d \<longleftrightarrow> in_place (snd (snd s)) d \<and> files_gone d0 P d \<and> Y \<subseteq> set (files d)"

lemma reap_one_gone:
  assumes "files_ok d0" "g \<in> set (files d0)" "P g" "\<forall>y\<in>Y. f_id y \<noteq> f_id g"
  shows "ensures (sweep_inv d0 P Y s) (reap_one env g s) (sweep_inv d0 P Y)"
proof -
  obtain n first bs where s: "s = (n, first, bs)" by (cases s) auto
  have less: "in_place (bs(f_key g := None)) d"
    if "in_place bs d" "\<forall>h\<in>set (files d). f_key h \<noteq> f_key g" for d
    using that by (intro in_place_less(2)) auto
  show ?thesis
    unfolding s reap_one_def prod.case sweep_inv_def snd_conv
  proof (rule ensures_bindE [OF delete_file_gone [of d0 g P Y bs, OF assms]])
    fix r :: "err + unit"
    show "ensures (\<lambda>d. in_place bs d \<and> files_gone d0 P d \<and> Y \<subseteq> set (files d) \<and>
        (\<forall>u. r = Inr u \<longrightarrow> (\<forall>h\<in>set (files d). f_key h \<noteq> f_key g)))
      (case r of Inl e \<Rightarrow> ret (n, first_error first e, bs)
       | Inr _ \<Rightarrow> if \<not> valid_key (f_key g) then ret (Suc n, first, bs)
           else (case me_rm env (f_key g) of None \<Rightarrow> ret (Suc n, first, bs(f_key g := None))
             | Some e \<Rightarrow> ret (Suc n, first_error first e, bs)))
      (\<lambda>s d. in_place (snd (snd s)) d \<and> files_gone d0 P d \<and> Y \<subseteq> set (files d))"
      using less by (cases r) (auto split: option.split intro!: ensures_ret)
  qed
qed

lemma reap_all_gone:
  assumes "files_ok d0" "\<forall>g\<in>set fs. g \<in> set (files d0) \<and> P g \<and> (\<forall>y\<in>Y. f_id y \<noteq> f_id g)"
  shows "ensures (sweep_inv d0 P Y s) (reap_all env fs s) (sweep_inv d0 P Y)"
  using assms(2)
proof (induction fs arbitrary: s)
  case Nil then show ?case by (simp add: ensures_ret)
next
  case (Cons g fs)
  then show ?case using reap_one_gone [OF assms(1), of g P Y s env] by (auto intro: ensures_bindE)
qed


lemma ensures_references:
  "ensures (sweep_inv d0 P Y s) (attempt (count_file_key_content_references key))
     (\<lambda>r d. sweep_inv d0 P Y s d \<and> (\<forall>n. r = Inr n \<longrightarrow> n = content_references key d0))"
  unfolding count_file_key_content_references_def query_def
  by (rule ensures_attempt_exec) (auto simp: sweep_inv_def gone_references)

lemma variants_kept_checks:
  "ensures (sweep_inv d0 P Y s) (variants_kept vs first)
     (\<lambda>r d. sweep_inv d0 P Y s d \<and> (\<not> fst r \<longrightarrow> (\<forall>v\<in>set vs. content_references (f_key v) d0 = 0)))"
proof (induction vs arbitrary: first)
  case Nil then show ?case by (simp add: ensures_ret)
next
  case (Cons v vs)
  show ?case
    unfolding variants_kept.simps
  proof (rule ensures_bindE [OF ensures_references])
    fix r :: "err + nat"
    show "ensures (\<lambda>d. sweep_inv d0 P Y s d \<and> (\<forall>n. r = Inr n \<longrightarrow> n = content_references (f_key v) d0))
      (case r of Inl e \<Rightarrow> ret (True, first_error first e) | Inr n \<Rightarrow> if 0 < n then ret (True, first) else variants_kept vs first)
      (\<lambda>r d. sweep_inv d0 P Y s d \<and> (\<not> fst r \<longrightarrow> (\<forall>v\<in>set (v # vs). content_references (f_key v) d0 = 0)))"
    proof (cases r)
      case (Inl e) then show ?thesis by (auto intro: ensures_ret)
    next
      case (Inr n)
      show ?thesis
      proof (cases "content_references (f_key v) d0 = 0")
        case True
        then show ?thesis unfolding Inr sum.case
          by (intro ensures_if) (auto intro: ensures_ret ensures_weaken [OF Cons.IH [of first]])
      next
        case False
        then show ?thesis unfolding Inr sum.case
          by (intro ensures_if) (auto simp: ensures_def ret_def)
      qed
    qed
  qed
qed

definition family :: "database \<Rightarrow> file_row \<Rightarrow> file_row set" where
  "family d c = {g \<in> set (files d). g = c \<or> variant_row (f_id c) g}"

text \<open>Nothing at all refers to the family: no attachment, no static file, no content.\<close>

definition unreferenced_family :: "database \<Rightarrow> file_row \<Rightarrow> bool" where
  "unreferenced_family d c \<longleftrightarrow>
     (\<forall>g\<in>family d c. \<not> attached (f_id g) d \<and> \<not> published_static (f_id g) d \<and> content_references (f_key g) d = 0)"

definition reapable :: "int \<Rightarrow> database \<Rightarrow> file_row \<Rightarrow> bool" where
  "reapable cutoff d f \<longleftrightarrow>
     (\<exists>c\<in>set (files d). f \<in> family d c \<and> f_variant_of c = None \<and> f_created_at c < cutoff \<and> unreferenced_family d c)"

lemma families_apart:
  assumes "files_ok d" "c \<in> set (files d)" "c' \<in> set (files d)" "f_variant_of c = None" "f_variant_of c' = None"
    and "g \<in> family d c" "h \<in> family d c'" "f_id g = f_id h"
  shows "c = c'"
proof -
  have "g = h" using assms files_tab.ids_ok_unique [of "files d" g h] by (auto simp: files_ok_def family_def)
  then show ?thesis
    using assms files_tab.ids_ok_unique [of "files d" c c'] by (auto simp: files_ok_def family_def variant_row_def)
qed

lemma reap_candidate_gone:
  assumes ok: "files_ok d0" and c: "c \<in> set (files d0)" "orphan_candidate cutoff d0 c"
    and apart: "\<forall>y\<in>Y. \<forall>g\<in>family d0 c. f_id y \<noteq> f_id g"
  shows "ensures (sweep_inv d0 (reapable cutoff d0) (Y \<union> family d0 c) s) (reap_candidate env c s) (sweep_inv d0 (reapable cutoff d0) Y)"
proof -
  let ?I = "sweep_inv d0 (reapable cutoff d0)" and ?all = "Y \<union> family d0 c"
  obtain n first bs where s: "s = (n, first, bs)" by (cases s) auto
  have less: "?I Y (k', e', bs) d" if "?I ?all (n, first, bs) d" for d k' e'
    using that by (auto simp: sweep_inv_def)
  have skip: "ensures (\<lambda>d. ?I ?all (n, first, bs) d \<and> A d) (ret (k, e, bs)) (?I Y)" for k e A
    by (rule ensures_ret) (auto intro: less)
  have skip0: "ensures (?I ?all (n, first, bs)) (ret (k, e, bs)) (?I Y)" for k e
    by (rule ensures_ret) (rule less)
  have absurd: "ensures (\<lambda>d. ?I ?all (n, first, bs) d \<and> B) m (?I Y)" if "B \<Longrightarrow> ensures (?I ?all (n, first, bs)) m (?I Y)" for B m
    using that unfolding ensures_def by blast
  have reap: "ensures (?I ?all (n, first, bs)) (reap_all env (vs @ [c]) (n, e, bs)) (?I Y)"
    if clean: "\<forall>g\<in>family d0 c. content_references (f_key g) d0 = 0" and vs: "set vs = family d0 c - {c}" for vs e
  proof (rule ensures_weaken [OF reap_all_gone [OF ok]])
    have "unreferenced_family d0 c"
      using c(2) clean by (auto simp: unreferenced_family_def orphan_candidate_def family_def list_ex_iff)
    then have "reapable cutoff d0 g" if "g \<in> family d0 c" for g
      using that c by (auto simp: reapable_def orphan_candidate_def)
    moreover have "set (vs @ [c]) = family d0 c" using vs c(1) by (auto simp: family_def)
    ultimately show "\<forall>g\<in>set (vs @ [c]). g \<in> set (files d0) \<and> reapable cutoff d0 g \<and> (\<forall>y\<in>Y. f_id y \<noteq> f_id g)"
      using apart by (auto simp: family_def)
  qed (auto intro: less)
  have kept: "ensures (?I ?all (n, first, bs)) (bindE (variants_kept vs first) (\<lambda>(keep, first').
      if keep then ret (n, first', bs) else reap_all env (vs @ [c]) (n, first', bs))) (?I Y)"
    if "content_references (f_key c) d0 = 0" "set vs = family d0 c - {c}" for vs
  proof (rule ensures_bindE [OF variants_kept_checks])
    fix x :: "bool \<times> err option"
    show "ensures (\<lambda>d. ?I ?all (n, first, bs) d \<and> (\<not> fst x \<longrightarrow> (\<forall>v\<in>set vs. content_references (f_key v) d0 = 0)))
      (case x of (keep, first') \<Rightarrow> if keep then ret (n, first', bs) else reap_all env (vs @ [c]) (n, first', bs)) (?I Y)"
      using that by (cases x) (auto intro!: absurd reap intro: ensures_weaken [OF skip])
  qed
  have list: "ensures (\<lambda>d. ?I ?all (n, first, bs) d \<and> B) (attempt (list_file_variants (f_id c)))
      (\<lambda>r d. ?I ?all (n, first, bs) d \<and> B \<and> (\<forall>vs. r = Inr vs \<longrightarrow> set vs = family d0 c - {c}))" for B
    unfolding list_file_variants_def query_def
    by (rule ensures_attempt_exec)
      (use c(2) in \<open>auto simp: sweep_inv_def files_gone_def family_def variant_row_def orphan_candidate_def\<close>)
  have variants: "ensures (\<lambda>d. ?I ?all (n, first, bs) d \<and> content_references (f_key c) d0 = 0)
      (bindE (attempt (list_file_variants (f_id c))) (\<lambda>r. case r of
         Inl e \<Rightarrow> ret (n, first_error first e, bs)
       | Inr vs \<Rightarrow> bindE (variants_kept vs first) (\<lambda>(keep, first').
           if keep then ret (n, first', bs) else reap_all env (vs @ [c]) (n, first', bs)))) (?I Y)"
    by (rule ensures_bindE [OF list]) (auto split: sum.split intro: skip skip0 intro!: absurd kept)
  show ?thesis
    unfolding s reap_candidate_def prod.case
    by (rule ensures_bindE [OF ensures_references])
      (auto split: sum.split intro: skip skip0 ensures_weaken [OF variants])
qed

lemma reap_loop_gone:
  assumes ok: "files_ok d0" and cs: "distinct cs" "\<forall>c\<in>set cs. c \<in> set (files d0) \<and> orphan_candidate cutoff d0 c"
  shows "ensures (sweep_inv d0 (reapable cutoff d0) (\<Union> (family d0 ` set cs)) s) (reap_loop env cs s)
    (sweep_inv d0 (reapable cutoff d0) {})"
  using cs
proof (induction cs arbitrary: s)
  case Nil then show ?case by (simp add: ensures_ret)
next
  case (Cons c cs)
  let ?Y = "\<Union> (family d0 ` set cs)"
  have c: "c \<in> set (files d0)" "orphan_candidate cutoff d0 c" using Cons.prems by auto
  have "f_id y \<noteq> f_id g" if "y \<in> family d0 c'" "c' \<in> set cs" "g \<in> family d0 c" for y g c'
    using families_apart [OF ok c(1), of c' g y] Cons.prems c(2) that by (auto simp: orphan_candidate_def)
  then have step: "ensures (sweep_inv d0 (reapable cutoff d0) (?Y \<union> family d0 c) s) (reap_candidate env c s)
      (sweep_inv d0 (reapable cutoff d0) ?Y)"
    using c by (intro reap_candidate_gone [OF ok]) blast+
  then show ?case using Cons by (auto simp: Un_commute intro: ensures_bindE)
qed

lemma calm_reap [calm_rules]: "calm (reap_loop env cs s)"
proof -
  have one: "calm (reap_one env g s)" for g s
    unfolding reap_one_def by (intro calm_rules)
  have all: "calm (reap_all env fs s)" for fs s
    by (induction fs arbitrary: s) (auto intro!: calm_rules one)
  have kept: "calm (variants_kept vs first)" for vs first
    by (induction vs arbitrary: first) (auto intro!: calm_rules)
  have "calm (reap_candidate env c s)" for c s
    unfolding reap_candidate_def by (intro calm_rules kept all)
  then show ?thesis by (induction cs arbitrary: s) (auto intro!: calm_rules)
qed

text \<open>
  C25: The startup sweep takes no file anybody refers to. Whatever statements and removals fail on the way,
  every file row that is gone belonged to a family (an original with its variants) created more than a day
  before the process, with no attachment, no static file and no mention of any of its keys in an article, a
  page, a comment, the settings or a redirect. Nothing else of the database changed, the keys still hold and
  every row that is left has its blob.
\<close>

theorem reap_takes_only_orphans:
  assumes "in_place bs (wdb w)"
  shows "wdb (snd (reap_orphan_files env started bs w)) = (wdb w)\<lparr>files := files (wdb (snd (reap_orphan_files env started bs w)))\<rparr> \<and>
    (\<forall>f\<in>set (files (wdb w)). f \<in> set (files (wdb (snd (reap_orphan_files env started bs w)))) \<or>
        reapable (started - 24 * 60 * 60) (wdb w) f) \<and>
    (case reap_orphan_files env started bs w of
       (Inl e, w') \<Rightarrow> wdb w' = wdb w
     | (Inr (n, first, bs'), w') \<Rightarrow> in_place bs' (wdb w'))"
proof -
  let ?cut = "started - 24 * 60 * 60" and ?d = "wdb w"
  let ?I = "sweep_inv ?d (reapable ?cut ?d)"
  have ok: "files_ok ?d" using assms by (simp add: in_place_def)
  obtain r w' where run: "reap_orphan_files env started bs w = (r, w')" by fastforce
  show ?thesis
  proof (cases r)
    case (Inl e)
    with run have "list_orphan_file_candidates ?cut w = (Inl e, w')"
      unfolding reap_orphan_files_def by (intro bindE_calm_error [OF calm_reap]) simp
    then have "wdb w' = ?d"
      using query_keeps [of "\<lambda>d. filter (orphan_candidate ?cut d) (files d)" w] by (simp add: list_orphan_file_candidates_def)
    then show ?thesis using run Inl by simp
  next
    case (Inr x)
    obtain cs w1 where q: "list_orphan_file_candidates ?cut w = (Inr cs, w1)" and loop: "reap_loop env cs (0, None, bs) w1 = (Inr x, w')"
      using run [unfolded Inr reap_orphan_files_def] by (rule bindE_ok)
    have cs: "cs = filter (orphan_candidate ?cut ?d) (files ?d)" and w1: "wdb w1 = ?d"
      using query_ok [OF q [unfolded list_orphan_file_candidates_def]] by simp_all
    have "distinct (files ?d)" using ok files_tab.ids_ok_distinct by (auto simp: files_ok_def distinct_map)
    then have "ensures (?I (\<Union> (family ?d ` set cs)) (0, None, bs)) (reap_loop env cs (0, None, bs)) (?I {})"
      by (intro reap_loop_gone [OF ok]) (auto simp: cs)
    moreover have "?I (\<Union> (family ?d ` set cs)) (0, None, bs) (wdb w1)"
      using assms by (auto simp: w1 sweep_inv_def files_gone_refl family_def)
    ultimately have "?I {} x (wdb w')" using loop by (rule ensuresD)
    then show ?thesis using run Inr by (cases x) (simp add: sweep_inv_def files_gone_def)
  qed
qed

section \<open>Destroying an article\<close>

definition unreferenced :: "database \<Rightarrow> file_row \<Rightarrow> bool" where
  "unreferenced d g \<longleftrightarrow> \<not> attached (f_id g) d \<and> \<not> published_static (f_id g) d \<and> content_references (f_key g) d = 0"

lemma unreferenced_gone: "files_gone d0 P d \<Longrightarrow> unreferenced d f = unreferenced d0 f"
  by (simp add: unreferenced_def gone_references)

text \<open>The rows deleted so far are \<open>gone\<close>; the others are in place.\<close>

definition destroy_inv :: "database \<Rightarrow> (file_row \<Rightarrow> bool) \<Rightarrow> blobs \<Rightarrow> file_row list \<Rightarrow> database \<Rightarrow> bool" where
  "destroy_inv d1 P bs gone d \<longleftrightarrow> in_place bs d \<and> files_gone d1 P d \<and> set gone \<subseteq> set (files d1) \<and> set gone \<inter> set (files d) = {}"

lemma counted:
  "count_where (\<lambda>a. att_file_id a = i) (attachments d) = 0 \<longleftrightarrow> \<not> attached i d"
  "count_where (\<lambda>s. sf_file_id s = i) (static_files d) = 0 \<longleftrightarrow> \<not> published_static i d"
  by (simp_all add: count_where_zero attached_def published_static_def list_ex_iff)

lemma ensures_file_referenced:
  "ensures (destroy_inv d1 P bs gone) (file_referenced (f_id g) (f_key g))
     (\<lambda>b d. destroy_inv d1 P bs gone d \<and> (\<not> b \<longrightarrow> unreferenced d1 g))"
proof -
  let ?I = "destroy_inv d1 P bs gone"
  have a: "ensures ?I (count_attachments_for_file (f_id g)) (\<lambda>n d. ?I d \<and> (n = 0 \<longrightarrow> \<not> attached (f_id g) d1))"
    unfolding count_attachments_for_file_def
    by (rule ensures_query) (auto simp: destroy_inv_def gone_references counted)
  have s: "ensures (\<lambda>d. ?I d \<and> A) (count_static_files_for_file (f_id g))
      (\<lambda>n d. ?I d \<and> A \<and> (n = 0 \<longrightarrow> \<not> published_static (f_id g) d1))" for A
    unfolding count_static_files_for_file_def
    by (rule ensures_query) (auto simp: destroy_inv_def gone_references counted)
  have c: "ensures (\<lambda>d. ?I d \<and> A) (count_file_key_content_references (f_key g))
      (\<lambda>n d. ?I d \<and> A \<and> n = content_references (f_key g) d1)" for A
    unfolding count_file_key_content_references_def
    by (rule ensures_query) (auto simp: destroy_inv_def gone_references)
  show ?thesis
    unfolding file_referenced_def
    by (rule ensures_bindE [OF a], rule ensures_bindE [OF s], rule ensures_bindE [OF c], rule ensures_ret)
      (auto simp: unreferenced_def)
qed

lemma ensures_any_referenced:
  "ensures (destroy_inv d1 P bs gone) (any_referenced vs)
     (\<lambda>b d. destroy_inv d1 P bs gone d \<and> (\<not> b \<longrightarrow> (\<forall>v\<in>set vs. unreferenced d1 v)))"
proof (induction vs)
  case Nil then show ?case by (simp add: ensures_ret)
next
  case (Cons v vs)
  show ?case
    unfolding any_referenced.simps
  proof (rule ensures_bindE [OF ensures_file_referenced], rule ensures_if)
    fix b
    show "ensures (\<lambda>d. destroy_inv d1 P bs gone d \<and> (\<not> b \<longrightarrow> unreferenced d1 v)) (ret True)
      (\<lambda>b d. destroy_inv d1 P bs gone d \<and> (\<not> b \<longrightarrow> (\<forall>v\<in>set (v # vs). unreferenced d1 v)))" by (rule ensures_ret) simp
    assume b: "\<not> b"
    show "ensures (\<lambda>d. destroy_inv d1 P bs gone d \<and> (\<not> b \<longrightarrow> unreferenced d1 v)) (any_referenced vs)
      (\<lambda>b d. destroy_inv d1 P bs gone d \<and> (\<not> b \<longrightarrow> (\<forall>v\<in>set (v # vs). unreferenced d1 v)))"
      using b Cons.IH unfolding ensures_def by force
  qed
qed

lemma delete_file_destroy:
  assumes ok: "files_ok d1" and g: "g \<in> set (files d1)" "P g"
  shows "ensures (destroy_inv d1 P bs gone) (delete_file (f_id g)) (\<lambda>_. destroy_inv d1 P bs (gone @ [g]))"
proof -
  let ?G = "\<lambda>d. set gone \<subseteq> set (files d1) \<and> set gone \<inter> set (files d) = {}"
  have "pres ?G (delete_file (f_id g))"
    unfolding delete_file_def by (rule pres_exec) (auto simp: Let_def split: if_splits)
  then have "ensures (destroy_inv d1 P bs gone) (delete_file (f_id g)) (\<lambda>_. ?G)"
    by (rule ensures_weaken [OF ensures_pres]) (auto simp: destroy_inv_def)
  moreover have "ensures (destroy_inv d1 P bs gone) (delete_file (f_id g)) (\<lambda>_ d. in_place bs d \<and> files_gone d1 P d \<and>
      (\<forall>h\<in>set (files d). f_key h \<noteq> f_key g))"
    by (rule ensures_weaken [OF ensures_unattempt [OF delete_file_gone [where P = P and g = g and bs = bs and Y = "{}", OF ok g]]])
      (auto simp: destroy_inv_def)
  ultimately show ?thesis
    by (rule ensures_weaken [OF ensures_conj]) (use g in \<open>auto simp: destroy_inv_def\<close>)
qed

lemma delete_files_destroy:
  assumes ok: "files_ok d1" and "\<forall>g\<in>set vs. g \<in> set (files d1) \<and> P g"
  shows "ensures (destroy_inv d1 P bs gone) (each (\<lambda>v. delete_file (f_id v)) vs) (\<lambda>_. destroy_inv d1 P bs (gone @ vs))"
  using assms(2)
proof (induction vs arbitrary: gone)
  case Nil then show ?case by (simp add: ensures_ret)
next
  case (Cons v vs)
  then show ?case
    using Cons.IH [of "gone @ [v]"] by (auto intro: ensures_bindE [OF delete_file_destroy [OF ok]])
qed

text \<open>What a destruction may take: a file of the article, or a variant of one, that nothing refers to any more.\<close>

definition takable :: "database \<Rightarrow> file_row set \<Rightarrow> file_row \<Rightarrow> bool" where
  "takable d1 own g \<longleftrightarrow> unreferenced d1 g \<and> (\<exists>f\<in>own. g = f \<or> variant_row (f_id f) g)"

lemma sweep_attached_gone:
  assumes ok: "files_ok d1" and fs: "set fs \<subseteq> own" "own \<subseteq> set (files d1)"
  shows "ensures (destroy_inv d1 (takable d1 own) bs gone) (sweep_attached fs gone)
    (\<lambda>gone. destroy_inv d1 (takable d1 own) bs gone)"
  using fs(1)
proof (induction fs arbitrary: gone)
  case Nil then show ?case by (simp add: ensures_ret)
next
  case (Cons f fs)
  let ?I = "destroy_inv d1 (takable d1 own) bs"
  have f: "f \<in> own" "f \<in> set (files d1)" using Cons.prems fs(2) by auto
  have IH: "ensures (\<lambda>d. ?I gone d \<and> A) (sweep_attached fs gone) (\<lambda>gone. ?I gone)" for gone A
    using Cons by (intro ensures_weaken [OF Cons.IH]) auto
  have absurd: "ensures (\<lambda>d. ?I gone d \<and> B) m (\<lambda>gone. ?I gone)" if "B \<Longrightarrow> ensures (?I gone) m (\<lambda>gone. ?I gone)"
    for B and m :: "file_row list db_act"
    using that unfolding ensures_def by blast
  have take: "ensures (?I gone) (bindE (each (\<lambda>v. delete_file (f_id v)) vs) (\<lambda>_.
      bindE (delete_file (f_id f)) (\<lambda>_. sweep_attached fs (gone @ vs @ [f])))) (\<lambda>gone. ?I gone)"
    if "unreferenced d1 f" "\<forall>v\<in>set vs. unreferenced d1 v \<and> v \<in> set (files d1) \<and> variant_row (f_id f) v" for vs
  proof (rule ensures_bindE [OF delete_files_destroy [OF ok]])
    show "\<forall>g\<in>set vs. g \<in> set (files d1) \<and> takable d1 own g" using that f by (auto simp: takable_def)
    have "takable d1 own f" using that f by (auto simp: takable_def)
    then show "ensures (?I (gone @ vs)) (bindE (delete_file (f_id f)) (\<lambda>_. sweep_attached fs (gone @ vs @ [f]))) (\<lambda>gone. ?I gone)"
      using IH [of "gone @ vs @ [f]" True] ensures_bindE [OF delete_file_destroy [OF ok f(2), of "takable d1 own" bs "gone @ vs"]] by simp
  qed
  have list: "ensures (\<lambda>d. ?I gone d \<and> B) (list_file_variants (f_id f))
      (\<lambda>vs d. ?I gone d \<and> (B \<and> (\<forall>v\<in>set vs. v \<in> set (files d1) \<and> variant_row (f_id f) v)))" for B
    unfolding list_file_variants_def by (rule ensures_query) (auto simp: destroy_inv_def files_gone_def)
  have any: "ensures (\<lambda>d. ?I gone d \<and> B) (any_referenced vs) (\<lambda>b d. ?I gone d \<and> (B \<and> (\<not> b \<longrightarrow> (\<forall>v\<in>set vs. unreferenced d1 v))))" for B vs
    using ensures_any_referenced [of d1 "takable d1 own" bs gone vs] unfolding ensures_def by blast
  show ?case
    unfolding sweep_attached.simps
    by (rule ensures_bindE [OF ensures_file_referenced], rule ensures_if, rule IH,
        rule ensures_bindE [OF list], rule ensures_bindE [OF any], rule ensures_if, rule IH)
      (auto intro!: absurd take)
qed

lemma doomed_grows: "ids \<subseteq> doomed n cs ids"
proof (induction n arbitrary: ids)
  case (Suc n)
  have "ids \<subseteq> with_answers cs ids" by (simp add: with_answers_def)
  also have "\<dots> \<subseteq> doomed n cs (with_answers cs ids)" by (rule Suc.IH)
  finally show ?case by simp
qed simp

text \<open>The database without the article and its attachments, before the sweep of the files.\<close>

definition without_article :: "int \<Rightarrow> database \<Rightarrow> database" where
  "without_article i d =
     d\<lparr>comments := (let cs = comments d; ds = doomed (length cs) cs (c_id ` set (filter (comment_of_article i) cs)) in
         delete_where (\<lambda>c. c_id c \<in> ds) cs),
       article_tags := delete_where (\<lambda>x. at_article_id x = i) (article_tags d),
       social_posts := delete_where (\<lambda>x. sp_article_id x = i) (social_posts d),
       articles := delete_where (\<lambda>a. a_id a = i) (articles d),
       attachments := delete_where (\<lambda>a. att_record_type a = ''Article'' \<and> att_record_id a = i) (attachments d)\<rparr>"

definition article_files :: "int \<Rightarrow> database \<Rightarrow> file_row set" where
  "article_files i d = {f \<in> set (files d). \<exists>a\<in>set (attachments d).
     att_record_type a = ''Article'' \<and> att_record_id a = i \<and> att_file_id a = f_id f}"

lemma without_article_in_place: "in_place bs d \<Longrightarrow> in_place bs (without_article i d)"
  by (auto simp: in_place_def files_ok_def backed_def without_article_def)

text \<open>What is left: the article is out of every table, and the files that are gone are taken rightly.\<close>

definition article_destroyed :: "int \<Rightarrow> database \<Rightarrow> database \<Rightarrow> bool" where
  "article_destroyed i d d' \<longleftrightarrow>
     d' = (without_article i d)\<lparr>files := files d', job_runs := job_runs d', activity_logs := activity_logs d'\<rparr> \<and>
     queued_for i d' = [] \<and> set (files d') \<subseteq> set (files d) \<and>
     (\<forall>f\<in>set (files d) - set (files d'). unreferenced d' f \<and> (\<exists>g\<in>article_files i d. f = g \<or> variant_row (f_id g) f))"

lemma destroy_tx_ensures:
  assumes ok: "in_place bs d0"
  shows "ensures (\<lambda>d. d = d0) (destroy_article_tx i) (\<lambda>gone d. in_place bs d \<and> article_destroyed i d0 d \<and>
    set gone \<subseteq> set (files d0) \<and> set gone \<inter> set (files d) = {})"
proof -
  define d1 where "d1 = without_article i d0"
  define fs where "fs = List.map_filter (\<lambda>a. by_id f_id (att_file_id a) (files d0))
    (filter (\<lambda>a. att_record_type a = ''Article'' \<and> att_record_id a = i) (attachments d0))"
  have ok1: "in_place bs d1" using ok by (simp add: d1_def without_article_in_place)
  have files1: "files d1 = files d0" by (simp add: d1_def without_article_def)
  let ?own = "article_files i d0" and ?d = "d1\<lparr>attachments := attachments d0\<rparr>"
  let ?I = "destroy_inv d1 (takable d1 ?own) bs"
  have own: "set fs \<subseteq> ?own" "?own \<subseteq> set (files d1)"
    by (auto simp: fs_def article_files_def files1 in_map_filter dest!: files_tab.by_id_Some) blast
  have art: "ensures (\<lambda>d. d = x) (delete_article i) (\<lambda>_ d. d = x\<lparr>articles := delete_where (\<lambda>a. a_id a = i) (articles x)\<rparr>)" for x
    unfolding delete_article_def by (rule ensures_exec) (auto split: if_splits)
  have list: "ensures (\<lambda>d. d = ?d) (list_attachment_files_for_record ''Article'' i) (\<lambda>x d. d = ?d \<and> x = fs)"
    unfolding list_attachment_files_for_record_def by (rule ensures_query) (simp add: fs_def files1)
  have atts: "ensures (\<lambda>d. d = ?d \<and> A) (delete_attachments_for_record ''Article'' i) (\<lambda>_ d. d = d1 \<and> A)" for A
    unfolding delete_attachments_for_record_def by (rule ensures_modify) (auto simp: d1_def without_article_def Let_def)
  have sweep: "ensures (\<lambda>d. d = d1 \<and> x = fs) (sweep_attached x []) (\<lambda>gone. ?I gone)" for x
  proof (cases "x = fs")
    case True
    have "ensures (?I []) (sweep_attached fs []) (\<lambda>gone. ?I gone)"
      using ok1 own by (intro sweep_attached_gone) (auto simp: in_place_def)
    then show ?thesis unfolding True by (rule ensures_weaken) (use ok1 in \<open>auto simp: destroy_inv_def files_gone_refl\<close>)
  qed (simp add: ensures_def)
  have frame: "article_destroyed i d0 (d\<lparr>job_runs := rs, activity_logs := ls\<rparr>) \<and> in_place bs (d\<lparr>job_runs := rs, activity_logs := ls\<rparr>) \<and>
      set gone \<subseteq> set (files d0) \<and> set gone \<inter> set (files d) = {}"
    if I: "?I gone d" and q: "queued_for i (d\<lparr>job_runs := rs, activity_logs := ls\<rparr>) = []" for gone d rs ls
  proof -
    let ?d' = "d\<lparr>job_runs := rs, activity_logs := ls\<rparr>"
    have d: "d = d1\<lparr>files := files d\<rparr>" and sub: "set (files d) \<subseteq> set (files d1)" and gone: "f \<in> set (files d1) \<Longrightarrow> f \<in> set (files d) \<or> takable d1 ?own f" for f
      using I by (auto simp: destroy_inv_def files_gone_def)
    have "unreferenced ?d' f = unreferenced d f" for f
      by (simp add: unreferenced_def attached_def published_static_def content_references_def)
    moreover have "unreferenced d f = unreferenced d1 f" for f
      by (rule unreferenced_gone [where P = "takable d1 ?own"]) (use I in \<open>simp add: destroy_inv_def\<close>)
    moreover have "?d' = d1\<lparr>files := files ?d', job_runs := job_runs ?d', activity_logs := activity_logs ?d'\<rparr>"
      by (subst d) simp
    moreover have "in_place bs ?d'" using I by (simp add: destroy_inv_def in_place_def)
    moreover have "takable d1 ?own f" if "f \<in> set (files d1) - set (files d)" for f using gone [of f] that by blast
    ultimately show ?thesis
      using q sub I unfolding article_destroyed_def d1_def [symmetric] files1 [symmetric] takable_def destroy_inv_def by simp
  qed
  let ?J = "\<lambda>gone d. \<exists>d2 rs ls. ?I gone d2 \<and> d = d2\<lparr>job_runs := rs, activity_logs := ls\<rparr>"
  have start: "?I gone d \<Longrightarrow> ?J gone d" for gone d
    by (intro exI [of _ d] exI [of _ "job_runs d"] exI [of _ "activity_logs d"]) simp
  have cancel: "ensures (?J gone) (cancel_queued_publish_jobs i) (\<lambda>_ d. ?J gone d \<and> queued_for i d = [])" for gone
    by (intro ensures_conj ensures_cancel ensures_pres pres_cancel_jobs) (fastforce simp: delete_jobs_def)
  have "ensures (\<lambda>d. d = d0) (destroy_article_tx i) (\<lambda>gone d. ?J gone d \<and> queued_for i d = [])"
    unfolding destroy_article_tx_def delete_comments_for_article_def delete_article_tags_by_article_id_def
      delete_social_media_posts_by_article_id_def
    apply (rule ensures_bindE [OF ensures_modify_at])
    apply (rule ensures_bindE [OF ensures_modify_at])
    apply (rule ensures_bindE [OF ensures_modify_at])
    apply (rule ensures_bindE [OF art])
    apply (rule ensures_bindE [OF ensures_weaken [OF list]])
      apply (simp add: d1_def without_article_def Let_def)
     apply assumption
    apply (rule ensures_bindE [OF atts])
    apply (rule ensures_bindE [OF sweep])
    apply (rule ensures_bindE [OF ensures_weaken [OF cancel]])
     apply (erule start)
     apply assumption
    by (rule ensures_ret)
  then show ?thesis
  proof (rule ensures_weaken)
    fix gone d assume "?J gone d \<and> queued_for i d = []"
    then obtain d2 rs ls where "?I gone d2" "d = d2\<lparr>job_runs := rs, activity_logs := ls\<rparr>" "queued_for i d = []" by blast
    with frame [where gone = gone and d = d2 and rs = rs and ls = ls]
    show "in_place bs d \<and> article_destroyed i d0 d \<and> set gone \<subseteq> set (files d0) \<and> set gone \<inter> set (files d) = {}"
      by simp
  qed
qed

lemma fold_unlink_in_place:
  "in_place bs d \<Longrightarrow> (\<And>g h. g \<in> set gone \<Longrightarrow> h \<in> set (files d) \<Longrightarrow> f_key h \<noteq> f_key g) \<Longrightarrow> in_place (fold (unlink env) gone bs) d"
proof (induction gone arbitrary: bs)
  case (Cons g gone)
  have "in_place (unlink env g bs) d"
    using Cons.prems by (auto simp: unlink_def intro: in_place_less(1))
  then show ?case using Cons by simp
qed simp

lemma article_destroyed_same:
  assumes "article_destroyed i d d'"
  shows "articles d' = articles (without_article i d)" "comments d' = comments (without_article i d)"
proof -
  have d': "d' = (without_article i d)\<lparr>files := files d', job_runs := job_runs d', activity_logs := activity_logs d'\<rparr>"
    using assms by (simp add: article_destroyed_def)
  show "articles d' = articles (without_article i d)" by (subst d') simp
  show "comments d' = comments (without_article i d)" by (subst d') simp
qed

text \<open>
  Destroying an article destroys it and nothing else. When the call fails, neither the database nor a
  blob has changed. When it succeeds, the article, its comments with the answers below them, its tags, its
  social posts and its attachments are gone and no publish job of it is queued; of the files, only rows of
  its own attachments or their variants are gone, none of which anything left in the database refers to; and
  every row that is left still has its blob.
\<close>

theorem destroy_article_effect:
  assumes "in_place bs (wdb w)" "destroy_article env i bs w = (r, w')"
  shows "case r of
      Inl e \<Rightarrow> wdb w' = wdb w
    | Inr bs' \<Rightarrow> in_place bs' (wdb w') \<and> article_destroyed i (wdb w) (wdb w') \<and>
        by_id a_id i (articles (wdb w')) = None \<and> \<not> list_ex (comment_of_article i) (comments (wdb w'))"
proof (cases r)
  case (Inl e)
  then have "tx (destroy_article_tx i) w = (Inl e, w')"
    using assms(2) unfolding destroy_article_def by (intro bindE_calm_error) (auto intro: calm_rules)
  then show ?thesis using Inl tx_error_keeps [of "destroy_article_tx i" w e w'] by simp
next
  case (Inr bs')
  let ?d = "wdb w"
  obtain gone w1 where run: "tx (destroy_article_tx i) w = (Inr gone, w1)" and bs': "bs' = fold (unlink env) gone bs" "w' = w1"
    using assms(2) Inr unfolding destroy_article_def by (auto simp: ret_def elim: bindE_ok)
  have "ensures (\<lambda>d. d = ?d) (tx (destroy_article_tx i)) (\<lambda>gone d. in_place bs d \<and> article_destroyed i ?d d \<and>
      set gone \<subseteq> set (files ?d) \<and> set gone \<inter> set (files d) = {})"
    unfolding tx_def
    by (rule ensures_in_tx, rule ensures_bindE [OF destroy_tx_ensures [OF assms(1)]], rule ensures_ret) simp
  from ensuresD [OF this refl run]
  have d': "in_place bs (wdb w1)" "article_destroyed i ?d (wdb w1)" "set gone \<subseteq> set (files ?d)" "set gone \<inter> set (files (wdb w1)) = {}"
    by auto
  have "f_key h \<noteq> f_key g" if "g \<in> set gone" "h \<in> set (files (wdb w1))" for g h
  proof
    assume "f_key h = f_key g"
    moreover have "g \<in> set (files ?d)" "h \<in> set (files ?d)" using that d'(2,3) by (auto simp: article_destroyed_def)
    ultimately have "h = g" using assms(1) by (auto simp: in_place_def files_ok_def distinct_map inj_on_def)
    then show False using that d'(4) by auto
  qed
  then have "in_place bs' (wdb w')" using fold_unlink_in_place [OF d'(1), of gone env] bs' by simp
  moreover have "articles (wdb w') = articles (without_article i ?d)" "comments (wdb w') = comments (without_article i ?d)"
    using article_destroyed_same [OF d'(2)] bs'(2) by simp_all
  then have "by_id a_id i (articles (wdb w')) = None" "\<not> list_ex (comment_of_article i) (comments (wdb w'))"
    using doomed_grows [of "c_id ` set (filter (comment_of_article i) (comments ?d))" "length (comments ?d)" "comments ?d"]
    by (auto simp: without_article_def Let_def articles_tab.by_id_None list_ex_iff)
  ultimately show ?thesis using Inr d'(2) bs'(2) by simp
qed

section \<open>Examples\<close>

lemma bbbb_mentioned: "mentions ''bbbb'' (Some ''/files/bbbb'')"
  by (simp add: mentions_def sql_lower_def ascii_lower_def has_prefix_def)

theorem reap_takes_only_orphans_witness:
  "picture 2 ''bbbb'' \<in> set (files (wdb (snd (reap_orphan_files calm_os 100000 disk \<lparr>wdb = gallery, wfaults = [None, Some (ErrDriver ''busy'')]\<rparr>))))"
proof -
  let ?w = "\<lparr>wdb = gallery, wfaults = [None, Some (ErrDriver ''busy'')]\<rparr>"
  have "content_references ''bbbb'' gallery \<noteq> 0"
    using bbbb_mentioned by (simp add: content_references_def gallery_def post_def count_where_def)
  moreover have "content_references (f_key (picture 2 ''bbbb'')) gallery = 0" if "reapable cut gallery (picture 2 ''bbbb'')" for cut
    using that unfolding reapable_def unreferenced_family_def by blast
  ultimately have "\<not> reapable (100000 - 24 * 60 * 60) gallery (picture 2 ''bbbb'')"
    by (auto simp: picture_def)
  moreover have "picture 2 ''bbbb'' \<in> set (files gallery)" by (simp add: gallery_def)
  ultimately show ?thesis
    using reap_takes_only_orphans [of disk ?w calm_os 100000] gallery_in_place by auto
qed

theorem destroy_article_effect_witness:
  "\<exists>bs' w'. destroy_article calm_os 1 disk \<lparr>wdb = gallery, wfaults = []\<rparr> = (Inr bs', w') \<and> article_destroyed 1 gallery (wdb w') \<and>
     by_id a_id 1 (articles (wdb w')) = None"
proof -
  let ?w = "\<lparr>wdb = gallery, wfaults = []\<rparr>"
  define run where "run = destroy_article calm_os 1 disk ?w"
  have "\<exists>bs'. fst run = Inr bs'"
    unfolding run_def destroy_article_def destroy_article_tx_def tx_def
    by (simp add: run_simps gallery_def empty_db_def delete_comments_for_article_def delete_article_tags_by_article_id_def
        delete_social_media_posts_by_article_id_def delete_article_def list_attachment_files_for_record_def
        delete_attachments_for_record_def file_referenced_def count_attachments_for_file_def count_static_files_for_file_def
        count_file_key_content_references_def list_file_variants_def delete_file_def cancel_queued_publish_jobs_def
        list_queued_job_runs_by_kind_def Let_def List.map_filter_simps by_id_def post_def picture_def delete_where_def count_where_def
        content_references_def attached_def published_static_def variant_row_def)
  then obtain bs' w' where run: "run = (Inr bs', w')" by (metis prod.collapse)
  from destroy_article_effect [OF _ this [unfolded run_def]] gallery_in_place run show ?thesis by (auto simp: run_def)
qed


end
