(* ===== verification/Newsletter.thy ===== *)
theory Newsletter
  imports Subscribers Articles Comments SiteSettings
begin

text \<open>
  The mail handlers of the worker (\<open>internal/service/newsletter\<close>: \<open>send.go\<close>, \<open>native.go\<close>, \<open>listmonk.go\<close> and the
  configuration of \<open>mailer.go\<close>). A handler answers what it tried to deliver, in order and with the outcome of each
  attempt, and the error it returns to the worker; an error of the database before the first attempt is an error
  of the action. Rendering, SMTP and HTTP are the parameters of \<open>mail_env\<close>.
\<close>

section \<open>Messages and configuration\<close>

record smtp_config =
  sc_address :: string
  sc_port :: int
  sc_domain :: string
  sc_user_name :: string
  sc_password :: string
  sc_authentication :: string
  sc_starttls :: bool
  sc_from_email :: string

record message =
  m_to :: string
  m_from :: string
  m_subject :: string
  m_html :: string
  m_text :: string

record article_email =
  ae_title :: string
  ae_description :: string
  ae_has_source :: bool
  ae_source_author :: string
  ae_source_content :: string
  ae_source_url :: string
  ae_content_html :: string
  ae_content_text :: string
  ae_article_url :: string
  ae_unsubscribe_url :: string

record reply_email =
  re_author :: string
  re_content :: string
  re_parent :: string
  re_title :: string
  re_url :: string
  re_site :: string

text \<open>One call of the listmonk API: method, URL, body.\<close>

type_synonym api_call = "string \<times> string \<times> json"

text \<open>
  What the handlers rely on: the templates (an error, or HTML and text), the rewriting of root-relative URLs and
  the plain text of an HTML body (both on x/net/html), the delivery of the n-th message of a run over SMTP, the
  n-th call of the API (an error, or status and body) with the at most 512 bytes one read of a refused body gives, and the two Unicode tables.
\<close>

record mail_env =
  me_article :: "article_email \<Rightarrow> err + string \<times> string"
  me_confirmation :: "string \<Rightarrow> string \<Rightarrow> err + string \<times> string"
  me_reply :: "reply_email \<Rightarrow> err + string \<times> string"
  me_absolutize :: "string \<Rightarrow> string \<Rightarrow> string"
  me_plain :: "string \<Rightarrow> string"
  me_source_reference :: "article \<Rightarrow> string \<Rightarrow> string"
  me_send :: "smtp_config \<Rightarrow> nat \<Rightarrow> message \<Rightarrow> err option"
  me_http :: "nat \<Rightarrow> api_call \<Rightarrow> err + int \<times> jtext"
  me_snippet :: "jtext \<Rightarrow> string"
  me_prefix :: string
  me_lower :: "string \<Rightarrow> string"
  me_fold :: "string \<Rightarrow> string \<Rightarrow> bool"

definition after_last_at :: "string \<Rightarrow> string" where
  "after_last_at from = (if CHR ''@'' \<in> set from then after_last CHR ''@'' from else '''')"

definition config_from_setting :: "mail_env \<Rightarrow> newsletter_setting \<Rightarrow> smtp_config" where
  "config_from_setting env st =
     (let from = str_of (ns_from_email st);
          auth = to_lower (me_lower env) (str_of (ns_smtp_authentication st))
      in \<lparr>sc_address = str_of (ns_smtp_address st),
          sc_port = (case ns_smtp_port st of Some p \<Rightarrow> if 0 < p then p else 587 | None \<Rightarrow> 587),
          sc_domain = (if str_of (ns_smtp_domain st) = '''' then after_last_at from else str_of (ns_smtp_domain st)),
          sc_user_name = str_of (ns_smtp_user_name st),
          sc_password = str_of (ns_smtp_password st),
          sc_authentication = (if auth \<in> {''plain'', ''login'', ''cram_md5''} then auth else ''plain''),
          sc_starttls = (ns_smtp_enable_starttls st \<noteq> Some 0),
          sc_from_email = from\<rparr>)"

definition setting_configured :: "newsletter_setting \<Rightarrow> bool \<Rightarrow> bool" where
  "setting_configured st listmonk_configured =
     (if ns_enabled st = 0 then False
      else if ns_provider st = ''native''
      then \<not> is_blank (str_of (ns_smtp_address st)) \<and> ns_smtp_port st \<noteq> None \<and>
           \<not> is_blank (str_of (ns_smtp_user_name st)) \<and> \<not> is_blank (str_of (ns_smtp_password st)) \<and>
           \<not> is_blank (str_of (ns_from_email st))
      else listmonk_configured)"

definition chomp_slash :: "string \<Rightarrow> string" where
  "chomp_slash u = trim_suffix u ''/''"

definition with_scheme :: "string \<Rightarrow> string \<Rightarrow> string" where
  "with_scheme scheme u = (if has_prefix u ''http://'' \<or> has_prefix u ''https://'' then u else scheme @ u)"

definition site_url :: "string \<Rightarrow> string" where
  "site_url addr = (let u = trim_space addr in if u = '''' then '''' else with_scheme ''https://'' (chomp_slash u))"

definition token_base_url :: "string \<Rightarrow> string" where
  "token_base_url addr =
     (let u = trim_space addr in with_scheme ''http://'' (chomp_slash (if u = '''' then ''http://localhost:3000'' else u)))"

text \<open>\<open>url.QueryEscape\<close>.\<close>

definition hex_upper :: "nat \<Rightarrow> char" where
  "hex_upper n = char_of (if n < 10 then 48 + n else 55 + n)"

definition query_escape :: "string \<Rightarrow> string" where
  "query_escape s = concat (map (\<lambda>c.
     if is_ascii_letter c \<or> is_digit c \<or> c \<in> set ''-_.~'' then [c]
     else if c = CHR '' '' then ''+''
     else [CHR ''%'', hex_upper (code_of c div 16), hex_upper (code_of c mod 16)]) s)"

definition confirm_url :: "string \<Rightarrow> string \<Rightarrow> string" where
  "confirm_url base token = base @ ''/confirm?token='' @ query_escape token"

definition unsubscribe_url :: "string \<Rightarrow> string \<Rightarrow> string" where
  "unsubscribe_url base token = base @ ''/unsubscribe?token='' @ query_escape token"

definition from_email :: "newsletter_setting \<Rightarrow> string" where
  "from_email st = (if is_blank (str_of (ns_from_email st)) then ''noreply@example.com'' else str_of (ns_from_email st))"

section \<open>Statements\<close>

text \<open>SQLite compares texts byte by byte.\<close>

fun bytes_le :: "string \<Rightarrow> string \<Rightarrow> bool" where
  "bytes_le [] t = True"
| "bytes_le (c # s) [] = False"
| "bytes_le (c # s) (b # t) = (code_of c < code_of b \<or> c = b \<and> bytes_le s t)"

fun insert_by_bytes :: "('a \<Rightarrow> string) \<Rightarrow> 'a \<Rightarrow> 'a list \<Rightarrow> 'a list" where
  "insert_by_bytes key x [] = [x]"
| "insert_by_bytes key x (y # ys) = (if bytes_le (key x) (key y) then x # y # ys else y # insert_by_bytes key x ys)"

definition sort_by_bytes :: "('a \<Rightarrow> string) \<Rightarrow> 'a list \<Rightarrow> 'a list" where
  "sort_by_bytes key xs = foldr (insert_by_bytes key) xs []"

lemma set_insert_by_bytes [simp]: "set (insert_by_bytes key x ys) = insert x (set ys)"
  by (induction ys) auto

lemma set_sort_by_bytes [simp]: "set (sort_by_bytes key xs) = set xs"
  by (induction xs) (auto simp: sort_by_bytes_def)

definition get_article_by_id :: "int \<Rightarrow> article db_act" where
  "get_article_by_id i = query_row (\<lambda>d. by_id a_id i (articles d))"

definition get_subscriber_by_id :: "int \<Rightarrow> subscriber db_act" where
  "get_subscriber_by_id i = query_row (\<lambda>d. by_id s_id i (subscribers d))"

definition list_all_subscribers :: "subscriber list db_act" where
  "list_all_subscribers = query subscribers"

definition list_all_subscriber_tags :: "(int \<times> int) list db_act" where
  "list_all_subscriber_tags = query (\<lambda>d. map (\<lambda>x. (st_subscriber_id x, st_tag_id x)) (subscriber_tags d))"

definition list_tags_for_article :: "int \<Rightarrow> tag list db_act" where
  "list_tags_for_article i =
     query (\<lambda>d. sort_by_bytes t_name (filter (\<lambda>t. list_ex (\<lambda>x. at_article_id x = i \<and> at_tag_id x = t_id t) (article_tags d)) (tags d)))"

section \<open>Shared lookups\<close>

definition default_newsletter :: newsletter_setting where
  "default_newsletter = \<lparr>ns_id = 0, ns_enabled = 0, ns_provider = ''native'', ns_from_email = None, ns_smtp_address = None,
     ns_smtp_port = None, ns_smtp_user_name = None, ns_smtp_password = None, ns_smtp_domain = None,
     ns_smtp_authentication = None, ns_smtp_enable_starttls = None, ns_created_at = 0, ns_updated_at = 0\<rparr>"

definition newsletter_setting_of :: "newsletter_setting db_act" where
  "newsletter_setting_of =
     bindE (attempt get_newsletter_settings) (\<lambda>r. case r of
       Inr st \<Rightarrow> ret st
     | Inl e \<Rightarrow> if error_is e ErrNoRows then ret default_newsletter else raise (ErrWrap ''load newsletter settings'' e))"

definition site_info :: "(string \<times> string) db_act" where
  "site_info =
     bindE (attempt get_settings) (\<lambda>r. case r of
       Inr s \<Rightarrow> ret (str_of (se_title s), str_of (se_url s))
     | Inl e \<Rightarrow> if error_is e ErrNoRows then ret ('''', '''') else raise (ErrWrap ''load settings'' e))"

text \<open>The attempts of a run with their outcomes, and the error the handler returns.\<close>

type_synonym mail_run = "(message \<times> err option) list \<times> err option"

definition quiet_run :: mail_run where "quiet_run = ([], None)"

section \<open>The native sender\<close>

text \<open>The subscribers with the ids of their tags, and the unsubscribe tokens by id.\<close>

definition list_recipients :: "(recipient list \<times> (int \<Rightarrow> string)) db_act" where
  "list_recipients =
     bindE (wrapping ''list subscribers'' list_all_subscribers) (\<lambda>subs.
     bindE (wrapping ''list subscriber tags'' list_all_subscriber_tags) (\<lambda>links.
       ret (map (\<lambda>s. \<lparr>rc_id = s_id s, rc_email = s_email s, rc_active = active_subscriber s,
                       rc_tag_ids = map snd (filter (\<lambda>l. fst l = s_id s) links)\<rparr>) subs,
            \<lambda>i. case by_id s_id i subs of None \<Rightarrow> '''' | Some s \<Rightarrow> str_of (s_unsubscribe_token s))))"

definition article_tag_ids :: "int \<Rightarrow> int list db_act" where
  "article_tag_ids i =
     bindE (wrapping (''list article '' @ dec_int i @ '' tags'') (list_tags_for_article i)) (\<lambda>ts. ret (map t_id ts))"

definition is_fragment :: "string \<Rightarrow> bool" where
  "is_fragment content = (has_prefix content ''<p>'' \<or> has_prefix content ''<img '' \<or> has_prefix content ''<video '')"

definition absolutize_source :: "mail_env \<Rightarrow> string \<Rightarrow> string \<Rightarrow> string" where
  "absolutize_source env content base = (if is_fragment content then me_absolutize env content base else content)"

definition article_message ::
  "mail_env \<Rightarrow> article \<Rightarrow> recipient \<Rightarrow> string \<Rightarrow> string \<Rightarrow> string \<Rightarrow> string \<Rightarrow> string \<Rightarrow> newsletter_setting \<Rightarrow> err + message" where
  "article_message env a r token site_title base token_base pfx st =
     (case me_article env
        \<lparr>ae_title = str_of (a_title a), ae_description = str_of (a_description a),
         ae_has_source = (\<not> is_blank (str_of (a_source_url a))), ae_source_author = str_of (a_source_author a),
         ae_source_content = str_of (a_source_content a), ae_source_url = str_of (a_source_url a),
         ae_content_html = str_of (a_content_html a), ae_content_text = me_plain env (str_of (a_content_html a)),
         ae_article_url = base @ article_path pfx (str_of (a_slug a)),
         ae_unsubscribe_url = unsubscribe_url token_base token\<rparr> of
        Inl e \<Rightarrow> Inl (ErrWrap ''render article email'' e)
      | Inr (html, txt) \<Rightarrow>
          Inr \<lparr>m_to = rc_email r, m_from = from_email st, m_subject = str_of (a_title a) @ '' | '' @ site_title,
               m_html = html, m_text = txt\<rparr>)"

definition title_slug :: "article \<Rightarrow> string" where
  "title_slug a = ''title='' @ activity_quote (str_of (a_title a)) @ '' slug='' @ activity_quote (str_of (a_slug a))"

definition native_mode :: string where
  "native_mode = '' mode='' @ activity_quote ''native''"

text \<open>
  The loop over the recipients: \<open>sent\<close> collects the attempts, \<open>ok\<close> and \<open>bad\<close> count. A cancelled delivery ends
  the run with its error, any other failure is logged.
\<close>

fun send_loop ::
  "int option \<Rightarrow> (nat \<Rightarrow> int) \<Rightarrow> (nat \<Rightarrow> message \<Rightarrow> err option) \<Rightarrow> string \<Rightarrow> (recipient \<Rightarrow> err + message) \<Rightarrow> recipient list \<Rightarrow>
   (message \<times> err option) list \<Rightarrow> nat \<Rightarrow> nat \<Rightarrow> ((message \<times> err option) list \<times> (err + nat \<times> nat)) db_act" where
  "send_loop run clk send about mk [] sent ok bad = ret (sent, Inr (ok, bad))"
| "send_loop run clk send about mk (r # rs) sent ok bad =
     (let tried = (case mk r of
            Inl e \<Rightarrow> (sent, Some e)
          | Inr m \<Rightarrow> (sent @ [(m, send (length sent) m)], send (length sent) m))
      in case snd tried of
           None \<Rightarrow> send_loop run clk send about mk rs (fst tried) (Suc ok) bad
         | Some e \<Rightarrow>
             if error_is e ErrCanceled then ret (fst tried, Inl e)
             else bindE (log_row (clk bad) level_error ''failed'' ''newsletter''
                    (Some (about @ '' email='' @ activity_quote (rc_email r) @ native_mode @ '' error='' @ activity_quote (err_text e))) run)
                  (\<lambda>_. send_loop run clk send about mk rs (fst tried) ok (Suc bad)))"

definition absolutized :: "mail_env \<Rightarrow> string \<Rightarrow> article \<Rightarrow> article" where
  "absolutized env base a =
     a\<lparr>a_content_html := Some (me_absolutize env (str_of (a_content_html a)) base),
       a_source_content := Some (absolutize_source env (str_of (a_source_content a)) base)\<rparr>"

definition send_native :: "mail_env \<Rightarrow> int option \<Rightarrow> (nat \<Rightarrow> int) \<Rightarrow> int \<Rightarrow> newsletter_setting \<Rightarrow> mail_run db_act" where
  "send_native env run clk i st =
     bindE (wrapping (''load article '' @ dec_int i) (get_article_by_id i)) (\<lambda>a.
     if ns_enabled st = 0 \<or> ns_provider st \<noteq> ''native'' \<or> \<not> setting_configured st False then ret quiet_run
     else bindE list_recipients (\<lambda>(rs, tokens).
     if filter rc_active rs = [] then ret quiet_run
     else bindE (article_tag_ids i) (\<lambda>tags.
     let relevant = filter_relevant rs tags; cfg = config_from_setting env st; about = title_slug a in
     if relevant = [] then ret quiet_run
     else bindE (log_row (clk 0) level_info ''started'' ''newsletter''
            (Some (about @ native_mode @ '' subscriber_count='' @ dec_nat (length relevant) @
                   '' total_subscribers='' @ dec_nat (length (filter rc_active rs)))) run) (\<lambda>_.
     if sc_address cfg = ''''
     then bindE (log_row (clk 1) level_error ''failed'' ''newsletter''
            (Some (about @ native_mode @ '' error='' @ activity_quote ''smtp_config_missing'')) run) (\<lambda>_. ret quiet_run)
     else bindE site_info (\<lambda>(site_title, addr).
     let base = site_url addr; a' = absolutized env base a in
     bindE (route_prefix (me_prefix env)) (\<lambda>pfx.
     bindE (send_loop run (\<lambda>n. clk (n + 2)) (me_send env cfg) about
              (\<lambda>r. article_message env a' r (tokens (rc_id r)) site_title base (token_base_url addr) pfx st) relevant [] 0 0) (\<lambda>(sent, out).
     case out of
       Inl e \<Rightarrow> ret (sent, Some e)
     | Inr (ok, bad) \<Rightarrow>
         bindE (log_row (clk (bad + 2)) level_info ''completed'' ''newsletter''
           (Some (about @ native_mode @ '' success_count='' @ dec_nat ok @ '' error_count='' @ dec_nat bad)) run)
           (\<lambda>_. ret (sent, None)))))))))"

section \<open>The listmonk sender\<close>

definition listmonk_configured :: "listmonk \<Rightarrow> bool" where
  "listmonk_configured lm =
     (lm_list_id lm \<noteq> None \<and> lm_template_id lm \<noteq> None \<and> \<not> is_blank (str_of (lm_url lm)) \<and>
      \<not> is_blank (str_of (lm_username lm)) \<and> \<not> is_blank (str_of (lm_api_key lm)))"

type_synonym api_run = "api_call list \<times> err option"

text \<open>\<open>doJSON\<close> up to decoding: a status outside 200 to 299 is an error that quotes the body.\<close>

definition do_json :: "mail_env \<Rightarrow> nat \<Rightarrow> api_call \<Rightarrow> err + jtext" where
  "do_json env n call =
     (case me_http env n call of
        Inl e \<Rightarrow> Inl e
      | Inr (status, body) \<Rightarrow>
          if status < 200 \<or> 300 \<le> status then Inl (ErrText (dec_int status @ '' - '' @ me_snippet env body)) else Inr body)"

definition campaign_body :: "mail_env \<Rightarrow> article \<Rightarrow> string \<Rightarrow> string" where
  "campaign_body env a base =
     (let body = me_absolutize env (str_of (a_content_html a)) base in
      if is_blank (str_of (a_source_url a)) then body else me_source_reference env a base @ [CHR 0x0A] @ body)"

definition campaign_request :: "mail_env \<Rightarrow> article \<Rightarrow> listmonk \<Rightarrow> string \<Rightarrow> string \<Rightarrow> json" where
  "campaign_request env a lm site_title base =
     JObj [(''name'', JStr (str_of (a_title a))), (''subject'', JStr (str_of (a_title a) @ '' | '' @ site_title)),
           (''lists'', JArr [JNum (int_of (lm_list_id lm))]), (''type'', JStr ''regular''), (''content_type'', JStr ''html''),
           (''messenger'', JStr ''email''), (''body'', JStr (campaign_body env a base)),
           (''template_id'', JNum (int_of (lm_template_id lm))), (''send_later'', JBool False)]"

definition put_data :: "json \<Rightarrow> int \<Rightarrow> int option" where
  "put_data j old = (case j of JNull \<Rightarrow> Some old | JObj kvs \<Rightarrow> put_field put_int ''id'' kvs old | _ \<Rightarrow> None)"

definition create_call :: "mail_env \<Rightarrow> article \<Rightarrow> listmonk \<Rightarrow> string \<Rightarrow> string \<Rightarrow> api_call" where
  "create_call env a lm site_title base =
     (''POST'', str_of (lm_url lm) @ ''/api/campaigns'', campaign_request env a lm site_title base)"

definition create_campaign :: "mail_env \<Rightarrow> nat \<Rightarrow> article \<Rightarrow> listmonk \<Rightarrow> string \<Rightarrow> string \<Rightarrow> err + int" where
  "create_campaign env n a lm site_title base =
     (let answer = (case do_json env n (create_call env a lm site_title base) of
            Inl e \<Rightarrow> Inl e
          | Inr body \<Rightarrow> (case unmarshal (struct1 put_data ''data'' 0) (Some body) of
              Inl e \<Rightarrow> Inl e | Inr i \<Rightarrow> if i = 0 then Inl (ErrText ''200 - missing data.id'') else Inr i))
      in case answer of
           Inl e \<Rightarrow> Inl (ErrWrap (''Create Campaign failed! Title:'' @ str_of (a_title a) @ '',Code'') e)
         | Inr i \<Rightarrow> Inr i)"

definition running_call :: "listmonk \<Rightarrow> int \<Rightarrow> api_call" where
  "running_call lm i =
     (''PUT'', str_of (lm_url lm) @ ''/api/campaigns/'' @ dec_int i @ ''/status'', JObj [(''status'', JStr ''running'')])"

definition set_campaign_running :: "mail_env \<Rightarrow> nat \<Rightarrow> listmonk \<Rightarrow> int \<Rightarrow> err option" where
  "set_campaign_running env n lm i =
     (case do_json env n (running_call lm i) of Inl e \<Rightarrow> Some (ErrWrap ''Send Campaign failed!'' e) | Inr _ \<Rightarrow> None)"

definition send_listmonk :: "mail_env \<Rightarrow> int option \<Rightarrow> (nat \<Rightarrow> int) \<Rightarrow> int \<Rightarrow> newsletter_setting \<Rightarrow> api_run db_act" where
  "send_listmonk env run clk i st =
     bindE (attempt (get_article_by_id i)) (\<lambda>ra. case ra of
       Inl e \<Rightarrow> if error_is e ErrNoRows then ret ([], None) else raise (ErrWrap (''load article '' @ dec_int i) e)
     | Inr a \<Rightarrow>
     bindE (attempt get_listmonk) (\<lambda>rl. case rl of
       Inl e \<Rightarrow> if error_is e ErrNoRows then ret ([], None) else raise (ErrWrap ''load listmonk config'' e)
     | Inr lm \<Rightarrow>
     if ns_enabled st = 0 \<or> ns_provider st \<noteq> ''listmonk'' \<or> \<not> setting_configured st (listmonk_configured lm) then ret ([], None)
     else let title = ''title='' @ activity_quote (str_of (a_title a)) in
     bindE (log_row (clk 0) level_info ''started'' ''newsletter''
       (Some (title_slug a @ '' mode='' @ activity_quote ''listmonk'')) run) (\<lambda>_.
     bindE site_info (\<lambda>(site_title, addr).
     let create = create_call env a lm site_title (site_url addr) in
     case create_campaign env 0 a lm site_title (site_url addr) of
       Inl e \<Rightarrow>
         if error_is e ErrCanceled then ret ([create], Some e)
         else bindE (log_row (clk 1) level_error ''failed'' ''newsletter''
                (Some (title @ '' operation='' @ activity_quote ''campaign'' @ '' error='' @ activity_quote (err_text e))) run)
                (\<lambda>_. ret ([create], None))
     | Inr c \<Rightarrow>
         bindE (log_row (clk 1) level_info ''created'' ''newsletter''
           (Some (title @ '' operation='' @ activity_quote ''campaign'' @ '' campaign_id='' @ dec_int c)) run) (\<lambda>_.
         case set_campaign_running env 1 lm c of
           Some e \<Rightarrow>
             if error_is e ErrCanceled then ret ([create, running_call lm c], Some e)
             else bindE (log_row (clk 2) level_error ''failed'' ''newsletter''
                    (Some (title @ '' operation='' @ activity_quote ''campaign_send'' @ '' campaign_id='' @ dec_int c @
                           '' error='' @ activity_quote (err_text e))) run) (\<lambda>_. ret ([create, running_call lm c], None))
         | None \<Rightarrow>
             bindE (log_row (clk 2) level_info ''sent'' ''newsletter''
               (Some (title @ '' operation='' @ activity_quote ''campaign'' @ '' campaign_id='' @ dec_int c)) run)
               (\<lambda>_. ret ([create, running_call lm c], None)))))))"

section \<open>The handlers\<close>

text \<open>What a newsletter job did: mails, or calls of the listmonk API.\<close>

datatype issue_run = Mailed mail_run | Called api_run | UnknownProvider

definition send_newsletter :: "mail_env \<Rightarrow> int option \<Rightarrow> (nat \<Rightarrow> int) \<Rightarrow> jtext option \<Rightarrow> issue_run db_act" where
  "send_newsletter env run clk payload =
     (case unmarshal (struct1 put_int ''article_id'' 0) payload of
        Inl e \<Rightarrow> raise (ErrWrap ''decode send_newsletter payload'' e)
      | Inr i \<Rightarrow>
          bindE newsletter_setting_of (\<lambda>st.
            if ns_provider st = ''native'' then bindE (send_native env run clk i st) (\<lambda>r. ret (Mailed r))
            else if ns_provider st = ''listmonk'' then bindE (send_listmonk env run clk i st) (\<lambda>r. ret (Called r))
            else ret UnknownProvider))"

text \<open>The subject asks, in Chinese, to confirm the subscription.\<close>

definition confirm_subject :: string where
  "confirm_subject = map char_of [232 :: nat, 175, 183, 231, 161, 174, 232, 174, 164, 230, 130, 168, 231, 154, 132, 232, 174, 162, 233, 152, 133]"

definition send_confirmation :: "mail_env \<Rightarrow> jtext option \<Rightarrow> mail_run db_act" where
  "send_confirmation env payload =
     (case unmarshal (struct1 put_int ''subscriber_id'' 0) payload of
        Inl e \<Rightarrow> raise (ErrWrap ''decode newsletter_confirmation payload'' e)
      | Inr i \<Rightarrow>
          bindE (attempt (get_subscriber_by_id i)) (\<lambda>r. case r of
            Inl e \<Rightarrow> if error_is e ErrNoRows then ret quiet_run else raise (ErrWrap (''load subscriber '' @ dec_int i) e)
          | Inr sub \<Rightarrow>
              bindE newsletter_setting_of (\<lambda>st.
              bindE site_info (\<lambda>(site_title, addr).
              case me_confirmation env site_title (confirm_url (token_base_url addr) (str_of (s_confirmation_token sub))) of
                Inl e \<Rightarrow> raise (ErrWrap ''render confirmation email'' e)
              | Inr (html, txt) \<Rightarrow>
                  let m = \<lparr>m_to = s_email sub, m_from = from_email st, m_subject = confirm_subject @ '' | '' @ site_title,
                           m_html = html, m_text = txt\<rparr>;
                      out = me_send env (config_from_setting env st) 0 m
                  in ret ([(m, out)], out)))))"

text \<open>\<open>eligibleReply\<close>: the parent to notify.\<close>

definition eligible_reply :: "mail_env \<Rightarrow> comment \<Rightarrow> comment option db_act" where
  "eligible_reply env c =
     (if c_status c \<noteq> comment_approved \<or> c_parent_id c = None \<or> c_platform c \<noteq> None then ret None
      else bindE (attempt (get_comment_by_id (int_of (c_parent_id c)))) (\<lambda>r. case r of
        Inl e \<Rightarrow> if error_is e ErrNoRows then ret None
                 else raise (ErrWrap (''load parent comment '' @ dec_int (int_of (c_parent_id c))) e)
      | Inr parent \<Rightarrow>
          if is_blank (str_of (c_author_email parent)) \<or> c_platform parent \<noteq> None then ret None
          else if \<not> is_blank (str_of (c_author_email c)) \<and>
                  equal_fold (me_fold env) (str_of (c_author_email c)) (str_of (c_author_email parent)) then ret None
          else ret (Some parent)))"

definition resolve_mailed :: "mail_env \<Rightarrow> string \<Rightarrow> int option \<Rightarrow> (string \<times> string) option db_act" where
  "resolve_mailed env ty i =
     (case i of
        None \<Rightarrow> ret None
      | Some i \<Rightarrow>
          if ty = ''Article''
          then bindE (attempt (get_commentable_article_by_id i)) (\<lambda>r. case r of
                 Inl e \<Rightarrow> if error_is e ErrNoRows then ret None else raise (ErrWrap (''load article '' @ dec_int i) e)
               | Inr a \<Rightarrow> bindE (route_prefix (me_prefix env)) (\<lambda>pfx.
                   ret (Some (str_of (a_title a), article_path pfx (str_of (a_slug a))))))
          else if ty = ''Page''
          then bindE (attempt (get_commentable_page_by_id i)) (\<lambda>r. case r of
                 Inl e \<Rightarrow> if error_is e ErrNoRows then ret None else raise (ErrWrap (''load page '' @ dec_int i) e)
               | Inr p \<Rightarrow> ret (Some (str_of (p_title p), page_path (str_of (p_slug p)))))
          else ret None)"

definition commentable_ref :: "mail_env \<Rightarrow> comment \<Rightarrow> comment \<Rightarrow> string \<Rightarrow> (string \<times> string) db_act" where
  "commentable_ref env c parent base =
     bindE (resolve_mailed env (str_of (c_commentable_type c)) (c_commentable_id c)) (\<lambda>own.
     bindE (if own \<noteq> None then ret own
            else resolve_mailed env (str_of (c_commentable_type parent)) (c_commentable_id parent)) (\<lambda>second.
     bindE (if second \<noteq> None \<or> c_article_id c = None then ret second
            else resolve_mailed env ''Article'' (c_article_id c)) (\<lambda>found.
     ret (case found of None \<Rightarrow> ('''', '''') | Some (title, path) \<Rightarrow> (title, base @ path)))))"

definition send_reply_notification :: "mail_env \<Rightarrow> int option \<Rightarrow> int \<Rightarrow> jtext option \<Rightarrow> mail_run db_act" where
  "send_reply_notification env run now payload =
     (case unmarshal (struct1 put_int ''comment_id'' 0) payload of
        Inl e \<Rightarrow> raise (ErrWrap ''decode comment_reply_notification payload'' e)
      | Inr i \<Rightarrow>
          bindE (attempt (get_comment_by_id i)) (\<lambda>r. case r of
            Inl e \<Rightarrow> if error_is e ErrNoRows then ret quiet_run else raise (ErrWrap (''load comment '' @ dec_int i) e)
          | Inr c \<Rightarrow>
              bindE (eligible_reply env c) (\<lambda>el. case el of
                None \<Rightarrow> ret quiet_run
              | Some parent \<Rightarrow>
              bindE newsletter_setting_of (\<lambda>st.
              if ns_enabled st = 0 \<or> ns_provider st \<noteq> ''native'' \<or> \<not> setting_configured st False then ret quiet_run
              else bindE site_info (\<lambda>(title, addr).
              let site_title = (if trim_space title = '''' then ''Site'' else title) in
              bindE (commentable_ref env c parent (site_url addr)) (\<lambda>(ref_title, ref_url).
              case me_reply env \<lparr>re_author = c_author_name c, re_content = c_content c, re_parent = c_content parent,
                                 re_title = ref_title, re_url = ref_url, re_site = site_title\<rparr> of
                Inl e \<Rightarrow> raise (ErrWrap ''render reply notification email'' e)
              | Inr (html, txt) \<Rightarrow>
                  let m = \<lparr>m_to = str_of (c_author_email parent), m_from = from_email st,
                           m_subject = ''New reply to your comment | '' @ site_title, m_html = html, m_text = txt\<rparr>
                  in case me_send env (config_from_setting env st) 0 m of
                       Some e \<Rightarrow>
                         if error_is e ErrCanceled then ret ([(m, Some e)], Some e)
                         else bindE (log_row now level_error ''failed'' ''comment_reply_notification''
                                (Some (''email='' @ activity_quote (str_of (c_author_email parent)) @ '' error='' @
                                       activity_quote (err_text e) @ '' comment_id='' @ dec_int (c_id c))) run)
                                (\<lambda>_. ret ([(m, Some e)], None))
                     | None \<Rightarrow>
                         bindE (log_row now level_info ''sent'' ''comment_reply_notification''
                           (Some (''email='' @ activity_quote (str_of (c_author_email parent)) @ '' author='' @
                                  activity_quote (c_author_name c) @ '' comment_id='' @ dec_int (c_id c))) run)
                           (\<lambda>_. ret ([(m, None)], None))))))))"

section \<open>Who gets an issue\<close>

definition same_but_logs :: "database \<Rightarrow> database \<Rightarrow> bool" where
  "same_but_logs d0 d \<longleftrightarrow> (\<exists>ls. d = d0\<lparr>activity_logs := ls\<rparr>)"

definition issue_tags :: "int \<Rightarrow> database \<Rightarrow> int set" where
  "issue_tags i d = {t_id t |t. t \<in> set (tags d) \<and> (\<exists>x\<in>set (article_tags d). at_article_id x = i \<and> at_tag_id x = t_id t)}"

definition issue_recipients :: "int \<Rightarrow> database \<Rightarrow> subscriber list" where
  "issue_recipients i d = filter (\<lambda>s. active_subscriber s \<and>
     (tags_of (s_id s) d = {} \<or> tags_of (s_id s) d \<inter> issue_tags i d \<noteq> {})) (subscribers d)"

definition native_ready :: "newsletter_setting \<Rightarrow> bool" where
  "native_ready st \<longleftrightarrow> ns_enabled st \<noteq> 0 \<and> ns_provider st = ''native'' \<and> setting_configured st False"

text \<open>The mail of one subscriber: to the own address, with the own unsubscribe link.\<close>

definition issue_mail ::
  "mail_env \<Rightarrow> newsletter_setting \<Rightarrow> article \<Rightarrow> string \<Rightarrow> string \<Rightarrow> string \<Rightarrow> subscriber \<Rightarrow> message option" where
  "issue_mail env st a title addr pfx s =
     (case article_message env (absolutized env (site_url addr) a)
        \<lparr>rc_id = s_id s, rc_email = s_email s, rc_active = True, rc_tag_ids = []\<rparr> (str_of (s_unsubscribe_token s))
        title (site_url addr) (token_base_url addr) pfx st of
        Inl _ \<Rightarrow> None | Inr m \<Rightarrow> Some m)"

lemma same_but_logs_refl [simp]: "same_but_logs d d"
  unfolding same_but_logs_def by (rule exI [where x = "activity_logs d"]) simp

lemma same_but_logs_trans: "same_but_logs d0 d \<Longrightarrow> same_but_logs d d' \<Longrightarrow> same_but_logs d0 d'"
  by (auto simp: same_but_logs_def)

lemma same_but_logs_log: "same_but_logs d0 d \<Longrightarrow> same_but_logs d0 (d\<lparr>activity_logs := ls\<rparr>)"
  by (auto simp: same_but_logs_def)

lemma ensures_log_same: "ensures (same_but_logs d0) (log_row now l act t de run) (\<lambda>_. same_but_logs d0)"
  by (rule ensures_log_row) (rule same_but_logs_log)

lemma log_row_same: "\<exists>w'. log_row now l act t de run w = (Inr (), w') \<and> same_but_logs (wdb w) (wdb w')"
  using log_row_never_fails [of now l act t de run w] ensuresD [OF ensures_log_same same_but_logs_refl] by blast

lemma ensures_query_same:
  "(\<And>d l. f (d\<lparr>activity_logs := l\<rparr>) = f d) \<Longrightarrow> ensures (same_but_logs d0) (query f) (\<lambda>x d. same_but_logs d0 d \<and> x = f d0)"
  by (rule ensures_query) (auto simp: same_but_logs_def)

lemma ensures_query_row_same:
  "(\<And>d l. f (d\<lparr>activity_logs := l\<rparr>) = f d) \<Longrightarrow> ensures (same_but_logs d0) (query_row f) (\<lambda>x d. same_but_logs d0 d \<and> f d0 = Some x)"
  by (rule ensures_query_row) (auto simp: same_but_logs_def)

lemma pres_lookups_same [pres_rules]:
  "pres I newsletter_setting_of" "pres I site_info" "pres I (route_prefix env)"
  unfolding newsletter_setting_of_def site_info_def route_prefix_def get_newsletter_settings_def get_settings_def Let_def
  by (intro pres_rules)+

text \<open>The loop: the attempts are a prefix of the mails, the whole of them unless a delivery is cancelled.\<close>

definition mails_of :: "('r \<Rightarrow> err + message) \<Rightarrow> 'r list \<Rightarrow> message list" where
  "mails_of mk rs = List.map_filter (\<lambda>r. case mk r of Inl _ \<Rightarrow> None | Inr m \<Rightarrow> Some m) rs"

lemma mails_of_simps [simp]:
  "mails_of mk [] = []"
  "mails_of mk (r # rs) = (case mk r of Inl _ \<Rightarrow> mails_of mk rs | Inr m \<Rightarrow> m # mails_of mk rs)"
  by (simp_all add: mails_of_def List.map_filter_simps split: sum.splits)

definition loop_result ::
  "(nat \<Rightarrow> message \<Rightarrow> err option) \<Rightarrow> message list \<Rightarrow> nat \<Rightarrow> (message \<times> err option) list \<Rightarrow> err + nat \<times> nat \<Rightarrow> nat \<Rightarrow> bool" where
  "loop_result send mails n new out todo \<longleftrightarrow>
     map fst new = take (length new) mails \<and> length new \<le> length mails \<and>
     (\<forall>k<length new. snd (new ! k) = send (n + k) (fst (new ! k))) \<and>
     (case out of Inl e \<Rightarrow> error_is e ErrCanceled
      | Inr (ok, bad) \<Rightarrow> length new = length mails \<and> ok + bad = todo \<and> ok = length (filter (\<lambda>x. snd x = None) new))"

lemma loop_result_cancelled:
  "error_is e ErrCanceled \<Longrightarrow> loop_result send ms n [] (Inl e) todo"
  "error_is e ErrCanceled \<Longrightarrow> send n m = Some e \<Longrightarrow> loop_result send (m # ms) n [(m, Some e)] (Inl e) todo"
  by (simp_all add: loop_result_def)

lemma loop_result_unrendered:
  "loop_result send ms n new out todo \<Longrightarrow>
   loop_result send ms n new (case out of Inl e \<Rightarrow> Inl e | Inr (a, b) \<Rightarrow> Inr (a, Suc b)) (Suc todo)"
  by (auto simp: loop_result_def split: sum.splits)

lemma loop_result_tried:
  assumes "loop_result send ms (Suc n) new out todo" "o' = send n m"
  shows "loop_result send (m # ms) n ((m, o') # new)
    (case out of Inl e \<Rightarrow> Inl e | Inr (a, b) \<Rightarrow> Inr (if o' = None then (Suc a, b) else (a, Suc b))) (Suc todo)"
proof -
  have "snd (((m, o') # new) ! k) = send (n + k) (fst (((m, o') # new) ! k))" if "k < Suc (length new)" for k
    using assms that by (cases k) (auto simp: loop_result_def)
  then show ?thesis using assms(1) by (auto simp: loop_result_def split: sum.splits)
qed

lemmas loop_result_sent = loop_result_tried [where o' = None, simplified if_True refl simp_thms]
lemmas loop_result_failed = loop_result_tried [where o' = "Some e" for e, simplified option.distinct if_False]

text \<open>The run of the loop adds its counts to those it starts with.\<close>

definition added :: "nat \<Rightarrow> nat \<Rightarrow> err + nat \<times> nat \<Rightarrow> err + nat \<times> nat" where
  "added ok bad out = (case out of Inl e \<Rightarrow> Inl e | Inr (a, b) \<Rightarrow> Inr (ok + a, bad + b))"

lemma added_Inl [simp]: "added ok bad (Inl e) = Inl e"
  by (simp add: added_def)

lemma added_next:
  "added (Suc ok) bad out = added ok bad (case out of Inl e \<Rightarrow> Inl e | Inr (a, b) \<Rightarrow> Inr (Suc a, b))"
  "added ok (Suc bad) out = added ok bad (case out of Inl e \<Rightarrow> Inl e | Inr (a, b) \<Rightarrow> Inr (a, Suc b))"
  by (auto simp: added_def split: sum.splits)

lemma send_loop_outcome:
  "send_loop run clk send about mk rs sent ok bad w = (r', w') \<Longrightarrow>
   \<exists>new out. r' = Inr (sent @ new, added ok bad out) \<and>
     loop_result send (mails_of mk rs) (length sent) new out (length rs) \<and> same_but_logs (wdb w) (wdb w')"
proof (induction run clk send about mk rs sent ok bad arbitrary: w rule: send_loop.induct)
  case (1 run clk send about mk sent ok bad)
  then show ?case
    by (intro exI [where x = "[]"] exI [where x = "Inr (0, 0)"]) (simp add: ret_run loop_result_def added_def)
next
  case (2 run clk send about mk r rs sent ok bad)
  define tried where "tried = (case mk r of Inl e \<Rightarrow> (sent, Some e) | Inr m \<Rightarrow> (sent @ [(m, send (length sent) m)], send (length sent) m))"
  have step: "send_loop run clk send about mk (r # rs) sent ok bad w = (case snd tried of
      None \<Rightarrow> send_loop run clk send about mk rs (fst tried) (Suc ok) bad w
    | Some e \<Rightarrow> if error_is e ErrCanceled then ret (fst tried, Inl e) w
        else bindE (log_row (clk bad) level_error ''failed'' ''newsletter''
          (Some (about @ '' email='' @ activity_quote (rc_email r) @ native_mode @ '' error='' @ activity_quote (err_text e))) run)
          (\<lambda>_. send_loop run clk send about mk rs (fst tried) ok (Suc bad)) w)"
    unfolding send_loop.simps Let_def tried_def [symmetric] by (simp split: option.split)
  show ?case
  proof (cases "snd tried")
    case None
    then obtain m where m: "mk r = Inr m" "send (length sent) m = None" "fst tried = sent @ [(m, None)]"
      by (cases "mk r") (auto simp: tried_def)
    have "send_loop run clk send about mk rs (fst tried) (Suc ok) bad w = (r', w')" using step None 2(3) by simp
    from 2(1) [OF tried_def None this] obtain new out where IH: "r' = Inr (fst tried @ new, added (Suc ok) bad out)"
      "loop_result send (mails_of mk rs) (length (fst tried)) new out (length rs)" "same_but_logs (wdb w) (wdb w')" by blast
    from loop_result_sent [of send "mails_of mk rs" "length sent" new out "length rs" m] IH(2) m
    have "loop_result send (mails_of mk (r # rs)) (length sent) ((m, None) # new)
        (case out of Inl e \<Rightarrow> Inl e | Inr (a, b) \<Rightarrow> Inr (Suc a, b)) (length (r # rs))" by simp
    with IH(1,3) m(3) show ?thesis unfolding added_next by (intro exI conjI) simp_all
  next
    case (Some e)
    show ?thesis
    proof (cases "error_is e ErrCanceled")
      case True
      then have run: "r' = Inr (fst tried, Inl e)" "w' = w" using step Some 2(3) by (simp_all add: ret_run)
      show ?thesis
      proof (cases "mk r")
        case (Inl x)
        then show ?thesis using run Some True loop_result_cancelled(1) [of e send _ "length sent"]
          by (intro exI [where x = "[]"] exI [where x = "Inl e"]) (simp add: tried_def loop_result_def)
      next
        case (Inr m)
        then have "send (length sent) m = Some e" using Some by (simp add: tried_def)
        then show ?thesis using run True Inr loop_result_cancelled(2) [of e send "length sent" m]
          by (intro exI [where x = "[(m, Some e)]"] exI [where x = "Inl e"]) (simp add: tried_def)
      qed
    next
      case False
      obtain w1 where log: "log_row (clk bad) level_error ''failed'' ''newsletter''
          (Some (about @ '' email='' @ activity_quote (rc_email r) @ native_mode @ '' error='' @ activity_quote (err_text e))) run w = (Inr (), w1)"
        and w1: "same_but_logs (wdb w) (wdb w1)" using log_row_same by blast
      have "send_loop run clk send about mk rs (fst tried) ok (Suc bad) w1 = (r', w')"
        using step Some False log 2(3) by (simp add: bindE_run)
      from 2(2) [OF tried_def Some False this] obtain new out where IH: "r' = Inr (fst tried @ new, added ok (Suc bad) out)"
        "loop_result send (mails_of mk rs) (length (fst tried)) new out (length rs)" "same_but_logs (wdb w1) (wdb w')" by blast
      let ?out = "case out of Inl e \<Rightarrow> Inl e | Inr (a, b) \<Rightarrow> Inr (a, Suc b)"
      have same: "same_but_logs (wdb w) (wdb w')" using w1 IH(3) by (rule same_but_logs_trans)
      show ?thesis
      proof (cases "mk r")
        case (Inl x)
        then have "fst tried = sent" by (simp add: tried_def)
        with IH(1,2) loop_result_unrendered [of send "mails_of mk rs" "length sent" new out "length rs"] Inl same show ?thesis
          unfolding added_next by (intro exI [where x = new] exI [where x = ?out]) simp
      next
        case (Inr m)
        then have m: "send (length sent) m = Some e" "fst tried = sent @ [(m, Some e)]" using Some by (auto simp: tried_def)
        from loop_result_failed [of send "mails_of mk rs" "length sent" new out "length rs" e m] IH(2) m Inr
        have "loop_result send (mails_of mk (r # rs)) (length sent) ((m, Some e) # new) ?out (length (r # rs))" by simp
        with IH(1) m(2) same show ?thesis unfolding added_next by (intro exI conjI) simp_all
      qed
    qed
  qed
qed

section \<open>An issue\<close>

definition recipient_of :: "database \<Rightarrow> subscriber \<Rightarrow> recipient" where
  "recipient_of d s = \<lparr>rc_id = s_id s, rc_email = s_email s, rc_active = active_subscriber s,
     rc_tag_ids = map snd (filter (\<lambda>l. fst l = s_id s) (map (\<lambda>x. (st_subscriber_id x, st_tag_id x)) (subscriber_tags d)))\<rparr>"

definition token_of :: "database \<Rightarrow> int \<Rightarrow> string" where
  "token_of d i = (case by_id s_id i (subscribers d) of None \<Rightarrow> [] | Some s \<Rightarrow> str_of (s_unsubscribe_token s))"

lemma ensures_bind_given:
  "ensures P m (\<lambda>x d. P d \<and> F x) \<Longrightarrow> (\<And>x. F x \<Longrightarrow> ensures P (f x) Q) \<Longrightarrow> ensures P (bindE m f) Q"
  unfolding ensures_def by (metis bindE_ok)

lemma ensures_bind_value:
  "ensures P m (\<lambda>x d. P d \<and> x = v) \<Longrightarrow> ensures P (f v) Q \<Longrightarrow> ensures P (bindE m f) Q"
  unfolding ensures_def by (metis bindE_ok)

lemma list_recipients_same:
  "ensures (same_but_logs d0) list_recipients
     (\<lambda>r d. same_but_logs d0 d \<and> r = (map (recipient_of d0) (subscribers d0), token_of d0))"
  unfolding list_recipients_def list_all_subscribers_def list_all_subscriber_tags_def
proof (rule ensures_bind_given)
  show "ensures (same_but_logs d0) (wrapping ''list subscribers'' (query subscribers)) (\<lambda>x d. same_but_logs d0 d \<and> x = subscribers d0)"
    by (intro ensures_wrapping ensures_query_same) simp
next
  fix ss assume "ss = subscribers d0"
  then show "ensures (same_but_logs d0) (bindE (wrapping ''list subscriber tags''
      (query (\<lambda>d. map (\<lambda>x. (st_subscriber_id x, st_tag_id x)) (subscriber_tags d)))) (\<lambda>links.
       ret (map (\<lambda>s. \<lparr>rc_id = s_id s, rc_email = s_email s, rc_active = active_subscriber s,
                       rc_tag_ids = map snd (filter (\<lambda>l. fst l = s_id s) links)\<rparr>) ss,
            \<lambda>i. case by_id s_id i ss of None \<Rightarrow> [] | Some s \<Rightarrow> str_of (s_unsubscribe_token s))))
     (\<lambda>r d. same_but_logs d0 d \<and> r = (map (recipient_of d0) (subscribers d0), token_of d0))"
    by (intro ensures_bind_given [OF ensures_wrapping [OF ensures_query_same]] ensures_ret)
       (auto simp: recipient_of_def [abs_def] token_of_def [abs_def])
qed

lemma article_tag_ids_same:
  "ensures (same_but_logs d0) (article_tag_ids i) (\<lambda>ts d. same_but_logs d0 d \<and> set ts = issue_tags i d0)"
  unfolding article_tag_ids_def list_tags_for_article_def
  by (rule ensures_bindE, rule ensures_wrapping, rule ensures_query_same, simp, rule ensures_ret)
     (auto simp: issue_tags_def list_ex_iff)

lemma relevant_recipient:
  "filter_relevant (map (recipient_of d) ss) ts = map (recipient_of d)
     (filter (\<lambda>s. active_subscriber s \<and> (tags_of (s_id s) d = {} \<or> tags_of (s_id s) d \<inter> set ts \<noteq> {})) ss)"
proof -
  have "set (rc_tag_ids (recipient_of d s)) = tags_of (s_id s) d" for s
    by (force simp: recipient_of_def tags_of_def)
  then have "rc_tag_ids (recipient_of d s) = [] \<longleftrightarrow> tags_of (s_id s) d = {}"
    "set (rc_tag_ids (recipient_of d s)) = tags_of (s_id s) d" for s
    by (metis set_empty)+
  then show ?thesis by (simp add: filter_relevant_filter filter_map comp_def) (simp add: recipient_of_def)
qed

definition issue_spec ::
  "mail_env \<Rightarrow> newsletter_setting \<Rightarrow> article \<Rightarrow> int \<Rightarrow> database \<Rightarrow> (message \<times> err option) list \<Rightarrow> err option \<Rightarrow> bool" where
  "issue_spec env st a i d sent out \<longleftrightarrow>
     (\<forall>k<length sent. snd (sent ! k) = me_send env (config_from_setting env st) k (fst (sent ! k))) \<and>
     (\<exists>title addr pfx. let mails = (if native_ready st then List.map_filter (issue_mail env st a title addr pfx) (issue_recipients i d) else [])
       in case out of None \<Rightarrow> map fst sent = mails
          | Some e \<Rightarrow> error_is e ErrCanceled \<and> map fst sent = take (length sent) mails)"

lemma issue_nobody: "issue_recipients i d = [] \<or> \<not> native_ready st \<Longrightarrow> issue_spec env st a i d [] None"
  by (auto simp: issue_spec_def List.map_filter_simps)

lemma issue_recipients_relevant:
  "set ts = issue_tags i d \<Longrightarrow>
   filter_relevant (map (recipient_of d) (subscribers d)) ts = map (recipient_of d) (issue_recipients i d)"
  by (simp add: relevant_recipient issue_recipients_def)

lemma token_of_subscriber:
  "ids_ok s_id (subscribers d) \<Longrightarrow> s \<in> set (subscribers d) \<Longrightarrow> token_of d (s_id s) = str_of (s_unsubscribe_token s)"
  by (simp add: token_of_def subscribers_tab.by_id_eq)

lemma mails_of_issue:
  assumes "ids_ok s_id (subscribers d)"
  shows "mails_of (\<lambda>r. article_message env (absolutized env (site_url addr) a) r (token_of d (rc_id r)) title (site_url addr)
       (token_base_url addr) pfx st) (map (recipient_of d) (issue_recipients i d)) =
     List.map_filter (issue_mail env st a title addr pfx) (issue_recipients i d)"
proof -
  have "\<forall>s\<in>set ss. s \<in> set (subscribers d) \<Longrightarrow>
    mails_of (\<lambda>r. article_message env (absolutized env (site_url addr) a) r (token_of d (rc_id r)) title (site_url addr)
       (token_base_url addr) pfx st) (map (recipient_of d) ss) = List.map_filter (issue_mail env st a title addr pfx) ss" for ss
    by (induction ss) (auto simp: List.map_filter_simps recipient_of_def token_of_subscriber [OF assms] issue_mail_def
        article_message_def split: sum.splits)
  then show ?thesis by (simp add: issue_recipients_def)
qed

lemma send_loop_spec:
  assumes "ids_ok s_id (subscribers d)" "native_ready st"
  shows "ensures (same_but_logs d) (send_loop run clk (me_send env (config_from_setting env st)) about
      (\<lambda>r. article_message env (absolutized env (site_url addr) a) r (token_of d (rc_id r)) title (site_url addr)
       (token_base_url addr) pfx st) (map (recipient_of d) (issue_recipients i d)) [] 0 0)
    (\<lambda>x d'. same_but_logs d d' \<and> issue_spec env st a i d (fst x) (case snd x of Inl e \<Rightarrow> Some e | Inr _ \<Rightarrow> None))"
  unfolding ensures_def
proof (intro allI impI)
  fix w x w'
  assume w: "same_but_logs d (wdb w)"
    and run: "send_loop run clk (me_send env (config_from_setting env st)) about
      (\<lambda>r. article_message env (absolutized env (site_url addr) a) r (token_of d (rc_id r)) title (site_url addr)
       (token_base_url addr) pfx st) (map (recipient_of d) (issue_recipients i d)) [] 0 0 w = (Inr x, w')"
  from send_loop_outcome [OF run] obtain new out where res: "x = (new, added 0 0 out)"
    "loop_result (me_send env (config_from_setting env st)) (List.map_filter (issue_mail env st a title addr pfx) (issue_recipients i d)) 0
       new out (length (issue_recipients i d))" "same_but_logs (wdb w) (wdb w')"
    unfolding mails_of_issue [OF assms(1)] by auto
  have "issue_spec env st a i d new (case added 0 0 out of Inl e \<Rightarrow> Some e | Inr _ \<Rightarrow> None)"
    unfolding issue_spec_def Let_def
  proof (rule conjI)
    show "\<forall>k<length new. snd (new ! k) = me_send env (config_from_setting env st) k (fst (new ! k))"
      using res(2) by (simp add: loop_result_def)
    show "\<exists>title addr pfx. case case added 0 0 out of Inl e \<Rightarrow> Some e | Inr _ \<Rightarrow> None of
        None \<Rightarrow> map fst new = (if native_ready st then List.map_filter (issue_mail env st a title addr pfx) (issue_recipients i d) else [])
      | Some e \<Rightarrow> error_is e ErrCanceled \<and> map fst new =
          take (length new) (if native_ready st then List.map_filter (issue_mail env st a title addr pfx) (issue_recipients i d) else [])"
      by (rule exI [where x = title], rule exI [where x = addr], rule exI [where x = pfx])
         (use res(2) assms(2) in \<open>auto simp: loop_result_def added_def split: sum.splits\<close>)
  qed
  then show "same_but_logs d (wdb w') \<and> issue_spec env st a i d (fst x) (case snd x of Inl e \<Rightarrow> Some e | Inr _ \<Rightarrow> None)"
    using res(1) same_but_logs_trans [OF w res(3)] by simp
qed

lemma pres_log_same: "pres (same_but_logs d) (log_row now l act t de run)"
  by (rule pres_log_row) (rule same_but_logs_log)

lemma send_native_spec:
  assumes "ids_ok s_id (subscribers d)"
  shows "ensures (same_but_logs d) (send_native env run clk i st)
    (\<lambda>(sent, out) d'. same_but_logs d d' \<and> (\<exists>a. by_id a_id i (articles d) = Some a \<and> issue_spec env st a i d sent out))"
  (is "ensures ?P _ ?Q")
proof -
  let ?R = "\<lambda>a (sent, out) d'. same_but_logs d d' \<and> issue_spec env st a i d sent out"
  have quiet: "ensures ?P (ret quiet_run) (?R a)" if "issue_recipients i d = [] \<or> \<not> native_ready st" for a
    using issue_nobody [OF that] by (intro ensures_ret) (auto simp: quiet_run_def)
  have all: "filter rc_active (map (recipient_of d) (subscribers d)) = [] \<Longrightarrow> issue_recipients i d = []"
    by (auto simp: filter_empty_conv issue_recipients_def recipient_of_def)
  have blank: "trim_space [] = []" by code_simp
  have address: "native_ready st \<Longrightarrow> sc_address (config_from_setting env st) \<noteq> []"
    by (auto simp: native_ready_def setting_configured_def config_from_setting_def Let_def is_blank_def blank)
  show ?thesis
    unfolding send_native_def Let_def
    apply (rule ensures_bind_given [where F = "\<lambda>a. by_id a_id i (articles d) = Some a"])
     apply (unfold get_article_by_id_def, rule ensures_wrapping, rule ensures_query_row_same, simp)
    apply (rule_tac Q = "?R a" for a in ensures_weaken [where P = ?P])
      prefer 3 apply (clarsimp split: prod.splits, blast)
     prefer 2 apply assumption
    apply (thin_tac "by_id a_id i (articles d) = _")
    apply (rule ensures_if)
     apply (rule quiet, simp add: native_ready_def)
    apply (rule ensures_bind_value [OF list_recipients_same], unfold prod.case)
    apply (rule ensures_if)
     apply (rule quiet, simp add: all)
    apply (rule ensures_bind_given [OF article_tag_ids_same], drule issue_recipients_relevant, erule ssubst)
    apply (rule ensures_if)
     apply (rule quiet, simp)
    apply (rule ensures_bindE [OF ensures_log_same])
    apply (rule ensures_if)
     apply (simp add: address native_ready_def)
    apply (rule ensures_bindE [OF ensures_pres [OF pres_lookups_same(2)]], unfold split_beta)
    apply (rule ensures_bindE [OF ensures_pres [OF pres_lookups_same(3)]])
    apply (rule ensures_bind_given [OF send_loop_spec [OF assms]], simp add: native_ready_def)
    subgoal for a ts _ title_addr pfx x
      by (cases "snd x") (auto intro: ensures_ret intro!: ensures_bindE [OF ensures_log_same] simp: split_beta)
    done
qed

text \<open>
  C26: Who is mailed. An issue of the native sender attempts, in the order of the subscribers, exactly one mail for
  every subscriber who has confirmed, has not unsubscribed and follows the article (has no tags, or shares one with
  it): to the own address and with the own unsubscribe link; a mail that cannot be rendered is passed over, a failing
  delivery does not stop the rest. Only a cancelled delivery ends the run early, with its error, after a prefix.
  Nothing is sent unless the settings enable and configure the native provider, and of the database only the
  activity log changes.
\<close>

theorem native_issue_exact:
  assumes "ids_ok s_id (subscribers (wdb w))" "send_native env run clk i st w = (Inr (sent, out), w')"
  shows "same_but_logs (wdb w) (wdb w') \<and> (\<exists>a. by_id a_id i (articles (wdb w)) = Some a \<and>
    (\<forall>k<length sent. snd (sent ! k) = me_send env (config_from_setting env st) k (fst (sent ! k))) \<and>
    (\<exists>title addr pfx. let mails = (if native_ready st
         then List.map_filter (issue_mail env st a title addr pfx) (issue_recipients i (wdb w)) else [])
       in case out of None \<Rightarrow> map fst sent = mails
          | Some e \<Rightarrow> error_is e ErrCanceled \<and> map fst sent = take (length sent) mails))"
  using ensuresD [OF send_native_spec [OF assms(1)] same_but_logs_refl assms(2)]
  by (simp add: issue_spec_def)

text \<open>
  C27: An interrupted issue is mailed again. When a run ends with the cancellation of a delivery (the worker then
  queues the job again), a later run of the job that completes on the same tables attempts every mail address of
  the first run once more, those whose mail was delivered included: nothing records how far an issue got.
\<close>

theorem interrupted_issue_sent_again:
  assumes "ids_ok s_id (subscribers (wdb w1))" "\<forall>x. \<not> isl (me_article env x)"
    "send_native env run clk i st w1 = (Inr (sent1, Some e), w1')"
    "same_but_logs (wdb w1) (wdb w2)" "send_native (env\<lparr>me_send := deliver\<rparr>) run clk2 i st w2 = (Inr (sent2, None), w2')"
  shows "(\<lambda>x. m_to (fst x)) ` set sent1 \<subseteq> (\<lambda>x. m_to (fst x)) ` set sent2"
proof -
  have addresses: "map m_to (List.map_filter (issue_mail en st a title addr pfx) ss) = map s_email ss"
    if "\<forall>x. \<not> isl (me_article en x)" for en a title addr pfx ss
    by (induction ss) (use that in \<open>auto simp: List.map_filter_simps issue_mail_def article_message_def isl_def split: sum.splits\<close>)
  have same: "issue_recipients i (wdb w2) = issue_recipients i (wdb w1)" "subscribers (wdb w2) = subscribers (wdb w1)"
    using assms(4) by (auto simp: same_but_logs_def issue_recipients_def issue_tags_def tags_of_def)
  obtain a1 where one: "issue_spec env st a1 i (wdb w1) sent1 (Some e)"
    using ensuresD [OF send_native_spec [OF assms(1)] same_but_logs_refl assms(3)] by auto
  obtain a2 where two: "issue_spec (env\<lparr>me_send := deliver\<rparr>) st a2 i (wdb w2) sent2 None"
    using ensuresD [OF send_native_spec same_but_logs_refl assms(5)] assms(1) same(2) by auto
  show ?thesis
  proof (cases "native_ready st")
    case False
    then have "sent1 = []" using one by (auto simp: issue_spec_def)
    then show ?thesis by simp
  next
    case True
    obtain t1 u1 p1 where m1: "map fst sent1 = take (length sent1) (List.map_filter (issue_mail env st a1 t1 u1 p1) (issue_recipients i (wdb w1)))"
      using one True by (auto simp: issue_spec_def)
    obtain t2 u2 p2 where m2: "map fst sent2 = List.map_filter (issue_mail (env\<lparr>me_send := deliver\<rparr>) st a2 t2 u2 p2) (issue_recipients i (wdb w1))"
      using two True same(1) by (auto simp: issue_spec_def)
    have "map m_to (map fst sent1) = take (length sent1) (map s_email (issue_recipients i (wdb w1)))"
      unfolding m1 take_map [symmetric] addresses [OF assms(2)] by (simp add: min_def)
    moreover have "map m_to (map fst sent2) = map s_email (issue_recipients i (wdb w1))"
      unfolding m2 using assms(2) by (intro addresses) simp
    ultimately have "set (map m_to (map fst sent1)) \<subseteq> set (map m_to (map fst sent2))"
      by (metis set_take_subset)
    then show ?thesis by (simp add: image_image)
  qed
qed

section \<open>Replies\<close>

lemma ensures_attempt_row_same:
  assumes "\<And>d l. f (d\<lparr>activity_logs := l\<rparr>) = f d"
  shows "ensures (same_but_logs d0) (attempt (query_row f)) (\<lambda>r d. same_but_logs d0 d \<and> (\<forall>x. r = Inr x \<longrightarrow> f d0 = Some x))"
proof -
  have "ensures (same_but_logs d0) (attempt (query_row f)) (\<lambda>_. same_but_logs d0)"
    by (rule ensures_pres) (intro pres_rules)
  moreover have "ensures (same_but_logs d0) (attempt (query_row f)) (\<lambda>r d. \<forall>x. r = Inr x \<longrightarrow> same_but_logs d0 d \<and> f d0 = Some x)"
    using ensures_attempt [OF ensures_query_row_same [OF assms]] .
  ultimately show ?thesis by (auto simp: ensures_def)
qed

definition notifiable :: "mail_env \<Rightarrow> database \<Rightarrow> int \<Rightarrow> comment \<Rightarrow> comment \<Rightarrow> bool" where
  "notifiable env d i c parent \<longleftrightarrow>
     by_id c_id i (comments d) = Some c \<and> c_status c = comment_approved \<and> c_platform c = None \<and>
     (\<exists>p. c_parent_id c = Some p \<and> by_id c_id p (comments d) = Some parent) \<and>
     c_platform parent = None \<and> \<not> is_blank (str_of (c_author_email parent)) \<and>
     (is_blank (str_of (c_author_email c)) \<or>
      \<not> equal_fold (me_fold env) (str_of (c_author_email c)) (str_of (c_author_email parent)))"

lemma eligible_reply_spec:
  "by_id c_id i (comments d) = Some c \<Longrightarrow> ensures (same_but_logs d) (eligible_reply env c)
     (\<lambda>el d'. same_but_logs d d' \<and> (\<forall>parent. el = Some parent \<longrightarrow> notifiable env d i c parent))"
  unfolding eligible_reply_def get_comment_by_id_def
  apply (rule ensures_if)
   apply (rule ensures_ret, simp)
  apply (rule ensures_bind_given [OF ensures_attempt_row_same], simp)
  subgoal for r
    by (cases r) (auto intro!: ensures_if ensures_ret ensures_raise simp: notifiable_def)
  done

lemma pres_resolve_mailed [pres_rules]: "pres I (resolve_mailed env ty i)" "pres I (commentable_ref env c parent base)"
proof -
  show *: "pres I (resolve_mailed env ty i)" for ty i
    unfolding resolve_mailed_def get_commentable_article_by_id_def get_commentable_page_by_id_def by (intro pres_rules)
  show "pres I (commentable_ref env c parent base)"
    unfolding commentable_ref_def by (intro pres_rules *)
qed

definition reply_spec :: "mail_env \<Rightarrow> database \<Rightarrow> jtext option \<Rightarrow> mail_run \<Rightarrow> bool" where
  "reply_spec env d payload r \<longleftrightarrow> r = quiet_run \<or>
     (\<exists>i c parent m o'. unmarshal (struct1 put_int ''comment_id'' 0) payload = Inr i \<and> notifiable env d i c parent \<and>
       m_to m = str_of (c_author_email parent) \<and> fst r = [(m, o')] \<and>
       snd r = (case o' of Some e \<Rightarrow> if error_is e ErrCanceled then Some e else None | None \<Rightarrow> None))"

lemma ensures_reply:
  assumes "unmarshal (struct1 put_int ''comment_id'' 0) payload = Inr i" "notifiable env d i c parent"
    "m_to m = str_of (c_author_email parent)"
  shows "ensures (same_but_logs d)
    (case send of
       None \<Rightarrow> bindE (log_row now l1 a1 t1 d1 run) (\<lambda>_. ret ([(m, None)], None))
     | Some e \<Rightarrow> if error_is e ErrCanceled then ret ([(m, Some e)], Some e)
                 else bindE (log_row now l2 a2 t2 (d2 e) run) (\<lambda>_. ret ([(m, Some e)], None)))
    (\<lambda>r d'. same_but_logs d d' \<and> reply_spec env d payload r)"
proof -
  have spec: "reply_spec env d payload ([(m, o')], case o' of Some e \<Rightarrow> if error_is e ErrCanceled then Some e else None | None \<Rightarrow> None)"
    for o'
    using assms unfolding reply_spec_def by (intro disjI2 exI [where x = i] exI [where x = m] exI [where x = o'] exI) auto
  show ?thesis
  proof (cases send)
    case None
    then show ?thesis using spec [of None] by (auto intro!: ensures_bindE [OF ensures_log_same] ensures_ret)
  next
    case (Some e)
    then show ?thesis using spec [of "Some e"]
      by (cases "error_is e ErrCanceled") (auto intro!: ensures_bindE [OF ensures_log_same] ensures_ret)
  qed
qed

lemma send_reply_spec:
  "ensures (same_but_logs d) (send_reply_notification env run now payload) (\<lambda>r d'. same_but_logs d d' \<and> reply_spec env d payload r)"
proof (cases "unmarshal (struct1 put_int ''comment_id'' 0) payload")
  case (Inl e)
  then show ?thesis by (simp add: send_reply_notification_def ensures_raise)
next
  case (Inr i)
  have quiet: "ensures (same_but_logs d) (ret quiet_run) (\<lambda>r d'. same_but_logs d d' \<and> reply_spec env d payload r)"
    by (rule ensures_ret) (simp add: reply_spec_def)
  show ?thesis
    unfolding send_reply_notification_def Inr sum.case get_comment_by_id_def
    apply (rule ensures_bind_given [OF ensures_attempt_row_same], simp)
    subgoal for r
    proof (cases r)
      case (Inl e)
      then show ?thesis by (simp add: quiet ensures_raise ensures_if)
    next
      case (Inr c)
      assume "\<forall>x. r = Inr x \<longrightarrow> by_id c_id i (comments d) = Some x"
      with Inr have c: "by_id c_id i (comments d) = Some c" by simp
      show ?thesis
        unfolding Inr sum.case
        apply (rule ensures_bind_given [OF eligible_reply_spec [OF c]])
        subgoal for el
        proof (cases el)
          case None
          then show ?thesis by (simp add: quiet)
        next
          case (Some parent)
          assume "\<forall>parent. el = Some parent \<longrightarrow> notifiable env d i c parent"
          with Some have n: "notifiable env d i c parent" by simp
          show ?thesis
            unfolding Some option.case Let_def
            apply (rule ensures_bindE [OF ensures_pres [OF pres_lookups_same(1)]])
            apply (rule ensures_if, rule quiet)
            apply (rule ensures_bindE [OF ensures_pres [OF pres_lookups_same(2)]], unfold split_beta)
            apply (rule ensures_bindE [OF ensures_pres [OF pres_resolve_mailed(2)]])
            apply (rule ensures_case_sum [where P = "\<lambda>_. same_but_logs d"], rule ensures_raise)
            apply (rule ensures_reply [OF \<open>unmarshal (struct1 put_int ''comment_id'' 0) payload = Inr i\<close> n], simp)
            done
        qed
        done
    qed
    done
qed

text \<open>
  Who hears of a reply. A reply notification sends at most one mail, to the author of the parent of an approved
  local comment, when that parent is local, has an address, and was not written from the same address (case
  ignored). The handler fails with a delivery only when the delivery was cancelled: any other refusal is logged and
  dropped, so no retry can send the mail twice.
\<close>

theorem reply_notification_exact:
  assumes "send_reply_notification env run now payload w = (Inr (sent, out), w')"
  shows "same_but_logs (wdb w) (wdb w') \<and> (sent = [] \<and> out = None \<or>
     (\<exists>i c parent m o'. unmarshal (struct1 put_int ''comment_id'' 0) payload = Inr i \<and> notifiable env (wdb w) i c parent \<and>
       m_to m = str_of (c_author_email parent) \<and> sent = [(m, o')] \<and>
       out = (case o' of Some e \<Rightarrow> if error_is e ErrCanceled then Some e else None | None \<Rightarrow> None)))"
  using ensuresD [OF send_reply_spec same_but_logs_refl assms] by (simp add: reply_spec_def quiet_run_def)

section \<open>Witnesses\<close>

text \<open>An article, two readers who follow everything, and one who has not confirmed.\<close>

definition demo_reader :: "int \<Rightarrow> string \<Rightarrow> bool \<Rightarrow> subscriber" where
  "demo_reader i email ok = \<lparr>s_id = i, s_email = email, s_confirmation_token = Some ''c'', s_unsubscribe_token = Some ''u'',
     s_confirmed_at = (if ok then Some 0 else None), s_unsubscribed_at = None, s_created_at = 0, s_updated_at = 0\<rparr>"

definition demo_article :: article where
  "demo_article = \<lparr>a_id = 1, a_title = Some ''Hi'', a_slug = Some ''hi'', a_content_html = Some ''x'', a_content_type = ct_html,
     a_description = None, a_excerpt = None, a_meta_description = None, a_meta_title = None, a_meta_image = None,
     a_source_author = None, a_source_url = None, a_source_content = None, a_status = 1, a_comment = 0,
     a_scheduled_at = None, a_scheduled_platforms = JText [] None, a_scheduled_newsletter = 0, a_created_at = 0,
     a_updated_at = 0, a_content_markdown = None\<rparr>"

definition demo_native :: newsletter_setting where
  "demo_native = \<lparr>ns_id = 1, ns_enabled = 1, ns_provider = ''native'', ns_from_email = Some ''a@b.c'', ns_smtp_address = Some ''h'',
     ns_smtp_port = Some 25, ns_smtp_user_name = Some ''u'', ns_smtp_password = Some ''p'', ns_smtp_domain = None,
     ns_smtp_authentication = None, ns_smtp_enable_starttls = None, ns_created_at = 0, ns_updated_at = 0\<rparr>"

definition demo_site :: "database world" where
  "demo_site = \<lparr>wdb = empty_db\<lparr>articles := [demo_article], newsletter_settings := Some demo_native,
     subscribers := [demo_reader 1 ''ann'' True, demo_reader 2 ''eve'' False, demo_reader 3 ''bob'' True]\<rparr>, wfaults = []\<rparr>"

definition demo_mail :: "(nat \<Rightarrow> err option) \<Rightarrow> mail_env" where
  "demo_mail refusal = \<lparr>me_article = \<lambda>_. Inr ([], []), me_confirmation = \<lambda>_ _. Inr ([], []), me_reply = \<lambda>_. Inr ([], []),
     me_absolutize = \<lambda>s _. s, me_plain = \<lambda>s. s, me_source_reference = \<lambda>_ _. [], me_send = \<lambda>_ n _. refusal n,
     me_http = \<lambda>_ _. Inl ErrDeadline, me_snippet = \<lambda>_. [], me_prefix = [], me_lower = \<lambda>s. s, me_fold = \<lambda>a b. a = b\<rparr>"

definition cancelled_second :: "nat \<Rightarrow> err option" where
  "cancelled_second n = (if n = 1 then Some ErrCanceled else None)"

definition outcome_of :: "err + mail_run \<Rightarrow> ((string \<times> err option) list \<times> err option) option" where
  "outcome_of r = (case r of Inl _ \<Rightarrow> None | Inr (sent, out) \<Rightarrow> Some (map (\<lambda>x. (m_to (fst x), snd x)) sent, out))"

lemma demo_runs:
  "outcome_of (fst (send_native (demo_mail cancelled_second) None (\<lambda>_. 0) 1 demo_native demo_site)) =
     Some ([(''ann'', None), (''bob'', Some ErrCanceled)], Some ErrCanceled)"
  "outcome_of (fst (send_native (demo_mail (\<lambda>_. None)) None (\<lambda>_. 0) 1 demo_native demo_site)) =
     Some ([(''ann'', None), (''bob'', None)], None)"
  by code_simp+

lemma demo_run:
  "outcome_of (fst r) = Some (outs, res) \<Longrightarrow> \<exists>sent w'. r = (Inr (sent, res), w') \<and> map (\<lambda>x. (m_to (fst x), snd x)) sent = outs"
  by (cases r) (auto simp: outcome_of_def split: sum.splits)

lemma demo_ids: "ids_ok s_id (subscribers (wdb demo_site))"
  by (simp add: demo_site_def ids_ok_def demo_reader_def)

theorem native_issue_exact_witness:
  "\<exists>sent w' title addr pfx. send_native (demo_mail (\<lambda>_. None)) None (\<lambda>_. 0) 1 demo_native demo_site = (Inr (sent, None), w') \<and>
     map (\<lambda>x. m_to (fst x)) sent = [''ann'', ''bob''] \<and>
     map fst sent = List.map_filter (issue_mail (demo_mail (\<lambda>_. None)) demo_native demo_article title addr pfx) (issue_recipients 1 (wdb demo_site))"
proof -
  obtain sent w' where run: "send_native (demo_mail (\<lambda>_. None)) None (\<lambda>_. 0) 1 demo_native demo_site = (Inr (sent, None), w')"
    and outs: "map (\<lambda>x. (m_to (fst x), snd x)) sent = [(''ann'', None), (''bob'', None)]"
    by (rule exE [OF demo_run [OF demo_runs(2)]]) (elim exE conjE)
  have "map fst (map (\<lambda>x. (m_to (fst x), snd x)) sent) = [''ann'', ''bob'']" by (simp only: outs) simp
  then have "map (\<lambda>x. m_to (fst x)) sent = [''ann'', ''bob'']" by (simp add: comp_def)
  moreover have "native_ready demo_native" by code_simp
  moreover have "by_id a_id 1 (articles (wdb demo_site)) = Some demo_article" by code_simp
  ultimately show ?thesis using native_issue_exact [OF demo_ids run] run by auto
qed

theorem interrupted_issue_sent_again_witness:
  "\<exists>sent1 sent2 w1 w2.
     send_native (demo_mail cancelled_second) None (\<lambda>_. 0) 1 demo_native demo_site = (Inr (sent1, Some ErrCanceled), w1) \<and>
     map (\<lambda>x. (m_to (fst x), snd x)) sent1 = [(''ann'', None), (''bob'', Some ErrCanceled)] \<and>
     send_native (demo_mail (\<lambda>_. None)) None (\<lambda>_. 0) 1 demo_native demo_site = (Inr (sent2, None), w2) \<and>
     ''ann'' \<in> (\<lambda>x. m_to (fst x)) ` set sent2"
proof -
  obtain sent1 w1 where one: "send_native (demo_mail cancelled_second) None (\<lambda>_. 0) 1 demo_native demo_site = (Inr (sent1, Some ErrCanceled), w1)"
    and outs: "map (\<lambda>x. (m_to (fst x), snd x)) sent1 = [(''ann'', None), (''bob'', Some ErrCanceled)]"
    by (rule exE [OF demo_run [OF demo_runs(1)]]) (elim exE conjE)
  obtain sent2 w2 where two: "send_native (demo_mail (\<lambda>_. None)) None (\<lambda>_. 0) 1 demo_native demo_site = (Inr (sent2, None), w2)"
    by (rule exE [OF demo_run [OF demo_runs(2)]]) (elim exE conjE)
  have env: "demo_mail (\<lambda>_. None) = demo_mail cancelled_second\<lparr>me_send := \<lambda>_ _ _. None\<rparr>" by (simp add: demo_mail_def)
  have "\<forall>x. \<not> isl (me_article (demo_mail cancelled_second) x)" by (simp add: demo_mail_def)
  from interrupted_issue_sent_again [OF demo_ids this one same_but_logs_refl two [unfolded env]]
  have "(\<lambda>x. m_to (fst x)) ` set sent1 \<subseteq> (\<lambda>x. m_to (fst x)) ` set sent2" .
  moreover have "''ann'' \<in> set (map fst (map (\<lambda>x. (m_to (fst x), snd x)) sent1))" unfolding outs by simp
  ultimately show ?thesis using one two outs by (auto simp: image_image)
qed

definition demo_comment :: "int \<Rightarrow> int option \<Rightarrow> string \<Rightarrow> comment" where
  "demo_comment i parent email = \<lparr>c_id = i, c_commentable_type = Some ''Article'', c_commentable_id = Some 1, c_article_id = Some 1,
     c_parent_id = parent, c_author_name = ''n'', c_author_email = Some email, c_author_url = None, c_author_username = None,
     c_author_avatar_url = None, c_content = ''x'', c_status = comment_approved, c_platform = None, c_external_id = None,
     c_url = None, c_published_at = None, c_created_at = 0, c_updated_at = 0\<rparr>"

definition demo_thread :: "database world" where
  "demo_thread = demo_site\<lparr>wdb := (wdb demo_site)\<lparr>comments := [demo_comment 1 None ''ann'', demo_comment 2 (Some 1) ''bob'']\<rparr>\<rparr>"

lemma demo_reply:
  "outcome_of (fst (send_reply_notification (demo_mail (\<lambda>_. Some ErrDeadline)) None 0 (Some (to_text (JObj [(''comment_id'', JNum 2)]))) demo_thread)) =
     Some ([(''ann'', Some ErrDeadline)], None)"
  by code_simp

theorem reply_notification_exact_witness:
  "\<exists>sent w' m. send_reply_notification (demo_mail (\<lambda>_. Some ErrDeadline)) None 0 (Some (to_text (JObj [(''comment_id'', JNum 2)]))) demo_thread =
     (Inr (sent, None), w') \<and> sent = [(m, Some ErrDeadline)] \<and> m_to m = ''ann''"
proof -
  obtain sent w' where run: "send_reply_notification (demo_mail (\<lambda>_. Some ErrDeadline)) None 0 (Some (to_text (JObj [(''comment_id'', JNum 2)]))) demo_thread =
      (Inr (sent, None), w')" and outs: "map (\<lambda>x. (m_to (fst x), snd x)) sent = [(''ann'', Some ErrDeadline)]"
    by (rule exE [OF demo_run [OF demo_reply]]) (elim exE conjE)
  then have "sent \<noteq> []" by auto
  with reply_notification_exact [OF run] obtain m o' where "sent = [(m, o')]" by auto
  with outs run show ?thesis by auto
qed

end
