(* ===== verification/PostText.thy ===== *)
theory PostText
  imports JsonText NetText SiteSettings
begin

text \<open>
  The text of a crosspost (\<open>internal/domain/contentbuilder.go\<close>): counting and cutting on characters, the
  article's URL, and \<open>BuildContent\<close>. Strings are bytes, so the characters Go's \<open>range\<close> sees are decoded
  here, invalid bytes as U+FFFD; what \<open>utf8\<close> encodes is read back (\<open>runes_encode\<close>). \<open>url.Parse\<close> is the
  parameter \<open>parse\<close>.
\<close>

section \<open>The characters of a string\<close>

text \<open>
  The bytes that follow a first byte: how many, and the range of the second one
  (the table \<open>first\<close> of package \<open>unicode/utf8\<close>).
\<close>

definition lead_rule :: "nat \<Rightarrow> (nat \<times> nat \<times> nat) option" where
  "lead_rule b =
     (if 194 \<le> b \<and> b < 224 then Some (1, 128, 191)
      else if b = 224 then Some (2, 160, 191)
      else if b = 237 then Some (2, 128, 159)
      else if 225 \<le> b \<and> b < 240 then Some (2, 128, 191)
      else if b = 240 then Some (3, 144, 191)
      else if 241 \<le> b \<and> b < 244 then Some (3, 128, 191)
      else if b = 244 then Some (3, 128, 143)
      else None)"

definition tail_bits :: "char \<Rightarrow> nat" where
  "tail_bits c = code_of c - 128"

text \<open>\<open>utf8.DecodeRuneInString\<close> of a string that is not empty: the character and its width.\<close>

definition decode_rune :: "char \<Rightarrow> string \<Rightarrow> nat \<times> nat" where
  "decode_rune c s =
     (if code_of c < 128 then (code_of c, 1)
      else case lead_rule (code_of c) of
        None \<Rightarrow> (65533, 1)
      | Some (n, lo, hi) \<Rightarrow>
          let t = take n s in
          if length t = n \<and> lo \<le> code_of (hd t) \<and> code_of (hd t) \<le> hi \<and> list_all is_continuation (tl t)
          then (foldl (\<lambda>v b. v * 64 + tail_bits b) (code_of c mod 2 ^ (6 - n)) t, Suc n)
          else (65533, 1))"

lemma decode_rune_width: "1 \<le> snd (decode_rune c s)"
  by (auto simp: decode_rune_def Let_def split: option.splits)

function runes :: "string \<Rightarrow> nat list" where
  "runes s =
     (case s of
        [] \<Rightarrow> []
      | c # t \<Rightarrow> fst (decode_rune c t) # runes (drop (snd (decode_rune c t) - 1) t))"
  by pat_completeness auto
termination
  by (relation "measure length") auto

declare runes.simps [simp del]

lemma runes_Nil [simp]: "runes [] = []"
  by (simp add: runes.simps)

lemma runes_Cons: "runes (c # t) = fst (decode_rune c t) # runes (drop (snd (decode_rune c t) - 1) t)"
  by (simp add: runes.simps)

text \<open>\<open>string(rs)\<close>: what is no character is written as U+FFFD.\<close>

definition valid_rune :: "nat \<Rightarrow> bool" where
  "valid_rune r = (r < 55296 \<or> 57344 \<le> r \<and> r < 1114112)"

definition encode_runes :: "nat list \<Rightarrow> string" where
  "encode_runes rs = concat (map (\<lambda>r. utf8 (if valid_rune r then r else 65533)) rs)"

section \<open>Counting and cutting\<close>

definition char_cost :: "bool \<Rightarrow> nat \<Rightarrow> int" where
  "char_cost double r = (if double \<and> 128 \<le> r then 2 else 1)"

definition count_chars :: "string \<Rightarrow> bool \<Rightarrow> int" where
  "count_chars s double = sum_list (map (char_cost double) (runes s))"

fun take_cost :: "nat list \<Rightarrow> int \<Rightarrow> int \<Rightarrow> nat list" where
  "take_cost [] cur m = []"
| "take_cost (r # rs) cur m =
     (if m < cur + char_cost True r then [] else r # take_cost rs (cur + char_cost True r) m)"

definition truncate_text :: "string \<Rightarrow> int \<Rightarrow> bool \<Rightarrow> string" where
  "truncate_text s m double =
     (if m \<le> 0 then ''''
      else if \<not> double then (if int (length (runes s)) \<le> m then s else encode_runes (take (nat m) (runes s)))
      else encode_runes (take_cost (runes s) 0 m))"

definition effective_max_characters :: "string \<Rightarrow> int \<Rightarrow> int" where
  "effective_max_characters platform configured =
     (if 0 < configured then configured
      else if platform = ''mastodon'' then 500
      else if platform = ''twitter'' then 250
      else 300)"

definition platform_count_double :: "string \<Rightarrow> bool" where
  "platform_count_double platform = (platform = ''twitter'')"

section \<open>The URL of an article\<close>

text \<open>What \<open>BuildPostURL\<close> reads of a parsed URL: the host without its port, and the port.\<close>

record site_parts =
  sp_scheme :: string
  sp_hostname :: string
  sp_port :: string
  sp_path :: string

definition is_default_port :: "string \<Rightarrow> string \<Rightarrow> bool" where
  "is_default_port scheme port = (scheme = ''http'' \<and> port = ''80'' \<or> scheme = ''https'' \<and> port = ''443'')"

text \<open>\<open>url.URL.String\<close> of a URL with a host: the escapes of its host and its path.\<close>

definition percent :: "char \<Rightarrow> string" where
  "percent c =
     (let hex = \<lambda>n. char_of (if n < 10 then 48 + n else 55 + n :: nat)
      in [CHR ''%'', hex (code_of c div 16), hex (code_of c mod 16)])"

definition url_escape :: "string \<Rightarrow> string \<Rightarrow> string" where
  "url_escape kept s =
     concat (map (\<lambda>c. if is_ascii_letter c \<or> is_digit c \<or> c \<in> set ''-_.~'' \<or> c \<in> set kept then [c] else percent c) s)"

definition host_chars :: string where
  "host_chars = ''!$&()*+,;=:[]<>'' @ [CHR 0x22, CHR 0x27]"

definition path_chars :: string where
  "path_chars = ''$&+,/:;=@''"

definition url_string :: "string \<Rightarrow> string \<Rightarrow> string \<Rightarrow> string" where
  "url_string scheme host path =
     (if scheme = '''' then '''' else scheme @ '':'') @ ''//'' @ url_escape host_chars host @
     (if path \<noteq> '''' \<and> hd path \<noteq> CHR ''/'' then ''/'' else '''') @ url_escape path_chars path"

definition build_post_url :: "(string \<Rightarrow> site_parts option) \<Rightarrow> string \<Rightarrow> string \<Rightarrow> string \<Rightarrow> string" where
  "build_post_url parse site pfx slug =
     (let site = trim_suffix (if is_blank site then ''http://localhost:3000'' else site) ''/'';
          site = (if has_prefix site ''http://'' \<or> has_prefix site ''https://'' then site else ''https://'' @ site);
          path = ''/'' @ slug;
          path = (if trim_slashes pfx \<noteq> '''' then ''/'' @ trim_slashes pfx @ path else path)
      in case parse site of
           None \<Rightarrow> site @ path
         | Some u \<Rightarrow>
             if sp_hostname u = '''' then site @ path
             else
               (let host = (if sp_port u \<noteq> '''' \<and> \<not> is_default_port (sp_scheme u) (sp_port u)
                            then (if CHR '':'' \<in> set (sp_hostname u) then ''['' @ sp_hostname u @ '']'' else sp_hostname u) @ '':'' @ sp_port u
                            else if CHR '':'' \<in> set (sp_hostname u) then ''['' @ sp_hostname u @ '']''
                            else sp_hostname u)
                in url_string (sp_scheme u) host (trim_suffix (sp_path u) ''/'' @ path)))"

section \<open>The text of a post\<close>

record content_input =
  ci_slug :: string
  ci_title :: string
  ci_plain_text :: string
  ci_description :: string
  ci_source_url :: string

record build_options =
  bo_max_length :: int
  bo_always_add_link :: bool
  bo_double :: bool
  bo_site_url :: string
  bo_route_prefix :: string

definition lstrip :: "string \<Rightarrow> string" where
  "lstrip s = dropWhile (\<lambda>c. code_of c \<in> {32, 9, 10, 11, 12, 13, 0}) s"

abbreviation newline :: char where "newline \<equiv> CHR 0x0A"

definition max_length_of :: "build_options \<Rightarrow> int" where
  "max_length_of opt = (if bo_max_length opt \<le> 0 then 300 else bo_max_length opt)"

definition post_content :: "content_input \<Rightarrow> string" where
  "post_content ci = (if is_blank (ci_description ci) then ci_plain_text ci else ci_description ci)"

definition source_text :: "content_input \<Rightarrow> string" where
  "source_text ci = (if is_blank (ci_source_url ci) then '''' else newline # ci_source_url ci)"

definition body_length :: "content_input \<Rightarrow> bool \<Rightarrow> int" where
  "body_length ci double =
     (let content = count_chars (post_content ci) double in
      if is_blank (ci_title ci) then content else count_chars (ci_title ci) double + content + 1)"

definition needs_link :: "content_input \<Rightarrow> build_options \<Rightarrow> bool" where
  "needs_link ci opt =
     (bo_always_add_link opt
      \<or> max_length_of opt \<le> body_length ci (bo_double opt) + count_chars (source_text ci) (bo_double opt)
      \<or> \<not> is_blank (ci_description ci))"

text \<open>The link, and the length it is counted with: on Twitter a newline, ten characters and a short URL.\<close>

definition link_text :: "(string \<Rightarrow> site_parts option) \<Rightarrow> content_input \<Rightarrow> build_options \<Rightarrow> string" where
  "link_text parse ci opt =
     newline # (if bo_double opt then ''Read more:'' else ''Read more: '') @
     build_post_url parse (bo_site_url opt) (bo_route_prefix opt) (ci_slug ci)"

definition link_length :: "(string \<Rightarrow> site_parts option) \<Rightarrow> content_input \<Rightarrow> build_options \<Rightarrow> int" where
  "link_length parse ci opt = (if bo_double opt then 34 else count_chars (link_text parse ci opt) False)"

definition suffix_text :: "(string \<Rightarrow> site_parts option) \<Rightarrow> content_input \<Rightarrow> build_options \<Rightarrow> string" where
  "suffix_text parse ci opt = link_text parse ci opt @ source_text ci"

definition suffix_length :: "(string \<Rightarrow> site_parts option) \<Rightarrow> content_input \<Rightarrow> build_options \<Rightarrow> int" where
  "suffix_length parse ci opt = link_length parse ci opt + count_chars (source_text ci) (bo_double opt)"

definition full_body :: "content_input \<Rightarrow> string" where
  "full_body ci = (if is_blank (ci_title ci) then post_content ci else ci_title ci @ newline # post_content ci)"

definition build_content :: "(string \<Rightarrow> site_parts option) \<Rightarrow> content_input \<Rightarrow> build_options \<Rightarrow> string" where
  "build_content parse ci opt =
     (let double = bo_double opt; title = ci_title ci; content = post_content ci;
          title_length = count_chars title double; content_length = count_chars content double;
          suffix = suffix_text parse ci opt; available = max_length_of opt - suffix_length parse ci opt;
          remaining = available - title_length - 1
      in if \<not> needs_link ci opt then full_body ci @ source_text ci
         else if available \<le> 0 then lstrip suffix
         else if \<not> is_blank title then
           (if available - 3 \<le> title_length then
              (if 3 < available then truncate_text title (available - 3) double @ ''...''
               else truncate_text title available double) @ suffix
            else if remaining \<le> 4 then title @ suffix
            else if content_length \<le> remaining then title @ newline # content @ suffix
            else title @ newline # truncate_text content (remaining - 3) double @ ''...'' @ suffix)
         else if content_length \<le> available then content @ suffix
         else if available \<le> 4 then lstrip suffix
         else truncate_text content (available - 3) double @ ''...'' @ suffix)"

section \<open>Decoding what was encoded\<close>

lemma code_of_char_of [simp]: "n < 256 \<Longrightarrow> code_of (char_of n) = n"
  by simp

text \<open>A character from its base 64 digits.\<close>

lemma base64_digits:
  shows "(r :: nat) = r div 4096 * 4096 + r div 64 mod 64 * 64 + r mod 64"
    and "r div 4096 = r div 262144 * 64 + r div 4096 mod 64"
proof -
  have "r = r div 64 * 64 + r mod 64" by simp
  moreover have "r div 64 = r div 64 div 64 * 64 + r div 64 mod 64" by simp
  moreover have "r div 64 div 64 = r div 4096" by (simp flip: div_mult2_eq)
  ultimately show "r = r div 4096 * 4096 + r div 64 mod 64 * 64 + r mod 64" by linarith
  have "r div 4096 = r div 4096 div 64 * 64 + r div 4096 mod 64" by simp
  also have "r div 4096 div 64 = r div 262144" by (simp flip: div_mult2_eq)
  finally show "r div 4096 = r div 262144 * 64 + r div 4096 mod 64" .
qed

lemma decode_utf8_one: "r < 128 \<Longrightarrow> utf8 r = [char_of r] \<and> decode_rune (char_of r) s = (r, 1)"
  by (simp add: utf8_def decode_rune_def)

lemma decode_two:
  assumes "a < 32" "2 \<le> a" "c < 64"
  shows "decode_rune (char_of (192 + a)) (char_of (128 + c) # s) = (a * 64 + c, 2)"
  using assms by (simp add: decode_rune_def lead_rule_def tail_bits_def mod_if)

lemma decode_three:
  assumes "a < 16" "b < 64" "c < 64" "a = 0 \<Longrightarrow> 32 \<le> b" "a = 13 \<Longrightarrow> b \<le> 31"
  shows "decode_rune (char_of (224 + a)) (char_of (128 + b) # char_of (128 + c) # s) = ((a * 64 + b) * 64 + c, 3)"
proof -
  have "lead_rule (224 + a) = Some (2, if a = 0 then 160 else 128, if a = 13 then 159 else 191)"
    using assms(1) by (auto simp: lead_rule_def)
  moreover have "(224 + a) mod 16 = a" using assms(1) by (simp add: mod_if)
  ultimately show ?thesis
    using assms by (auto simp: decode_rune_def tail_bits_def is_continuation_def)
qed

lemma decode_four:
  assumes "a < 5" "d < 64" "b < 64" "c < 64" "a = 0 \<Longrightarrow> 16 \<le> d" "a = 4 \<Longrightarrow> d \<le> 15"
  shows "decode_rune (char_of (240 + a)) (char_of (128 + d) # char_of (128 + b) # char_of (128 + c) # s) =
           (((a * 64 + d) * 64 + b) * 64 + c, 4)"
proof -
  have "lead_rule (240 + a) = Some (3, if a = 0 then 144 else 128, if a = 4 then 143 else 191)"
    using assms(1) by (auto simp: lead_rule_def)
  moreover have "(240 + a) mod 8 = a" using assms(1) by (simp add: mod_if)
  ultimately show ?thesis
    using assms by (auto simp: decode_rune_def tail_bits_def is_continuation_def)
qed


lemma decode_utf8:
  assumes "valid_rune r"
  shows "\<exists>c t. utf8 r = c # t \<and> (\<forall>s. decode_rune c (t @ s) = (r, Suc (length t)))"
proof -
  consider "r < 128" | "128 \<le> r" "r < 2048" | "2048 \<le> r" "r < 65536" | "65536 \<le> r" by linarith
  then show ?thesis
  proof cases
    case 1
    then show ?thesis using decode_utf8_one by auto
  next
    case 2
    then have "2 \<le> r div 64" "r div 64 < 32" by (simp_all add: less_eq_div_iff_mult_less_eq div_less_iff_less_mult)
    then show ?thesis
      using 2 decode_two [of "r div 64" "r mod 64"] by (simp add: utf8_def)
  next
    case 3
    define a b c where v: "a = r div 4096" "b = r div 64 mod 64" "c = r mod 64"
    have r: "r = a * 4096 + b * 64 + c" "b < 64" "c < 64"
      unfolding v using base64_digits(1) [of r] by simp_all
    then have "a < 16" "a = 0 \<Longrightarrow> 32 \<le> b" "a = 13 \<Longrightarrow> b \<le> 31"
      using 3 assms by (auto simp: valid_rune_def)
    moreover have "(a * 64 + b) * 64 + c = r" using r(1) by simp
    ultimately have "\<forall>s. decode_rune (char_of (224 + a)) (char_of (128 + b) # char_of (128 + c) # s) = (r, 3)"
      using decode_three [of a b c] r(2,3) by simp
    moreover have "utf8 r = [char_of (224 + a), char_of (128 + b), char_of (128 + c)]"
      using 3 by (simp add: utf8_def v)
    ultimately show ?thesis by (simp add: numeral_3_eq_3)
  next
    case 4
    define a d b c where v: "a = r div 262144" "d = r div 4096 mod 64" "b = r div 64 mod 64" "c = r mod 64"
    have r: "r = (a * 64 + d) * 4096 + b * 64 + c" "d < 64" "b < 64" "c < 64"
      unfolding v base64_digits(2) [of r, symmetric] using base64_digits(1) [of r] by simp_all
    then have "a < 5" "a = 0 \<Longrightarrow> 16 \<le> d" "a = 4 \<Longrightarrow> d \<le> 15"
      using 4 assms by (auto simp: valid_rune_def)
    moreover have "((a * 64 + d) * 64 + b) * 64 + c = r" using r(1) by simp
    ultimately have "\<forall>s. decode_rune (char_of (240 + a)) (char_of (128 + d) # char_of (128 + b) # char_of (128 + c) # s) = (r, 4)"
      using decode_four [of a d b c] r(2-4) by simp
    moreover have "utf8 r = [char_of (240 + a), char_of (128 + d), char_of (128 + b), char_of (128 + c)]"
      using 4 by (simp add: utf8_def v)
    ultimately show ?thesis by (simp add: eval_nat_numeral)
  qed
qed

lemma runes_utf8: "valid_rune r \<Longrightarrow> runes (utf8 r @ s) = r # runes s"
  using decode_utf8 [of r] by (auto simp: runes_Cons)

lemma runes_encode: "list_all valid_rune rs \<Longrightarrow> runes (encode_runes rs @ s) = rs @ runes s"
  by (induction rs) (simp_all add: encode_runes_def runes_utf8)

lemma lead_rule_bounds: "lead_rule b = Some (n, lo, hi) \<Longrightarrow> n \<in> {1, 2, 3} \<and> 128 \<le> lo"
  by (auto simp: lead_rule_def split: if_splits)

lemma take_ascii:
  assumes "list_all (\<lambda>c. 128 \<le> code_of c) (take n (s @ t))" "length (take n (s @ t)) = n" "t = [] \<or> code_of (hd t) < 128"
  shows "n \<le> length s"
proof (rule ccontr)
  assume "\<not> n \<le> length s"
  then have "t \<noteq> []" "take n (s @ t) = s @ take (n - length s) t" "0 < n - length s" using assms(2) by auto
  then show False using assms(1,3) by (cases t; cases "n - length s") auto
qed

text \<open>A string that ASCII follows is decoded on its own.\<close>

lemma decode_append:
  assumes "t = [] \<or> code_of (hd t) < 128"
  shows "decode_rune c (s @ t) = decode_rune c s \<and> snd (decode_rune c s) - 1 \<le> length s"
proof (cases "code_of c < 128 \<or> lead_rule (code_of c) = None")
  case True
  then show ?thesis by (auto simp: decode_rune_def)
next
  case False
  then obtain n lo hi where l: "lead_rule (code_of c) = Some (n, lo, hi)" "\<not> code_of c < 128" by auto
  show ?thesis
  proof (cases "n \<le> length s")
    case True
    then show ?thesis using l by (simp add: decode_rune_def Let_def)
  next
    case short: False
    have "\<not> (length (take n (s @ t)) = n \<and> lo \<le> code_of (hd (take n (s @ t))) \<and> list_all is_continuation (tl (take n (s @ t))))"
    proof
      assume a: "length (take n (s @ t)) = n \<and> lo \<le> code_of (hd (take n (s @ t))) \<and> list_all is_continuation (tl (take n (s @ t)))"
      have "list_all (\<lambda>c. 128 \<le> code_of c) (take n (s @ t))"
        using a lead_rule_bounds [OF l(1)] by (cases "take n (s @ t)") (auto simp: list_all_iff is_continuation_def)
      with a short assms show False using take_ascii by blast
    qed
    then show ?thesis using l short by (simp add: decode_rune_def Let_def)
  qed
qed

lemma runes_append: "t = [] \<or> code_of (hd t) < 128 \<Longrightarrow> runes (s @ t) = runes s @ runes t"
proof (induction s rule: runes.induct)
  case (1 s)
  show ?case
  proof (cases s)
    case (Cons c s')
    note d = decode_append [OF 1(2), of c s']
    have "snd (decode_rune c s') - 1 - length s' = 0" using d by linarith
    then have "drop (snd (decode_rune c s') - 1) (s' @ t) = drop (snd (decode_rune c s') - 1) s' @ t"
      by (simp only: drop_append drop_0)
    then have "runes (s @ t) = fst (decode_rune c s') # runes (drop (snd (decode_rune c s') - 1) s' @ t)"
      using d by (simp only: Cons runes_Cons append_Cons)
    also have "\<dots> = runes s @ runes t" using 1 by (simp add: Cons runes_Cons)
    finally show ?thesis .
  qed simp
qed

text \<open>Every character \<open>range\<close> yields is one that \<open>string\<close> writes back.\<close>

lemma tail_bits: "is_continuation c \<Longrightarrow> tail_bits c < 64"
  by (auto simp: tail_bits_def is_continuation_def)

lemma lead_bits:
  "194 \<le> b \<Longrightarrow> b < 224 \<Longrightarrow> b mod 32 = b - (192 :: nat)"
  "224 \<le> b \<Longrightarrow> b < 240 \<Longrightarrow> b mod 16 = b - (224 :: nat)"
  "240 \<le> b \<Longrightarrow> b < 245 \<Longrightarrow> b mod 8 = b - (240 :: nat)"
  by (rule mod_nat_eqI; simp)+

lemma decode_rune_valid: "valid_rune (fst (decode_rune c s))"
proof (cases "lead_rule (code_of c)")
  case None
  then show ?thesis by (simp add: decode_rune_def valid_rune_def)
next
  case (Some p)
  then obtain n lo hi where l: "lead_rule (code_of c) = Some (n, lo, hi)" by (cases p) blast
  show ?thesis
  proof (cases "code_of c < 128 \<or> \<not> (length (take n s) = n \<and> lo \<le> code_of (hd (take n s)) \<and>
                   code_of (hd (take n s)) \<le> hi \<and> list_all is_continuation (tl (take n s)))")
    case True
    then show ?thesis using l by (auto simp: decode_rune_def valid_rune_def Let_def)
  next
    case False
    then have ok: "length (take n s) = n" "lo \<le> code_of (hd (take n s))" "code_of (hd (take n s)) \<le> hi"
        "list_all is_continuation (tl (take n s))" by blast+
    have v: "fst (decode_rune c s) = foldl (\<lambda>v b. v * 64 + tail_bits b) (code_of c mod 2 ^ (6 - n)) (take n s)"
      using False l by (simp add: decode_rune_def Let_def)
    have "n \<in> {1, 2, 3}" using lead_rule_bounds [OF l] by simp
    then consider (two) b where "n = 1" "take n s = [b]" | (three) b d where "n = 2" "take n s = [b, d]"
      | (four) b d e where "n = 3" "take n s = [b, d, e]"
      using ok(1) by (auto simp: length_Suc_conv numeral_2_eq_2 numeral_3_eq_3 simp del: length_take)
    then show ?thesis
    proof cases
      case two
      then show ?thesis using l ok(2,3)
        by (auto simp: v valid_rune_def lead_rule_def tail_bits_def lead_bits split: if_splits)
    next
      case three
      moreover have "tail_bits d < 64" using ok(4) three tail_bits by simp
      ultimately show ?thesis using l ok(2,3)
        by (auto simp: v valid_rune_def lead_rule_def tail_bits_def [of b] lead_bits split: if_splits)
    next
      case four
      moreover have "tail_bits d < 64" "tail_bits e < 64" using ok(4) four tail_bits by simp_all
      ultimately show ?thesis using l ok(2,3)
        by (auto simp: v valid_rune_def lead_rule_def tail_bits_def [of b] lead_bits split: if_splits)
    qed
  qed
qed

lemma runes_valid: "list_all valid_rune (runes s)"
proof (induction s rule: runes.induct)
  case (1 s)
  then show ?case by (cases s) (simp_all add: runes_Cons decode_rune_valid)
qed

section \<open>Counting\<close>

lemma count_append: "t = [] \<or> code_of (hd t) < 128 \<Longrightarrow> count_chars (s @ t) double = count_chars s double + count_chars t double"
  by (simp add: count_chars_def runes_append)

lemma runes_ascii: "code_of c < 128 \<Longrightarrow> runes (c # s) = code_of c # runes s"
  by (simp add: runes_Cons decode_rune_def)

lemma count_ascii [simp]: "code_of c < 128 \<Longrightarrow> count_chars (c # s) double = 1 + count_chars s double"
  by (simp add: count_chars_def runes_ascii char_cost_def)

lemma count_Nil [simp]: "count_chars '''' double = 0"
  by (simp add: count_chars_def)

lemma count_nonneg: "0 \<le> count_chars s double"
  unfolding count_chars_def by (rule sum_list_nonneg) (auto simp: char_cost_def)

lemma count_encode: "list_all valid_rune rs \<Longrightarrow> count_chars (encode_runes rs) double = sum_list (map (char_cost double) rs)"
  using runes_encode [of rs "[]"] by (simp add: count_chars_def)

lemma take_cost_fits: "0 \<le> m - cur \<Longrightarrow> sum_list (map (char_cost True) (take_cost rs cur m)) \<le> m - cur"
  by (induction rs cur m rule: take_cost.induct) force+

lemma take_cost_prefix: "\<exists>n. take_cost rs cur m = take n rs"
proof (induction rs cur m rule: take_cost.induct)
  case (2 r rs cur m)
  then show ?case by (cases "m < cur + char_cost True r") (auto intro: exI [of _ 0] exI [of _ "Suc _"])
qed simp

lemma single_cost: "sum_list (map (char_cost False) rs) = int (length rs)"
  by (induction rs) (simp_all add: char_cost_def)

lemma truncate_fits:
  assumes m: "0 \<le> m"
  shows "count_chars (truncate_text s m double) double \<le> m"
proof -
  have v: "list_all valid_rune (take n (runes s))" for n
    using runes_valid [of s] by (auto simp: list_all_iff dest: in_set_takeD)
  obtain n where n: "take_cost (runes s) 0 m = take n (runes s)" using take_cost_prefix by blast
  have "sum_list (map (char_cost True) (take_cost (runes s) 0 m)) \<le> m" using take_cost_fits [of m 0] m by simp
  then show ?thesis
    using m v by (cases double) (auto simp: truncate_text_def n count_encode single_cost count_chars_def [of s])
qed

lemma link_text_head: "\<exists>t. link_text parse ci opt = newline # CHR ''R'' # t"
  by (simp add: link_text_def)

lemma suffix_head: "\<exists>t. suffix_text parse ci opt = newline # CHR ''R'' # t"
  using link_text_head [of parse ci opt] by (auto simp: suffix_text_def)

lemma lstrip_suffix: "lstrip (suffix_text parse ci opt) = tl (suffix_text parse ci opt)"
  using suffix_head [of parse ci opt] by (auto simp: lstrip_def)

lemma count_dots: "count_chars (s @ ''...'') double = count_chars s double + 3"
  by (simp add: count_append)

lemma count_line: "count_chars (s @ newline # t) double = count_chars s double + 1 + count_chars t double"
  by (simp add: count_append)

lemma count_source: "count_chars (s @ source_text ci) double = count_chars s double + count_chars (source_text ci) double"
  by (rule count_append) (simp add: source_text_def)

lemma count_full: "count_chars (full_body ci) double = body_length ci double"
  by (simp add: full_body_def body_length_def count_line Let_def)

text \<open>What \<open>build_content\<close> puts before the link.\<close>

lemma linked_content:
  assumes "needs_link ci opt" "suffix_length parse ci opt < max_length_of opt"
  shows "\<exists>body. (build_content parse ci opt = body @ suffix_text parse ci opt \<or>
                 body = '''' \<and> build_content parse ci opt = tl (suffix_text parse ci opt)) \<and>
           count_chars body (bo_double opt) + suffix_length parse ci opt \<le> max_length_of opt"
proof -
  define av where "av = max_length_of opt - suffix_length parse ci opt"
  define T where "T = ci_title ci"
  define C where "C = post_content ci"
  define D where "D = bo_double opt"
  note tf = truncate_fits [of "av - 3" T D] truncate_fits [of av T D] truncate_fits [of "av - 3" C D]
    truncate_fits [of "av - count_chars T D - 1 - 3" C D]
  have av: "0 < av" using assms(2) by (simp add: av_def)
  have "\<exists>body. (build_content parse ci opt = body @ suffix_text parse ci opt \<or>
                 body = '''' \<and> build_content parse ci opt = tl (suffix_text parse ci opt)) \<and> count_chars body D \<le> av"
  proof (cases "is_blank T")
    case True
    consider "count_chars C D \<le> av" | "av < count_chars C D" "av \<le> 4" | "av < count_chars C D" "4 < av" by linarith
    then show ?thesis
    proof cases
      case 1
      then show ?thesis using True assms av
        by (intro exI [of _ C]) (simp add: build_content_def Let_def flip: av_def T_def C_def D_def)
    next
      case 2
      then show ?thesis using True assms av
        by (intro exI [of _ "''''"]) (simp add: build_content_def Let_def lstrip_suffix flip: av_def T_def C_def D_def)
    next
      case 3
      then show ?thesis using True assms av tf
        by (intro exI [of _ "truncate_text C (av - 3) D @ ''...''"])
          (simp add: build_content_def Let_def count_dots flip: av_def T_def C_def D_def)
    qed
  next
    case False
    define rem where "rem = av - count_chars T D - 1"
    consider "av - 3 \<le> count_chars T D" "3 < av" | "av - 3 \<le> count_chars T D" "av \<le> 3"
      | "count_chars T D < av - 3" "rem \<le> 4" | "count_chars T D < av - 3" "4 < rem" "count_chars C D \<le> rem"
      | "count_chars T D < av - 3" "4 < rem" "rem < count_chars C D" by linarith
    then show ?thesis
    proof cases
      case 1
      then show ?thesis using False assms av tf
        by (intro exI [of _ "truncate_text T (av - 3) D @ ''...''"])
          (simp add: build_content_def Let_def count_dots flip: av_def T_def C_def D_def)
    next
      case 2
      then show ?thesis using False assms av tf
        by (intro exI [of _ "truncate_text T av D"])
          (simp add: build_content_def Let_def flip: av_def T_def C_def D_def)
    next
      case 3
      then show ?thesis using False assms av
        by (intro exI [of _ T]) (simp add: build_content_def Let_def rem_def flip: av_def T_def C_def D_def)
    next
      case 4
      then show ?thesis using False assms av
        by (intro exI [of _ "T @ newline # C"])
          (simp add: build_content_def Let_def count_line rem_def flip: av_def T_def C_def D_def)
    next
      case 5
      then show ?thesis using False assms av tf
        by (intro exI [of _ "T @ newline # truncate_text C (rem - 3) D @ ''...''"])
          (simp add: build_content_def Let_def count_line count_dots rem_def flip: av_def T_def C_def D_def)
    qed
  qed
  then show ?thesis by (auto simp: av_def D_def)
qed

lemma uncut_content:
  assumes "needs_link ci opt" "suffix_length parse ci opt < max_length_of opt" "5 \<le> count_chars (post_content ci) (bo_double opt)"
    "body_length ci (bo_double opt) + suffix_length parse ci opt \<le> max_length_of opt"
  shows "build_content parse ci opt = full_body ci @ suffix_text parse ci opt"
proof -
  define av where "av = max_length_of opt - suffix_length parse ci opt"
  define TL where "TL = count_chars (ci_title ci) (bo_double opt)"
  define CL where "CL = count_chars (post_content ci) (bo_double opt)"
  have fits: "if is_blank (ci_title ci) then CL \<le> av else TL + CL + 1 \<le> av" "0 < av" "5 \<le> CL"
    using assms(2-4) by (simp_all add: body_length_def av_def TL_def CL_def Let_def split: if_splits)
  show ?thesis
  proof (cases "is_blank (ci_title ci)")
    case True
    then show ?thesis using fits assms(1)
      by (simp add: build_content_def full_body_def Let_def flip: av_def TL_def CL_def)
  next
    case False
    then have "\<not> av - 3 \<le> TL" "\<not> av - TL - 1 \<le> 4" "CL \<le> av - TL - 1" using fits by auto
    then show ?thesis using False fits(2) assms(1)
      by (simp add: build_content_def full_body_def Let_def flip: av_def TL_def CL_def)
  qed
qed


text \<open>
  A short post: with room to spare, without room for its link, and on Twitter with the link always added, where the
  accented letter of the title counts twice.
\<close>

definition demo_address :: "string \<Rightarrow> site_parts option" where
  "demo_address u = Some \<lparr>sp_scheme = ''https'', sp_hostname = ''a.io'', sp_port = [], sp_path = []\<rparr>"

definition demo_post :: content_input where
  "demo_post = \<lparr>ci_slug = ''hi'', ci_title = [CHR ''H'', CHR 0xC3, CHR 0xA9], ci_plain_text = ''abcdef'', ci_description = [],
     ci_source_url = []\<rparr>"

definition demo_options :: "int \<Rightarrow> bool \<Rightarrow> build_options" where
  "demo_options m double = \<lparr>bo_max_length = m, bo_always_add_link = double, bo_double = double, bo_site_url = ''a.io'',
     bo_route_prefix = ''blog''\<rparr>"

lemma demo_options_simps:
  "max_length_of (demo_options 20 double) = 20" "max_length_of (demo_options 9 double) = 9"
  "max_length_of (demo_options 36 double) = 36" "max_length_of (demo_options 44 double) = 44"
  "bo_double (demo_options m double) = double"
  by (simp_all add: max_length_of_def demo_options_def)

lemma demo_needs:
  "needs_link demo_post (demo_options 20 False) = False" "needs_link demo_post (demo_options 9 False) = True"
  "needs_link demo_post (demo_options m True) = True"
  by (code_simp, code_simp, simp add: needs_link_def demo_options_def)

lemma demo_blank: "is_blank (ci_title demo_post) = False" "is_blank [] = True"
  by code_simp+

lemma demo_lengths:
  "suffix_length demo_address demo_post (demo_options 9 False) = 32"
  "suffix_length demo_address demo_post (demo_options m True) = 34"
  "count_chars (post_content demo_post) True = 6" "count_chars (ci_title demo_post) True = 3"
proof -
  show "suffix_length demo_address demo_post (demo_options 9 False) = 32" by code_simp
  show "suffix_length demo_address demo_post (demo_options m True) = 34"
    using demo_blank(2) by (simp add: suffix_length_def link_length_def demo_options_def demo_post_def source_text_def)
  show "count_chars (post_content demo_post) True = 6" by code_simp
  show "count_chars (ci_title demo_post) True = 3"
    by (simp add: demo_post_def count_chars_def runes_Cons decode_rune_def lead_rule_def tail_bits_def char_cost_def)
qed

lemma demo_body: "body_length demo_post True = 10"
  by (simp add: body_length_def demo_blank demo_lengths)


end
