(* ===== verification/Crosspost.thy ===== *)
theory Crosspost
  imports PostText Newsletter Files Ssrf
begin

text \<open>
  The crosspost worker (\<open>internal/service/crosspost/crosspost.go\<close>): the dispatcher of \<open>kind=crosspost\<close> jobs, the
  guard against posting twice, and the images a post carries. A run answers the posts it tried, in order and with
  what each platform answered, the platforms whose post it recorded, and the error the worker gets. The platforms'
  \<open>Post\<close> (HTTP APIs of other services), the HTTP client, the parser of HTML and the file system are the parameters of
  \<open>cross_env\<close>.
\<close>

section \<open>Jobs, posts and images\<close>

record cross_job =
  cj_article_id :: int
  cj_platform :: string
  cj_platforms :: "string list"
  cj_requested_at :: int

definition put_cross_job :: "json \<Rightarrow> cross_job option" where
  "put_cross_job j =
     (case (struct1 put_int ''article_id'' 0 j, struct1 put_string ''platform'' [] j,
            struct1 put_strings ''platforms'' [] j, struct1 put_int ''requested_at'' 0 j) of
        (Some i, Some p, Some ps, Some at) \<Rightarrow>
          Some \<lparr>cj_article_id = i, cj_platform = p, cj_platforms = ps, cj_requested_at = at\<rparr>
      | _ \<Rightarrow> None)"

definition platform_list :: "cross_job \<Rightarrow> string list" where
  "platform_list p =
     (if cj_platforms p \<noteq> [] then cj_platforms p else if cj_platform p \<noteq> '''' then [cj_platform p] else [])"

record image =
  im_filename :: string
  im_content_type :: string
  im_data :: string

record post_input =
  pi_article_id :: int
  pi_title :: string
  pi_slug :: string
  pi_text :: string
  pi_images :: "image list"
  pi_source_url :: string

text \<open>
  A downloaded answer: status, declared length (-1 when unknown), the body as far as it was read (\<open>None\<close> when
  reading failed), and the content type.
\<close>

record fetched =
  fe_status :: int
  fe_length :: int
  fe_body :: "string option"
  fe_type :: string

text \<open>
  \<open>ce_post n name cfg in\<close> is what the platform answers to the n-th post of a run: an error with whether it is a
  \<open>TransientError\<close>, or the URL of the post. \<open>ce_answer n url\<close> is the answer to a GET of the n-th download for one
  post: a failure, the address it redirects to, or what was fetched; \<open>ce_srcs\<close> is \<open>imageSrcs\<close> and \<open>ce_plain\<close> the plain
  text of an HTML body.
\<close>

record cross_env =
  ce_post :: "nat \<Rightarrow> string \<Rightarrow> crosspost \<Rightarrow> post_input \<Rightarrow> (bool \<times> err) + string"
  ce_site :: "string \<Rightarrow> site_parts option"
  ce_parse :: "string \<Rightarrow> url_parts option"
  ce_hostname :: "url_parts \<Rightarrow> string"
  ce_lookup :: "string \<Rightarrow> netip_addr list option"
  ce_answer :: "nat \<Rightarrow> string \<Rightarrow> (string + fetched) option"
  ce_read :: "string \<Rightarrow> string option"
  ce_detect :: "string \<Rightarrow> string"
  ce_srcs :: "string \<Rightarrow> string list"
  ce_plain :: "string \<Rightarrow> string"
  ce_dir :: string
  ce_prefix :: string

text \<open>The registry the \<open>init\<close> functions fill; Xiaohongshu has no API, its \<open>Post\<close> only logs.\<close>

definition registered :: "string \<Rightarrow> bool" where
  "registered name = (name \<in> {''mastodon'', ''bluesky'', ''twitter'', ''xiaohongshu''})"

definition post_to :: "cross_env \<Rightarrow> nat \<Rightarrow> string \<Rightarrow> crosspost \<Rightarrow> post_input \<Rightarrow> (bool \<times> err) + string" where
  "post_to env n name cfg pin = (if name = ''xiaohongshu'' then Inr '''' else ce_post env n name cfg pin)"

section \<open>Images\<close>

text \<open>SQLite's \<open>LIKE 'image/%'\<close> folds the case of ASCII letters.\<close>

definition image_file :: "file_row \<Rightarrow> bool" where
  "image_file f = (case f_content_type f of None \<Rightarrow> False | Some t \<Rightarrow> has_prefix (sql_lower t) ''image/'')"

definition list_image_attachments_for_article :: "int \<Rightarrow> file_row list db_act" where
  "list_image_attachments_for_article i =
     query (\<lambda>d. filter image_file (List.map_filter (\<lambda>a. by_id f_id (att_file_id a) (files d))
       (filter (\<lambda>a. att_record_type a = ''Article'' \<and> att_record_id a = i) (attachments d))))"

definition load_local_image :: "cross_env \<Rightarrow> file_row \<Rightarrow> image option" where
  "load_local_image env f =
     (if \<not> valid_key (f_key f) then None
      else (case ce_read env (path_for (ce_dir env) (f_key f)) of
        None \<Rightarrow> None
      | Some data \<Rightarrow>
          Some \<lparr>im_filename = f_filename f,
                im_content_type = (if str_of (f_content_type f) = '''' then ce_detect env data else str_of (f_content_type f)),
                im_data = data\<rparr>))"

definition local_file_by_src :: "string \<Rightarrow> file_row option db_act" where
  "local_file_by_src src =
     (if \<not> has_prefix src ''/files/'' \<or> \<not> valid_key (drop 7 src) then ret None
      else bindE (attempt (get_file_by_key (drop 7 src))) (\<lambda>r. case r of
        Inl _ \<Rightarrow> ret None
      | Inr f \<Rightarrow> ret (if has_prefix (str_of (f_content_type f)) ''image/'' then Some f else None)))"

definition site_url_of :: "string db_act" where
  "site_url_of =
     bindE (attempt get_settings) (\<lambda>r. case r of
       Inr s \<Rightarrow> ret (str_of (se_url s))
     | Inl e \<Rightarrow> if error_is e ErrNoRows then ret '''' else raise (ErrWrap ''load settings'' e))"

definition max_download_bytes :: nat where "max_download_bytes = 20 * 1024 * 1024"

definition image_filename :: "url_parts \<Rightarrow> string" where
  "image_filename u = (let name = after_last CHR ''/'' (u_path u) in if name = '''' then ''image.jpg'' else name)"

text \<open>A root-relative address is joined to the site, a scheme-relative one takes its scheme.\<close>

definition absolute_src :: "cross_env \<Rightarrow> string \<Rightarrow> string \<Rightarrow> string" where
  "absolute_src env site src =
     (if \<not> has_prefix src ''/'' then src
      else (let base = with_scheme ''https://'' (if site = '''' then ''http://localhost:3000'' else site) in
        if has_prefix src ''//''
        then (case ce_parse env base of
                Some u \<Rightarrow> if u_scheme u \<noteq> '''' then u_scheme u else ''http''
              | None \<Rightarrow> ''http'') @ '':'' @ src
        else trim_suffix base ''/'' @ src))"

definition guarded :: "cross_env \<Rightarrow> string \<Rightarrow> bool" where
  "guarded env url = safe_remote_url (ce_parse env) (ce_hostname env) (ce_lookup env) url"

text \<open>\<open>CheckRedirect\<close> of the download client: \<open>via\<close> requests were sent, the last one to a URL of the scheme \<open>from\<close>.\<close>

definition check_redirect :: "cross_env \<Rightarrow> nat \<Rightarrow> string \<Rightarrow> string \<Rightarrow> bool" where
  "check_redirect env via from target =
     (via < 5 \<and>
      (case ce_parse env target of
         None \<Rightarrow> False
       | Some u \<Rightarrow> (u_scheme u = ''http'' \<or> u_scheme u = ''https'') \<and> \<not> (from = ''https'' \<and> u_scheme u = ''http'') \<and>
                   guarded env target))"

definition scheme_of :: "cross_env \<Rightarrow> string \<Rightarrow> string" where
  "scheme_of env url = (case ce_parse env url of None \<Rightarrow> '''' | Some u \<Rightarrow> u_scheme u)"

text \<open>\<open>client.Do\<close> with this policy: the requests it sent and the answer it ends with.\<close>

function follow :: "cross_env \<Rightarrow> nat \<Rightarrow> nat \<Rightarrow> string \<Rightarrow> string list \<times> fetched option" where
  "follow env n via url =
     (case ce_answer env n url of
        None \<Rightarrow> ([url], None)
      | Some (Inr r) \<Rightarrow> ([url], Some r)
      | Some (Inl target) \<Rightarrow>
          if check_redirect env (Suc via) (scheme_of env url) target
          then (let (urls, r) = follow env n (Suc via) target in (url # urls, r))
          else ([url], None))"
  by pat_completeness auto
termination
  by (relation "measure (\<lambda>(env, n, via, url). 5 - via)") (auto simp: check_redirect_def)

declare follow.simps [simp del]

definition image_of :: "url_parts \<Rightarrow> fetched \<Rightarrow> image option" where
  "image_of u r =
     (if fe_status r div 100 \<noteq> 2 then None
      else if int max_download_bytes < fe_length r then None
      else (case fe_body r of
        None \<Rightarrow> None
      | Some data \<Rightarrow>
          if max_download_bytes < length data then None
          else Some \<lparr>im_filename = image_filename u,
                     im_content_type = (if fe_type r = '''' then ''image/jpeg'' else fe_type r),
                     im_data = data\<rparr>))"

definition fetch_image :: "cross_env \<Rightarrow> nat \<Rightarrow> string \<Rightarrow> string list \<times> image option" where
  "fetch_image env n url =
     (case ce_parse env url of
        None \<Rightarrow> ([], None)
      | Some u \<Rightarrow>
          if u_scheme u \<noteq> ''http'' \<and> u_scheme u \<noteq> ''https'' then ([], None)
          else if \<not> guarded env url then ([], None)
          else (let (urls, r) = follow env n 0 url in
                (urls, case r of None \<Rightarrow> None | Some r \<Rightarrow> image_of u r)))"

text \<open>The requests of one download, and the image.\<close>

definition download_remote_image :: "cross_env \<Rightarrow> nat \<Rightarrow> string \<Rightarrow> (string list \<times> image option) db_act" where
  "download_remote_image env n src =
     (if src = '''' then ret ([], None)
      else if has_prefix src ''/''
      then bindE (attempt site_url_of) (\<lambda>r. case r of
             Inl _ \<Rightarrow> ret (fetch_image env n (absolute_src env '''' src))
           | Inr site \<Rightarrow> ret (fetch_image env n (absolute_src env site src)))
      else ret (fetch_image env n src))"

definition image_limit :: nat where "image_limit = 4"

definition max_remote_image_attempts :: nat where "max_remote_image_attempts = 8"

text \<open>The loop over the attached files: the images so far and the ids of the files seen.\<close>

fun attached_images :: "cross_env \<Rightarrow> file_row list \<Rightarrow> image list \<Rightarrow> int list \<Rightarrow> image list \<times> int list" where
  "attached_images env [] imgs seen = (imgs, seen)"
| "attached_images env (f # fs) imgs seen =
     (if image_limit \<le> length imgs then (imgs, seen)
      else if f_id f \<in> set seen then attached_images env fs imgs seen
      else attached_images env fs (imgs @ (case load_local_image env f of None \<Rightarrow> [] | Some i \<Rightarrow> [i])) (f_id f # seen))"

text \<open>The loop over the sources in the HTML; \<open>asked\<close> are the sources a download was tried for, each with the
  requests that were sent.\<close>

fun linked_images ::
  "cross_env \<Rightarrow> string list \<Rightarrow> image list \<Rightarrow> int list \<Rightarrow> (string \<times> string list) list \<Rightarrow>
   (image list \<times> (string \<times> string list) list) db_act" where
  "linked_images env [] imgs seen asked = ret (imgs, asked)"
| "linked_images env (src # srcs) imgs seen asked =
     (if image_limit \<le> length imgs then ret (imgs, asked)
      else bindE (local_file_by_src src) (\<lambda>l. case l of
        Some f \<Rightarrow>
          if f_id f \<in> set seen then linked_images env srcs imgs seen asked
          else linked_images env srcs (imgs @ (case load_local_image env f of None \<Rightarrow> [] | Some i \<Rightarrow> [i])) (f_id f # seen) asked
      | None \<Rightarrow>
          if max_remote_image_attempts \<le> length asked then linked_images env srcs imgs seen asked
          else bindE (download_remote_image env (length asked) src) (\<lambda>(urls, r).
            linked_images env srcs (imgs @ (case r of None \<Rightarrow> [] | Some i \<Rightarrow> [i])) seen (asked @ [(src, urls)]))))"

definition collect_images :: "cross_env \<Rightarrow> article \<Rightarrow> (image list \<times> (string \<times> string list) list) db_act" where
  "collect_images env a =
     bindE (attempt (list_image_attachments_for_article (a_id a))) (\<lambda>r.
     let (imgs, seen) = attached_images env (case r of Inl _ \<Rightarrow> [] | Inr fs \<Rightarrow> fs) [] [] in
     if length imgs < image_limit then linked_images env (ce_srcs env (str_of (a_content_html a))) imgs seen []
     else ret (imgs, []))"

section \<open>The dispatcher\<close>

definition url_recorded_since :: "int \<Rightarrow> string \<Rightarrow> int \<Rightarrow> bool db_act" where
  "url_recorded_since i name requested =
     bindE (wrapping (''check recorded url for '' @ go_quote name) (list_fetchable_social_posts_by_platform i name)) (\<lambda>posts.
     ret (posts \<noteq> [] \<and> (requested \<le> 0 \<or> list_ex (\<lambda>p. requested \<le> sp_updated_at p) posts)))"

definition record_url :: "int \<Rightarrow> string \<Rightarrow> string \<Rightarrow> int \<Rightarrow> unit db_act" where
  "record_url i name url now =
     wrapping (''record '' @ go_quote name @ '' post url'') (upsert_social_media_post i name url now)"

definition content_of :: "cross_env \<Rightarrow> article \<Rightarrow> content_input" where
  "content_of env a =
     \<lparr>ci_slug = str_of (a_slug a), ci_title = str_of (a_title a), ci_plain_text = ce_plain env (str_of (a_content_html a)),
      ci_description = str_of (a_description a), ci_source_url = str_of (a_source_url a)\<rparr>"

definition options_for :: "crosspost \<Rightarrow> string \<Rightarrow> string \<Rightarrow> build_options" where
  "options_for cfg site pfx =
     \<lparr>bo_max_length = effective_max_characters (cp_platform cfg) (int_of (cp_max_characters cfg)), bo_always_add_link = False,
      bo_double = platform_count_double (cp_platform cfg), bo_site_url = site, bo_route_prefix = pfx\<rparr>"

definition build_input :: "cross_env \<Rightarrow> article \<Rightarrow> crosspost \<Rightarrow> (post_input \<times> (string \<times> string list) list) db_act" where
  "build_input env a cfg =
     bindE site_url_of (\<lambda>site.
     bindE (route_prefix (ce_prefix env)) (\<lambda>pfx.
     bindE (collect_images env a) (\<lambda>(imgs, asked).
     ret (\<lparr>pi_article_id = a_id a, pi_title = str_of (a_title a), pi_slug = str_of (a_slug a),
           pi_text = build_content (ce_site env) (content_of env a) (options_for cfg site pfx),
           pi_images = imgs, pi_source_url = str_of (a_source_url a)\<rparr>, asked))))"

text \<open>What precedes a post: \<open>None\<close> skips the platform.\<close>

definition prepare_post :: "cross_env \<Rightarrow> article \<Rightarrow> int \<Rightarrow> string \<Rightarrow> (crosspost \<times> post_input) option db_act" where
  "prepare_post env a requested name =
     bindE (attempt (get_crosspost_by_platform name)) (\<lambda>r. case r of
       Inl e \<Rightarrow> if error_is e ErrNoRows then ret None else raise (ErrWrap (''load crosspost config '' @ go_quote name) e)
     | Inr cfg \<Rightarrow>
         if cp_enabled cfg \<noteq> 1 then ret None
         else bindE (url_recorded_since (a_id a) name requested) (\<lambda>skip.
           if skip then ret None
           else bindE (wrapping (''build content for '' @ go_quote name) (build_input env a cfg)) (\<lambda>(pin, asked).
             ret (Some (cfg, pin)))))"

definition log_post :: "int option \<Rightarrow> int \<Rightarrow> int \<Rightarrow> string \<Rightarrow> string \<Rightarrow> article \<Rightarrow> string \<Rightarrow> string \<Rightarrow> unit db_act" where
  "log_post run now level action name a url msg =
     log_row now level action ''crosspost''
       (Some (''platform='' @ name @ '' '' @ title_slug a @ (if url = '''' then '''' else '' url='' @ url) @
              (if msg = '''' then '''' else '' error='' @ activity_quote msg))) run"

record cross_run =
  cr_posts :: "(string \<times> post_input \<times> ((bool \<times> err) + string)) list"
  cr_recorded :: "string list"
  cr_error :: "err option"

definition ended :: "(string \<times> post_input \<times> ((bool \<times> err) + string)) list \<Rightarrow> string list \<Rightarrow> err option \<Rightarrow> cross_run" where
  "ended posts recorded e = \<lparr>cr_posts = posts, cr_recorded = recorded, cr_error = e\<rparr>"

text \<open>\<open>clk n\<close> is the clock, in seconds, after the n-th post of the run.\<close>

fun cross_loop ::
  "cross_env \<Rightarrow> int option \<Rightarrow> (nat \<Rightarrow> int) \<Rightarrow> article \<Rightarrow> int \<Rightarrow> string list \<Rightarrow>
   (string \<times> post_input \<times> ((bool \<times> err) + string)) list \<Rightarrow> string list \<Rightarrow> cross_run db_act" where
  "cross_loop env run clk a requested [] posts recorded = ret (ended posts recorded None)"
| "cross_loop env run clk a requested (name # names) posts recorded =
     (if \<not> registered name then cross_loop env run clk a requested names posts recorded
      else bindE (attempt (prepare_post env a requested name)) (\<lambda>r. case r of
        Inl e \<Rightarrow> ret (ended posts recorded (Some e))
      | Inr None \<Rightarrow> cross_loop env run clk a requested names posts recorded
      | Inr (Some (cfg, pin)) \<Rightarrow>
          (let answer = post_to env (length posts) name cfg pin; posts' = posts @ [(name, pin, answer)]; now = clk (length posts') in
           case answer of
             Inl (transient, e) \<Rightarrow>
               if error_is e ErrCanceled \<or> transient then ret (ended posts' recorded (Some e))
               else bindE (log_post run now level_error ''failed'' name a '''' (err_text e)) (\<lambda>_.
                      cross_loop env run clk a requested names posts' recorded)
           | Inr url \<Rightarrow>
               if url = '''' then cross_loop env run clk a requested names posts' recorded
               else bindE (attempt (record_url (a_id a) name url now)) (\<lambda>u. case u of
                      Inl e \<Rightarrow> bindE (log_post run now level_error ''failed'' name a url (err_text e)) (\<lambda>_.
                                 cross_loop env run clk a requested names posts' recorded)
                    | Inr _ \<Rightarrow> bindE (log_post run now level_info ''posted'' name a url '''') (\<lambda>_.
                                 cross_loop env run clk a requested names posts' (recorded @ [name]))))))"

definition handle_crosspost :: "cross_env \<Rightarrow> int option \<Rightarrow> (nat \<Rightarrow> int) \<Rightarrow> jtext option \<Rightarrow> cross_run db_act" where
  "handle_crosspost env run clk payload =
     (case unmarshal put_cross_job payload of
        Inl e \<Rightarrow> raise (ErrWrap ''decode crosspost payload'' e)
      | Inr p \<Rightarrow>
          bindE (attempt (get_admin_article_by_id (cj_article_id p))) (\<lambda>r. case r of
            Inl e \<Rightarrow> if error_is e ErrNoRows then ret (ended [] [] None)
                     else raise (ErrWrap (''load article '' @ dec_int (cj_article_id p)) e)
          | Inr a \<Rightarrow>
              bindE (cross_loop env run clk a (cj_requested_at p) (platform_list p) [] []) (\<lambda>out.
              if cr_error out \<noteq> None \<or> cr_recorded out = [] then ret out
              else bindE (log_row (clk (length (cr_posts out))) level_info ''posted'' ''crosspost''
                     (Some (''platforms='' @ join_with '','' (sort_by_bytes id (remdups (cr_recorded out))) @ '' '' @ title_slug a)) run)
                     (\<lambda>_. ret out))))"

section \<open>The images of a post\<close>

lemma pres_lookups_cross [pres_rules]:
  "pres I (local_file_by_src src)" "pres I site_url_of" "pres I (download_remote_image env n src)"
  "pres I (list_image_attachments_for_article i)" "pres I (url_recorded_since i name t)"
proof -
  show *: "pres I (local_file_by_src src)" "pres I site_url_of" for I
    unfolding local_file_by_src_def site_url_of_def get_file_by_key_def get_settings_def by (intro pres_rules)+
  show "pres I (download_remote_image env n src)"
    unfolding download_remote_image_def by (intro pres_rules *)
  show "pres I (list_image_attachments_for_article i)" "pres I (url_recorded_since i name t)"
    unfolding list_image_attachments_for_article_def url_recorded_since_def list_fetchable_social_posts_by_platform_def
    by (intro pres_rules)+
qed

lemma pres_linked [pres_rules]: "pres I (linked_images env srcs imgs seen asked)"
  by (induction srcs arbitrary: imgs seen asked) (auto intro!: pres_rules split: option.splits)

lemma pres_collect [pres_rules]: "pres I (collect_images env a)"
  unfolding collect_images_def by (intro pres_rules)

text \<open>Where an image may come from: the bytes of a stored file, or a download the SSRF guard let through.\<close>

definition stored_image :: "cross_env \<Rightarrow> database \<Rightarrow> image \<Rightarrow> bool" where
  "stored_image env d img \<longleftrightarrow> (\<exists>f\<in>set (files d). load_local_image env f = Some img)"

definition fetched_image :: "cross_env \<Rightarrow> image \<Rightarrow> bool" where
  "fetched_image env img \<longleftrightarrow> (\<exists>url n r. guarded env url \<and> ce_answer env n url = Some (Inr r) \<and>
     fe_body r = Some (im_data img) \<and> length (im_data img) \<le> max_download_bytes)"

definition requests_ok :: "cross_env \<Rightarrow> string list \<Rightarrow> bool" where
  "requests_ok env urls \<longleftrightarrow> length urls \<le> 5 \<and> (\<forall>url\<in>set urls. guarded env url)"

definition images_from :: "cross_env \<Rightarrow> database \<Rightarrow> image list \<Rightarrow> bool" where
  "images_from env d imgs \<longleftrightarrow> length imgs \<le> image_limit \<and> (\<forall>img\<in>set imgs. stored_image env d img \<or> fetched_image env img)"

lemma images_from_Nil [simp]: "images_from env d []"
  by (simp add: images_from_def)

lemma images_from_add:
  "images_from env d imgs \<Longrightarrow> \<not> image_limit \<le> length imgs \<Longrightarrow> (\<And>i. o' = Some i \<Longrightarrow> stored_image env d i \<or> fetched_image env i) \<Longrightarrow>
   images_from env d (imgs @ (case o' of None \<Rightarrow> [] | Some i \<Rightarrow> [i]))"
  by (auto simp: images_from_def split: option.splits)

lemma attached_images_from:
  "images_from env d imgs \<Longrightarrow> set fs \<subseteq> set (files d) \<Longrightarrow> images_from env d (fst (attached_images env fs imgs seen))"
proof (induction fs arbitrary: imgs seen)
  case (Cons f fs)
  then show ?case
    by (auto intro!: Cons.IH images_from_add simp: stored_image_def)
qed simp

lemma follow_guarded:
  "guarded env url \<Longrightarrow> via < 5 \<Longrightarrow> follow env n via url = (urls, r) \<Longrightarrow>
   length urls + via \<le> 5 \<and> (\<forall>u\<in>set urls. guarded env u) \<and>
   (\<forall>x. r = Some x \<longrightarrow> (\<exists>u. guarded env u \<and> ce_answer env n u = Some (Inr x)))"
proof (induction env n via url arbitrary: urls r rule: follow.induct)
  case (1 env n via url)
  show ?case
  proof (cases "ce_answer env n url")
    case None
    then show ?thesis using 1(2-4) by (auto simp: follow.simps)
  next
    case (Some x)
    show ?thesis
    proof (cases x)
      case (Inr f)
      then show ?thesis using 1(2-4) Some by (auto simp: follow.simps)
    next
      case (Inl target)
      show ?thesis
      proof (cases "check_redirect env (Suc via) (scheme_of env url) target")
        case False
        then show ?thesis using 1(2-4) Some Inl by (auto simp: follow.simps)
      next
        case True
        obtain us r' where f: "follow env n (Suc via) target = (us, r')" by (cases "follow env n (Suc via) target")
        have "urls = url # us" "r = r'" using 1(4) Some Inl True f by (auto simp: follow.simps)
        moreover have "guarded env target" "Suc via < 5" using True by (auto simp: check_redirect_def split: option.splits)
        ultimately show ?thesis using 1(1) [OF Some Inl True _ _ f] 1(2) by auto
      qed
    qed
  qed
qed

lemma image_of_data: "image_of u r = Some i \<Longrightarrow> fe_body r = Some (im_data i) \<and> length (im_data i) \<le> max_download_bytes"
  by (auto simp: image_of_def split: option.splits if_splits)

lemma requests_ok_Nil [simp]: "requests_ok env []"
  by (simp add: requests_ok_def)

lemma fetch_image_fetched:
  "requests_ok env (fst (fetch_image env n url)) \<and> (\<forall>i. snd (fetch_image env n url) = Some i \<longrightarrow> fetched_image env i)"
proof (cases "fst (fetch_image env n url) = [] \<and> snd (fetch_image env n url) = None")
  case True
  then show ?thesis by (simp add: requests_ok_def)
next
  case False
  obtain us r where f: "follow env n 0 url = (us, r)" by (cases "follow env n 0 url")
  obtain u where u: "ce_parse env url = Some u" "guarded env url"
      "fetch_image env n url = (us, case r of None \<Rightarrow> None | Some r \<Rightarrow> image_of u r)"
    using False f by (auto simp: fetch_image_def split: option.splits if_splits)
  have "length us + 0 \<le> 5 \<and> (\<forall>u\<in>set us. guarded env u) \<and> (\<forall>x. r = Some x \<longrightarrow> (\<exists>u. guarded env u \<and> ce_answer env n u = Some (Inr x)))"
    using u(2) f by (intro follow_guarded) simp_all
  then show ?thesis
    using u(3) by (auto simp: requests_ok_def fetched_image_def dest!: image_of_data split: option.splits)
qed

lemma download_fetched:
  "ensures P (download_remote_image env n src) (\<lambda>p _. requests_ok env (fst p) \<and> (\<forall>i. snd p = Some i \<longrightarrow> fetched_image env i))"
  unfolding download_remote_image_def
  by (intro ensures_if ensures_ret ensures_bindE [OF ensures_True])
    (auto intro!: ensures_ret simp: fetch_image_fetched split: sum.splits)

lemma local_file_in: "ensures (\<lambda>d. d = D) (local_file_by_src src) (\<lambda>r d. d = D \<and> (\<forall>f. r = Some f \<longrightarrow> f \<in> set (files D)))"
proof -
  have r: "ensures (\<lambda>d. d = D) (attempt (get_file_by_key k)) (\<lambda>r d. d = D \<and> (\<forall>f. r = Inr f \<longrightarrow> f \<in> set (files D)))" for k
    unfolding get_file_by_key_def
    by (rule ensures_weaken [OF ensures_attempt_reads])
      (auto intro!: pres_rules ensures_query_row [where Q = "\<lambda>f d. f \<in> set (files D)"] dest: find_SomeD)
  show ?thesis
    unfolding local_file_by_src_def
    by (intro ensures_if ensures_ret ensures_bind_given [OF r]) (auto intro!: ensures_ret split: sum.splits)
qed

definition asked_ok :: "cross_env \<Rightarrow> (string \<times> string list) list \<Rightarrow> bool" where
  "asked_ok env asked \<longleftrightarrow> length asked \<le> max_remote_image_attempts \<and> (\<forall>(src, urls)\<in>set asked. requests_ok env urls)"

lemma linked_images_from:
  "images_from env D imgs \<Longrightarrow> asked_ok env asked \<Longrightarrow>
   ensures (\<lambda>d. d = D) (linked_images env srcs imgs seen asked) (\<lambda>(imgs, asked) d. images_from env D imgs \<and> asked_ok env asked)"
proof (induction srcs arbitrary: imgs seen asked)
  case Nil
  then show ?case by (auto intro: ensures_ret)
next
  case (Cons src srcs)
  have "ensures (\<lambda>d. d = D) (download_remote_image env n src)
      (\<lambda>p d. d = D \<and> requests_ok env (fst p) \<and> (\<forall>i. snd p = Some i \<longrightarrow> fetched_image env i))" for n
    by (rule ensures_conj [OF ensures_pres download_fetched]) (rule pres_rules)
  note dl = ensures_bind_given [OF this]
  show ?case
    unfolding linked_images.simps
    apply (intro ensures_if)
     apply (use Cons.prems in \<open>auto intro: ensures_ret\<close>)[1]
    apply (rule ensures_bind_given [OF local_file_in])
    subgoal for l
    proof (cases l)
      case None
      assume lim: "\<not> image_limit \<le> length imgs"
      then show ?thesis
        unfolding None option.case
        apply (intro ensures_if)
         apply (use Cons in blast)
        apply (rule dl)
        apply (clarsimp split: prod.splits)
        apply (rule Cons.IH)
         apply (rule images_from_add)
           apply (use Cons.prems lim in \<open>auto simp: asked_ok_def\<close>)
        done
    next
      case (Some f)
      assume "\<not> image_limit \<le> length imgs" "\<forall>f. l = Some f \<longrightarrow> f \<in> set (files D)"
      then show ?thesis
        unfolding Some option.case
        by (intro ensures_if Cons.IH images_from_add) (use Cons.prems in \<open>auto simp: stored_image_def\<close>)
    qed
    done
qed

lemma collect_images_from:
  "ensures (\<lambda>d. d = D) (collect_images env a) (\<lambda>(imgs, asked) d. images_from env D imgs \<and> asked_ok env asked)"
proof -
  have r: "ensures (\<lambda>d. d = D) (attempt (list_image_attachments_for_article (a_id a)))
      (\<lambda>r d. d = D \<and> (\<forall>fs. r = Inr fs \<longrightarrow> set fs \<subseteq> set (files D)))"
    unfolding list_image_attachments_for_article_def
    by (rule ensures_weaken [OF ensures_attempt_reads])
      (auto intro!: pres_rules ensures_query [where Q = "\<lambda>fs d. set fs \<subseteq> set (files D)"]
        simp: in_map_filter by_id_def dest: find_SomeD)
  have "asked_ok env []" by (simp add: asked_ok_def)
  then show ?thesis
    unfolding collect_images_def
    apply (intro ensures_bind_given [OF r])
    subgoal for r
      using attached_images_from [of env D "[]" "case r of Inl _ \<Rightarrow> [] | Inr fs \<Rightarrow> fs" "[]"]
      by (auto simp: Let_def split: prod.splits sum.splits if_splits intro!: ensures_if linked_images_from ensures_ret)
    done
qed

text \<open>
  Collecting the images of a post ends with at most four of them and has tried at most eight downloads of at most
  five requests each, however many images the article attaches or links and however they redirect. Every request, those
  after a redirect included, goes to an address the SSRF guard let through. Each image is the content of a stored file
  of the site, or at most 20 MB that such a request answered. Nothing is written.
\<close>

theorem collect_images_bounds:
  assumes "collect_images env a w = (Inr (imgs, asked), w')"
  shows "length imgs \<le> 4 \<and> length asked \<le> 8 \<and> wdb w' = wdb w \<and>
    (\<forall>(src, urls)\<in>set asked. length urls \<le> 5 \<and>
       (\<forall>url\<in>set urls. safe_remote_url (ce_parse env) (ce_hostname env) (ce_lookup env) url)) \<and>
    (\<forall>img\<in>set imgs. (\<exists>f\<in>set (files (wdb w)). load_local_image env f = Some img) \<or>
       (\<exists>url n r. safe_remote_url (ce_parse env) (ce_hostname env) (ce_lookup env) url \<and>
          ce_answer env n url = Some (Inr r) \<and> fe_body r = Some (im_data img) \<and> length (im_data img) \<le> 20 * 1024 * 1024))"
proof -
  have "wdb w' = wdb w" using presD [OF pres_collect [of "\<lambda>d. d = wdb w" env a], of w] assms by simp
  moreover have "images_from env (wdb w) imgs" "asked_ok env asked"
    using ensuresD [OF collect_images_from [of "wdb w"] refl assms] by auto
  ultimately show ?thesis
    unfolding images_from_def stored_image_def fetched_image_def asked_ok_def requests_ok_def image_limit_def
      max_remote_image_attempts_def max_download_bytes_def guarded_def
    by simp
qed

section \<open>Which platforms are posted to\<close>

definition recorded_since :: "int \<Rightarrow> string \<Rightarrow> int \<Rightarrow> database \<Rightarrow> bool" where
  "recorded_since i name t d \<longleftrightarrow>
     (\<exists>x\<in>set (social_posts d). post_of i name x \<and> sp_url x \<noteq> '''' \<and> (t \<le> 0 \<or> t \<le> sp_updated_at x))"

definition enabled_config :: "string \<Rightarrow> crosspost \<Rightarrow> database \<Rightarrow> bool" where
  "enabled_config name cfg d \<longleftrightarrow> find (\<lambda>c. cp_platform c = name) (crossposts d) = Some cfg \<and> cp_enabled cfg = 1"

text \<open>What a run keeps: the configurations, and every record that blocks a post of the request.\<close>

definition keeps_records :: "int \<Rightarrow> int \<Rightarrow> database \<Rightarrow> database \<Rightarrow> bool" where
  "keeps_records i t d0 d \<longleftrightarrow>
     crossposts d = crossposts d0 \<and> (\<forall>name. recorded_since i name t d0 \<longrightarrow> recorded_since i name t d)"

definition well_made :: "cross_env \<Rightarrow> article \<Rightarrow> crosspost \<Rightarrow> post_input \<Rightarrow> bool" where
  "well_made env a cfg pin \<longleftrightarrow> length (pi_images pin) \<le> image_limit \<and>
     (\<exists>site pfx. pi_text pin = build_content (ce_site env) (content_of env a) (options_for cfg site pfx))"

lemma recorded_since_logs [simp]: "recorded_since i name t (d\<lparr>activity_logs := l\<rparr>) = recorded_since i name t d"
  by (simp add: recorded_since_def)

lemma keeps_records_refl [simp]: "keeps_records i t d d"
  by (simp add: keeps_records_def)

lemma keeps_records_log: "keeps_records i t d0 d \<Longrightarrow> keeps_records i t d0 (d\<lparr>activity_logs := l\<rparr>)"
  by (simp add: keeps_records_def)

lemma url_recorded_since_at:
  "ensures (\<lambda>d. d = D) (url_recorded_since i name t) (\<lambda>b d. d = D \<and> b = recorded_since i name t D)"
  unfolding url_recorded_since_def list_fetchable_social_posts_by_platform_def
  by (rule ensures_bind_value [OF ensures_wrapping [OF ensures_query_at]], rule ensures_ret)
    (auto simp: recorded_since_def list_ex_iff filter_empty_conv)

lemma pres_build_input [pres_rules]: "pres I (build_input env a cfg)"
  unfolding build_input_def by (intro pres_rules)

lemma pres_prepare [pres_rules]: "pres I (prepare_post env a t name)"
  unfolding prepare_post_def get_crosspost_by_platform_def by (intro pres_rules)

lemma build_input_made: "ensures (\<lambda>d. d = D) (build_input env a cfg) (\<lambda>(pin, asked) d. d = D \<and> well_made env a cfg pin)"
proof -
  have i: "ensures (\<lambda>d. d = D) (collect_images env a) (\<lambda>r d. d = D \<and> length (fst r) \<le> image_limit)"
    by (rule ensures_weaken [OF ensures_conj [OF ensures_pres [OF pres_collect] collect_images_from [of D]]])
      (auto simp: images_from_def)
  have lk: "ensures (\<lambda>d. d = D) site_url_of (\<lambda>_ d. d = D \<and> True)" "ensures (\<lambda>d. d = D) (route_prefix x) (\<lambda>_ d. d = D \<and> True)" for x
    by (simp_all, (rule ensures_pres, rule pres_rules)+)
  show ?thesis
    unfolding build_input_def
    by (rule ensures_bind_given [OF lk(1)], rule ensures_bind_given [OF lk(2)], rule ensures_bind_given [OF i])
      (clarsimp split: prod.splits, rule ensures_ret, simp add: well_made_def, blast)
qed

lemma prepare_made:
  "ensures (\<lambda>d. d = D) (prepare_post env a t name)
     (\<lambda>r d. d = D \<and> (\<forall>cfg pin. r = Some (cfg, pin) \<longrightarrow>
        enabled_config name cfg D \<and> \<not> recorded_since (a_id a) name t D \<and> well_made env a cfg pin))"
proof -
  have c: "ensures (\<lambda>d. d = D) (attempt (get_crosspost_by_platform name))
      (\<lambda>r d. d = D \<and> (\<forall>cfg. r = Inr cfg \<longrightarrow> find (\<lambda>c. cp_platform c = name) (crossposts D) = Some cfg))"
    unfolding get_crosspost_by_platform_def
    by (rule ensures_weaken [OF ensures_attempt_reads])
      (auto intro!: pres_rules ensures_query_row [where Q = "\<lambda>x d. find (\<lambda>c. cp_platform c = name) (crossposts D) = Some x"])
  show ?thesis
    unfolding prepare_post_def
    apply (rule ensures_bind_given [OF c])
    subgoal for r
    proof (cases r)
      case (Inl e)
      then show ?thesis by (auto intro!: ensures_if ensures_ret ensures_raise)
    next
      case (Inr cfg)
      assume "\<forall>cfg. r = Inr cfg \<longrightarrow> find (\<lambda>c. cp_platform c = name) (crossposts D) = Some cfg"
      then show ?thesis
        unfolding Inr sum.case
        apply (intro ensures_if)
         apply (rule ensures_ret, simp)
        apply (rule ensures_bind_value [OF url_recorded_since_at])
        apply (intro ensures_if)
         apply (rule ensures_ret, simp)
        apply (rule ensures_bindE [OF ensures_wrapping [OF build_input_made]])
        apply (auto intro!: ensures_ret simp: enabled_config_def split: prod.splits)
        done
    qed
    done
qed

text \<open>Recording a post keeps the records of the other platforms and sets its own.\<close>

definition upserted :: "int \<Rightarrow> string \<Rightarrow> string \<Rightarrow> int \<Rightarrow> database \<Rightarrow> social_media_post list" where
  "upserted i name url now d =
     (if list_ex (post_of i name) (social_posts d)
      then update_where (post_of i name) (\<lambda>x. x\<lparr>sp_url := url, sp_updated_at := now\<rparr>) (social_posts d)
      else fst (insert_row sp_id (\<lambda>i r. r\<lparr>sp_id := i\<rparr>)
             \<lparr>sp_id = 0, sp_article_id = i, sp_platform = name, sp_url = url, sp_created_at = now, sp_updated_at = now\<rparr>
             (social_posts d)))"

lemma upserted_records:
  assumes "url \<noteq> ''''"
  shows "name' \<noteq> name \<Longrightarrow> recorded_since i name' t d \<Longrightarrow> recorded_since i name' t (d\<lparr>social_posts := upserted i name url now d\<rparr>)"
    and "t \<le> now \<Longrightarrow> recorded_since i name t (d\<lparr>social_posts := upserted i name url now d\<rparr>)"
proof -
  assume n: "name' \<noteq> name" and "recorded_since i name' t d"
  then obtain x where x: "x \<in> set (social_posts d)" "post_of i name' x" "sp_url x \<noteq> ''''" "t \<le> 0 \<or> t \<le> sp_updated_at x"
    by (auto simp: recorded_since_def)
  have "\<not> post_of i name x" using x(2) n by (auto simp: post_of_def)
  with x(1) have "x \<in> set (upserted i name url now d)"
    by (auto simp: upserted_def set_update_where social_posts_tab.set_insert_row)
  with x show "recorded_since i name' t (d\<lparr>social_posts := upserted i name url now d\<rparr>)" by (auto simp: recorded_since_def)
next
  assume t: "t \<le> now"
  have "\<exists>x\<in>set (upserted i name url now d). post_of i name x \<and> sp_url x = url \<and> sp_updated_at x = now"
  proof (cases "list_ex (post_of i name) (social_posts d)")
    case True
    then obtain x where "x \<in> set (social_posts d)" "post_of i name x" by (auto simp: list_ex_iff)
    with True show ?thesis
      by (intro bexI [where x = "x\<lparr>sp_url := url, sp_updated_at := now\<rparr>"]) (auto simp: upserted_def set_update_where post_of_def)
  next
    case False
    then show ?thesis by (simp add: upserted_def insert_row_def Let_def post_of_def)
  qed
  with assms t show "recorded_since i name t (d\<lparr>social_posts := upserted i name url now d\<rparr>)" by (auto simp: recorded_since_def)
qed

lemma upserted_only:
  assumes "recorded_since i n t (d\<lparr>social_posts := upserted i name url now d\<rparr>)"
  shows "n = name \<or> recorded_since i n t d"
proof -
  obtain x where x: "x \<in> set (upserted i name url now d)" "post_of i n x" "sp_url x \<noteq> []" "t \<le> 0 \<or> t \<le> sp_updated_at x"
    using assms by (auto simp: recorded_since_def)
  have "x \<in> set (social_posts d) \<or> sp_platform x = name"
    using x(1) by (auto simp: upserted_def set_update_where insert_row_def Let_def post_of_def split: if_splits)
  with x show ?thesis by (auto simp: recorded_since_def post_of_def)
qed

lemma record_url_outcome:
  assumes "url \<noteq> ''''"
  shows "ensures (\<lambda>d. d = D) (attempt (record_url i name url now)) (\<lambda>r d. case r of
    Inl _ \<Rightarrow> d = D | Inr _ \<Rightarrow> d = D\<lparr>social_posts := upserted i name url now D\<rparr>)"
  unfolding ensures_def
proof (intro allI impI)
  fix w :: dbworld and r w' assume D: "wdb w = D" and run: "attempt (record_url i name url now) w = (Inr r, w')"
  then have u: "record_url i name url now w = (r, w')" by (auto simp: attempt_ok)
  show "case r of Inl _ \<Rightarrow> wdb w' = D | Inr _ \<Rightarrow> wdb w' = D\<lparr>social_posts := upserted i name url now D\<rparr>"
  proof (cases "upsert_social_media_post i name url now w")
    case (Pair s w1)
    with u have s: "w1 = w'" "isl r = isl s" by (auto simp: record_url_def wrapping_run split: sum.splits)
    show ?thesis
    proof (cases s)
      case (Inl e)
      then show ?thesis
        using Pair s D unfolding upsert_social_media_post_def by (cases r) (auto dest: exec_error_keeps)
    next
      case (Inr y)
      then have "wdb w' = D\<lparr>social_posts := upserted i name url now D\<rparr>"
        using Pair s D unfolding upsert_social_media_post_def
        by (auto dest!: exec_ok simp: upserted_def split: if_splits)
      then show ?thesis using s Inr by (cases r) auto
    qed
  qed
qed

lemma upserted_keeps:
  assumes "recorded_since i n t d" "\<not> recorded_since i name t d" "url \<noteq> ''''"
  shows "recorded_since i n t (d\<lparr>social_posts := upserted i name url now d\<rparr>)"
  using assms upserted_records(1) [OF assms(3)] by (cases "n = name") auto

lemma keeps_records_upserted:
  "keeps_records i t d0 d \<Longrightarrow> \<not> recorded_since i name t d \<Longrightarrow> url \<noteq> '''' \<Longrightarrow>
   keeps_records i t d0 (d\<lparr>social_posts := upserted i name url now d\<rparr>)"
  by (auto simp: keeps_records_def intro: upserted_keeps)

text \<open>The posts of a run so far: each has its reasons in the database the run started with.\<close>

definition justified :: "cross_env \<Rightarrow> article \<Rightarrow> int \<Rightarrow> database \<Rightarrow> string \<Rightarrow> post_input \<Rightarrow> bool" where
  "justified env a t d name pin \<longleftrightarrow> registered name \<and> \<not> recorded_since (a_id a) name t d \<and>
     (\<exists>cfg. enabled_config name cfg d \<and> well_made env a cfg pin)"

definition answered :: "(string \<times> post_input \<times> ((bool \<times> err) + string)) list \<Rightarrow> string set" where
  "answered posts = {name. \<exists>pin url. (name, pin, Inr url) \<in> set posts \<and> url \<noteq> ''''}"

definition run_ok ::
  "cross_env \<Rightarrow> (nat \<Rightarrow> int) \<Rightarrow> article \<Rightarrow> int \<Rightarrow> string set \<Rightarrow> database \<Rightarrow>
   (string \<times> post_input \<times> ((bool \<times> err) + string)) list \<Rightarrow> string list \<Rightarrow> database \<Rightarrow> bool" where
  "run_ok env clk a t names d0 posts recorded d \<longleftrightarrow>
     keeps_records (a_id a) t d0 d \<and> set recorded \<subseteq> answered posts \<and>
     (\<forall>(name, pin, _)\<in>set posts. name \<in> names \<and> justified env a t d0 name pin) \<and>
     ((\<forall>k. t \<le> clk k) \<longrightarrow> (\<forall>n\<in>set recorded. recorded_since (a_id a) n t d)) \<and>
     (\<forall>n. recorded_since (a_id a) n t d \<longrightarrow> n \<in> set recorded \<or> recorded_since (a_id a) n t d0)"

lemma run_ok_log: "run_ok env clk a t N d0 posts recorded d \<Longrightarrow> run_ok env clk a t N d0 posts recorded (d\<lparr>activity_logs := l\<rparr>)"
  by (simp add: run_ok_def keeps_records_log)

lemma justified_now:
  "keeps_records (a_id a) t d0 d \<Longrightarrow> registered name \<Longrightarrow> enabled_config name cfg d \<Longrightarrow> \<not> recorded_since (a_id a) name t d \<Longrightarrow>
   well_made env a cfg pin \<Longrightarrow> justified env a t d0 name pin"
  by (auto simp: justified_def keeps_records_def enabled_config_def)

lemma run_ok_posted:
  "run_ok env clk a t N d0 posts recorded d \<Longrightarrow> name \<in> N \<Longrightarrow> justified env a t d0 name pin \<Longrightarrow>
   run_ok env clk a t N d0 (posts @ [(name, pin, answer)]) recorded d"
  unfolding run_ok_def answered_def by (intro conjI; fastforce)

lemma run_ok_recorded:
  assumes "run_ok env clk a t N d0 posts recorded d" "name \<in> N" "justified env a t d0 name pin"
    "\<not> recorded_since (a_id a) name t d" "url \<noteq> ''''"
  shows "run_ok env clk a t N d0 (posts @ [(name, pin, Inr url)]) (recorded @ [name])
           (d\<lparr>social_posts := upserted (a_id a) name url (clk k) d\<rparr>)"
  using run_ok_posted [OF assms(1-3), of "Inr url"] assms(4,5)
  by (auto simp: run_ok_def answered_def intro: keeps_records_upserted upserted_keeps upserted_records(2)
      dest!: upserted_only)

lemma ensures_log_run: "ensures (run_ok env clk a t N d0 posts recorded) (log_row now l act tg de run) (\<lambda>_. run_ok env clk a t N d0 posts recorded)"
  by (rule ensures_log_row) (rule run_ok_log)

lemma ensures_log_post: "ensures (run_ok env clk a t N d0 posts recorded) (log_post run now l act n a' u m) (\<lambda>_. run_ok env clk a t N d0 posts recorded)"
  unfolding log_post_def by (rule ensures_log_run)

lemma ensures_at: "ensures P m Q \<Longrightarrow> P D \<Longrightarrow> ensures (\<lambda>d. d = D) m Q"
  by (erule ensures_weaken) auto

lemma ensures_by_db: "(\<And>D. P D \<Longrightarrow> ensures (\<lambda>d. d = D) m Q) \<Longrightarrow> ensures P m Q"
  unfolding ensures_def by blast

lemma prepare_attempt:
  "ensures (\<lambda>d. d = D) (attempt (prepare_post env a t name)) (\<lambda>r d. d = D \<and> (\<forall>cfg pin. r = Inr (Some (cfg, pin)) \<longrightarrow>
     enabled_config name cfg D \<and> \<not> recorded_since (a_id a) name t D \<and> well_made env a cfg pin))"
  by (rule ensures_weaken [OF ensures_attempt_reads [OF pres_prepare prepare_made]]) auto

lemma cross_loop_ok:
  "set names \<subseteq> N \<Longrightarrow> ensures (run_ok env clk a t N d0 posts recorded) (cross_loop env run clk a t names posts recorded)
     (\<lambda>out. run_ok env clk a t N d0 (cr_posts out) (cr_recorded out))"
proof (induction names arbitrary: posts recorded)
  case Nil
  then show ?case by (auto intro: ensures_ret simp: ended_def)
next
  case (Cons name names)
  then have N: "name \<in> N" "set names \<subseteq> N" by auto
  note IH = Cons.IH [OF N(2)]
  note logged = ensures_bindE [OF ensures_log_post IH]
  show ?case
    unfolding cross_loop.simps
    apply (intro ensures_if)
     apply (rule IH)
    apply (rule ensures_by_db)
    subgoal for D
      apply (rule ensures_bind_given [OF prepare_attempt])
      subgoal for r
      proof (cases "\<exists>cfg pin. r = Inr (Some (cfg, pin))")
        case False
        assume ok: "run_ok env clk a t N d0 posts recorded D"
        then have e: "ensures (\<lambda>d. d = D) (ret (ended posts recorded x)) (\<lambda>out. run_ok env clk a t N d0 (cr_posts out) (cr_recorded out))" for x
          by (intro ensures_ret) (auto simp: ended_def)
        from False consider err where "r = Inl err" | "r = Inr None"
          by (cases r) (auto, metis option.exhaust surj_pair)
        then show ?thesis by cases (simp_all add: e ensures_at [OF IH ok])
      next
        case True
        assume ok: "run_ok env clk a t N d0 posts recorded D" and "\<not> \<not> registered name"
          and "\<forall>cfg pin. r = Inr (Some (cfg, pin)) \<longrightarrow>
             enabled_config name cfg D \<and> \<not> recorded_since (a_id a) name t D \<and> well_made env a cfg pin"
        with True obtain cfg pin where r: "r = Inr (Some (cfg, pin))" "\<not> recorded_since (a_id a) name t D" "justified env a t d0 name pin"
          using justified_now [of a t d0 D name] ok unfolding run_ok_def by auto
        define answer where "answer = post_to env (length posts) name cfg pin"
        note posted = run_ok_posted [OF ok N(1) r(3), of answer]
        have e: "ensures (\<lambda>d. d = D) (ret (ended (posts @ [(name, pin, answer)]) recorded x))
            (\<lambda>out. run_ok env clk a t N d0 (cr_posts out) (cr_recorded out))" for x
          using posted by (intro ensures_ret) (auto simp: ended_def)
        show ?thesis
        proof (cases answer)
          case (Inl te)
          then show ?thesis
            using e posted unfolding r(1)
            by (cases te) (auto simp: Let_def answer_def [symmetric] intro: ensures_at [OF logged])
        next
          case (Inr url)
          show ?thesis
          proof (cases "url = []")
            case True
            then show ?thesis
              using posted Inr unfolding r(1) by (auto simp: Let_def answer_def [symmetric] intro: ensures_at [OF IH])
          next
            case False
            show ?thesis
              using False Inr posted unfolding r(1)
              apply (simp add: Let_def answer_def [symmetric])
              apply (rule ensures_bindE [OF record_url_outcome], assumption)
              apply (rule ensures_case_sum)
               apply (simp add: ensures_at [OF logged])
              apply simp
              apply (rule ensures_at [OF logged])
              apply (rule run_ok_recorded [OF ok N(1) r(3,2)], assumption)
              done
          qed
        qed
      qed
      done
    done
qed

section \<open>Runs without faults\<close>

definition keeps_quiet :: "('d, 'a) act \<Rightarrow> bool" where
  "keeps_quiet m \<longleftrightarrow> (\<forall>w. wfaults w = [] \<longrightarrow> wfaults (snd (m w)) = [])"

lemma quiet_ret: "keeps_quiet (ret x)"
  by (simp add: keeps_quiet_def ret_def)

lemma quiet_raise: "keeps_quiet (raise e)"
  by (simp add: keeps_quiet_def raise_def)

lemma quiet_bindE: "keeps_quiet m \<Longrightarrow> (\<And>x. keeps_quiet (f x)) \<Longrightarrow> keeps_quiet (bindE m f)"
  unfolding keeps_quiet_def bindE_def by (fastforce split: prod.splits sum.splits)

lemma quiet_attempt: "keeps_quiet m \<Longrightarrow> keeps_quiet (attempt m)"
  by (simp add: keeps_quiet_def attempt_run)

lemma quiet_wrapping: "keeps_quiet m \<Longrightarrow> keeps_quiet (wrapping p m)"
  unfolding keeps_quiet_def by (auto simp: wrapping_run split: prod.splits sum.splits)

lemma quiet_exec: "keeps_quiet (exec st)"
  unfolding keeps_quiet_def by (auto simp: exec_run split: sum.splits)

lemma quiet_query: "keeps_quiet (query f)" "keeps_quiet (query_row g)"
  unfolding query_def query_row_def by (rule quiet_exec)+

lemma quiet_if: "keeps_quiet m \<Longrightarrow> keeps_quiet n \<Longrightarrow> keeps_quiet (if b then m else n)"
  by simp

lemma quiet_case_sum: "(\<And>e. keeps_quiet (f e)) \<Longrightarrow> (\<And>x. keeps_quiet (g x)) \<Longrightarrow> keeps_quiet (case r of Inl e \<Rightarrow> f e | Inr x \<Rightarrow> g x)"
  by (cases r) auto

lemma quiet_case_option: "keeps_quiet m \<Longrightarrow> (\<And>x. keeps_quiet (g x)) \<Longrightarrow> keeps_quiet (case r of None \<Rightarrow> m | Some x \<Rightarrow> g x)"
  by (cases r) auto

lemma quiet_case_prod: "(\<And>x y. keeps_quiet (f x y)) \<Longrightarrow> keeps_quiet (case p of (x, y) \<Rightarrow> f x y)"
  by (cases p) auto

lemmas quiet_rules = quiet_ret quiet_raise quiet_bindE quiet_attempt quiet_wrapping quiet_exec quiet_query quiet_if
  quiet_case_sum quiet_case_option quiet_case_prod

lemma quiet_linked: "keeps_quiet (linked_images env srcs imgs seen asked)"
proof (induction srcs arbitrary: imgs seen asked)
  case Nil
  then show ?case by (simp add: quiet_ret)
next
  case (Cons src srcs)
  show ?case
    unfolding linked_images.simps local_file_by_src_def download_remote_image_def site_url_of_def get_file_by_key_def get_settings_def
    by (intro quiet_rules Cons.IH)
qed

lemma quiet_prepare: "keeps_quiet (prepare_post env a t name)"
  unfolding prepare_post_def get_crosspost_by_platform_def url_recorded_since_def list_fetchable_social_posts_by_platform_def
    build_input_def site_url_of_def route_prefix_def get_settings_def collect_images_def list_image_attachments_for_article_def Let_def
  by (intro quiet_rules quiet_linked)

lemma quiet_log_post: "keeps_quiet (log_post run now l act n a u m)"
  unfolding log_post_def log_row_def create_activity_log_def by (intro quiet_rules)

lemma answered_snoc: "answered (posts @ [(name, pin, answer)]) =
  answered posts \<union> (case answer of Inl _ \<Rightarrow> {} | Inr url \<Rightarrow> if url = [] then {} else {name})"
  by (auto simp: answered_def split: sum.splits if_splits)

lemma log_post_quiet:
  assumes "wfaults w = []"
  shows "\<exists>w'. log_post run now l act n a u m w = (Inr (), w') \<and> wfaults w' = [] \<and> articles (wdb w') = articles (wdb w)"
proof -
  obtain w' where w': "log_post run now l act n a u m w = (Inr (), w')"
    using log_row_never_fails unfolding log_post_def by blast
  have "pres (\<lambda>d. articles d = articles (wdb w)) (log_post run now l act n a u m)"
    unfolding log_post_def by (rule pres_log_row) simp
  from presD [OF this _ w'] have "articles (wdb w') = articles (wdb w)" by simp
  moreover have "wfaults w' = []"
    using quiet_log_post [of run now l act n a u m] assms w' unfolding keeps_quiet_def by (metis prod.sel(2))
  ultimately show ?thesis using w' by blast
qed

lemma record_url_quiet:
  assumes "wfaults w = []" "by_id a_id i (articles (wdb w)) \<noteq> None"
  shows "\<exists>w'. record_url i n u now w = (Inr (), w') \<and> wfaults w' = [] \<and> articles (wdb w') = articles (wdb w)"
  using assms by (auto simp: record_url_def upsert_social_media_post_def wrapping_run exec_run)

text \<open>Without a fault of the database every post that was answered with an address is recorded.\<close>

lemma cross_loop_records:
  assumes "wfaults w = []" "by_id a_id (a_id a) (articles (wdb w)) \<noteq> None" "answered posts \<subseteq> set recorded"
    "cross_loop env run clk a t names posts recorded w = (Inr out, w')"
  shows "answered (cr_posts out) \<subseteq> set (cr_recorded out)"
  using assms
proof (induction names arbitrary: posts recorded w)
  case Nil
  then show ?case by (auto simp: ret_run ended_def)
next
  case (Cons name names)
  note IH = Cons.IH
  show ?case
  proof (cases "registered name")
    case False
    then show ?thesis using Cons by simp
  next
    case True
    obtain r w1 where r: "prepare_post env a t name w = (r, w1)" by (cases "prepare_post env a t name w")
    have w1: "wfaults w1 = []" "by_id a_id (a_id a) (articles (wdb w1)) \<noteq> None"
      using quiet_prepare [of env a t name] presD [OF pres_prepare [of "\<lambda>d. d = wdb w" env a t name] refl r] Cons.prems(1,2) r
      by (auto simp: keeps_quiet_def dest!: spec [of _ w])
    note run = Cons.prems(4) [unfolded cross_loop.simps if_P [OF True] if_not_P [OF not_not [THEN iffD2, OF True]] bindE_run attempt_run r]
    show ?thesis
    proof (cases "\<exists>cfg pin. r = Inr (Some (cfg, pin))")
      case False
      then consider err where "r = Inl err" | "r = Inr None"
        by (cases r) (auto, metis option.exhaust surj_pair)
      then show ?thesis
      proof cases
        case 1
        then show ?thesis using run Cons.prems(3) by (auto simp: ret_run ended_def)
      next
        case 2
        then show ?thesis using run IH [OF w1 Cons.prems(3)] by simp
      qed
    next
      case True
      then obtain cfg pin where p: "r = Inr (Some (cfg, pin))" by blast
      define answer where "answer = post_to env (length posts) name cfg pin"
      define posts' where "posts' = posts @ [(name, pin, answer)]"
      note run = run [unfolded p Let_def, simplified, folded answer_def, folded posts'_def]
      have go: "answered (cr_posts out) \<subseteq> set (cr_recorded out)"
        if "bindE (log_post run l k m name a u x) (\<lambda>_. cross_loop env run clk a t names posts' rec) w2 = (Inr out, w')"
          "wfaults w2 = []" "by_id a_id (a_id a) (articles (wdb w2)) \<noteq> None" "answered posts' \<subseteq> set rec" for l k m u x rec w2
      proof -
        note h = that
        obtain w3 where w3: "log_post run l k m name a u x w2 = (Inr (), w3)" "wfaults w3 = []" "articles (wdb w3) = articles (wdb w2)"
          using log_post_quiet [OF h(2)] by blast
        with h(1) have "cross_loop env run clk a t names posts' rec w3 = (Inr out, w')" by (simp add: bindE_run)
        from IH [OF w3(2) _ h(4) this] show ?thesis using h(3) w3(3) by simp
      qed
      show ?thesis
      proof (cases answer)
        case (Inl te)
        then have "answered posts' \<subseteq> set recorded" using Cons.prems(3) by (simp add: posts'_def answered_snoc)
        then show ?thesis
          using run w1 Inl go by (cases te) (auto simp: ret_run ended_def bindE_run split: if_splits)
      next
        case (Inr url)
        show ?thesis
        proof (cases "url = []")
          case True
          then have "answered posts' \<subseteq> set recorded" using Cons.prems(3) Inr by (simp add: posts'_def answered_snoc)
          then show ?thesis using run IH [OF w1] Inr True by simp
        next
          case False
          then have "answered posts' \<subseteq> set (recorded @ [name])" using Cons.prems(3) Inr by (auto simp: posts'_def answered_snoc)
          moreover obtain w2 where "record_url (a_id a) name url (clk (length posts')) w1 = (Inr (), w2)" "wfaults w2 = []"
              "articles (wdb w2) = articles (wdb w1)"
            using record_url_quiet [OF w1] by blast
          ultimately show ?thesis
            using run w1 Inr False go by (auto simp: bindE_run attempt_run)
        qed
      qed
    qed
  qed
qed

section \<open>The contract of the dispatcher\<close>

lemma handle_crosspost_ok:
  assumes "handle_crosspost env run clk payload w = (Inr out, w')" "unmarshal put_cross_job payload = Inr p"
  shows "cr_posts out = [] \<and> cr_recorded out = [] \<or>
    (\<exists>a. by_id a_id (cj_article_id p) (articles (wdb w)) = Some a \<and>
       run_ok env clk a (cj_requested_at p) (set (platform_list p)) (wdb w) (cr_posts out) (cr_recorded out) (wdb w') \<and>
       (wfaults w = [] \<longrightarrow> answered (cr_posts out) \<subseteq> set (cr_recorded out)))"
proof -
  obtain r w1 where r: "get_admin_article_by_id (cj_article_id p) w = (r, w1)" by (cases "get_admin_article_by_id (cj_article_id p) w")
  have w1: "wdb w1 = wdb w" "wfaults w = [] \<Longrightarrow> wfaults w1 = []"
    using query_row_keeps [of "\<lambda>d. by_id a_id (cj_article_id p) (articles d)" w] r
      quiet_query(2) [of "\<lambda>d. by_id a_id (cj_article_id p) (articles d)"]
    by (auto simp: get_admin_article_by_id_def keeps_quiet_def dest!: spec [of _ w])
  show ?thesis
  proof (cases r)
    case (Inl e)
    then show ?thesis
      using assms r by (auto simp: handle_crosspost_def bindE_run attempt_run ret_run raise_run ended_def split: if_splits)
  next
    case (Inr a)
    then have a: "by_id a_id (cj_article_id p) (articles (wdb w)) = Some a" "a_id a = cj_article_id p"
      using r by (auto simp: get_admin_article_by_id_def dest!: query_row_ok simp: by_id_def dest: find_SomeD)
    obtain out2 w2 where l: "cross_loop env run clk a (cj_requested_at p) (platform_list p) [] [] w1 = (Inr out2, w2)"
      and o: "out = out2" and w2: "w' = w2 \<or> (\<exists>n x. log_row n level_info ''posted'' ''crosspost'' x run w2 = (Inr (), w'))"
      using assms r Inr
      by (auto simp: handle_crosspost_def bindE_run attempt_run ret_run split: prod.splits sum.splits if_splits)
    have "run_ok env clk a (cj_requested_at p) (set (platform_list p)) (wdb w) [] [] (wdb w1)"
      by (simp add: run_ok_def w1)
    from ensuresD [OF cross_loop_ok this l]
    have ok: "run_ok env clk a (cj_requested_at p) (set (platform_list p)) (wdb w) (cr_posts out) (cr_recorded out) (wdb w2)"
      by (simp add: o)
    then have "run_ok env clk a (cj_requested_at p) (set (platform_list p)) (wdb w) (cr_posts out) (cr_recorded out) (wdb w')"
      using w2 by (auto dest: ensuresD [OF ensures_log_run])
    moreover have "answered (cr_posts out) \<subseteq> set (cr_recorded out)" if "wfaults w = []"
      using cross_loop_records [OF w1(2) [OF that] _ _ l] a by (simp add: w1 o answered_def)
    ultimately show ?thesis using a by blast
  qed
qed

text \<open>
  C28: Every post of a crosspost job has its reasons: the job asks for that platform, the platform is implemented and
  enabled in the configuration, and since the request no post of the article on that platform has been recorded. The
  text is that of the article cut for the platform's limit, and there are at most four images.
\<close>

theorem crosspost_posts_justified:
  assumes "handle_crosspost env run clk payload w = (Inr out, w')" "(name, pin, answer) \<in> set (cr_posts out)"
  shows "\<exists>p a cfg. unmarshal put_cross_job payload = Inr p \<and> name \<in> set (platform_list p) \<and> registered name \<and>
    by_id a_id (cj_article_id p) (articles (wdb w)) = Some a \<and>
    find (\<lambda>c. cp_platform c = name) (crossposts (wdb w)) = Some cfg \<and> cp_enabled cfg = 1 \<and>
    \<not> recorded_since (cj_article_id p) name (cj_requested_at p) (wdb w) \<and> length (pi_images pin) \<le> 4 \<and>
    (\<exists>site pfx. pi_text pin = build_content (ce_site env) (content_of env a) (options_for cfg site pfx))"
proof -
  obtain p where p: "unmarshal put_cross_job payload = Inr p"
    using assms(1) by (cases "unmarshal put_cross_job payload") (auto simp: handle_crosspost_def raise_run)
  from handle_crosspost_ok [OF assms(1) p] assms(2) obtain a where
    a: "by_id a_id (cj_article_id p) (articles (wdb w)) = Some a"
      "run_ok env clk a (cj_requested_at p) (set (platform_list p)) (wdb w) (cr_posts out) (cr_recorded out) (wdb w')"
    by auto
  then have "a_id a = cj_article_id p" by (auto simp: by_id_def dest: find_SomeD)
  with a assms(2) have "name \<in> set (platform_list p) \<and> justified env a (cj_requested_at p) (wdb w) name pin" by (auto simp: run_ok_def)
  with p a(1) \<open>a_id a = cj_article_id p\<close> show ?thesis
    by (auto simp: justified_def enabled_config_def well_made_def image_limit_def)
qed



section \<open>Runs of the model\<close>

text \<open>
  An article with two platforms: Mastodon takes the post, Bluesky fails for the moment. The sixth statement of the
  loop records the first post.
\<close>

definition demo_config :: "int \<Rightarrow> string \<Rightarrow> crosspost" where
  "demo_config i name = \<lparr>cp_id = i, cp_platform = name, cp_enabled = 1, cp_api_key = None, cp_api_key_secret = None,
     cp_access_token = None, cp_access_token_secret = None, cp_client_id = None, cp_client_key = None, cp_client_secret = None,
     cp_app_password = None, cp_refresh_token = None, cp_token_expires_at = None, cp_server_url = None, cp_username = None,
     cp_max_characters = None, cp_auto_fetch_comments = 0, cp_comment_fetch_schedule = None, cp_settings = None,
     cp_created_at = 0, cp_updated_at = 0\<rparr>"

definition demo_world :: "social_media_post list \<Rightarrow> err option list \<Rightarrow> dbworld" where
  "demo_world rows faults = \<lparr>wdb = gallery\<lparr>crossposts := [demo_config 1 ''mastodon'', demo_config 2 ''bluesky''],
     social_posts := rows\<rparr>, wfaults = faults\<rparr>"

definition demo_answer :: "string \<Rightarrow> (bool \<times> err) + string" where
  "demo_answer name = (if name = ''mastodon'' then Inr ''https://m.io/1'' else Inl (True, ErrText ''timeout''))"

definition demo_cross :: "string list \<Rightarrow> cross_env" where
  "demo_cross srcs = \<lparr>ce_post = (\<lambda>n name cfg pin. demo_answer name),
     ce_site = demo_address, ce_parse = (\<lambda>u. Some \<lparr>u_scheme = ''https'', u_host = u, u_path = []\<rparr>), ce_hostname = u_host,
     ce_lookup = (\<lambda>_. None), ce_answer = (\<lambda>_ _. None), ce_read = (\<lambda>_. Some ''png''), ce_detect = (\<lambda>_. []), ce_srcs = (\<lambda>_. srcs),
     ce_plain = (\<lambda>_. []), ce_dir = ''d'', ce_prefix = []\<rparr>"

definition demo_row :: social_media_post where
  "demo_row = \<lparr>sp_id = 1, sp_article_id = 1, sp_platform = ''mastodon'', sp_url = ''https://m.io/1'', sp_created_at = 9, sp_updated_at = 9\<rparr>"

definition demo_job :: cross_job where
  "demo_job = \<lparr>cj_article_id = 1, cj_platform = [], cj_platforms = [''mastodon'', ''bluesky''], cj_requested_at = 5\<rparr>"

definition demo_job_text :: "jtext option" where
  "demo_job_text = Some (to_text (JObj [(''article_id'', JNum 1), (''platforms'', JArr [JStr ''mastodon'', JStr ''bluesky'']),
     (''requested_at'', JNum 5)]))"

lemma demo_job_decoded: "unmarshal put_cross_job demo_job_text = Inr demo_job"
  by code_simp

definition demo_loop :: "social_media_post list \<Rightarrow> err option list \<Rightarrow> (err + cross_run) \<times> dbworld" where
  "demo_loop rows faults = cross_loop (demo_cross []) None (\<lambda>_. 9) post 5 [''mastodon'', ''bluesky''] [] [] (demo_world rows faults)"

definition demo_end :: "(err + cross_run) \<times> dbworld \<Rightarrow> ((string \<times> ((bool \<times> err) + string)) list \<times> string list \<times> bool \<times> social_media_post list) option" where
  "demo_end r = (case r of (Inl _, _) \<Rightarrow> None
     | (Inr out, w) \<Rightarrow> Some (map (\<lambda>(n, _, a). (n, a)) (cr_posts out), cr_recorded out, cr_error out = None, social_posts (wdb w)))"

lemma demo_loops:
  "demo_end (demo_loop [] []) = Some (map (\<lambda>n. (n, demo_answer n)) [''mastodon'', ''bluesky''], [''mastodon''], False, [demo_row])"
  "demo_end (demo_loop [demo_row] []) = Some (map (\<lambda>n. (n, demo_answer n)) [''bluesky''], [], False, [demo_row])"
  "demo_end (demo_loop [] (replicate 5 None @ [Some (ErrDriver ''busy'')])) =
     Some (map (\<lambda>n. (n, demo_answer n)) [''mastodon'', ''bluesky''], [], False, [])"
  by code_simp+

lemma demo_handled:
  assumes "demo_end (demo_loop rows faults) = Some (posts, recorded, False, rows')"
  shows "\<exists>out w'. handle_crosspost (demo_cross []) None (\<lambda>_. 9) demo_job_text (demo_world rows (if faults = [] then [] else None # faults)) = (Inr out, w') \<and>
    map (\<lambda>(n, _, a). (n, a)) (cr_posts out) = posts \<and> cr_recorded out = recorded \<and> cr_error out \<noteq> None \<and> social_posts (wdb w') = rows'"
proof -
  have a: "get_admin_article_by_id 1 (demo_world rows (if faults = [] then [] else None # faults)) = (Inr post, demo_world rows faults)"
    by (simp add: get_admin_article_by_id_def query_row_def exec_run exec_passing demo_world_def gallery_def post_def by_id_def)
  have p: "platform_list demo_job = [''mastodon'', ''bluesky'']" "cj_requested_at demo_job = 5" "cj_article_id demo_job = 1"
    by (simp_all add: platform_list_def demo_job_def)
  from assms obtain out w' where "demo_loop rows faults = (Inr out, w')" "map (\<lambda>(n, _, a). (n, a)) (cr_posts out) = posts"
      "cr_recorded out = recorded" "cr_error out \<noteq> None" "social_posts (wdb w') = rows'"
    by (auto simp: demo_end_def split: prod.splits sum.splits)
  then show ?thesis
    by (simp add: handle_crosspost_def demo_job_decoded bindE_run attempt_run p a demo_loop_def ret_run)
qed

text \<open>The two runs of a job whose database works, and the one whose record fails.\<close>

lemma answered_map: "answered posts = {name. \<exists>url. (name, Inr url) \<in> set (map (\<lambda>(n, _, a). (n, a)) posts) \<and> url \<noteq> ''''}"
  by (force simp: answered_def)

lemma demo_answered: "map (\<lambda>(n, _, a). (n, a)) posts = map (\<lambda>n. (n, demo_answer n)) ns \<Longrightarrow> ''mastodon'' \<in> set ns \<Longrightarrow> answered posts = {''mastodon''}"
  unfolding answered_map
  by (auto simp: demo_answer_def split: if_splits intro!: exI [where x = "''https://m.io/1''"] image_eqI [where x = "''mastodon''"])

theorem crosspost_posts_justified_witness:
  "\<exists>out w' pin answer. handle_crosspost (demo_cross []) None (\<lambda>_. 9) demo_job_text (demo_world [demo_row] []) = (Inr out, w') \<and>
     (''bluesky'', pin, answer) \<in> set (cr_posts out) \<and> length (pi_images pin) \<le> 4 \<and>
     \<not> recorded_since 1 ''bluesky'' 5 (wdb (demo_world [demo_row] []))"
proof -
  obtain out w' where h: "handle_crosspost (demo_cross []) None (\<lambda>_. 9) demo_job_text (demo_world [demo_row] []) = (Inr out, w')"
      "map (\<lambda>(n, _, a). (n, a)) (cr_posts out) = map (\<lambda>n. (n, demo_answer n)) [''bluesky'']"
    using demo_handled [OF demo_loops(2)] by auto
  then obtain pin answer where "(''bluesky'', pin, answer) \<in> set (cr_posts out)" by (cases "cr_posts out") auto
  with crosspost_posts_justified [OF h(1) this] h(1) show ?thesis
    by (intro exI [of _ out] exI [of _ w'] exI [of _ pin] exI [of _ answer]) (auto simp: demo_job_decoded demo_job_def)
qed



text \<open>Ten dead links beside the attached file: eight downloads are tried.\<close>

lemma demo_collected:
  "map_sum id (\<lambda>(imgs, asked). (length imgs, length asked)) (fst (collect_images (demo_cross (replicate 10 ''https://x'')) post (demo_world [] []))) = Inr (1, 8)"
  by code_simp

theorem collect_images_bounds_witness:
  "\<exists>imgs asked w'. collect_images (demo_cross (replicate 10 ''https://x'')) post (demo_world [] []) = (Inr (imgs, asked), w') \<and>
     length imgs = 1 \<and> length asked = 8 \<and> length asked \<le> 8 \<and> wdb w' = wdb (demo_world [] [])"
proof -
  obtain imgs asked w' where c: "collect_images (demo_cross (replicate 10 ''https://x'')) post (demo_world [] []) = (Inr (imgs, asked), w')"
      "length imgs = 1" "length asked = 8"
    using demo_collected by (cases "collect_images (demo_cross (replicate 10 ''https://x'')) post (demo_world [] [])")
      (auto split: prod.splits simp: map_sum_def split: sum.splits)
  with collect_images_bounds [OF c(1)] show ?thesis by blast
qed

end
