(* ===== verification/Paths.thy ===== *)
theory Paths
  imports NetText
begin

text \<open>
  Slash paths and directory trees as the code uses \<open>path\<close>, \<open>path/filepath\<close> and \<open>os\<close>: cleaning and joining of
  paths, and the files and directories under_path a root. The laws say when a joined path stays under_path its base.
\<close>

section \<open>Cleaning\<close>

text \<open>\<open>path.Clean\<close> on the segments; \<open>out\<close> is what has been kept, the latest first.\<close>

fun clean_segs :: "bool \<Rightarrow> string list \<Rightarrow> string list \<Rightarrow> string list" where
  "clean_segs rooted out [] = rev out"
| "clean_segs rooted out (s # ss) =
     (if s = [] \<or> s = ''.'' then clean_segs rooted out ss
      else if s = ''..'' then
        (case out of
           [] \<Rightarrow> clean_segs rooted (if rooted then [] else [s]) ss
         | x # xs \<Rightarrow> clean_segs rooted (if x = ''..'' then s # out else xs) ss)
      else clean_segs rooted (s # out) ss)"

definition is_rooted :: "string \<Rightarrow> bool" where
  "is_rooted p = (p \<noteq> [] \<and> hd p = CHR ''/'')"

definition path_of :: "bool \<Rightarrow> string list \<Rightarrow> string" where
  "path_of rooted ss = (if rooted then ''/'' @ join_with ''/'' ss else if ss = [] then ''.'' else join_with ''/'' ss)"

definition segs_of :: "string \<Rightarrow> string list" where
  "segs_of p = clean_segs (is_rooted p) [] (split_on (CHR ''/'') p)"

definition path_clean :: "string \<Rightarrow> string" where
  "path_clean p = (if p = [] then ''.'' else path_of (is_rooted p) (segs_of p))"

text \<open>\<open>filepath.Join\<close>, \<open>filepath.Dir\<close>, \<open>filepath.Base\<close> and \<open>filepath.Ext\<close>.\<close>

definition join_paths :: "string list \<Rightarrow> string" where
  "join_paths es = (let es' = dropWhile (\<lambda>e. e = []) es in if es' = [] then [] else path_clean (join_with ''/'' es'))"

definition path_dir :: "string \<Rightarrow> string" where
  "path_dir p = path_clean (if CHR ''/'' \<in> set p then before_last (CHR ''/'') p @ ''/'' else [])"

definition path_base :: "string \<Rightarrow> string" where
  "path_base p =
     (let q = rev (dropWhile (\<lambda>c. c = CHR ''/'') (rev p))
      in if p = [] then ''.'' else if q = [] then ''/'' else after_last (CHR ''/'') q)"

definition path_ext :: "string \<Rightarrow> string" where
  "path_ext p = (let name = after_last (CHR ''/'') p in if CHR ''.'' \<in> set name then ''.'' @ after_last (CHR ''.'') name else [])"

section \<open>Splitting and joining\<close>

text \<open>A segment that names an entry of its directory.\<close>

definition plain_seg :: "string \<Rightarrow> bool" where
  "plain_seg s = (s \<noteq> [] \<and> s \<noteq> ''.'' \<and> s \<noteq> ''..'' \<and> CHR ''/'' \<notin> set s)"

lemma split_on_at: "split_on c (p @ c # q) = split_on c p @ split_on c q"
  by (induction p) (auto split: list.splits)

lemma split_on_missing: "c \<notin> set p \<Longrightarrow> split_on c p = [p]"
  by (induction p) auto

lemma split_on_clear: "s \<in> set (split_on c p) \<Longrightarrow> c \<notin> set s"
  by (induction p arbitrary: s) (auto split: if_splits list.splits)

lemma split_on_chars: "s \<in> set (split_on c p) \<Longrightarrow> set s \<subseteq> set p"
  by (induction p arbitrary: s) (fastforce split: if_splits list.splits)+

lemma join_split: "join_with ''/'' (split_on (CHR ''/'') p) = p"
proof (induction p)
  case (Cons c p)
  then show ?case by (cases "split_on (CHR ''/'') p"; cases "tl (split_on (CHR ''/'') p)") auto
qed simp

lemma join_with_append:
  "ss \<noteq> [] \<Longrightarrow> ts \<noteq> [] \<Longrightarrow> join_with sep (ss @ ts) = join_with sep ss @ sep @ join_with sep ts"
proof (induction ss)
  case (Cons s ss)
  then show ?case by (cases ss; cases ts) auto
qed simp

lemma split_join: "ss \<noteq> [] \<Longrightarrow> \<forall>s \<in> set ss. CHR ''/'' \<notin> set s \<Longrightarrow> split_on (CHR ''/'') (join_with ''/'' ss) = ss"
proof (induction ss)
  case (Cons x ss)
  then show ?case by (cases ss) (simp_all add: split_on_at split_on_missing)
qed simp

section \<open>What cleaning keeps\<close>

lemma clean_segs_append: "clean_segs r out (ss @ ts) = clean_segs r (rev (clean_segs r out ss)) ts"
  by (induction r out ss rule: clean_segs.induct) (auto split: list.splits)

lemma clean_segs_plain: "\<forall>s \<in> set ss. plain_seg s \<Longrightarrow> clean_segs r out ss = rev out @ ss"
  by (induction ss arbitrary: out) (auto simp: plain_seg_def)

lemma clean_segs_no_up:
  "''..'' \<notin> set ss \<Longrightarrow> clean_segs r out ss = rev out @ filter (\<lambda>s. s \<noteq> [] \<and> s \<noteq> ''.'') ss"
  by (induction ss arbitrary: out) auto

lemma clean_segs_set: "set (clean_segs r out ss) \<subseteq> set out \<union> {s \<in> set ss. s \<noteq> [] \<and> s \<noteq> ''.''}"
  by (induction r out ss rule: clean_segs.induct) (auto split: list.splits if_splits)

lemma segs_of_parts: "s \<in> set (segs_of p) \<Longrightarrow> s \<noteq> [] \<and> s \<noteq> ''.'' \<and> CHR ''/'' \<notin> set s"
  using clean_segs_set [of "is_rooted p" "[]" "split_on (CHR ''/'') p"] split_on_clear by (fastforce simp: segs_of_def)

text \<open>Everything after \<open>p/\<close> is cleaned on top of the segments of \<open>p\<close>.\<close>

lemma is_rooted_append [simp]: "p \<noteq> [] \<Longrightarrow> is_rooted (p @ q) = is_rooted p"
  by (simp add: is_rooted_def)

lemma segs_of_below: "p \<noteq> [] \<Longrightarrow> segs_of (p @ CHR ''/'' # q) = clean_segs (is_rooted p) (rev (segs_of p)) (split_on (CHR ''/'') q)"
  by (simp add: segs_of_def split_on_at clean_segs_append)

lemma segs_of_down:
  assumes "p \<noteq> []" "''..'' \<notin> set (split_on (CHR ''/'') q)"
  shows "segs_of (p @ CHR ''/'' # q) = segs_of p @ filter (\<lambda>s. s \<noteq> [] \<and> s \<noteq> ''.'') (split_on (CHR ''/'') q)"
  using assms by (simp add: segs_of_below clean_segs_no_up)

lemma path_of_snoc: "ss \<noteq> [] \<Longrightarrow> ts \<noteq> [] \<Longrightarrow> path_of r (ss @ ts) = path_of r ss @ CHR ''/'' # join_with ''/'' ts"
  by (simp add: path_of_def join_with_append)


lemma segs_of_path_of:
  assumes "ss \<noteq> []" "\<forall>s \<in> set ss. s \<noteq> [] \<and> s \<noteq> ''.'' \<and> CHR ''/'' \<notin> set s" "clean_segs r [] ss = ss"
  shows "is_rooted (path_of r ss) = r" "segs_of (path_of r ss) = ss" "path_of r ss \<noteq> []"
proof -
  obtain c s ss' where ss: "ss = (c # s) # ss'" "c \<noteq> CHR ''/''"
    using assms(1,2) by (cases ss; cases "hd ss") auto
  have j: "join_with ''/'' ss = c # drop 1 (join_with ''/'' ss)" using ss by (cases ss') auto
  then have "hd (join_with ''/'' ss) = c" "join_with ''/'' ss \<noteq> []" by (metis list.sel(1), metis list.distinct(1))
  then show r: "is_rooted (path_of r ss) = r" and "path_of r ss \<noteq> []"
    using ss by (auto simp: path_of_def is_rooted_def)
  have "split_on (CHR ''/'') (join_with ''/'' ss) = ss" using assms by (intro split_join) auto
  then have "split_on (CHR ''/'') (path_of r ss) = (if r then [[]] else []) @ ss"
    using assms(1) by (simp add: path_of_def)
  then show "segs_of (path_of r ss) = ss" unfolding segs_of_def r using assms(3) by (cases r) simp_all
qed

text \<open>What is kept are names, and steps up before them where the path is not rooted.\<close>

definition settled :: "bool \<Rightarrow> string list \<Rightarrow> bool" where
  "settled r out \<longleftrightarrow> (\<exists>ns k. out = ns @ replicate k ''..'' \<and> (\<forall>s \<in> set ns. s \<noteq> [] \<and> s \<noteq> ''.'' \<and> s \<noteq> ''..'') \<and> (r \<longrightarrow> k = 0))"

lemma settled_name: "settled r out \<Longrightarrow> s \<noteq> [] \<Longrightarrow> s \<noteq> ''.'' \<Longrightarrow> s \<noteq> ''..'' \<Longrightarrow> settled r (s # out)"
  unfolding settled_def by (metis append_Cons set_ConsD)

lemma settled_ups: "(r \<longrightarrow> k = 0) \<Longrightarrow> settled r (replicate k ''..'')"
  unfolding settled_def by (intro exI [of _ "[]"] exI [of _ k]) simp

lemma settled_up:
  assumes "settled r out"
  shows "settled r (case out of [] \<Rightarrow> (if r then [] else [''..'']) | x # xs \<Rightarrow> if x = ''..'' then ''..'' # out else xs)"
proof -
  obtain ns k where o: "out = ns @ replicate k ''..''" "\<forall>s \<in> set ns. s \<noteq> [] \<and> s \<noteq> ''.'' \<and> s \<noteq> ''..''" "r \<longrightarrow> k = 0"
    using assms unfolding settled_def by blast
  show ?thesis
  proof (cases ns)
    case Nil
    then show ?thesis
      using o settled_ups [of r "Suc k"] settled_ups [of r 0] by (cases k) (auto simp: settled_def)
  next
    case (Cons n ns')
    then show ?thesis using o by (auto simp: settled_def)
  qed
qed

lemma clean_segs_settled: "settled r out \<Longrightarrow> settled r (rev (clean_segs r out ss))"
proof (induction ss arbitrary: out)
  case (Cons s ss)
  show ?case
  proof (cases "s = ''..''")
    case True
    then show ?thesis using Cons.IH [OF settled_up [OF Cons.prems]] by (auto split: list.splits)
  next
    case False
    then show ?thesis using Cons settled_name by auto
  qed
qed simp

lemma clean_ups: "clean_segs False (replicate j ''..'') (replicate k ''..'') = replicate (j + k) ''..''"
proof (induction k arbitrary: j)
  case (Suc k)
  have "clean_segs False (replicate j ''..'') (replicate (Suc k) ''..'') = clean_segs False (replicate (Suc j) ''..'') (replicate k ''..'')"
    by (cases j) simp_all
  also have "\<dots> = replicate (Suc j + k) ''..''" by (rule Suc)
  finally show ?case by simp
qed simp

lemma settled_clean: "settled r out \<Longrightarrow> clean_segs r [] (rev out) = rev out"
proof -
  assume "settled r out"
  then obtain ns k where o: "out = ns @ replicate k ''..''" "\<forall>s \<in> set ns. s \<noteq> [] \<and> s \<noteq> ''.'' \<and> s \<noteq> ''..''" "r \<longrightarrow> k = 0"
    unfolding settled_def by blast
  have "clean_segs r [] (replicate k ''..'') = replicate k ''..''"
    using o(3) clean_ups [of 0 k] by (cases r) simp_all
  moreover have "clean_segs r xs (rev ns) = rev xs @ rev ns" for xs
    using o(2) by (subst clean_segs_no_up) (auto intro: filter_id_conv [THEN iffD2])
  ultimately show ?thesis by (simp add: o(1) clean_segs_append)
qed

lemma clean_segs_fixed: "clean_segs r [] (segs_of p) = segs_of p" if "is_rooted p = r"
proof -
  have "settled r (rev (segs_of p))"
    unfolding segs_of_def that by (rule clean_segs_settled) (simp add: settled_def)
  then show ?thesis using settled_clean by fastforce
qed

lemma segs_of_clean: "segs_of p \<noteq> [] \<Longrightarrow> segs_of (path_clean p) = segs_of p \<and> is_rooted (path_clean p) = is_rooted p \<and> path_clean p \<noteq> []"
  using segs_of_path_of [of "segs_of p" "is_rooted p"] segs_of_parts clean_segs_fixed [of p]
  by (cases "p = []") (auto simp: path_clean_def segs_of_def)

section \<open>Below a base\<close>

text \<open>A joined path without steps up is the base, a slash and the entries.\<close>

definition base_path :: "string \<Rightarrow> bool" where
  "base_path p \<longleftrightarrow> segs_of p \<noteq> [] \<and> path_clean p = p"

lemma base_path_clean:
  assumes "segs_of p \<noteq> []"
  shows "base_path (path_clean p)"
proof -
  from assms have "p \<noteq> []" by (auto simp: segs_of_def is_rooted_def)
  with segs_of_clean [OF assms] assms show ?thesis
    by (simp add: base_path_def path_clean_def [of "path_clean p"]) (simp add: path_clean_def)
qed

definition entries :: "string \<Rightarrow> string list" where
  "entries q = filter (\<lambda>s. s \<noteq> [] \<and> s \<noteq> ''.'') (split_on (CHR ''/'') q)"

lemma clean_below:
  assumes "base_path b" "''..'' \<notin> set (split_on (CHR ''/'') q)"
  shows "path_clean (b @ CHR ''/'' # q) = (if entries q = [] then b else b @ CHR ''/'' # join_with ''/'' (entries q))"
    and "segs_of (b @ CHR ''/'' # q) = segs_of b @ entries q"
proof -
  have b: "b \<noteq> []" "segs_of b \<noteq> []" "path_clean b = b" using assms(1) by (auto simp: base_path_def segs_of_def)
  show s: "segs_of (b @ CHR ''/'' # q) = segs_of b @ entries q"
    using segs_of_down [OF b(1) assms(2)] by (simp add: entries_def)
  show "path_clean (b @ CHR ''/'' # q) = (if entries q = [] then b else b @ CHR ''/'' # join_with ''/'' (entries q))"
    using b s path_of_snoc [OF b(2), of "entries q" "is_rooted b"] by (simp add: path_clean_def)
qed

lemma join_paths_two: "b \<noteq> [] \<Longrightarrow> q \<noteq> [] \<Longrightarrow> join_paths [b, q] = path_clean (b @ CHR ''/'' # q)"
  by (simp add: join_paths_def Let_def)

lemma entries_plain: "plain_seg s \<Longrightarrow> entries s = [s]" "plain_seg s \<Longrightarrow> ''..'' \<notin> set (split_on (CHR ''/'') s)"
  by (auto simp: entries_def split_on_missing plain_seg_def)

lemma entries_join:
  assumes "ss \<noteq> []" "\<forall>s \<in> set ss. plain_seg s"
  shows "entries (join_with ''/'' ss) = ss" "''..'' \<notin> set (split_on (CHR ''/'') (join_with ''/'' ss))"
proof -
  have "split_on (CHR ''/'') (join_with ''/'' ss) = ss" using assms by (intro split_join) (auto simp: plain_seg_def)
  then show "entries (join_with ''/'' ss) = ss" "''..'' \<notin> set (split_on (CHR ''/'') (join_with ''/'' ss))"
    using assms(2) by (auto simp: entries_def plain_seg_def intro: filter_id_conv [THEN iffD2])
qed

lemma join_entry:
  assumes "base_path b" "plain_seg s"
  shows "join_paths [b, s] = b @ CHR ''/'' # s" "base_path (b @ CHR ''/'' # s)" "segs_of (b @ CHR ''/'' # s) = segs_of b @ [s]"
proof -
  have n: "b \<noteq> []" "s \<noteq> []" using assms by (auto simp: base_path_def segs_of_def plain_seg_def)
  show "join_paths [b, s] = b @ CHR ''/'' # s" "base_path (b @ CHR ''/'' # s)" "segs_of (b @ CHR ''/'' # s) = segs_of b @ [s]"
    using clean_below [OF assms(1) entries_plain(2) [OF assms(2)]] entries_plain(1) [OF assms(2)] join_paths_two [OF n]
    by (auto simp: base_path_def)
qed

section \<open>Trees\<close>

datatype node = Folder | Blob string

text \<open>The paths that exist, each once.\<close>

type_synonym tree = "(string \<times> node) list"

definition under_path :: "string \<Rightarrow> string \<Rightarrow> bool" where
  "under_path p q = (q = p \<or> has_prefix q (p @ ''/''))"

text \<open>\<open>os.MkdirAll\<close> of a clean path: each directory on the way that does not exist is made.\<close>

definition path_chain :: "string \<Rightarrow> string list" where
  "path_chain p = map (\<lambda>k. path_of (is_rooted p) (take k (segs_of p))) [1..<length (segs_of p) + 1]"

fun make_dirs :: "(string \<Rightarrow> bool) \<Rightarrow> string list \<Rightarrow> tree \<Rightarrow> tree option" where
  "make_dirs refuses [] t = Some t"
| "make_dirs refuses (p # ps) t =
     (case map_of t p of
        Some Folder \<Rightarrow> make_dirs refuses ps t
      | Some (Blob _) \<Rightarrow> None
      | None \<Rightarrow> if refuses p then None else make_dirs refuses ps ((p, Folder) # t))"

text \<open>\<open>os.RemoveAll\<close>: what the system refuses to remove stays.\<close>

definition remove_all :: "(string \<Rightarrow> bool) \<Rightarrow> string \<Rightarrow> tree \<Rightarrow> tree \<times> bool" where
  "remove_all stuck p t =
     (filter (\<lambda>(q, _). \<not> under_path p q \<or> stuck q) t, list_all (\<lambda>(q, _). \<not> under_path p q \<or> \<not> stuck q) t)"

text \<open>\<open>os.Rename\<close> of a directory to a path where nothing is.\<close>

definition move_tree :: "string \<Rightarrow> string \<Rightarrow> tree \<Rightarrow> tree" where
  "move_tree p p' t = map (\<lambda>(q, n). (if under_path p q then p' @ drop (length p) q else q, n)) t"

lemma map_of_filter_keys: "map_of (filter (\<lambda>(q, _). P q) t) q = (if P q then map_of t q else None)"
  by (induction t) auto

lemma map_of_remove_all: "map_of (fst (remove_all stuck p t)) q = (if under_path p q \<and> \<not> stuck q then None else map_of t q)"
  by (simp add: remove_all_def map_of_filter_keys)

lemma under_path_self [simp]: "under_path p p"
  by (simp add: under_path_def)

lemma under_path_child [simp]: "under_path p (p @ CHR ''/'' # q)"
  by (simp add: under_path_def has_prefix_iff)

lemma make_dirs_old: "make_dirs r ps t = Some t' \<Longrightarrow> map_of t p = Some n \<Longrightarrow> map_of t' p = Some n"
proof (induction r ps t rule: make_dirs.induct)
  case (2 r q ps t)
  then show ?case by (cases "p = q") (auto split: option.splits node.splits if_splits)
qed simp

lemma make_dirs_new: "make_dirs r ps t = Some t' \<Longrightarrow> map_of t p = None \<Longrightarrow> map_of t' p = (if p \<in> set ps then Some Folder else None)"
proof (induction r ps t rule: make_dirs.induct)
  case (2 r q ps t)
  then show ?case
    by (cases "p = q") (auto split: option.splits node.splits if_splits dest: make_dirs_old)
qed simp

text \<open>Making directories adds directories only.\<close>

lemma make_dirs_files: "make_dirs r ps t = Some t' \<Longrightarrow> map_of t' p = Some (Blob c) \<longleftrightarrow> map_of t p = Some (Blob c)"
  using make_dirs_old [of r ps t t' p] make_dirs_new [of r ps t t' p] by (cases "map_of t p") (auto split: if_splits)

section \<open>Parents\<close>

lemma settled_tl: "settled r (s # out) \<Longrightarrow> settled r out"
proof -
  assume "settled r (s # out)"
  then obtain ns k where o: "s # out = ns @ replicate k ''..''" "\<forall>s \<in> set ns. s \<noteq> [] \<and> s \<noteq> ''.'' \<and> s \<noteq> ''..''" "r \<longrightarrow> k = 0"
    unfolding settled_def by blast
  show ?thesis
  proof (cases ns)
    case Nil
    with o show ?thesis by (cases k) (auto intro: settled_ups)
  next
    case (Cons n ns')
    with o show ?thesis unfolding settled_def by auto
  qed
qed

lemma segs_settled: "settled (is_rooted p) (rev (segs_of p))"
  unfolding segs_of_def by (rule clean_segs_settled) (simp add: settled_def)

lemma base_path_segs: "base_path b \<Longrightarrow> b = path_of (is_rooted b) (segs_of b) \<and> b \<noteq> []"
  by (auto simp: base_path_def path_clean_def segs_of_def is_rooted_def split: if_splits)

lemma before_last_split: "c \<notin> set s \<Longrightarrow> before_last c (p @ c # s) = p"
proof -
  assume "c \<notin> set s"
  then have "dropWhile (\<lambda>x. x \<noteq> c) (rev s @ c # rev p) = c # rev p" by (subst dropWhile_append2) auto
  then show ?thesis by (simp add: before_last_def)
qed

lemma parent_path:
  assumes "base_path b" "segs_of b = us @ [s]" "us \<noteq> []"
  shows "path_dir b = path_of (is_rooted b) us" "base_path (path_dir b)" "segs_of (path_dir b) = us"
    "is_rooted (path_dir b) = is_rooted b"
proof -
  let ?r = "is_rooted b" and ?p = "path_of (is_rooted b) us"
  have parts: "\<forall>s \<in> set (us @ [s]). s \<noteq> [] \<and> s \<noteq> ''.'' \<and> CHR ''/'' \<notin> set s"
    using segs_of_parts [of _ b] assms(2) by metis
  have "settled ?r (rev us)" using segs_settled [of b] assms(2) settled_tl by simp
  then have "clean_segs ?r [] us = us" using settled_clean [of ?r "rev us"] by simp
  then have p: "is_rooted ?p = ?r" "segs_of ?p = us" "?p \<noteq> []"
    using segs_of_path_of [OF assms(3), of ?r] parts by auto
  have b: "b = ?p @ CHR ''/'' # s"
    using base_path_segs [OF assms(1)] path_of_snoc [OF assms(3), of "[s]" ?r] assms(2) by simp
  then have "CHR ''/'' \<in> set b" by (metis in_set_conv_decomp)
  then have "path_dir b = path_clean (?p @ CHR ''/'' # [])"
    using before_last_split [of "CHR ''/''" s ?p] parts b by (simp add: path_dir_def)
  also have "\<dots> = path_of (is_rooted ?p) (segs_of ?p)"
    using p(3) by (simp add: path_clean_def segs_of_below)
  finally show d: "path_dir b = ?p" using p by simp
  show "base_path (path_dir b)" "segs_of (path_dir b) = us" "is_rooted (path_dir b) = ?r"
    unfolding d using p assms(3) by (auto simp: base_path_def path_clean_def)
qed

lemma path_chain_below:
  assumes "base_path b" "q \<in> set (path_chain p)" "is_rooted p = is_rooted b" "segs_of p = segs_of b @ ss"
  shows "q \<in> set (path_chain b) \<or> under_path b q"
proof -
  let ?r = "is_rooted b" and ?n = "length (segs_of b)"
  obtain k where k: "1 \<le> k" "k \<le> ?n + length ss" "q = path_of ?r (take k (segs_of b @ ss))"
    using assms(2,3,4) by (auto simp: path_chain_def)
  show ?thesis
  proof (cases "k \<le> ?n")
    case True
    then have "k \<in> set [1..<?n + 1]" "q = path_of ?r (take k (segs_of b))" using k by auto
    then have "q \<in> set (path_chain b)" unfolding path_chain_def set_map by blast
    then show ?thesis ..
  next
    case False
    then have t: "take k (segs_of b @ ss) = segs_of b @ take (k - ?n) ss" "take (k - ?n) ss \<noteq> []" using k(2) by auto
    have "segs_of b \<noteq> []" using assms(1) by (simp add: base_path_def)
    then have "q = path_of ?r (segs_of b) @ CHR ''/'' # join_with ''/'' (take (k - ?n) ss)"
      using k(3) t path_of_snoc [of "segs_of b" "take (k - ?n) ss" ?r] by simp
    then have "q = b @ CHR ''/'' # join_with ''/'' (take (k - ?n) ss)" using base_path_segs [OF assms(1)] by metis
    then show ?thesis by (simp add: under_path_def has_prefix_def)
  qed
qed

lemma path_chain_self: "base_path b \<Longrightarrow> b \<in> set (path_chain b)"
proof -
  assume b: "base_path b"
  then have "b = path_of (is_rooted b) (take (length (segs_of b)) (segs_of b))" "1 \<le> length (segs_of b)"
    using base_path_segs [OF b] by (auto simp: base_path_def Suc_le_eq)
  then show ?thesis unfolding path_chain_def by (auto intro: image_eqI)
qed

lemma path_chain_step:
  assumes "base_path b" "segs_of b = us @ [s]" "us \<noteq> []"
  shows "set (path_chain b) = insert b (set (path_chain (path_dir b)))"
proof -
  have e: "[1..<length (segs_of b) + 1] = [1..<length us + 1] @ [length us + 1]" using assms(2) by simp
  have "map (\<lambda>k. path_of (is_rooted b) (take k (us @ [s]))) [1..<length us + 1] =
      map (\<lambda>k. path_of (is_rooted b) (take k us)) [1..<length us + 1]"
    by (rule map_cong) auto
  then have "path_chain b = path_chain (path_dir b) @ [path_of (is_rooted b) (segs_of b)]"
    unfolding path_chain_def [of b] e unfolding path_chain_def parent_path(3,4) [OF assms] using assms(2) by simp
  then show ?thesis using base_path_segs [OF assms(1)] by simp
qed

section \<open>Files of a tree\<close>

definition files_of :: "tree \<Rightarrow> string \<Rightarrow> string option" where
  "files_of t p = (case map_of t p of Some (Blob c) \<Rightarrow> Some c | _ \<Rightarrow> None)"

lemma files_of_some: "files_of t p = Some c \<longleftrightarrow> map_of t p = Some (Blob c)"
  by (auto simp: files_of_def split: option.splits node.splits)

lemma files_of_dirs: "make_dirs r ps t = Some t' \<Longrightarrow> files_of t' = files_of t"
proof
  fix p assume "make_dirs r ps t = Some t'"
  then have "files_of t' p = Some c \<longleftrightarrow> files_of t p = Some c" for c using make_dirs_files by (simp add: files_of_some)
  then show "files_of t' p = files_of t p" by (metis not_Some_eq)
qed

lemma files_of_blob: "files_of ((p, Blob c) # t) = (files_of t)(p \<mapsto> c)"
  by (auto simp: files_of_def)

lemma files_of_folder: "map_of t p = None \<Longrightarrow> files_of ((p, Folder) # t) = files_of t"
  by (auto simp: files_of_def)

lemma files_of_removed: "files_of (fst (remove_all stuck p t)) q = (if under_path p q \<and> \<not> stuck q then None else files_of t q)"
  by (simp add: files_of_def map_of_remove_all)

text \<open>A tree moves as a whole to a place where nothing is.\<close>

lemma under_path_parts: "under_path p q \<longleftrightarrow> (\<exists>s. q = p @ s \<and> (s = [] \<or> hd s = CHR ''/''))"
proof
  assume "under_path p q"
  then show "\<exists>s. q = p @ s \<and> (s = [] \<or> hd s = CHR ''/'')"
    unfolding under_path_def has_prefix_iff by (metis append_Nil2 append_assoc append_Cons append_Nil list.sel(1))
next
  assume "\<exists>s. q = p @ s \<and> (s = [] \<or> hd s = CHR ''/'')"
  then obtain s where s: "q = p @ s" "s = [] \<or> hd s = CHR ''/''" by blast
  then show "under_path p q" by (cases s) (auto simp: under_path_def has_prefix_iff)
qed

lemma move_tree_lookup:
  assumes "\<forall>k \<in> set (map fst t). \<not> under_path p' k"
  shows "map_of (move_tree p p' t) q =
    (if under_path p' q then map_of t (p @ drop (length p') q) else if under_path p q then None else map_of t q)"
  using assms
proof (induction t)
  case (Cons x t)
  obtain k n where x: "x = (k, n)" by (cases x)
  have k: "\<not> under_path p' k" using Cons.prems x by simp
  have f: "(if under_path p k then p' @ drop (length p) k else k) = q \<longleftrightarrow>
        (if under_path p' q then p @ drop (length p') q = k else \<not> under_path p q \<and> k = q)"
  proof (cases "under_path p k")
    case True
    then obtain s where s: "k = p @ s" "s = [] \<or> hd s = CHR ''/''" unfolding under_path_parts by blast
    have "p' @ s = q \<longleftrightarrow> under_path p' q \<and> drop (length p') q = s" using s(2) unfolding under_path_parts by auto
    with s True show ?thesis by auto
  next
    case False
    have "under_path p (p @ drop (length p') q)" if "under_path p' q" using that unfolding under_path_parts by auto
    with False k show ?thesis by auto
  qed
  have m: "map_of (move_tree p p' (x # t)) q =
      (if (if under_path p k then p' @ drop (length p) k else k) = q then Some n else map_of (move_tree p p' t) q)"
    by (simp add: move_tree_def x)
  have "\<forall>k \<in> set (map fst t). \<not> under_path p' k" using Cons.prems by simp
  note ih = Cons.IH [OF this]
  show ?case unfolding m ih f unfolding x by simp
qed (simp add: move_tree_def)

end
