(* ===== verification/Archives.thy ===== *)
theory Archives
  imports Paths Accounts Newsletter "HOL-Library.Word"
begin

text \<open>
  The static sites behind the content type \<open>html_archive\<close> (\<open>internal/service/htmlarchive/htmlarchive.go\<close>) and the route
  that serves them (\<open>internal/httpd/archives.go\<close>). What \<open>archive/zip\<close> makes of an upload is a list of entries, sizes
  as the 64-bit words its headers declare; what the operating system refuses is an argument.
\<close>

section \<open>Limits and places\<close>

datatype archive_error =
  NotZip | UnsafePath string | NotRegular string | TooManyFiles | EntryTooLarge string | TotalTooLarge | TooDeep string |
  DuplicateEntry string | NoIndex | NoStaging | ExtractionFailed | Unreadable string | NotExtracted string | TooMuchData

definition max_entries :: nat where "max_entries = 2000"
definition max_total_bytes :: nat where "max_total_bytes = 256 * 2 ^ 20"
definition max_file_bytes :: nat where "max_file_bytes = 64 * 2 ^ 20"
definition max_depth :: nat where "max_depth = 8"

definition staging_prefix :: string where "staging_prefix = ''.staging-''"

definition parse_kind :: "string \<Rightarrow> string option" where
  "parse_kind s = (if s = ''article'' \<or> s = ''page'' then Some s else None)"

definition archives_root :: "string \<Rightarrow> string" where
  "archives_root data = join_paths [data, ''archives'']"

definition archive_dir :: "string \<Rightarrow> string \<Rightarrow> int \<Rightarrow> string" where
  "archive_dir data kind i = join_paths [archives_root data, kind, dec_int i]"

definition has_archive :: "string \<Rightarrow> string \<Rightarrow> int \<Rightarrow> tree \<Rightarrow> bool" where
  "has_archive data kind i t =
     (case map_of t (join_paths [archive_dir data kind i, ''index.html'']) of Some (Blob _) \<Rightarrow> True | _ \<Rightarrow> False)"

section \<open>Names of entries\<close>

definition unsafe_char :: "char \<Rightarrow> bool" where
  "unsafe_char c = (code_of c < 32 \<or> code_of c = 127 \<or> code_of c = 92)"

definition clean_entry_name :: "string \<Rightarrow> archive_error + string" where
  "clean_entry_name name =
     (if name = [] \<or> has_prefix name ''/'' then Inl (UnsafePath name)
      else if 2 \<le> length name \<and> name ! 1 = CHR '':'' then Inl (UnsafePath name)
      else if list_ex unsafe_char name then Inl (UnsafePath name)
      else if ''..'' \<in> set (split_on (CHR ''/'') name) then Inl (UnsafePath name)
      else let clean = path_clean name in if clean = ''.'' \<or> clean = [] then Inl (UnsafePath name) else Inr clean)"

definition safe_rel_path :: "string \<Rightarrow> string option" where
  "safe_rel_path p =
     (if p = [] then Some []
      else if list_ex unsafe_char p then None
      else if ''..'' \<in> set (split_on (CHR ''/'') p) then None
      else Some (trim_prefix (path_clean (''/'' @ p)) ''/''))"

definition tree_rel :: "string \<Rightarrow> bool" where
  "tree_rel rel =
     (let parts = split_on (CHR ''/'') rel in
      3 \<le> length parts \<and> parse_kind (parts ! 0) \<noteq> None \<and> parts ! 1 \<noteq> [] \<and> list_all is_digit (parts ! 1) \<and>
      list_all (\<lambda>s. s \<noteq> [] \<and> s \<noteq> ''.'' \<and> s \<noteq> ''..'') (drop 2 parts))"

section \<open>Checking the entries\<close>

text \<open>
  An entry: its name and kind, the size its header declares, and what reading it gives: whether it opens, its bytes, and
  whether the reader ends with an error.
\<close>

record zip_entry =
  ze_name :: string
  ze_dir :: bool
  ze_regular :: bool
  ze_size :: "64 word"
  ze_opens :: bool
  ze_bytes :: string
  ze_broken :: bool

record scan =
  sn_files :: "(string \<times> zip_entry) list"
  sn_total :: "64 word"
  sn_tops :: "string list"
  sn_root_file :: bool

definition scan_entry :: "zip_entry \<Rightarrow> scan \<Rightarrow> archive_error + scan" where
  "scan_entry e s =
     (if ze_dir e then Inr s
      else case clean_entry_name (ze_name e) of
        Inl x \<Rightarrow> Inl x
      | Inr clean \<Rightarrow>
          let dir1 = fst (cut_char (CHR ''/'') clean) in
          if dir1 = ''__MACOSX'' \<or> path_base clean = ''.DS_Store'' then Inr s
          else if \<not> ze_regular e then Inl (NotRegular (ze_name e))
          else if max_entries < length (sn_files s) + 1 then Inl TooManyFiles
          else if of_nat max_file_bytes < ze_size e then Inl (EntryTooLarge (ze_name e))
          else if of_nat max_total_bytes - sn_total s < ze_size e then Inl TotalTooLarge
          else Inr (s\<lparr>sn_files := sn_files s @ [(clean, e)], sn_total := sn_total s + ze_size e,
                      sn_tops := (if dir1 = clean then sn_tops s else List.insert dir1 (sn_tops s)),
                      sn_root_file := (sn_root_file s \<or> dir1 = clean)\<rparr>))"

fun scan_entries :: "zip_entry list \<Rightarrow> scan \<Rightarrow> archive_error + scan" where
  "scan_entries [] s = Inr s"
| "scan_entries (e # es) s = (case scan_entry e s of Inl x \<Rightarrow> Inl x | Inr s' \<Rightarrow> scan_entries es s')"

definition empty_scan :: scan where
  "empty_scan = \<lparr>sn_files = [], sn_total = 0, sn_tops = [], sn_root_file = False\<rparr>"

text \<open>The one directory all entries are in is not part of their names.\<close>

definition wrapper :: "scan \<Rightarrow> string" where
  "wrapper s = (case sn_tops s of [dir1] \<Rightarrow> if sn_root_file s then [] else dir1 @ ''/'' | _ \<Rightarrow> [])"

text \<open>Names that differ only in case collide; \<open>uni\<close> is \<open>strings.ToLower\<close> beyond ASCII.\<close>

fun name_files ::
  "(string \<Rightarrow> string) \<Rightarrow> string \<Rightarrow> string list \<Rightarrow> (string \<times> zip_entry) list \<Rightarrow> archive_error + (string \<times> zip_entry) list" where
  "name_files uni strip seen [] = Inr []"
| "name_files uni strip seen ((clean, e) # fs) =
     (let name = trim_prefix clean strip in
      if max_depth < length (split_on (CHR ''/'') name) then Inl (TooDeep (ze_name e))
      else if to_lower uni name \<in> set seen then Inl (DuplicateEntry name)
      else case name_files uni strip (to_lower uni name # seen) fs of Inl x \<Rightarrow> Inl x | Inr out \<Rightarrow> Inr ((name, e) # out))"

definition checked_files :: "(string \<Rightarrow> string) \<Rightarrow> zip_entry list \<Rightarrow> archive_error + (string \<times> zip_entry) list" where
  "checked_files uni es =
     (case scan_entries es empty_scan of
        Inl x \<Rightarrow> Inl x
      | Inr s \<Rightarrow> (case name_files uni (wrapper s) [] (sn_files s) of
          Inl x \<Rightarrow> Inl x
        | Inr fs \<Rightarrow> if ''index.html'' \<in> fst ` set fs then Inr fs else Inl NoIndex))"

section \<open>Extracting\<close>

text \<open>
  What the system does: the directories, files and writes it refuses, what it does not remove, and the random bytes
  and the number of the name of a staging directory (\<open>None\<close> where none can be made).
\<close>

record disk_env =
  dk_no_dir :: "string \<Rightarrow> bool"
  dk_no_file :: "string \<Rightarrow> bool"
  dk_no_write :: "string \<Rightarrow> bool"
  dk_stuck :: "string \<Rightarrow> bool"
  dk_no_rename :: bool
  dk_random :: "(string \<times> nat) option"

definition write_entry ::
  "disk_env \<Rightarrow> string \<Rightarrow> string \<times> zip_entry \<Rightarrow> nat \<Rightarrow> tree \<Rightarrow> (archive_error + nat) \<times> tree" where
  "write_entry env staging f sofar t =
     (let e = snd f; target = join_paths [staging, fst f] in
      if target \<noteq> staging \<and> \<not> has_prefix target (staging @ ''/'') then (Inl (UnsafePath (ze_name e)), t)
      else case make_dirs (dk_no_dir env) (path_chain (path_dir target)) t of
        None \<Rightarrow> (Inl ExtractionFailed, t)
      | Some t1 \<Rightarrow>
          if \<not> ze_opens e then (Inl (Unreadable (ze_name e)), t1)
          else if map_of t1 target \<noteq> None \<or> dk_no_file env target then (Inl ExtractionFailed, t1)
          else let body = take (max_file_bytes + 1) (ze_bytes e); t2 = (target, Blob body) # t1 in
            if dk_no_write env target \<or> ze_broken e \<and> length (ze_bytes e) \<le> max_file_bytes
            then (Inl (NotExtracted (ze_name e)), t2)
            else if max_file_bytes < length body \<or> int max_total_bytes - int sofar < int (length body)
            then (Inl TooMuchData, t2)
            else (Inr (sofar + length body), t2))"

fun write_entries ::
  "disk_env \<Rightarrow> string \<Rightarrow> (string \<times> zip_entry) list \<Rightarrow> nat \<Rightarrow> tree \<Rightarrow> (archive_error + unit) \<times> tree" where
  "write_entries env staging [] sofar t = (Inr (), t)"
| "write_entries env staging (f # fs) sofar t =
     (case write_entry env staging f sofar t of
        (Inl x, t1) \<Rightarrow> (Inl x, t1)
      | (Inr sofar1, t1) \<Rightarrow> write_entries env staging fs sofar1 t1)"

definition hex_bytes :: "string \<Rightarrow> string" where
  "hex_bytes bs = concat (map (\<lambda>c. [hex_digit (code_of c div 16), hex_digit (code_of c mod 16)]) bs)"

text \<open>\<open>os.MkdirTemp\<close> makes a directory that did not exist.\<close>

definition new_staging_dir :: "disk_env \<Rightarrow> string \<Rightarrow> tree \<Rightarrow> string option \<times> tree" where
  "new_staging_dir env data t =
     (let root = archives_root data in
      case make_dirs (dk_no_dir env) (path_chain root) t of
        None \<Rightarrow> (None, t)
      | Some t1 \<Rightarrow>
          (case dk_random env of
             None \<Rightarrow> (None, t1)
           | Some (random, n) \<Rightarrow>
               let staging = join_paths [root, staging_prefix @ hex_bytes random @ dec_nat n] in
               if map_of t1 staging \<noteq> None \<or> dk_no_dir env staging then (None, t1)
               else (Some staging, (staging, Folder) # t1)))"

definition extract_archive ::
  "(string \<Rightarrow> string) \<Rightarrow> disk_env \<Rightarrow> string \<Rightarrow> zip_entry list option \<Rightarrow> tree \<Rightarrow> (archive_error + string) \<times> tree" where
  "extract_archive uni env data upload t =
     (case upload of
        None \<Rightarrow> (Inl NotZip, t)
      | Some es \<Rightarrow>
          (case checked_files uni es of
             Inl x \<Rightarrow> (Inl x, t)
           | Inr fs \<Rightarrow>
               (case new_staging_dir env data t of
                  (None, t1) \<Rightarrow> (Inl NoStaging, t1)
                | (Some staging, t1) \<Rightarrow>
                    (case write_entries env staging fs 0 t1 of
                       (Inl x, t2) \<Rightarrow> (Inl x, fst (remove_all (dk_stuck env) staging t2))
                     | (Inr _, t2) \<Rightarrow> (Inr staging, t2)))))"

text \<open>\<open>Commit\<close>: the tree is renamed into place after the one before is removed. True: it is in place.\<close>

definition commit_archive :: "disk_env \<Rightarrow> string \<Rightarrow> string \<Rightarrow> string \<Rightarrow> int \<Rightarrow> tree \<Rightarrow> bool \<times> tree" where
  "commit_archive env staging data kind i t =
     (let root = archives_root data; final = archive_dir data kind i in
      if path_dir staging \<noteq> root \<or> \<not> has_prefix (path_base staging) staging_prefix then (False, t)
      else case make_dirs (dk_no_dir env) (path_chain (path_dir final)) t of
        None \<Rightarrow> (False, t)
      | Some t1 \<Rightarrow>
          (case remove_all (dk_stuck env) final t1 of (t2, gone) \<Rightarrow>
             if \<not> gone then (False, t2)
             else if dk_no_rename env \<or> map_of t2 staging = None then (False, t2)
             else (True, move_tree staging final t2)))"

definition remove_archive :: "disk_env \<Rightarrow> string \<Rightarrow> string \<Rightarrow> int \<Rightarrow> tree \<Rightarrow> tree \<times> bool" where
  "remove_archive env data kind i t = remove_all (dk_stuck env) (archive_dir data kind i) t"

section \<open>The archive half of a form\<close>

text \<open>
  The part \<open>archive_file\<close> of a form: missing, unreadable, or a ZIP. The result is the staging directory (empty where there is
  none), whether the part was submitted, and the error. \<open>multipart\<close>: the form came as \<open>multipart/form-data\<close>.
\<close>

datatype upload_part = NoPart | BadPart | ZipPart "zip_entry list option"

definition extract_archive_upload ::
  "(string \<Rightarrow> string) \<Rightarrow> disk_env \<Rightarrow> string \<Rightarrow> upload_part \<Rightarrow> tree \<Rightarrow> (string \<times> bool \<times> archive_error option) \<times> tree" where
  "extract_archive_upload uni env data part t =
     (case part of
        NoPart \<Rightarrow> (([], False, None), t)
      | BadPart \<Rightarrow> (([], False, Some ExtractionFailed), t)
      | ZipPart z \<Rightarrow> (case extract_archive uni env data z t of
          (Inl x, t1) \<Rightarrow> (([], True, Some x), t1)
        | (Inr staging, t1) \<Rightarrow> ((staging, True, None), t1)))"

text \<open>\<open>existing\<close>: the id and the content type of the stored record. The last flag: it has a tree on disk.\<close>

definition stage_archive ::
  "(string \<Rightarrow> string) \<Rightarrow> disk_env \<Rightarrow> string \<Rightarrow> string \<Rightarrow> string \<Rightarrow> (int \<times> string) option \<Rightarrow> bool \<Rightarrow> upload_part \<Rightarrow> tree \<Rightarrow>
   (string \<times> bool \<times> archive_error option) \<times> bool \<times> tree" where
  "stage_archive uni env data kind content_type existing multipart part t =
     (if content_type \<noteq> ct_archive then (([], False, None), False, t)
      else let has = (case existing of Some (i, ct) \<Rightarrow> ct = ct_archive \<and> has_archive data kind i t | None \<Rightarrow> False) in
        if \<not> multipart then (([], False, None), has, t)
        else (case extract_archive_upload uni env data part t of (r, t1) \<Rightarrow> (r, has, t1)))"

text \<open>For articles an upload that failed does not count as provided.\<close>

definition stage_article_archive ::
  "(string \<Rightarrow> string) \<Rightarrow> disk_env \<Rightarrow> string \<Rightarrow> string \<Rightarrow> (int \<times> string) option \<Rightarrow> bool \<Rightarrow> upload_part \<Rightarrow> tree \<Rightarrow>
   (string \<times> bool \<times> archive_error option) \<times> bool \<times> tree" where
  "stage_article_archive uni env data content_type existing multipart part t =
     (case stage_archive uni env data ''article'' content_type existing multipart part t of
        ((staging, provided, e), has, t1) \<Rightarrow> ((staging, provided \<and> e = None, e), has, t1))"

definition stage_page_archive ::
  "(string \<Rightarrow> string) \<Rightarrow> disk_env \<Rightarrow> string \<Rightarrow> string \<Rightarrow> (int \<times> string) option \<Rightarrow> bool \<Rightarrow> upload_part \<Rightarrow> tree \<Rightarrow>
   (string \<times> bool \<times> archive_error option) \<times> bool \<times> tree" where
  "stage_page_archive uni env data = stage_archive uni env data ''page''"

text \<open>After the save: the tree is installed, or removed where the record is no archive any more. False: an error.\<close>

definition commit_form_archive ::
  "disk_env \<Rightarrow> string \<Rightarrow> string \<Rightarrow> string \<Rightarrow> int \<Rightarrow> string \<Rightarrow> string \<Rightarrow> tree \<Rightarrow> bool \<times> tree" where
  "commit_form_archive env data staging kind i old_type new_type t =
     (if new_type = ct_archive then (if staging = [] then (True, t) else commit_archive env staging data kind i t)
      else if old_type = ct_archive then (True, fst (remove_archive env data kind i t))
      else (True, t))"

section \<open>Who may see a record\<close>

text \<open>\<open>authenticated\<close> of \<open>internal/httpd/public.go\<close>: a session that has not expired.\<close>

definition authenticated :: "int \<Rightarrow> string option \<Rightarrow> bool db_act" where
  "authenticated now cookie =
     (case cookie of
        None \<Rightarrow> ret False
      | Some token \<Rightarrow>
          bindE (attempt (get_session_by_token token)) (\<lambda>r. case r of
            Inl _ \<Rightarrow> ret False
          | Inr s \<Rightarrow> bindE (session_expired now s) (\<lambda>expired. ret (\<not> expired))))"

definition public_status :: "int \<Rightarrow> bool" where
  "public_status st = (st = status_publish \<or> st = status_shared)"

section \<open>Serving\<close>

definition get_admin_page_by_id :: "int \<Rightarrow> page db_act" where
  "get_admin_page_by_id i = query_row (\<lambda>d. by_id p_id i (pages d))"

definition archive_record :: "string \<Rightarrow> int \<Rightarrow> (string \<times> int) db_act" where
  "archive_record kind i =
     (if kind = ''article'' then bindE (get_article_by_id i) (\<lambda>a. ret (a_content_type a, a_status a))
      else bindE (get_admin_page_by_id i) (\<lambda>p. ret (p_content_type p, p_status p)))"

definition archive_types :: "(string \<times> string) list" where
  "archive_types =
     [(''.html'', ''text/html; charset=utf-8''), (''.htm'', ''text/html; charset=utf-8''), (''.css'', ''text/css; charset=utf-8''),
      (''.js'', ''text/javascript; charset=utf-8''), (''.mjs'', ''text/javascript; charset=utf-8''),
      (''.json'', ''application/json''), (''.map'', ''application/json''), (''.webmanifest'', ''application/manifest+json''),
      (''.xml'', ''application/xml''), (''.txt'', ''text/plain; charset=utf-8''), (''.md'', ''text/plain; charset=utf-8''),
      (''.csv'', ''text/csv; charset=utf-8''), (''.png'', ''image/png''), (''.jpg'', ''image/jpeg''), (''.jpeg'', ''image/jpeg''),
      (''.gif'', ''image/gif''), (''.webp'', ''image/webp''), (''.avif'', ''image/avif''), (''.ico'', ''image/x-icon''),
      (''.svg'', ''image/svg+xml''), (''.woff'', ''font/woff''), (''.woff2'', ''font/woff2''), (''.ttf'', ''font/ttf''),
      (''.otf'', ''font/otf''), (''.eot'', ''application/vnd.ms-fontobject''), (''.pdf'', ''application/pdf''),
      (''.mp4'', ''video/mp4''), (''.webm'', ''video/webm''), (''.mp3'', ''audio/mpeg''), (''.wav'', ''audio/wav''),
      (''.ogg'', ''audio/ogg''), (''.wasm'', ''application/wasm'')]"

definition archive_content_type :: "(string \<Rightarrow> string) \<Rightarrow> string \<Rightarrow> string" where
  "archive_content_type uni name =
     (case map_of archive_types (to_lower uni (path_ext name)) of None \<Rightarrow> ''application/octet-stream'' | Some ct \<Rightarrow> ct)"

datatype archive_reply = ArchiveMissing | ArchiveError | ArchiveFile (sent_type: string) (sent_bytes: string) (sent_cache: string)

text \<open>The file that answers: the path itself, or the index page of a directory. \<open>no_open\<close>: what cannot be opened.\<close>

definition archive_answer ::
  "(string \<Rightarrow> string) \<Rightarrow> (string \<Rightarrow> bool) \<Rightarrow> string \<Rightarrow> string \<Rightarrow> bool \<Rightarrow> tree \<Rightarrow> archive_reply" where
  "archive_answer uni no_open base rel public t =
     (let target = (if rel \<noteq> [] then join_paths [base, rel] else base) in
      if rel \<noteq> [] \<and> target \<noteq> base \<and> \<not> has_prefix target (base @ ''/'') then ArchiveMissing
      else let file = (case map_of t target of Some Folder \<Rightarrow> join_paths [target, ''index.html''] | _ \<Rightarrow> target)
        in case map_of t file of
             Some (Blob body) \<Rightarrow>
               if no_open file then ArchiveMissing
               else ArchiveFile (archive_content_type uni (path_base file)) body
                      (if public then ''public, no-cache'' else ''private, no-cache'')
           | _ \<Rightarrow> ArchiveMissing)"

text \<open>The handler: \<open>kind\<close>, \<open>id\<close> and \<open>rest\<close> are the parameters of the route, \<open>rest\<close> decoded.\<close>

definition serve_archive ::
  "(string \<Rightarrow> string) \<Rightarrow> (string \<Rightarrow> bool) \<Rightarrow> string \<Rightarrow> int \<Rightarrow> string option \<Rightarrow> string \<Rightarrow> string \<Rightarrow> string \<Rightarrow> tree \<Rightarrow> archive_reply db_act" where
  "serve_archive uni no_open data now cookie kind i_text rest t =
     (case (parse_kind kind, parse_int64 i_text) of
        (Some k, Some i) \<Rightarrow>
          bindE (attempt (archive_record k i)) (\<lambda>r. case r of
            Inl e \<Rightarrow> ret (if error_is e ErrNoRows then ArchiveMissing else ArchiveError)
          | Inr (ct, st) \<Rightarrow>
              if ct \<noteq> ct_archive then ret ArchiveMissing
              else bindE (if public_status st then ret True else authenticated now cookie) (\<lambda>allowed.
                if \<not> allowed then ret ArchiveMissing
                else (case safe_rel_path rest of
                  None \<Rightarrow> ret ArchiveMissing
                | Some rel \<Rightarrow> ret (archive_answer uni no_open (archive_dir data k i) rel (public_status st) t))))
      | _ \<Rightarrow> ret ArchiveMissing)"

text \<open>\<open>redirectArchiveRoot\<close>: where the address without the final slash leads.\<close>

definition redirect_archive_root :: "string \<Rightarrow> string \<Rightarrow> string \<Rightarrow> string option" where
  "redirect_archive_root path kind i_text =
     (if parse_kind kind = None \<or> parse_int64 i_text = None then None else Some (path @ ''/''))"

section \<open>Names that stay inside_name\<close>

definition inside_name :: "string \<Rightarrow> bool" where
  "inside_name n = (list_all plain_seg (split_on (CHR ''/'') n) \<and> \<not> list_ex unsafe_char n)"

lemma inside_below:
  assumes "base_path b" "inside_name n"
  shows "join_paths [b, n] = b @ CHR ''/'' # n" "base_path (b @ CHR ''/'' # n)" "n \<noteq> []"
proof -
  have s: "\<forall>s \<in> set (split_on (CHR ''/'') n). plain_seg s" using assms(2) by (simp add: inside_name_def list_all_iff)
  have e: "entries n = split_on (CHR ''/'') n"
    unfolding entries_def by (rule filter_True) (use s in \<open>simp add: plain_seg_def\<close>)
  have up: "''..'' \<notin> set (split_on (CHR ''/'') n)" using s by (metis plain_seg_def)
  show n: "n \<noteq> []"
  proof
    assume "n = []"
    with s show False by (simp add: plain_seg_def)
  qed
  have b: "b \<noteq> []" using assms(1) by (auto simp: base_path_def segs_of_def is_rooted_def)
  have c: "path_clean (b @ CHR ''/'' # n) = b @ CHR ''/'' # n" "segs_of (b @ CHR ''/'' # n) = segs_of b @ entries n"
    using clean_below [OF assms(1) up] unfolding e join_split by simp_all
  then show "join_paths [b, n] = b @ CHR ''/'' # n" using join_paths_two [OF b n] by simp
  show "base_path (b @ CHR ''/'' # n)" using c assms(1) by (simp add: base_path_def)
qed

lemma clean_entry_name_inside:
  assumes "clean_entry_name name = Inr clean"
  shows "inside_name clean"
proof -
  let ?ss = "split_on (CHR ''/'') name"
  have r: "name \<noteq> []" "\<not> is_rooted name" "\<not> list_ex unsafe_char name" "''..'' \<notin> set ?ss"
    and c: "clean = path_clean name" "clean \<noteq> ''.''"
    using assms by (auto simp: clean_entry_name_def Let_def is_rooted_def has_prefix_def neq_Nil_conv split: if_splits)
  have e: "segs_of name = entries name" using r by (simp add: segs_of_def clean_segs_no_up entries_def)
  have j: "clean = join_with ''/'' (entries name)" "entries name \<noteq> []"
    using r c by (auto simp: path_clean_def e path_of_def)
  have p: "\<forall>s \<in> set (entries name). plain_seg s"
    using r(4) split_on_clear by (force simp: entries_def plain_seg_def)
  then have s: "split_on (CHR ''/'') clean = entries name" unfolding j(1) using j(2) by (intro split_join) (auto simp: plain_seg_def)
  have "set (join_with ''/'' ss) \<subseteq> {CHR ''/''} \<union> \<Union> (set ` set ss)" for ss
  proof (induction ss)
    case (Cons s ss)
    then show ?case by (cases ss) auto
  qed simp
  then have "set clean \<subseteq> {CHR ''/''} \<union> set name"
    using split_on_chars [of _ "CHR ''/''" name] unfolding j(1) by (fastforce simp: entries_def)
  then have "\<not> list_ex unsafe_char clean" using r(3) by (auto simp: list_ex_iff unsafe_char_def)
  with p s show ?thesis by (simp add: inside_name_def list_all_iff)
qed

lemma inside_rest: "inside_name (p @ CHR ''/'' # q) \<Longrightarrow> inside_name q"
  by (simp add: inside_name_def split_on_at)

lemma inside_trim: "inside_name n \<Longrightarrow> strip = [] \<or> (\<exists>p. strip = p @ ''/'') \<Longrightarrow> inside_name (trim_prefix n strip)"
  by (auto simp: trim_prefix_def has_prefix_iff intro: inside_rest)

section \<open>What checking promises\<close>

definition declared :: "(string \<times> zip_entry) list \<Rightarrow> nat" where
  "declared fs = (\<Sum>f\<leftarrow>fs. unat (ze_size (snd f)))"

definition scan_ok :: "zip_entry set \<Rightarrow> scan \<Rightarrow> bool" where
  "scan_ok es s \<longleftrightarrow> length (sn_files s) \<le> max_entries \<and> unat (sn_total s) = declared (sn_files s) \<and>
     declared (sn_files s) \<le> max_total_bytes \<and>
     (\<forall>(n, e) \<in> set (sn_files s). inside_name n \<and> e \<in> es \<and> ze_regular e \<and> \<not> ze_dir e)"

lemma limits_words: "unat (of_nat max_file_bytes :: 64 word) = max_file_bytes" "unat (of_nat max_total_bytes :: 64 word) = max_total_bytes"
  by (simp_all add: max_file_bytes_def max_total_bytes_def)

lemma scan_entry_ok:
  assumes "scan_entry e s = Inr s'" "scan_ok es s" "e \<in> es"
  shows "scan_ok es s'"
proof (cases "s' = s")
  case False
  then obtain clean where c: "clean_entry_name (ze_name e) = Inr clean" and e: "ze_regular e" "\<not> ze_dir e"
    and l: "length (sn_files s) + 1 \<le> max_entries" and t: "\<not> of_nat max_total_bytes - sn_total s < ze_size e"
    and s': "sn_files s' = sn_files s @ [(clean, e)]" "sn_total s' = sn_total s + ze_size e"
    using assms(1) by (auto simp: scan_entry_def Let_def split: if_splits sum.splits)
  have u: "unat (sn_total s) \<le> max_total_bytes" using assms(2) by (simp add: scan_ok_def)
  then have "unat (of_nat max_total_bytes - sn_total s) = max_total_bytes - unat (sn_total s)"
    by (subst unat_sub) (simp_all add: word_le_nat_alt limits_words)
  with t u have d: "unat (sn_total s) + unat (ze_size e) \<le> max_total_bytes"
    by (simp add: word_less_nat_alt)
  then have "unat (sn_total s + ze_size e) = unat (sn_total s) + unat (ze_size e)"
    by (intro unat_add_lem [THEN iffD1]) (simp add: max_total_bytes_def)
  with d l s' e assms clean_entry_name_inside [OF c] show ?thesis by (simp add: scan_ok_def declared_def)
qed (use assms in simp)

lemma scan_entries_ok: "scan_entries es' s = Inr s' \<Longrightarrow> scan_ok es s \<Longrightarrow> set es' \<subseteq> es \<Longrightarrow> scan_ok es s'"
  by (induction es' arbitrary: s) (auto split: sum.splits dest: scan_entry_ok)

lemma wrapper_shape: "wrapper s = [] \<or> (\<exists>p. wrapper s = p @ ''/'')"
  by (auto simp: wrapper_def split: list.splits)

lemma name_files_ok:
  "name_files uni strip seen fs = Inr out \<Longrightarrow>
     map snd out = map snd fs \<and> set (map (to_lower uni \<circ> fst) out) \<inter> set seen = {} \<and>
     distinct (map (to_lower uni \<circ> fst) out) \<and>
     (\<forall>f \<in> set out. length (split_on (CHR ''/'') (fst f)) \<le> max_depth \<and> (\<exists>m. (m, snd f) \<in> set fs \<and> fst f = trim_prefix m strip))"
proof (induction uni strip seen fs arbitrary: out rule: name_files.induct)
  case (2 uni strip seen clean e' fs)
  let ?name = "trim_prefix clean strip"
  obtain out' where o: "name_files uni strip (to_lower uni ?name # seen) fs = Inr out'" "out = (?name, e') # out'"
    and c: "\<not> max_depth < length (split_on CHR ''/'' ?name)" "to_lower uni ?name \<notin> set seen"
    using "2.prems" by (auto simp: Let_def split: if_splits sum.splits)
  note ih = "2.IH" [OF refl c o(1)]
  have i: "map snd out' = map snd fs" "set (map (to_lower uni \<circ> fst) out') \<inter> set (to_lower uni ?name # seen) = {}"
    "distinct (map (to_lower uni \<circ> fst) out')"
    "\<forall>f \<in> set out'. length (split_on (CHR ''/'') (fst f)) \<le> max_depth \<and> (\<exists>m. (m, snd f) \<in> set fs \<and> fst f = trim_prefix m strip)"
    using ih by blast+
  show ?case
  proof (intro conjI)
    show "map snd out = map snd ((clean, e') # fs)" using i(1) o(2) by simp
    show "set (map (to_lower uni \<circ> fst) out) \<inter> set seen = {}" using i(2) o(2) c(2) by auto
    show "distinct (map (to_lower uni \<circ> fst) out)" using i(2,3) o(2) by auto
    show "\<forall>f \<in> set out. length (split_on (CHR ''/'') (fst f)) \<le> max_depth \<and>
        (\<exists>m. (m, snd f) \<in> set ((clean, e') # fs) \<and> fst f = trim_prefix m strip)"
      unfolding o(2) using i(4) c(1) by fastforce
  qed
qed simp

text \<open>What \<open>extract_archive\<close> is given to write.\<close>

definition files_ok :: "(string \<Rightarrow> string) \<Rightarrow> zip_entry list \<Rightarrow> (string \<times> zip_entry) list \<Rightarrow> bool" where
  "files_ok uni es fs \<longleftrightarrow> length fs \<le> max_entries \<and> declared fs \<le> max_total_bytes \<and> distinct (map (to_lower uni \<circ> fst) fs) \<and>
     ''index.html'' \<in> fst ` set fs \<and>
     (\<forall>(n, e) \<in> set fs. inside_name n \<and> length (split_on (CHR ''/'') n) \<le> max_depth \<and> e \<in> set es \<and> ze_regular e \<and> \<not> ze_dir e)"

lemma checked_files_ok:
  assumes "checked_files uni es = Inr fs"
  shows "files_ok uni es fs"
proof -
  obtain s where s: "scan_entries es empty_scan = Inr s" "name_files uni (wrapper s) [] (sn_files s) = Inr fs"
    and i: "''index.html'' \<in> fst ` set fs"
    using assms by (auto simp: checked_files_def split: sum.splits if_splits)
  have "scan_ok (set es) s"
    by (rule scan_entries_ok [OF s(1)]) (simp_all add: scan_ok_def empty_scan_def declared_def max_entries_def)
  note ok = this [unfolded scan_ok_def]
  have nf: "map snd fs = map snd (sn_files s)" "distinct (map (to_lower uni \<circ> fst) fs)"
    "\<And>f. f \<in> set fs \<Longrightarrow> length (split_on (CHR ''/'') (fst f)) \<le> max_depth \<and>
        (\<exists>m. (m, snd f) \<in> set (sn_files s) \<and> fst f = trim_prefix m (wrapper s))"
    using name_files_ok [OF s(2)] by blast+
  have d: "declared fs = declared (sn_files s)"
    unfolding declared_def using arg_cong [OF nf(1), of "map (\<lambda>e. unat (ze_size e))"] by (simp add: comp_def)
  have l: "length fs = length (sn_files s)" using nf(1) by (metis length_map)
  have each: "inside_name n \<and> length (split_on (CHR ''/'') n) \<le> max_depth \<and> e \<in> set es \<and> ze_regular e \<and> \<not> ze_dir e"
    if h: "(n, e) \<in> set fs" for n e
  proof -
    obtain m where m: "(m, e) \<in> set (sn_files s)" "n = trim_prefix m (wrapper s)" "length (split_on (CHR ''/'') n) \<le> max_depth"
      using nf(3) [OF h] by auto
    from ok m(1) have "inside_name m \<and> e \<in> set es \<and> ze_regular e \<and> \<not> ze_dir e" by fast
    with m inside_trim [OF _ wrapper_shape [of s], of m] show ?thesis by simp
  qed
  show ?thesis unfolding files_ok_def
  proof (intro conjI)
    show "length fs \<le> max_entries" "declared fs \<le> max_total_bytes" using ok d l by simp_all
    show "distinct (map (to_lower uni \<circ> fst) fs)" by (rule nf(2))
    show "''index.html'' \<in> fst ` set fs" by (rule i)
    show "\<forall>(n, e) \<in> set fs. inside_name n \<and> length (split_on (CHR ''/'') n) \<le> max_depth \<and> e \<in> set es \<and> ze_regular e \<and> \<not> ze_dir e"
      using each by blast
  qed
qed

section \<open>Writing the files\<close>

lemma inside_segs:
  assumes "base_path b" "inside_name n"
  shows "segs_of (b @ CHR ''/'' # n) = segs_of b @ split_on (CHR ''/'') n" "is_rooted (b @ CHR ''/'' # n) = is_rooted b"
proof -
  have s: "\<forall>s \<in> set (split_on (CHR ''/'') n). plain_seg s" using assms(2) by (simp add: inside_name_def list_all_iff)
  have up: "''..'' \<notin> set (split_on (CHR ''/'') n)" using s by (metis plain_seg_def)
  have e: "entries n = split_on (CHR ''/'') n"
    unfolding entries_def by (rule filter_True) (use s in \<open>simp add: plain_seg_def\<close>)
  show "segs_of (b @ CHR ''/'' # n) = segs_of b @ split_on (CHR ''/'') n"
    using clean_below(2) [OF assms(1) up] e by simp
  show "is_rooted (b @ CHR ''/'' # n) = is_rooted b" using base_path_segs [OF assms(1)] by simp
qed

text \<open>The directories made for an entry are those above the base, or under_path it.\<close>

lemma dirs_for_entry:
  assumes "base_path b" "inside_name n" "q \<in> set (path_chain (path_dir (b @ CHR ''/'' # n)))"
  shows "q \<in> set (path_chain b) \<or> under_path b q"
proof -
  let ?T = "b @ CHR ''/'' # n"
  obtain ss s where s: "split_on (CHR ''/'') n = ss @ [s]" by (metis append_butlast_last_id split_on_nonempty)
  have T: "base_path ?T" "segs_of ?T = (segs_of b @ ss) @ [s]" "is_rooted ?T = is_rooted b"
    using inside_below [OF assms(1,2)] inside_segs [OF assms(1,2)] s by simp_all
  have "segs_of b @ ss \<noteq> []" using assms(1) by (simp add: base_path_def)
  from parent_path [OF T(1,2) this] T(3) show ?thesis
    using path_chain_below [OF assms(1,3), of ss] by simp
qed

definition placed :: "string \<Rightarrow> (string \<times> zip_entry) list \<Rightarrow> string \<Rightarrow> string option" where
  "placed staging fs = map_of (map (\<lambda>(n, e). (staging @ ''/'' @ n, ze_bytes e)) fs)"

definition bytes_of :: "(string \<times> zip_entry) list \<Rightarrow> nat" where
  "bytes_of fs = (\<Sum>f\<leftarrow>fs. length (ze_bytes (snd f)))"

lemma write_entry_ok:
  assumes "base_path b" "inside_name n" "write_entry env b (n, e) sofar t = (Inr sofar1, t')"
  obtains t1 where "make_dirs (dk_no_dir env) (path_chain (path_dir (b @ CHR ''/'' # n))) t = Some t1"
    "t' = (b @ CHR ''/'' # n, Blob (ze_bytes e)) # t1" "map_of t1 (b @ CHR ''/'' # n) = None"
    "length (ze_bytes e) \<le> max_file_bytes" "sofar1 = sofar + length (ze_bytes e)" "sofar1 \<le> max_total_bytes"
proof -
  note j = inside_below [OF assms(1,2)]
  have p: "has_prefix (b @ CHR ''/'' # n) (b @ ''/'')" by (simp add: has_prefix_def)
  obtain t1 where t1: "make_dirs (dk_no_dir env) (path_chain (path_dir (b @ CHR ''/'' # n))) t = Some t1"
    using assms(3) by (auto simp: write_entry_def Let_def j p split: if_splits option.splits)
  then have w: "map_of t1 (b @ CHR ''/'' # n) = None"
      "length (take (max_file_bytes + 1) (ze_bytes e)) \<le> max_file_bytes"
      "int (length (take (max_file_bytes + 1) (ze_bytes e))) \<le> int max_total_bytes - int sofar"
      "sofar1 = sofar + length (take (max_file_bytes + 1) (ze_bytes e))"
      "t' = (b @ CHR ''/'' # n, Blob (take (max_file_bytes + 1) (ze_bytes e))) # t1"
    using assms(3) by (auto simp: write_entry_def Let_def j p split: if_splits)
  from w(2) have l: "length (ze_bytes e) \<le> max_file_bytes" by simp
  then have "take (max_file_bytes + 1) (ze_bytes e) = ze_bytes e" by simp
  with w l show thesis by (intro that [OF t1]) simp_all
qed

lemma placed_Cons: "placed b ((n, e) # fs) = (placed b fs)(b @ CHR ''/'' # n \<mapsto> ze_bytes e)"
  by (simp add: placed_def)

lemma placed_dom: "n \<notin> fst ` set fs \<Longrightarrow> b @ CHR ''/'' # n \<notin> dom (placed b fs)"
proof -
  assume n: "n \<notin> fst ` set fs"
  have "dom (placed b fs) = (\<lambda>f. b @ CHR ''/'' # fst f) ` set fs"
    by (simp add: placed_def dom_map_of_conv_image_fst image_image split_def)
  with n show "b @ CHR ''/'' # n \<notin> dom (placed b fs)" by auto
qed

lemma write_entries_ok:
  assumes "base_path b" "\<forall>(n, e) \<in> set fs. inside_name n" "distinct (map fst fs)" "sofar \<le> max_total_bytes"
    "write_entries env b fs sofar t = (Inr (), t')" "\<forall>q \<in> set (path_chain b). map_of t q \<noteq> None"
  shows "files_of t' = files_of t ++ placed b fs \<and> sofar + bytes_of fs \<le> max_total_bytes \<and>
    (\<forall>(n, e) \<in> set fs. length (ze_bytes e) \<le> max_file_bytes) \<and>
    (\<forall>p. map_of t' p \<noteq> None \<longrightarrow> map_of t p \<noteq> None \<or> under_path b p) \<and> (\<forall>p n. map_of t p = Some n \<longrightarrow> map_of t' p = Some n)"
  using assms(2-)
proof (induction fs arbitrary: sofar t)
  case Nil
  then show ?case by (simp add: placed_def bytes_of_def)
next
  case (Cons f fs)
  obtain n e where f: "f = (n, e)" by (cases f)
  let ?T = "b @ CHR ''/'' # n"
  have n: "inside_name n" using Cons.prems(1) f by simp
  obtain sofar1 t2 where w: "write_entry env b (n, e) sofar t = (Inr sofar1, t2)" "write_entries env b fs sofar1 t2 = (Inr (), t')"
    using Cons.prems(4) by (auto simp: f split: prod.splits sum.splits)
  obtain t1 where o: "make_dirs (dk_no_dir env) (path_chain (path_dir ?T)) t = Some t1" "t2 = (?T, Blob (ze_bytes e)) # t1"
    "map_of t1 ?T = None" "length (ze_bytes e) \<le> max_file_bytes" "sofar1 = sofar + length (ze_bytes e)" "sofar1 \<le> max_total_bytes"
    by (rule write_entry_ok [OF assms(1) n w(1)])
  have k: "map_of t p = Some x \<Longrightarrow> map_of t2 p = Some x" for p x
    using make_dirs_old [OF o(1), of p x] o(2,3) by auto
  have new: "map_of t2 p \<noteq> None \<Longrightarrow> map_of t p \<noteq> None \<or> under_path b p" for p
  proof (cases "p = ?T")
    case True
    then show ?thesis by (simp add: under_path_def has_prefix_def)
  next
    case False
    assume "map_of t2 p \<noteq> None"
    with False have p: "map_of t1 p \<noteq> None" by (simp add: o(2))
    show ?thesis
    proof (cases "map_of t p")
      case None
      with p make_dirs_new [OF o(1) None] have "p \<in> set (path_chain (path_dir ?T))" by (auto split: if_splits)
      from dirs_for_entry [OF assms(1) n this] None Cons.prems(5) show ?thesis by blast
    qed simp
  qed
  have "\<forall>q \<in> set (path_chain b). map_of t2 q \<noteq> None" using Cons.prems(5) k by blast
  then have ih: "files_of t' = files_of t2 ++ placed b fs" "sofar1 + bytes_of fs \<le> max_total_bytes"
      "\<forall>(n, e) \<in> set fs. length (ze_bytes e) \<le> max_file_bytes"
      "\<And>p. map_of t' p \<noteq> None \<Longrightarrow> map_of t2 p \<noteq> None \<or> under_path b p" "\<And>p n. map_of t2 p = Some n \<Longrightarrow> map_of t' p = Some n"
    using Cons.IH [OF _ _ o(6) w(2)] Cons.prems(1,2) by auto
  have "n \<notin> fst ` set fs" using Cons.prems(2) f by (simp add: image_iff)
  then have "?T \<notin> dom (placed b fs)" by (rule placed_dom)
  then have "files_of t' = files_of t ++ placed b (f # fs)"
    unfolding ih(1) o(2) files_of_blob files_of_dirs [OF o(1)] f placed_Cons by (simp add: map_add_upd_left)
  moreover have "sofar + bytes_of (f # fs) \<le> max_total_bytes" using ih(2) o(5) by (simp add: bytes_of_def f)
  moreover have "\<forall>(n, e) \<in> set (f # fs). length (ze_bytes e) \<le> max_file_bytes" using ih(3) o(4) f by simp
  ultimately show ?case using new k ih(4,5) by blast
qed

section \<open>Places\<close>

lemma plain_words: "plain_seg ''archives''" "parse_kind k = Some k' \<Longrightarrow> plain_seg k'" "parse_kind k = Some k' \<Longrightarrow> k' = k"
  by (auto simp: plain_seg_def parse_kind_def split: if_splits)

lemma plain_digits: "list_all is_digit s \<Longrightarrow> s \<noteq> [] \<Longrightarrow> plain_seg s"
  by (cases s) (auto simp: plain_seg_def is_digit_def list_all_iff)

lemma plain_dec_int: "plain_seg (dec_int i)"
proof -
  have d: "list_all is_digit (dec_nat n)" for n using dec_nat_digits by (simp add: list_all_iff)
  have "plain_seg (dec_nat n)" for n by (rule plain_digits [OF d dec_nat_nonempty])
  moreover have "plain_seg (CHR ''-'' # dec_nat n)" for n using calculation [of n] by (auto simp: plain_seg_def)
  ultimately show ?thesis by (simp add: dec_int_def)
qed

lemma root_base: "base_path (archives_root data)"
proof (cases "data = []")
  case True
  then show ?thesis by (simp add: archives_root_def join_paths_def base_path_def segs_of_def path_clean_def path_of_def is_rooted_def)
next
  case False
  have "segs_of (data @ CHR ''/'' # ''archives'') = segs_of data @ [''archives'']"
    using segs_of_down [OF False, of "''archives''"] by simp
  with False base_path_clean [of "data @ CHR ''/'' # ''archives''"] show ?thesis
    by (simp add: archives_root_def join_paths_two)
qed

lemma archive_dir_eq:
  assumes "plain_seg kind"
  shows "archive_dir data kind i = archives_root data @ CHR ''/'' # kind @ CHR ''/'' # dec_int i"
    and "base_path (archive_dir data kind i)"
    and "path_dir (archive_dir data kind i) = archives_root data @ CHR ''/'' # kind"
proof -
  let ?r = "archives_root data"
  have r: "?r \<noteq> []" using base_path_segs [OF root_base] by blast
  have a: "base_path (?r @ CHR ''/'' # kind)" using join_entry(2) [OF root_base assms] by simp
  have b: "path_clean ((?r @ CHR ''/'' # kind) @ CHR ''/'' # dec_int i) = (?r @ CHR ''/'' # kind) @ CHR ''/'' # dec_int i"
    "base_path ((?r @ CHR ''/'' # kind) @ CHR ''/'' # dec_int i)"
    using join_entry(1,2) [OF a plain_dec_int] join_paths_two [of "?r @ CHR ''/'' # kind" "dec_int i"] plain_dec_int
    by (auto simp: plain_seg_def)
  have "archive_dir data kind i = path_clean (?r @ CHR ''/'' # kind @ CHR ''/'' # dec_int i)"
    using r by (simp add: archive_dir_def join_paths_def)
  with b(1) show e: "archive_dir data kind i = ?r @ CHR ''/'' # kind @ CHR ''/'' # dec_int i" by simp
  with b(2) show "base_path (archive_dir data kind i)" by simp
  have "CHR ''/'' \<notin> set (dec_int i)" using plain_dec_int [of i] by (simp add: plain_seg_def)
  then have "before_last (CHR ''/'') ((?r @ CHR ''/'' # kind) @ CHR ''/'' # dec_int i) = ?r @ CHR ''/'' # kind"
    by (rule before_last_split)
  moreover have "path_clean ((?r @ CHR ''/'' # kind) @ CHR ''/'' # []) = ?r @ CHR ''/'' # kind"
    using clean_below(1) [OF a, of "[]"] by (simp add: entries_def)
  ultimately show "path_dir (archive_dir data kind i) = ?r @ CHR ''/'' # kind"
    unfolding e by (simp add: path_dir_def)
qed

section \<open>The staging directory\<close>

lemma hex_bytes_plain: "c \<in> set (hex_bytes bs) \<Longrightarrow> c \<noteq> CHR ''/''"
proof -
  have d: "hex_digit m \<noteq> CHR ''/''" if "m < 16" for m
  proof
    assume "hex_digit m = CHR ''/''"
    then have "code_of (hex_digit m) = 47" by simp
    then show False using that by (auto simp: hex_digit_def split: if_splits)
  qed
  have l: "code_of x < 256" for x by simp
  have "code_of x div 16 < 16" "code_of x mod 16 < 16" for x :: char
    using l [of x] by (simp_all add: less_mult_imp_div_less)
  then have h: "hex_digit (code_of x div 16) \<noteq> CHR ''/''" "hex_digit (code_of x mod 16) \<noteq> CHR ''/''" for x
    using d by blast+
  assume "c \<in> set (hex_bytes bs)"
  then obtain x where "c = hex_digit (code_of x div 16) \<or> c = hex_digit (code_of x mod 16)"
    by (auto simp: hex_bytes_def)
  with h [of x] show "c \<noteq> CHR ''/''" by metis
qed

definition staging_name :: "string \<Rightarrow> nat \<Rightarrow> string" where
  "staging_name random n = staging_prefix @ hex_bytes random @ dec_nat n"

lemma staging_name_plain: "plain_seg (staging_name random n)"
  using hex_bytes_plain dec_nat_digits by (fastforce simp: plain_seg_def staging_name_def staging_prefix_def is_digit_def)

lemma staging_path:
  fixes random n data
  defines "b \<equiv> archives_root data @ CHR ''/'' # staging_name random n"
  shows "join_paths [archives_root data, staging_name random n] = b" "base_path b" "path_dir b = archives_root data"
    "path_base b = staging_name random n" "set (path_chain b) = insert b (set (path_chain (archives_root data)))"
proof -
  let ?r = "archives_root data" and ?s = "staging_name random n"
  note j = join_entry [OF root_base staging_name_plain, of data random n]
  show "join_paths [?r, ?s] = b" and b: "base_path b" using j by (simp_all add: b_def)
  have g: "segs_of b = segs_of ?r @ [?s]" "segs_of ?r \<noteq> []"
    using j(3) root_base [of data] by (simp_all add: b_def base_path_def)
  have r: "is_rooted b = is_rooted ?r" using base_path_segs [OF root_base, of data] by (simp add: b_def)
  show d: "path_dir b = ?r" using parent_path(1) [OF b g] base_path_segs [OF root_base, of data] r by simp
  show "set (path_chain b) = insert b (set (path_chain ?r))" using path_chain_step [OF b g] d by simp
  have s: "CHR ''/'' \<notin> set ?s" "?s \<noteq> []" using staging_name_plain [of random n] by (simp_all add: plain_seg_def)
  then have "last ?s \<noteq> CHR ''/''" using last_in_set [of ?s] by metis
  then have "last b \<noteq> CHR ''/''" using s(2) by (simp add: b_def)
  moreover have "b \<noteq> []" by (simp add: b_def)
  ultimately have t: "rev (dropWhile (\<lambda>c. c = CHR ''/'') (rev b)) = b" by (cases b rule: rev_cases) auto
  have "takeWhile (\<lambda>x. x \<noteq> CHR ''/'') (rev ?s @ CHR ''/'' # rev ?r) = rev ?s"
    using s by (subst takeWhile_append2) auto
  then have "after_last (CHR ''/'') b = ?s" by (simp add: after_last_def b_def)
  then show "path_base b = ?s" using t by (simp add: path_base_def b_def)
qed

lemma new_staging_ok:
  assumes "new_staging_dir env data t = (Some b, t')"
  obtains random n where "dk_random env = Some (random, n)" "b = archives_root data @ CHR ''/'' # staging_name random n"
    "files_of t' = files_of t" "map_of t b = None" "\<forall>q \<in> set (path_chain b). map_of t' q \<noteq> None"
    "\<And>p. map_of t' p \<noteq> None \<Longrightarrow> map_of t p \<noteq> None \<or> p \<in> set (path_chain b)" "\<And>p x. map_of t p = Some x \<Longrightarrow> map_of t' p = Some x"
proof -
  let ?r = "archives_root data"
  obtain t1 random n where t1: "make_dirs (dk_no_dir env) (path_chain ?r) t = Some t1" and r: "dk_random env = Some (random, n)"
    using assms by (auto simp: new_staging_dir_def Let_def split: option.splits)
  note sp = staging_path(1) [of data random n]
  have m: "map_of t1 b = None" "b = ?r @ CHR ''/'' # staging_name random n" "t' = (b, Folder) # t1"
    using assms t1 r sp by (auto simp: new_staging_dir_def staging_name_def Let_def split: if_splits)
  note c = staging_path(5) [of data random n, folded m(2)]
  have old: "map_of t p = Some x \<Longrightarrow> map_of t' p = Some x" for p x
    using make_dirs_old [OF t1, of p x] m(1) by (auto simp: m(3))
  have new: "map_of t' p \<noteq> None \<Longrightarrow> map_of t p \<noteq> None \<or> p \<in> set (path_chain b)" for p
    using make_dirs_new [OF t1, of p] by (cases "map_of t p") (auto simp: m(3) c split: if_splits)
  have "map_of t b = None" using old [of b] m make_dirs_old [OF t1, of b] by (cases "map_of t b") auto
  moreover have "\<forall>q \<in> set (path_chain b). map_of t' q \<noteq> None"
  proof
    fix q assume "q \<in> set (path_chain b)"
    then show "map_of t' q \<noteq> None"
      using make_dirs_new [OF t1, of q] make_dirs_old [OF t1, of q] unfolding c m(3) by (cases "map_of t q") auto
  qed
  moreover have "files_of t' = files_of t" using files_of_dirs [OF t1] files_of_folder [OF m(1)] m(3) by simp
  ultimately show thesis using that [OF r m(2)] new old by blast
qed

lemma extract_ok:
  assumes "extract_archive uni env data (Some es) t = (Inr staging, t')"
  obtains fs random n where "checked_files uni es = Inr fs" "files_ok uni es fs" "bytes_of fs \<le> max_total_bytes"
    "\<forall>(n, e) \<in> set fs. length (ze_bytes e) \<le> max_file_bytes" "files_of t' = files_of t ++ placed staging fs"
    "staging = archives_root data @ CHR ''/'' # staging_name random n" "map_of t staging = None" "map_of t' staging = Some Folder"
    "\<And>p. map_of t' p \<noteq> None \<Longrightarrow> map_of t p \<noteq> None \<or> under_path staging p \<or> p \<in> set (path_chain staging)"
proof -
  obtain fs t1 where f: "checked_files uni es = Inr fs" "new_staging_dir env data t = (Some staging, t1)"
    "write_entries env staging fs 0 t1 = (Inr (), t')"
    using assms by (auto simp: extract_archive_def split: sum.splits prod.splits option.splits)
  obtain random n where s: "staging = archives_root data @ CHR ''/'' # staging_name random n"
    "files_of t1 = files_of t" "map_of t staging = None" "\<forall>q \<in> set (path_chain staging). map_of t1 q \<noteq> None"
    "\<And>p. map_of t1 p \<noteq> None \<Longrightarrow> map_of t p \<noteq> None \<or> p \<in> set (path_chain staging)"
    by (rule new_staging_ok [OF f(2)]) blast
  have ok: "files_ok uni es fs" by (rule checked_files_ok [OF f(1)])
  then have i: "\<forall>(n, e) \<in> set fs. inside_name n" and d: "distinct (map fst fs)"
    by (auto simp: files_ok_def comp_def distinct_map inj_on_def)
  have b: "base_path staging" using staging_path(2) s(1) by simp
  have "map_of t1 staging = Some Folder"
    using f(2) by (auto simp: new_staging_dir_def Let_def split: option.splits if_splits)
  with write_entries_ok [OF b i d _ f(3) s(4)]
  have "files_of t' = files_of t ++ placed staging fs" "bytes_of fs \<le> max_total_bytes"
    "\<forall>(n, e) \<in> set fs. length (ze_bytes e) \<le> max_file_bytes" "map_of t' staging = Some Folder"
    "\<And>p. map_of t' p \<noteq> None \<Longrightarrow> map_of t1 p \<noteq> None \<or> under_path staging p"
    by (simp_all add: s(2))
  with s(5) show thesis by (intro that [OF f(1) ok _ _ _ s(1,3)]) blast+
qed

section \<open>What an upload can do\<close>

text \<open>
  C33: An upload that is accepted writes inside its staging directory only. The files that are there afterwards are the ones
  from before and the accepted entries, each with its bytes under its own name; the names have no empty, \<open>.\<close> or \<open>..\<close>
  segments, no backslashes and no control characters, are at most 8 levels deep and distinct also without regard to case; there
  are at most 2000 files of at most 64 MB, 256 MB in all, all regular files of the ZIP, and one of them is the index page.
  Every other path that is new is the staging directory, a directory below it, or one above it.
\<close>

theorem extract_stays_inside:
  assumes "extract_archive uni env data (Some es) t = (Inr staging, t')"
  shows "\<exists>fs. checked_files uni es = Inr fs \<and> files_ok uni es fs \<and> bytes_of fs \<le> max_total_bytes \<and>
    (\<forall>(n, e) \<in> set fs. length (ze_bytes e) \<le> max_file_bytes) \<and>
    files_of t' = files_of t ++ placed staging fs \<and> path_dir staging = archives_root data \<and> map_of t staging = None \<and>
    (\<forall>p. map_of t' p \<noteq> None \<longrightarrow> map_of t p \<noteq> None \<or> under_path staging p \<or> p \<in> set (path_chain staging))"
  by (rule extract_ok [OF assms]) (use staging_path(3) in blast)

section \<open>What a failed upload leaves\<close>

text \<open>What exists is in a directory that exists.\<close>

definition tree_ok :: "tree \<Rightarrow> bool" where
  "tree_ok t \<longleftrightarrow> (\<forall>b p. base_path b \<longrightarrow> under_path b p \<longrightarrow> map_of t p \<noteq> None \<longrightarrow> map_of t b \<noteq> None)"

lemma write_entry_touches:
  assumes "base_path b" "inside_name n" "write_entry env b (n, e) sofar t = (r, t')" "\<forall>q \<in> set (path_chain b). map_of t q \<noteq> None"
  shows "(\<forall>p. \<not> under_path b p \<longrightarrow> files_of t' p = files_of t p) \<and> (\<forall>q \<in> set (path_chain b). map_of t' q \<noteq> None)"
proof -
  note j = inside_below [OF assms(1,2)]
  have p: "has_prefix (b @ CHR ''/'' # n) (b @ ''/'')" by (simp add: has_prefix_def)
  let ?T = "b @ CHR ''/'' # n"
  show ?thesis
  proof (cases "make_dirs (dk_no_dir env) (path_chain (path_dir ?T)) t")
    case None
    then have "t' = t" using assms(3) by (auto simp: write_entry_def Let_def j p)
    with assms(4) show ?thesis by simp
  next
    case (Some t1)
    then have "t' = t1 \<or> (\<exists>body. t' = (?T, Blob body) # t1)"
      using assms(3) by (auto simp: write_entry_def Let_def j p split: if_splits)
    moreover have "files_of t1 = files_of t" by (rule files_of_dirs [OF Some])
    moreover have "under_path b ?T" by (simp add: under_path_def has_prefix_def)
    moreover have "\<forall>q \<in> set (path_chain b). map_of t1 q \<noteq> None" using assms(4) make_dirs_old [OF Some] by fast
    ultimately show ?thesis by (auto simp: files_of_blob)
  qed
qed

lemma write_entries_touch:
  assumes "base_path b" "\<forall>(n, e) \<in> set fs. inside_name n" "write_entries env b fs sofar t = (r, t')"
    "\<forall>q \<in> set (path_chain b). map_of t q \<noteq> None"
  shows "\<forall>p. \<not> under_path b p \<longrightarrow> files_of t' p = files_of t p"
  using assms(2-)
proof (induction fs arbitrary: sofar t)
  case (Cons f fs)
  obtain n e where f: "f = (n, e)" by (cases f)
  obtain x t1 where w: "write_entry env b (n, e) sofar t = (x, t1)" by (cases "write_entry env b (n, e) sofar t")
  have n: "inside_name n" using Cons.prems(1) f by simp
  note one = write_entry_touches [OF assms(1) n w Cons.prems(3)]
  show ?case
  proof (cases x)
    case (Inl y)
    then have "t' = t1" using Cons.prems(2) f w by simp
    with one show ?thesis by simp
  next
    case (Inr sofar1)
    then have "write_entries env b fs sofar1 t1 = (r, t')" using Cons.prems(2) f w by simp
    with Cons.IH [OF _ this] Cons.prems(1) one show ?thesis by simp
  qed
qed simp

text \<open>
  C36: A refused upload leaves no file behind. Whatever is wrong with the ZIP and wherever the system refuses a directory, a
  file or a write, the files afterwards are those from before, as long as the system removes what is in the staging directory.
\<close>

theorem extract_failure_leaves_nothing:
  assumes "extract_archive uni env data upload t = (Inl err, t')" "tree_ok t" "\<forall>p. \<not> dk_stuck env p"
  shows "files_of t' = files_of t"
proof -
  consider "t' = t"
    | "new_staging_dir env data t = (None, t')"
    | es fs staging t1 x t2 where "checked_files uni es = Inr fs" "new_staging_dir env data t = (Some staging, t1)"
        "write_entries env staging fs 0 t1 = (Inl x, t2)" "t' = fst (remove_all (dk_stuck env) staging t2)"
    using assms(1) by (auto simp: extract_archive_def split: option.splits sum.splits prod.splits)
  then show ?thesis
  proof cases
    case 2
    then show ?thesis
      by (auto simp: new_staging_dir_def Let_def files_of_dirs split: option.splits if_splits prod.splits)
  next
    case 3
    obtain random n where s: "staging = archives_root data @ CHR ''/'' # staging_name random n"
      "files_of t1 = files_of t" "map_of t staging = None" "\<forall>q \<in> set (path_chain staging). map_of t1 q \<noteq> None"
      by (rule new_staging_ok [OF 3(2)]) blast
    have b: "base_path staging" using staging_path(2) s(1) by simp
    have "\<forall>(n, e) \<in> set fs. inside_name n" using checked_files_ok [OF 3(1)] by (auto simp: files_ok_def)
    from write_entries_touch [OF b this 3(3) s(4)]
    have out: "\<not> under_path staging p \<Longrightarrow> files_of t2 p = files_of t p" for p by (simp add: s(2))
    show ?thesis
    proof
      fix p
      show "files_of t' p = files_of t p"
      proof (cases "under_path staging p")
        case True
        then have "map_of t p = None" using assms(2) b s(3) unfolding tree_ok_def by (metis)
        then show ?thesis using True assms(3) by (simp add: 3(4) files_of_removed files_of_def [of t])
      next
        case False
        then show ?thesis by (simp add: 3(4) files_of_removed out)
      qed
    qed
  qed simp
qed

section \<open>Putting a tree in place\<close>

lemma commit_ok:
  assumes "commit_archive env staging data kind i t = (True, t')" "plain_seg kind"
  shows "path_dir staging = archives_root data" and "has_prefix (path_base staging) staging_prefix"
    and "files_of t' p =
      (if under_path (archive_dir data kind i) p then
         (let q = staging @ drop (length (archive_dir data kind i)) p
          in if under_path (archive_dir data kind i) q then None else files_of t q)
       else if under_path staging p then None else files_of t p)"
    and "map_of t staging = Some Folder \<Longrightarrow> \<not> under_path (archive_dir data kind i) staging \<Longrightarrow>
      map_of t' (archive_dir data kind i) = Some Folder"
proof -
  let ?F = "archive_dir data kind i"
  obtain t1 t2 where c: "path_dir staging = archives_root data" "has_prefix (path_base staging) staging_prefix"
    and m: "make_dirs (dk_no_dir env) (path_chain (path_dir ?F)) t = Some t1"
    and r: "remove_all (dk_stuck env) ?F t1 = (t2, True)" and t': "t' = move_tree staging ?F t2"
    using assms(1) by (auto simp: commit_archive_def Let_def split: if_splits option.splits prod.splits)
  show "path_dir staging = archives_root data" "has_prefix (path_base staging) staging_prefix" by (rule c)+
  have none: "\<forall>k \<in> set (map fst t2). \<not> under_path ?F k"
    using r by (auto simp: remove_all_def list_all_iff)
  have t2: "files_of t2 p = (if under_path ?F p then None else files_of t p)" for p
  proof -
    have "files_of t2 p = (if under_path ?F p \<and> \<not> dk_stuck env p then None else files_of t p)"
      using files_of_removed [of "dk_stuck env" ?F t1 p] r files_of_dirs [OF m] by simp
    moreover have "under_path ?F p \<Longrightarrow> map_of t2 p = None" using none by (force simp: map_of_eq_None_iff)
    ultimately show ?thesis by (auto simp: files_of_def)
  qed
  show "map_of t staging = Some Folder \<Longrightarrow> \<not> under_path ?F staging \<Longrightarrow> map_of t' ?F = Some Folder"
  proof -
    assume s: "map_of t staging = Some Folder" "\<not> under_path ?F staging"
    have "map_of t2 staging = Some Folder"
      using map_of_remove_all [of "dk_stuck env" ?F t1 staging] r s make_dirs_old [OF m s(1)] by simp
    then show ?thesis unfolding t' move_tree_lookup [OF none] by simp
  qed
  show "files_of t' p =
      (if under_path ?F p then (let q = staging @ drop (length ?F) p in if under_path ?F q then None else files_of t q)
       else if under_path staging p then None else files_of t p)"
    using t2 unfolding t' files_of_def [of "move_tree staging ?F t2"] move_tree_lookup [OF none] files_of_def [of t2, symmetric] Let_def
    by (simp add: files_of_def [of t2])
qed

lemma kind_first: "parse_kind k = Some k' \<Longrightarrow> k \<noteq> [] \<and> hd k \<noteq> CHR ''.''"
  by (auto simp: parse_kind_def split: if_splits)

text \<open>No staging directory is inside the tree of a record.\<close>

lemma staging_apart:
  assumes "parse_kind kind = Some kind"
  shows "\<not> under_path (archive_dir data kind i) ((archives_root data @ CHR ''/'' # staging_name random n) @ q)"
proof
  let ?F = "archive_dir data kind i"
  assume "under_path ?F ((archives_root data @ CHR ''/'' # staging_name random n) @ q)"
  then obtain r where "(archives_root data @ CHR ''/'' # staging_name random n) @ q = ?F @ r" unfolding under_path_parts by blast
  then have "staging_name random n @ q = kind @ CHR ''/'' # dec_int i @ r"
    using archive_dir_eq(1) [OF plain_words(2) [OF assms]] by simp
  then have "hd (kind @ CHR ''/'' # dec_int i @ r) = CHR ''.''" by (metis list.sel(1) append_Cons staging_name_def staging_prefix_def)
  with kind_first [OF assms] show False by (cases kind) auto
qed

text \<open>A record that is no archive any more keeps no index page.\<close>

lemma commit_form_switch:
  assumes "new_type \<noteq> ct_archive" "\<forall>p. \<not> dk_stuck env p" "parse_kind kind = Some kind"
  shows "\<not> has_archive data kind i (snd (commit_form_archive env data staging kind i ct_archive new_type t))"
proof -
  have "plain_seg ''index.html''" by (simp add: plain_seg_def)
  then have "join_paths [archive_dir data kind i, ''index.html''] = archive_dir data kind i @ ''/index.html''"
    using join_entry(1) [OF archive_dir_eq(2) [OF plain_words(2) [OF assms(3)]]] by simp
  moreover have "under_path (archive_dir data kind i) (archive_dir data kind i @ ''/index.html'')"
    by (simp add: under_path_def has_prefix_def)
  ultimately show ?thesis
    using assms(1,2) by (simp add: has_archive_def commit_form_archive_def remove_archive_def map_of_remove_all)
qed

section \<open>Serving what was uploaded\<close>

lemma inside_no_up: "inside_name n \<Longrightarrow> ''..'' \<notin> set (split_on (CHR ''/'') n) \<and> entries n = split_on (CHR ''/'') n \<and> n \<noteq> []"
proof -
  assume "inside_name n"
  then have s: "\<forall>s \<in> set (split_on (CHR ''/'') n). plain_seg s" by (simp add: inside_name_def list_all_iff)
  have "entries n = split_on (CHR ''/'') n"
    unfolding entries_def by (rule filter_True) (use s in \<open>simp add: plain_seg_def\<close>)
  moreover have "n \<noteq> []"
  proof
    assume "n = []"
    with s show False by (simp add: plain_seg_def)
  qed
  ultimately show ?thesis using s by (metis plain_seg_def)
qed

text \<open>The path of a request is made of the names of entries.\<close>

lemma safe_rel_shape:
  assumes "safe_rel_path p = Some rel"
  shows "rel = join_with ''/'' (entries p) \<and> list_all plain_seg (entries p)"
proof (cases "p = []")
  case True
  with assms show ?thesis by (simp add: safe_rel_path_def entries_def)
next
  case False
  then have up: "''..'' \<notin> set (split_on (CHR ''/'') p)" and r: "rel = trim_prefix (path_clean (CHR ''/'' # p)) ''/''"
    using assms by (auto simp: safe_rel_path_def split: if_splits)
  have "segs_of (CHR ''/'' # p) = entries p" using up by (simp add: segs_of_def clean_segs_no_up entries_def)
  then have "path_clean (CHR ''/'' # p) = CHR ''/'' # join_with ''/'' (entries p)"
    by (simp add: path_clean_def path_of_def is_rooted_def)
  with r have "rel = join_with ''/'' (entries p)" by (simp add: trim_prefix_def has_prefix_def)
  moreover have "list_all plain_seg (entries p)"
    using up split_on_clear [of _ "CHR ''/''" p] by (auto simp: entries_def plain_seg_def list_all_iff)
  ultimately show ?thesis by simp
qed

lemma safe_rel_inside: "inside_name n \<Longrightarrow> safe_rel_path n = Some n"
proof -
  assume n: "inside_name n"
  then have "safe_rel_path n \<noteq> None" using inside_no_up [OF n] by (auto simp: safe_rel_path_def inside_name_def)
  then obtain rel where r: "safe_rel_path n = Some rel" by blast
  have "join_with ''/'' (entries n) = n" using inside_no_up [OF n] join_split by simp
  with safe_rel_shape [OF r] r show ?thesis by simp
qed

lemma base_of_inside:
  assumes "inside_name n"
  shows "path_base (b @ CHR ''/'' # n) = path_base n"
proof -
  have ne: "n \<noteq> []" using inside_no_up [OF assms] by blast
  have l: "last n \<noteq> CHR ''/''"
  proof
    assume "last n = CHR ''/''"
    then obtain m where "n = m @ [CHR ''/'']" using ne by (metis append_butlast_last_id)
    then show False using assms split_on_at [of "CHR ''/''" m "[]"] by (simp add: inside_name_def plain_seg_def)
  qed
  have t: "rev (dropWhile (\<lambda>c. c = CHR ''/'') (rev (x @ n))) = x @ n" for x
    using ne l by (cases n rule: rev_cases) auto
  have "takeWhile (\<lambda>x. x \<noteq> CHR ''/'') (rev n @ CHR ''/'' # rev b) = takeWhile (\<lambda>x. x \<noteq> CHR ''/'') (rev n)"
  proof (cases "CHR ''/'' \<in> set n")
    case True
    then show ?thesis by (intro takeWhile_append1 [of "CHR ''/''"]) simp_all
  next
    case False
    then have a: "\<And>x. x \<in> set (rev n) \<Longrightarrow> x \<noteq> CHR ''/''" by auto
    have t: "takeWhile (\<lambda>x. x \<noteq> CHR ''/'') (rev n @ ys) = rev n @ takeWhile (\<lambda>x. x \<noteq> CHR ''/'') ys" for ys
      by (rule takeWhile_append2) (rule a)
    have r: "takeWhile (\<lambda>x. x \<noteq> CHR ''/'') (rev n) = rev n" using t [of "[]"] by (simp only: append_Nil2 takeWhile.simps)
    show ?thesis unfolding t r by simp
  qed
  then have "after_last (CHR ''/'') (b @ CHR ''/'' # n) = after_last (CHR ''/'') n" by (simp add: after_last_def)
  then show ?thesis using t [of "[]"] t [of "b @ ''/''"] ne by (simp add: path_base_def)
qed

lemma answer_file:
  assumes "base_path b" "inside_name n" "map_of t (b @ CHR ''/'' # n) = Some (Blob body)" "\<not> no_open (b @ CHR ''/'' # n)"
  shows "archive_answer uni no_open b n public t =
    ArchiveFile (archive_content_type uni (path_base n)) body (if public then ''public, no-cache'' else ''private, no-cache'')"
proof -
  have "has_prefix (b @ CHR ''/'' # n) (b @ ''/'')" by (simp add: has_prefix_def)
  then show ?thesis
    using inside_below [OF assms(1,2)] assms(3,4) base_of_inside [OF assms(2)] by (simp add: archive_answer_def Let_def)
qed

lemma answer_index:
  assumes "base_path b" "map_of t b = Some Folder" "map_of t (b @ ''/index.html'') = Some (Blob body)" "\<not> no_open (b @ ''/index.html'')"
  shows "archive_answer uni no_open b [] public t =
    ArchiveFile ''text/html; charset=utf-8'' body (if public then ''public, no-cache'' else ''private, no-cache'')"
proof -
  have i: "inside_name ''index.html''" by code_simp
  have "archive_content_type uni (path_base ''index.html'') = ''text/html; charset=utf-8''" by (simp add: archive_content_type_def archive_types_def
      path_ext_def path_base_def after_last_def to_lower_def is_ascii_def sql_lower_def ascii_lower_def)
  then show ?thesis
    using inside_below [OF assms(1) i] assms(2-) base_of_inside [OF i, of b] by (simp add: archive_answer_def Let_def)
qed

lemma serve_public:
  assumes "parse_kind kind = Some kind" "- (2 ^ 63) \<le> i" "i < 2 ^ 63" "fst (archive_record kind i w) = Inr (ct_archive, st)"
    "public_status st" "safe_rel_path rest = Some rel"
  shows "fst (serve_archive uni no_open data now cookie kind (dec_int i) rest t w) =
    Inr (archive_answer uni no_open (archive_dir data kind i) rel True t)"
proof -
  obtain w1 where w1: "archive_record kind i w = (Inr (ct_archive, st), w1)"
    using assms(4) by (cases "archive_record kind i w") simp
  show ?thesis using assms(1,5,6) parse_dec_int [OF assms(2,3)] by (simp add: serve_archive_def bindE_def attempt_def ret_def w1)
qed


section \<open>Nothing else is served\<close>

definition archive_row :: "string \<Rightarrow> int \<Rightarrow> database \<Rightarrow> (string \<times> int) option" where
  "archive_row kind i d =
     (if kind = ''article'' then map_option (\<lambda>a. (a_content_type a, a_status a)) (by_id a_id i (articles d))
      else map_option (\<lambda>p. (p_content_type p, p_status p)) (by_id p_id i (pages d)))"

definition session_valid :: "int \<Rightarrow> database \<Rightarrow> string option \<Rightarrow> bool" where
  "session_valid now d cookie =
     (case cookie of None \<Rightarrow> False
      | Some t \<Rightarrow> (case live d t of None \<Rightarrow> False | Some (_, created) \<Rightarrow> session_fresh now created))"

lemma archive_record_ok: "archive_record kind i w = (Inr x, w') \<Longrightarrow> archive_row kind i (wdb w) = Some x \<and> wdb w' = wdb w"
  by (auto simp: archive_record_def archive_row_def get_article_by_id_def get_admin_page_by_id_def ret_def
      elim!: bindE_ok split: if_splits dest!: query_row_ok)

lemma authenticated_ok:
  assumes "authenticated now cookie w = (Inr True, w')"
  shows "session_valid now (wdb w) cookie"
proof -
  obtain token where c: "cookie = Some token" using assms by (cases cookie) (auto simp: authenticated_def ret_def)
  obtain s w1 where s: "get_session_by_token token w = (Inr s, w1)" and f: "session_expired now s w1 = (Inr False, w')"
    using assms c by (auto simp: authenticated_def ret_def attempt_ok elim!: bindE_ok split: sum.splits)
  from f have "session_fresh now (ss_created_at s)"
    by (auto simp: session_expired_def session_fresh_def ret_def elim!: bindE_ok split: if_splits)
  moreover from s have "find (\<lambda>s. ss_token s = token) (sessions (wdb w)) = Some s"
    by (auto simp: get_session_by_token_def dest: query_row_ok)
  ultimately show ?thesis by (simp add: session_valid_def c live_def)
qed

lemma answer_inv:
  assumes "archive_answer uni no_open b rel public t = ArchiveFile ct body cache"
  defines "target \<equiv> if rel \<noteq> [] then join_paths [b, rel] else b"
  shows "files_of t (if map_of t target = Some Folder then join_paths [target, ''index.html''] else target) = Some body"
    and "cache = (if public then ''public, no-cache'' else ''private, no-cache'')"
  using assms(1) unfolding archive_answer_def target_def [symmetric] Let_def
  by (auto simp: files_of_def split: if_splits option.splits node.splits)

text \<open>
  C34: Nothing but archives is served. Whatever the request, a file that is sent is a file below the directory of the record
  the address names, at a path without \<open>..\<close>; the record exists, its content is an HTML archive, and it is published or
  shared or the visitor has a session that has not expired. What only such a visitor may see is marked private.
\<close>

theorem archive_served_only:
  assumes "serve_archive uni no_open data now cookie kind i_text rest t w = (Inr (ArchiveFile ct body cache), w')"
  shows "\<exists>i st ss. parse_kind kind = Some kind \<and> parse_int64 i_text = Some i \<and>
    archive_row kind i (wdb w) = Some (ct_archive, st) \<and> (public_status st \<or> session_valid now (wdb w) cookie) \<and>
    cache = (if public_status st then ''public, no-cache'' else ''private, no-cache'') \<and> list_all plain_seg ss \<and>
    files_of t (join_with ''/'' (archive_dir data kind i # ss)) = Some body"
proof -
  obtain k i where k: "parse_kind kind = Some k" "parse_int64 i_text = Some i"
    using assms by (auto simp: serve_archive_def ret_def split: option.splits)
  have kk: "k = kind" using k(1) plain_words(3) by blast
  obtain st w1 allowed w2 rel where r: "archive_record k i w = (Inr (ct_archive, st), w1)"
    and a: "(if public_status st then ret True else authenticated now cookie) w1 = (Inr allowed, w2)" "allowed"
    and rel: "safe_rel_path rest = Some rel"
    and f: "archive_answer uni no_open (archive_dir data k i) rel (public_status st) t = ArchiveFile ct body cache"
    using assms k by (auto simp: serve_archive_def ret_def attempt_ok elim!: bindE_ok split: sum.splits if_splits option.splits)
  note row = archive_record_ok [OF r]
  have seen: "public_status st \<or> session_valid now (wdb w) cookie"
    using a row authenticated_ok [of now cookie w1 w2] by (auto split: if_splits)
  let ?F = "archive_dir data kind i" and ?ss = "entries rest"
  note dir = archive_dir_eq(2) [OF plain_words(2) [of kind kind], of data i]
  have F: "base_path ?F" using dir k(1) kk by simp
  note shape = safe_rel_shape [OF rel]
  define target where "target = (if rel \<noteq> [] then join_paths [?F, rel] else ?F)"
  have tgt: "target = join_with ''/'' (?F # ?ss) \<and> base_path target"
  proof (cases "?ss")
    case Nil
    then show ?thesis using shape F by (simp add: target_def)
  next
    case (Cons s ss)
    then have "rel \<noteq> []" "?F \<noteq> []" using shape base_path_segs [OF F] by (cases ss; auto simp: plain_seg_def)+
    moreover have e: "entries rel = ?ss" "''..'' \<notin> set (split_on (CHR ''/'') rel)"
      using entries_join [of ?ss] shape Cons by (auto simp: list_all_iff)
    moreover have "path_clean (?F @ CHR ''/'' # rel) = ?F @ CHR ''/'' # join_with ''/'' ?ss" "segs_of (?F @ CHR ''/'' # rel) = segs_of ?F @ ?ss"
      using clean_below [OF F e(2)] e(1) Cons by simp_all
    ultimately show ?thesis using Cons shape F by (simp add: target_def join_paths_two base_path_def)
  qed
  have "list_all plain_seg ?ss" using shape by blast
  moreover have ans: "files_of t (if map_of t target = Some Folder then join_paths [target, ''index.html''] else target) = Some body"
      "cache = (if public_status st then ''public, no-cache'' else ''private, no-cache'')"
    using answer_inv [OF f] unfolding kk target_def by blast+
  moreover obtain ss where "files_of t (join_with ''/'' (?F # ss)) = Some body" "list_all plain_seg ss"
  proof (cases "map_of t target = Some Folder")
    case True
    have i: "plain_seg ''index.html''" by (simp add: plain_seg_def)
    have "join_paths [target, ''index.html''] = target @ ''/index.html''" using join_entry(1) [OF conjunct2 [OF tgt] i] by simp
    also have "\<dots> = join_with ''/'' (?F # ?ss @ [''index.html''])"
      using tgt join_with_append [of "?F # ?ss" "[''index.html'']" "''/''"] by simp
    finally show thesis using ans(1) True shape i that [of "?ss @ [''index.html'']"] by simp
  next
    case False
    then show thesis using ans(1) shape tgt that [of ?ss] by simp
  qed
  ultimately show ?thesis using k row seen unfolding kk by blast
qed

section \<open>An upload\<close>

text \<open>A folder of two files, zipped on a Mac, for the article 7.\<close>

definition demo_entry :: "string \<Rightarrow> string \<Rightarrow> zip_entry" where
  "demo_entry name body = \<lparr>ze_name = name, ze_dir = False, ze_regular = True, ze_size = of_nat (length body), ze_opens = True,
     ze_bytes = body, ze_broken = False\<rparr>"

definition demo_zip :: "zip_entry list" where
  "demo_zip = [(demo_entry ''site/'' [])\<lparr>ze_dir := True\<rparr>, demo_entry ''site/index.html'' ''Hi'', demo_entry ''site/css/a.css'' ''b{}'',
     demo_entry ''__MACOSX/site/._index.html'' ''x'']"

definition demo_disk :: "string \<Rightarrow> disk_env" where
  "demo_disk full = \<lparr>dk_no_dir = (\<lambda>_. False), dk_no_file = (\<lambda>_. False), dk_no_write = (\<lambda>p. p = full), dk_stuck = (\<lambda>_. False),
     dk_no_rename = False, dk_random = Some (''A'', 5)\<rparr>"

definition demo_files :: "(string \<times> zip_entry) list" where
  "demo_files = [(''index.html'', demo_entry ''site/index.html'' ''Hi''), (''css/a.css'', demo_entry ''site/css/a.css'' ''b{}'')]"

definition demo_staged :: tree where
  "demo_staged =
     [(''data/archives/.staging-415/css/a.css'', Blob ''b{}''), (''data/archives/.staging-415/css'', Folder),
      (''data/archives/.staging-415/index.html'', Blob ''Hi''), (''data/archives/.staging-415'', Folder),
      (''data/archives'', Folder), (''data'', Folder)]"

definition demo_served :: "database world" where
  "demo_served = \<lparr>wdb = empty_db\<lparr>articles := [\<lparr>a_id = 7, a_title = None, a_slug = Some ''site'', a_content_html = None,
     a_content_type = ct_archive, a_description = None, a_excerpt = None, a_meta_description = None, a_meta_title = None,
     a_meta_image = None, a_source_author = None, a_source_url = None, a_source_content = None, a_status = status_publish,
     a_comment = 0, a_scheduled_at = None, a_scheduled_platforms = JText [] None, a_scheduled_newsletter = 0, a_created_at = 1,
     a_updated_at = 1, a_content_markdown = None\<rparr>]\<rparr>, wfaults = []\<rparr>"

lemma demo_checked: "checked_files id demo_zip = Inr demo_files"
  by (simp add: checked_files_def demo_zip_def demo_files_def demo_entry_def empty_scan_def scan_entry_def clean_entry_name_def
      has_prefix_def unsafe_char_def path_clean_def path_of_def segs_of_def is_rooted_def cut_char_def path_base_def after_last_def
      max_entries_def max_file_bytes_def max_total_bytes_def wrapper_def trim_prefix_def max_depth_def to_lower_def is_ascii_def
      sql_lower_def ascii_lower_def Let_def)

lemmas demo_paths = join_paths_def path_dir_def path_clean_def path_of_def segs_of_def is_rooted_def path_chain_def
  before_last_def after_last_def path_base_def has_prefix_def archives_root_def

lemma demo_disk_fields [simp]:
  "dk_no_dir (demo_disk x) = (\<lambda>_. False)" "dk_no_file (demo_disk x) = (\<lambda>_. False)" "dk_no_write (demo_disk x) = (\<lambda>p. p = x)"
  "dk_stuck (demo_disk x) = (\<lambda>_. False)"
  by (simp_all add: demo_disk_def)

lemma demo_places:
  "new_staging_dir (demo_disk []) ''data'' [] = (Some ''data/archives/.staging-415'',
     [(''data/archives/.staging-415'', Folder), (''data/archives'', Folder), (''data'', Folder)])"
  "new_staging_dir (demo_disk ''data/archives/.staging-415/css/a.css'') ''data'' [] = (Some ''data/archives/.staging-415'',
     [(''data/archives/.staging-415'', Folder), (''data/archives'', Folder), (''data'', Folder)])"
  "join_paths [''data/archives/.staging-415'', ''index.html''] = ''data/archives/.staging-415/index.html''"
  "join_paths [''data/archives/.staging-415'', ''css/a.css''] = ''data/archives/.staging-415/css/a.css''"
  "path_chain (path_dir ''data/archives/.staging-415/index.html'') = [''data'', ''data/archives'', ''data/archives/.staging-415'']"
  "path_chain (path_dir ''data/archives/.staging-415/css/a.css'') =
     [''data'', ''data/archives'', ''data/archives/.staging-415'', ''data/archives/.staging-415/css'']"
  by code_simp+

lemma demo_write:
  assumes "join_paths [staging, name] = target" "make_dirs (dk_no_dir env) (path_chain (path_dir target)) t = Some t1"
    "has_prefix target (staging @ ''/'')" "\<not> dk_no_write env target" "\<not> dk_no_file env target" "map_of t1 target = None"
    "length body \<le> 3" "int n \<le> 5"
  shows "write_entry env staging (name, demo_entry m body) n t = (Inr (n + length body), (target, Blob body) # t1)"
proof -
  have "take (max_file_bytes + 1) body = body" "\<not> max_file_bytes < length body" "\<not> int max_total_bytes - int n < int (length body)"
    using assms(7,8) by (simp_all add: max_file_bytes_def max_total_bytes_def)
  with assms(1-6) show ?thesis by (simp add: write_entry_def demo_entry_def Let_def)
qed

lemma demo_extract: "extract_archive id (demo_disk []) ''data'' (Some demo_zip) [] = (Inr ''data/archives/.staging-415'', demo_staged)"
  by (simp add: extract_archive_def demo_checked demo_files_def demo_places demo_staged_def demo_write has_prefix_def)

theorem extract_stays_inside_witness:
  "files_of demo_staged = files_of [] ++ placed ''data/archives/.staging-415'' demo_files \<and> bytes_of demo_files = 5 \<and>
   files_of demo_staged ''data/archives/.staging-415/css/a.css'' = Some ''b{}''"
proof (intro conjI)
  show "files_of demo_staged = files_of [] ++ placed ''data/archives/.staging-415'' demo_files"
    using extract_stays_inside [OF demo_extract] unfolding demo_checked by blast
  show "bytes_of demo_files = 5" by (simp add: bytes_of_def demo_files_def demo_entry_def)
  show "files_of demo_staged ''data/archives/.staging-415/css/a.css'' = Some ''b{}''" by (simp add: files_of_def demo_staged_def)
qed

lemma demo_full: "extract_archive id (demo_disk ''data/archives/.staging-415/css/a.css'') ''data'' (Some demo_zip) [] =
    (Inl (NotExtracted ''site/css/a.css''), [(''data/archives'', Folder), (''data'', Folder)])"
proof -
  let ?env = "demo_disk ''data/archives/.staging-415/css/a.css''"
    and ?t = "[(''data/archives/.staging-415/index.html'', Blob ''Hi''), (''data/archives/.staging-415'', Folder),
      (''data/archives'', Folder), (''data'', Folder)]"
  have "write_entry ?env ''data/archives/.staging-415'' (''css/a.css'', demo_entry ''site/css/a.css'' ''b{}'') (Suc (Suc 0)) ?t =
      (Inl (NotExtracted ''site/css/a.css''), (''data/archives/.staging-415/css/a.css'', Blob ''b{}'') #
        (''data/archives/.staging-415/css'', Folder) # ?t)"
    by (simp add: write_entry_def demo_places demo_entry_def has_prefix_def max_file_bytes_def Let_def)
  then show ?thesis
    by (simp add: extract_archive_def demo_checked demo_files_def demo_places demo_write has_prefix_def
        remove_all_def under_path_def)
qed

theorem extract_failure_leaves_nothing_witness:
  "files_of [(''data/archives'', Folder), (''data'', Folder)] = files_of [] \<and>
   fst (extract_archive id (demo_disk ''data/archives/.staging-415/css/a.css'') ''data'' (Some demo_zip) []) =
     Inl (NotExtracted ''site/css/a.css'')"
  using extract_failure_leaves_nothing [OF demo_full] demo_full by (simp add: tree_ok_def demo_disk_def)

definition demo_site_tree :: tree where
  "demo_site_tree = snd (commit_archive (demo_disk []) ''data/archives/.staging-415'' ''data'' ''article'' 7 demo_staged)"

lemma demo_commit: "commit_archive (demo_disk []) ''data/archives/.staging-415'' ''data'' ''article'' 7 demo_staged = (True, demo_site_tree)"
  by code_simp

lemma demo_record: "fst (archive_record ''article'' 7 demo_served) = Inr (ct_archive, status_publish)"
  by (simp add: archive_record_def demo_served_def get_article_by_id_def run_simps by_id_def)


lemma seven: "parse_int64 ''7'' = Some 7"
  by code_simp

lemma demo_serve: "serve_archive id (\<lambda>_. False) ''data'' 0 None ''article'' ''7'' [] demo_site_tree demo_served =
    (Inr (ArchiveFile ''text/html; charset=utf-8'' ''Hi'' ''public, no-cache''), demo_served)"
  by code_simp

theorem archive_served_only_witness:
  "\<exists>st ss. archive_row ''article'' 7 (wdb demo_served) = Some (ct_archive, st) \<and> list_all plain_seg ss \<and>
     files_of demo_site_tree (join_with ''/'' (archive_dir ''data'' ''article'' 7 # ss)) = Some ''Hi''"
  using archive_served_only [OF demo_serve] by (auto simp: seven)

end
