(* ===== verification/PublicText.thy ===== *)
theory PublicText
  imports PostText Newsletter
begin

text \<open>
  The text functions of the public pages (\<open>internal/httpd/public.go\<close>, \<open>public_feed.go\<close>,
  \<open>internal/domain/sourceref.go\<close>): the search pattern with SQLite's \<open>LIKE\<close>, the escaping of HTML and XML,
  CDATA sections, the page window of the lists and the cache of rendered bodies.
\<close>

section \<open>Searching\<close>

text \<open>\<open>strings.NewReplacer\<close> with a backslash before each backslash, percent sign and underscore.\<close>

definition like_escape :: "string \<Rightarrow> string" where
  "like_escape s = concat (map (\<lambda>c. if c \<in> {CHR 0x5C, CHR ''%'', CHR ''_''} then [CHR 0x5C, c] else [c]) s)"

definition like_pattern :: "string \<Rightarrow> string" where
  "like_pattern q = ''%'' @ like_escape q @ ''%''"

definition first_runes :: "string \<Rightarrow> nat \<Rightarrow> string" where
  "first_runes s n = (let rs = runes s in if n < length rs then encode_runes (take n rs) else s)"

text \<open>The end of the first character of a string of valid UTF-8.\<close>

definition after_char :: "string \<Rightarrow> string" where
  "after_char s = dropWhile is_continuation (tl s)"

text \<open>
  SQLite's \<open>x LIKE pattern ESCAPE '\'\<close>: a percent sign matches any text, an underscore one character, an escaped
  character itself; ASCII letters match in either case. A pattern that ends with the escape matches nothing.
\<close>

function like :: "string \<Rightarrow> string \<Rightarrow> bool" where
  "like [] s = (s = [])"
| "like (p # ps) s =
     (if p = CHR ''%'' then (if s = [] then like ps s else like ps s \<or> like (p # ps) (tl s))
      else if p = CHR 0x5C then (case ps of [] \<Rightarrow> False
           | e # ps' \<Rightarrow> s \<noteq> [] \<and> ascii_lower (hd s) = ascii_lower e \<and> like ps' (tl s))
      else if p = CHR ''_'' then s \<noteq> [] \<and> like ps (after_char s)
      else s \<noteq> [] \<and> ascii_lower (hd s) = ascii_lower p \<and> like ps (tl s))"
  by pat_completeness auto
termination
  by (relation "measures [\<lambda>(p, s). length p + length s]")
    (auto simp: after_char_def neq_Nil_conv intro: le_less_trans [OF length_dropWhile_le] order_trans [OF length_dropWhile_le])

declare like.simps(2) [simp del]

section \<open>Escaping\<close>

text \<open>\<open>html.EscapeString\<close>.\<close>

definition html_escape :: "string \<Rightarrow> string" where
  "html_escape s = concat (map (\<lambda>c.
     if c = CHR ''&'' then ''&amp;'' else if c = CHR 0x27 then ''&#39;'' else if c = CHR ''<'' then ''&lt;''
     else if c = CHR ''>'' then ''&gt;'' else if c = CHR 0x22 then ''&#34;'' else [c]) s)"

text \<open>\<open>xml.EscapeText\<close>: what is no XML character becomes U+FFFD.\<close>

definition xml_char :: "nat \<Rightarrow> bool" where
  "xml_char r = (r \<in> {9, 10, 13} \<or> 32 \<le> r \<and> r \<le> 55295 \<or> 57344 \<le> r \<and> r \<le> 65533 \<or> 65536 \<le> r \<and> r \<le> 1114111)"

definition xml_rune :: "nat \<Rightarrow> string" where
  "xml_rune r =
     (if r = 34 then ''&#34;'' else if r = 39 then ''&#39;'' else if r = 38 then ''&amp;'' else if r = 60 then ''&lt;''
      else if r = 62 then ''&gt;'' else if r = 9 then ''&#x9;'' else if r = 10 then ''&#xA;'' else if r = 13 then ''&#xD;''
      else if xml_char r then utf8 r else utf8 65533)"

definition xml_escape :: "string \<Rightarrow> string" where
  "xml_escape s = concat (map xml_rune (runes s))"

definition xml_element :: "string \<Rightarrow> string \<Rightarrow> string" where
  "xml_element name val = ''<'' @ name @ ''>'' @ xml_escape val @ ''</'' @ name @ ''>'' @ [newline]"

text \<open>\<open>strings.ReplaceAll\<close> of the end mark of a CDATA section.\<close>

fun split_cdata :: "string \<Rightarrow> string" where
  "split_cdata (a # b # c # s) =
     (if a = CHR '']'' \<and> b = CHR '']'' \<and> c = CHR ''>'' then '']]]]><![CDATA[>'' @ split_cdata s
      else a # split_cdata (b # c # s))"
| "split_cdata s = s"

definition xml_cdata :: "string \<Rightarrow> string \<Rightarrow> string" where
  "xml_cdata name val = ''<'' @ name @ ''><![CDATA['' @ split_cdata val @ '']]></'' @ name @ ''>'' @ [newline]"

text \<open>Reading the sections back: the text up to the first end mark, then further sections that follow at once.\<close>

fun cdata_body :: "string \<Rightarrow> (string \<times> string) option" where
  "cdata_body (a # s) =
     (if has_prefix (a # s) '']]>'' then Some ([], drop 2 s)
      else map_option (\<lambda>(v, r). (a # v, r)) (cdata_body s))"
| "cdata_body [] = None"

lemma cdata_body_shorter: "cdata_body s = Some (v, r) \<Longrightarrow> length r < length s"
  by (induction s arbitrary: v) (auto split: if_splits)

function read_cdata :: "string \<Rightarrow> (string \<times> string) option" where
  "read_cdata s =
     (case cdata_body s of
        None \<Rightarrow> None
      | Some (v, r) \<Rightarrow>
          if has_prefix r ''<![CDATA['' then map_option (\<lambda>(v', r'). (v @ v', r')) (read_cdata (drop 9 r))
          else Some (v, r))"
  by pat_completeness auto
termination
  by (relation "measure length") (auto dest: cdata_body_shorter)

declare read_cdata.simps [simp del]

text \<open>\<open>simple_format\<close>: escaped, single newlines as breaks, blank lines between paragraphs.\<close>

fun unix_lines :: "string \<Rightarrow> string" where
  "unix_lines [] = []"
| "unix_lines (c # s) = (if c = CHR 0x0D then newline # unix_lines (if s \<noteq> [] \<and> hd s = newline then tl s else s) else c # unix_lines s)"

function paragraphs :: "string \<Rightarrow> string \<Rightarrow> string list" where
  "paragraphs cur [] = [rev cur]"
| "paragraphs cur (c # s) =
     (if c = newline \<and> s \<noteq> [] \<and> hd s = newline then rev cur # paragraphs [] (dropWhile (\<lambda>x. x = newline) s)
      else paragraphs (c # cur) s)"
  by pat_completeness auto
termination
  by (relation "measure (length \<circ> snd)") (auto intro: le_less_trans [OF length_dropWhile_le])

definition replace_newlines :: "string \<Rightarrow> string" where
  "replace_newlines p = concat (map (\<lambda>c. if c = newline then ''<br>'' else [c]) p)"

definition simple_format :: "string \<Rightarrow> string" where
  "simple_format text =
     join_with [newline, newline] (map (\<lambda>p. ''<p>'' @ replace_newlines p @ ''</p>'') (paragraphs [] (html_escape (unix_lines text))))"

section \<open>The source of an article\<close>

text \<open>\<open>parse\<close> is \<open>url.Parse\<close> with what \<open>String\<close> makes of the URL.\<close>

definition safe_source_url :: "(string \<Rightarrow> (url_parts \<times> string) option) \<Rightarrow> string \<Rightarrow> string" where
  "safe_source_url parse val =
     (case parse (trim_space val) of
        None \<Rightarrow> []
      | Some (u, printed) \<Rightarrow> if (u_scheme u = ''http'' \<or> u_scheme u = ''https'') \<and> u_host u \<noteq> [] then printed else [])"

text \<open>The label of a source without an author is the Chinese word for a quotation.\<close>

definition source_label :: string where
  "source_label = map char_of [229 :: nat, 188, 149, 231, 148, 168]"

definition source_reference_header :: "(string \<Rightarrow> (url_parts \<times> string) option) \<Rightarrow> string \<Rightarrow> string \<Rightarrow> string" where
  "source_reference_header parse raw_url author =
     (let q = [CHR 0x22]; label = (if is_blank author then source_label else html_escape author);
          url = safe_source_url parse raw_url
      in if url \<noteq> []
         then ''<a href='' @ q @ html_escape url @ q @ '' target='' @ q @ ''_blank'' @ q @ '' rel='' @ q @ ''noopener noreferrer'' @ q @
              '' style='' @ q @ ''color: #495057; text-decoration: none;'' @ q @ ''>'' @
              ''<span style='' @ q @ ''font-weight: 600; font-size: 0.95rem;'' @ q @ ''>'' @ label @ ''</span>'' @
              '' <i class='' @ q @ ''fas fa-external-link-alt'' @ q @ '' style='' @ q @ ''font-size: 0.75rem;'' @ q @ ''></i>'' @ ''</a>''
         else ''<span style='' @ q @ ''font-weight: 600; color: #495057; font-size: 0.95rem;'' @ q @ ''>'' @ label @ ''</span>'')"

definition build_source_reference ::
  "(string \<Rightarrow> (url_parts \<times> string) option) \<Rightarrow> (string \<Rightarrow> string) \<Rightarrow> string \<Rightarrow> string \<Rightarrow> string \<Rightarrow> string" where
  "build_source_reference parse sanitize content raw_url author =
     (if is_blank raw_url then []
      else let q = [CHR 0x22] in
        ''<div class='' @ q @ ''source-reference'' @ q @ '' style='' @ q @
        ''display: flex; align-items: flex-start; gap: 0.75rem; margin-bottom: 0.75rem;'' @ q @ ''>'' @
        ''<div style='' @ q @ ''flex: 1;'' @ q @ ''>'' @ source_reference_header parse raw_url author @ ''</div></div>'' @
        ''<blockquote class='' @ q @ ''source-reference__quote'' @ q @ ''>'' @
        (if is_blank content then [] else if is_fragment content then sanitize content else simple_format content) @
        ''</blockquote>'')"

section \<open>The cache of rendered bodies\<close>

text \<open>Keyed by kind, row and \<open>updated_at\<close>; a body with the time it was stored.\<close>

type_synonym render_cache = "string \<times> int \<times> int \<Rightarrow> (string \<times> int) option"

definition render_ttl :: int where "render_ttl = 7 * 24 * 3600 * 10 ^ 9"

definition rendered :: "int \<Rightarrow> string \<times> int \<times> int \<Rightarrow> string \<Rightarrow> render_cache \<Rightarrow> string \<times> render_cache" where
  "rendered now key html c =
     (let c' = (\<lambda>k. case c k of None \<Rightarrow> None | Some e \<Rightarrow> if render_ttl \<le> now - snd e then None else Some e)(key \<mapsto> (html, now)) in
      case c key of
        Some e \<Rightarrow> if now - snd e < render_ttl then (fst e, c) else (html, c')
      | None \<Rightarrow> (html, c'))"

section \<open>The window of page numbers\<close>

datatype page_item = PageNo int | Gap

definition inner_window :: int where "inner_window = 4"
definition outer_window :: int where "outer_window = 1"

definition page_window :: "int \<Rightarrow> int \<Rightarrow> page_item list" where
  "page_window cur pages_n =
     (if pages_n < 1 then []
      else let current = (if cur < 1 then 1 else if pages_n < cur then pages_n else cur);
               from0 = current - inner_window; to0 = current + inner_window;
               from1 = (if pages_n < to0 then from0 - (to0 - pages_n) else from0); to1 = (if pages_n < to0 then pages_n else to0);
               to2 = (if from1 < 1 then min pages_n (to1 + (1 - from1)) else to1); from2 = (if from1 < 1 then 1 else from1)
           in (if outer_window + 3 < from2 then map PageNo [1..outer_window + 1] @ [Gap] else map PageNo [1..from2 - 1]) @
              map PageNo [from2..to2] @
              (if to2 < pages_n - outer_window - 2 then Gap # map PageNo [pages_n - outer_window..pages_n] else map PageNo [to2 + 1..pages_n]))"

section \<open>A search finds what contains the term\<close>

lemma like_percent: "like (CHR ''%'' # ps) s \<longleftrightarrow> (\<exists>k\<le>length s. like ps (drop k s))"
proof (induction s)
  case Nil
  show ?case by (simp add: like.simps(2))
next
  case (Cons c s)
  have "like (CHR ''%'' # ps) (c # s) \<longleftrightarrow> like ps (c # s) \<or> like (CHR ''%'' # ps) s" by (simp add: like.simps(2))
  also have "\<dots> \<longleftrightarrow> (\<exists>k\<le>length (c # s). like ps (drop k (c # s)))"
    unfolding Cons.IH by (auto simp: Suc_le_eq less_Suc_eq_0_disj intro: exI [of _ 0] exI [of _ "Suc _"] dest: Suc_le_D)
       (metis drop_Suc_Cons le0 drop0 Suc_le_mono not0_implies_Suc)
  finally show ?case .
qed

lemma like_escaped:
  "like (like_escape q @ ps) s \<longleftrightarrow> sql_lower (take (length q) s) = sql_lower q \<and> length q \<le> length s \<and> like ps (drop (length q) s)"
proof (induction q arbitrary: s)
  case Nil
  then show ?case by (simp add: like_escape_def sql_lower_def)
next
  case (Cons c q)
  have one: "like (like_escape (c # q) @ ps) s \<longleftrightarrow> s \<noteq> [] \<and> ascii_lower (hd s) = ascii_lower c \<and> like (like_escape q @ ps) (tl s)"
    by (simp add: like_escape_def like.simps(2))
  show ?case unfolding one Cons.IH by (cases s) (auto simp: sql_lower_def)
qed

lemma like_any: "like ''%'' s"
  unfolding like_percent by (rule exI [of _ "length s"]) simp


section \<open>CDATA sections\<close>

lemma read_cdata_step:
  assumes "\<not> has_prefix (a # s) '']]>''"
  shows "read_cdata (a # s) = map_option (\<lambda>(v, r). (a # v, r)) (read_cdata s)"
  using assms by (subst (1 2) read_cdata.simps)
    (auto simp: option.map_comp comp_def split_def split: option.splits)

lemma read_cdata_end: "\<not> has_prefix r ''<![CDATA['' \<Longrightarrow> read_cdata ('']]>'' @ r) = Some ([], r)"
  by (subst read_cdata.simps) (simp add: has_prefix_def)

lemma read_cdata_next: "read_cdata ('']]><![CDATA['' @ r) = read_cdata r"
  by (subst read_cdata.simps) (simp add: has_prefix_def option.map_ident split_def)

lemma split_cdata_head: "\<exists>t. split_cdata (c # s) = c # t"
  by (cases s; cases "tl s") auto

lemma split_cdata_second: "\<exists>x t. split_cdata (b # c # s) = b # x # t \<and> (x = c \<or> x = CHR '']'')"
  using split_cdata_head [of c s] by (cases s) auto

lemma read_split_cdata:
  "\<not> has_prefix r ''<![CDATA['' \<Longrightarrow> read_cdata (split_cdata v @ '']]>'' @ r) = Some (v, r)"
proof (induction v rule: split_cdata.induct)
  case (1 a b c s)
  show ?case
  proof (cases "a = CHR '']'' \<and> b = CHR '']'' \<and> c = CHR ''>''")
    case True
    let ?X = "split_cdata s @ '']]>'' @ r"
    have "read_cdata (split_cdata (a # b # c # s) @ '']]>'' @ r) = read_cdata (CHR '']'' # CHR '']'' # '']]><![CDATA['' @ CHR ''>'' # ?X)"
      using True by simp
    also have "\<dots> = map_option (\<lambda>(v, r). (CHR '']'' # v, r)) (map_option (\<lambda>(v, r). (CHR '']'' # v, r)) (read_cdata (CHR ''>'' # ?X)))"
      by (simp add: read_cdata_step has_prefix_def read_cdata_next [simplified])
    also have "read_cdata (CHR ''>'' # ?X) = Some (CHR ''>'' # s, r)"
      using 1 True by (simp add: read_cdata_step has_prefix_def)
    finally show ?thesis using True by simp
  next
    case False
    obtain x t where x: "split_cdata (b # c # s) = b # x # t" "x = c \<or> x = CHR '']''" using split_cdata_second by blast
    then have "\<not> has_prefix (a # split_cdata (b # c # s) @ '']]>'' @ r) '']]>''" using False by (auto simp: has_prefix_def)
    then have "read_cdata (a # split_cdata (b # c # s) @ '']]>'' @ r) = Some (a # b # c # s, r)"
      using 1(2) [OF False 1(3)] by (simp add: read_cdata_step)
    moreover have "split_cdata (a # b # c # s) = a # split_cdata (b # c # s)" using False by auto
    ultimately show ?thesis by (simp only: append_Cons)
  qed
qed (simp_all add: read_cdata_step has_prefix_def read_cdata_end [simplified])

text \<open>
  The body of a feed entry survives its CDATA sections: reading the element the way an XML reader does, section
  after section, gives back the value exactly, whatever it contains, and ends at the closing tag.
\<close>

theorem cdata_roundtrip:
  "xml_cdata name val = ''<'' @ name @ ''><![CDATA['' @ drop (length name + 11) (xml_cdata name val) \<and>
   read_cdata (drop (length name + 11) (xml_cdata name val)) = Some (val, ''</'' @ name @ ''>'' @ [newline])"
proof -
  have "drop (length name + 11) (xml_cdata name val) = split_cdata val @ '']]>'' @ ''</'' @ name @ ''>'' @ [newline]"
    by (simp add: xml_cdata_def drop_Cons')
  then show ?thesis
    using read_split_cdata [of "''</'' @ name @ ''>'' @ [newline]" val] by (simp add: xml_cdata_def has_prefix_def)
qed

section \<open>What the cache of bodies answers\<close>

type_synonym body_request = "int \<times> (string \<times> int \<times> int) \<times> string"

fun render_run :: "body_request list \<Rightarrow> render_cache \<Rightarrow> string list" where
  "render_run [] c = []"
| "render_run ((now, key, html) # rs) c = (case rendered now key html c of (answer, c') \<Rightarrow> answer # render_run rs c')"

text \<open>What the cache holds comes from the requests before.\<close>

definition from_requests :: "body_request list \<Rightarrow> render_cache \<Rightarrow> bool" where
  "from_requests past c \<longleftrightarrow> (\<forall>key html t. c key = Some (html, t) \<longrightarrow> (t, key, html) \<in> set past)"

lemma rendered_from:
  assumes "from_requests past c" "rendered now key html c = (answer, c')"
  shows "from_requests (past @ [(now, key, html)]) c'"
    and "\<exists>t. (t, key, answer) \<in> set (past @ [(now, key, html)]) \<and> now - t < render_ttl"
proof -
  have old: "c key = Some (h, t) \<Longrightarrow> (t, key, h) \<in> set past" for key h t
    using assms(1) unfolding from_requests_def by blast
  show "from_requests (past @ [(now, key, html)]) c'"
    unfolding from_requests_def
  proof (intro allI impI)
    fix k h t assume "c' k = Some (h, t)"
    then have "c k = Some (h, t) \<or> k = key \<and> h = html \<and> t = now"
      using assms(2) by (auto simp: rendered_def Let_def split: option.splits if_splits)
    then show "(t, k, h) \<in> set (past @ [(now, key, html)])" using old [of k h t] by auto
  qed
  consider "answer = html" | t where "c key = Some (answer, t)" "now - t < render_ttl"
    using assms(2) unfolding rendered_def Let_def by (cases "c key") (auto split: if_splits)
  then show "\<exists>t. (t, key, answer) \<in> set (past @ [(now, key, html)]) \<and> now - t < render_ttl"
  proof cases
    case 1
    then show ?thesis by (intro exI [of _ now]) (simp add: render_ttl_def)
  next
    case 2
    then show ?thesis using old [of key answer t] by auto
  qed
qed

lemma render_run_from:
  assumes "from_requests past c" "i < length rs"
  shows "\<exists>t. (t, fst (snd (rs ! i)), render_run rs c ! i) \<in> set (past @ take (Suc i) rs) \<and> fst (rs ! i) - t < render_ttl"
  using assms
proof (induction rs arbitrary: past c i)
  case (Cons r rs)
  obtain now key html where r: "r = (now, key, html)" by (cases r)
  obtain answer c' where a: "rendered now key html c = (answer, c')" by (cases "rendered now key html c")
  note f = rendered_from [OF Cons.prems(1) a]
  show ?case
  proof (cases i)
    case 0
    then show ?thesis using f(2) by (simp add: r a)
  next
    case (Suc j)
    then show ?thesis using Cons.IH [OF f(1), of j] Cons.prems(2) by (simp add: r a)
  qed
qed simp

text \<open>
  C38: The cache of rendered bodies answers every request with a body some request up to this one carried for the same
  row and the same \<open>updated_at\<close>, less than seven days ago. So where every version of a row has its own \<open>updated_at\<close>, the
  cache cannot be noticed.
\<close>

theorem render_cache_answers:
  assumes "i < length rs" "rs ! i = (now, key, html)"
  shows "(\<exists>j\<le>i. \<exists>t. rs ! j = (t, key, render_run rs (\<lambda>_. None) ! i) \<and> now - t < render_ttl) \<and>
    ((\<forall>j\<le>i. fst (snd (rs ! j)) = key \<longrightarrow> snd (snd (rs ! j)) = html) \<longrightarrow> render_run rs (\<lambda>_. None) ! i = html)"
proof -
  obtain t where t: "(t, key, render_run rs (\<lambda>_. None) ! i) \<in> set (take (Suc i) rs)" "now - t < render_ttl"
    using render_run_from [of "[]" "\<lambda>_. None" i rs] assms by (auto simp: from_requests_def)
  then obtain j where "j \<le> i" "rs ! j = (t, key, render_run rs (\<lambda>_. None) ! i)"
    using assms(1) by (auto simp: in_set_conv_nth less_Suc_eq_le)
  with t(2) show ?thesis by force
qed

text \<open>Two requests of one version, the second after the body changed.\<close>

definition demo_bodies :: "body_request list" where
  "demo_bodies = [(5, (''article'', 1, 7), ''a''), (6, (''article'', 1, 7), ''b'')]"

theorem render_cache_answers_witness:
  "(\<exists>j\<le>1. \<exists>t. demo_bodies ! j = (t, (''article'', 1, 7), render_run demo_bodies (\<lambda>_. None) ! 1) \<and> 6 - t < render_ttl) \<and>
   render_run demo_bodies (\<lambda>_. None) ! 1 = ''a''"
proof
  show "\<exists>j\<le>1. \<exists>t. demo_bodies ! j = (t, (''article'', 1, 7), render_run demo_bodies (\<lambda>_. None) ! 1) \<and> 6 - t < render_ttl"
    using render_cache_answers [of 1 demo_bodies 6 "(''article'', 1, 7)" "''b''"] by (simp add: demo_bodies_def)
  show "render_run demo_bodies (\<lambda>_. None) ! 1 = ''a''"
    by (simp add: demo_bodies_def rendered_def render_ttl_def)
qed

end
