(* ===== verification/Spec2Isabelle.thy ===== *)
theory Spec2Isabelle
  imports Prelude Tables GoText Json Schema JobQueue Worker WorkerFleet Publishing Slug Tags Articles
    Activity Subscribers NetText Redirects RedirectsAdmin CommentTree JsonText Captcha Paging Comments
    CommentPages Ssrf SiteSettings Accounts RateLimit DueTimes Scheduler Files FileSweeps
    Newsletter PostText Crosspost Paths Archives PublicText
begin

text \<open>
  A verification library for Rables, a blog platform written in Go on SQLite.

  The program. One process serves HTTP (\<open>internal/httpd\<close>) and runs one background worker
  (\<open>internal/jobs\<close>). Both sides talk to the same SQLite file through the generated statements of
  \<open>internal/db/query\<close>; what must happen later (publishing at a time, posting to a social network,
  sending a newsletter) is a row of \<open>job_runs\<close>. The services of \<open>internal/service\<close> hold the rules: an
  article is saved with its tags, its slug and its jobs in one transaction; a subscription is
  confirmed by a token; a redirect rule answers a request before the router sees it.

  How it is modelled. The database is the record \<open>db\<close> of \<open>Schema\<close>, one list of rows per table, in
  the order of the row ids. A statement is a function of the world (\<open>Prelude\<close>): the database and a
  list of faults, one per statement to come, so that every claim about an error path quantifies over
  where the database fails. A Go function returning \<open>(x, err)\<close> is a value of \<open>err + 'a\<close>; a transaction
  restores the database when its body fails or its commit does. A string is the list of its bytes; an
  id or a time is an integer; a clock is an argument, numbered where the code reads it more than once.
  A loop without a bound of its own takes fuel and answers \<open>None\<close> when it runs out; the claims about
  such loops state how much fuel is enough.

  The theories.
  \<^item> \<open>Prelude\<close>: errors, worlds, actions, transactions; \<open>pres\<close> and \<open>ensures\<close>, the two calculi the
    preservation proofs run on; the locales of the interfaces.
  \<^item> \<open>Tables\<close>: rows of a table, what insert, update and delete keep (distinct ids, finite lookups).
  \<^item> \<open>GoText\<close>, \<open>NetText\<close>, \<open>Json\<close>: the parts of Go's standard library the code relies on.
  \<^item> \<open>Schema\<close>: \<open>internal/db/query/models.go\<close>, every table and every column.
  \<^item> \<open>JobQueue\<close>: the statements on \<open>job_runs\<close>, \<open>Enqueue\<close> and its variants, the startup recovery.
  \<^item> \<open>Worker\<close>: \<open>Worker.RunOnce\<close> and its bookkeeping; \<open>WorkerFleet\<close>: several workers, request handlers
    and the recovery interleaved statement by statement.
  \<^item> \<open>Publishing\<close>: the two publish handlers of \<open>internal/jobs/publish.go\<close> and their statements, and
    whole worker rounds on them.
  \<^item> \<open>Slug\<close>, \<open>Tags\<close>, \<open>Articles\<close>: slugs and excerpts, the tag service, the article service with
    \<open>Save\<close>, \<open>TransitionStatus\<close> and the publish effects.
  \<^item> \<open>Activity\<close>, \<open>Subscribers\<close>: the activity log; subscribers, their tags and tokens, and the public
    subscription endpoints.
  \<^item> \<open>Redirects\<close>, \<open>RedirectsAdmin\<close>: the redirect middleware with its cache, and the admin forms.
  \<^item> \<open>CommentTree\<close>, \<open>Comments\<close>, \<open>CommentPages\<close>: the tree of comments a page shows, the statements on
    comments with the constraints of their table, and the public and the moderation pages.
  \<^item> \<open>JsonText\<close>, \<open>Captcha\<close>: Go's JSON parser with its round trip, and the signed challenge of the forms.
  \<^item> \<open>SiteSettings\<close>: the settings row and its cache, alone and interleaved.
  \<^item> \<open>Accounts\<close>: the administrator, sessions and logging in, the account form, the setup page with its
    cached verdict, and the middleware in front of the admin pages.
  \<^item> \<open>RateLimit\<close>: the limiter per address, its critical sections interleaved, against one bucket per key.
  \<^item> \<open>DueTimes\<close>, \<open>Scheduler\<close>: the calendar and the due times; the recurring tasks with the key/value
    store, the sweeps of the export and import directories.
  \<^item> \<open>Files\<close>, \<open>FileSweeps\<close>: stored files, their blobs and the static files; destroying an article with
    its files, and the startup sweep of orphans.
  \<^item> \<open>Newsletter\<close>: the mail handlers, native and through listmonk, with every attempted delivery as a result.
  \<^item> \<open>PostText\<close>, \<open>Crosspost\<close>: the text of a post within the platform's limit, counted in decoded characters;
    the dispatcher of crosspost jobs with its guard against duplicates, its images and its downloads.
  \<^item> \<open>Paths\<close>, \<open>Archives\<close>: cleaning of paths and trees of files; uploaded static sites from the ZIP to the
    directory that is served, with the limits on entries, names and sizes, and who may see them.
  \<^item> \<open>PublicText\<close>: the search pattern with SQLite's \<open>LIKE\<close>, escaping, CDATA, summaries, the page window and
    the cache of rendered bodies.
  \<^item> \<open>Ssrf\<close>: the guard on outgoing requests, with addresses as machine words.
  \<^item> \<open>Paging\<close>: page numbers, offsets and page counts of the list pages.
\<close>

end
